(* ===== verification/Prelude.thy ===== *)
theory Prelude
  imports Main "HOL-Library.Word" "HOL-Library.Char_ord" "HOL-Library.List_Lexorder"
begin

text \<open>
  Shared vocabulary of the development: bytes and Go strings, the errors the program
  returns, the combinators in which stateful Go functions are written (a function that
  mutates a state and returns \<open>(value, error)\<close> is a state-passing function whose
  result is \<open>error + value\<close>), their Hoare rules, and the list lemmas on splitting and
  joining at a separator.
\<close>

unbundle bit_operations_syntax

section \<open>Bytes and strings\<close>

text \<open>
  A Go \<^verbatim>\<open>[]byte\<close> is a list of 8-bit words. A Go \<^verbatim>\<open>string\<close> is a list of
  characters, one per byte, so \<open>length\<close> is Go's \<^verbatim>\<open>len\<close> and the lexicographic order
  of \<open>List_Lexorder\<close> is Go's bytewise \<^verbatim>\<open><\<close>.
\<close>

type_synonym byte = "8 word"
type_synonym bytes = "byte list"

definition bytes_of_string :: "string \<Rightarrow> bytes" where
  "bytes_of_string s = map of_char s"

definition string_of_bytes :: "bytes \<Rightarrow> string" where
  "string_of_bytes b = map (\<lambda>w. char_of (unat w)) b"

lemma unat_of_char_byte: "unat (of_char c :: byte) = (of_char c :: nat)"
proof -
  have "unat (of_char c :: byte) = unat (of_nat (of_char c) :: byte)"
    by (simp only: of_nat_of_char)
  also have "\<dots> = of_char c mod 256"
    by (simp add: unat_of_nat)
  finally show ?thesis by simp
qed

lemma string_of_bytes_of_string [simp]: "string_of_bytes (bytes_of_string s) = s"
  by (induction s) (auto simp: string_of_bytes_def bytes_of_string_def unat_of_char_byte)

lemma length_bytes_of_string [simp]: "length (bytes_of_string s) = length s"
  by (simp add: bytes_of_string_def)

section \<open>Big-endian integers\<close>

text \<open>
  \<^verbatim>\<open>binary.BigEndian\<close> of \<^verbatim>\<open>encoding/binary\<close>: the \<open>n\<close> low bytes of a word, most
  significant first, and the word that a list of bytes spells.
\<close>

definition be_bytes :: "nat \<Rightarrow> 'a::len word \<Rightarrow> bytes" where
  "be_bytes n x = map (\<lambda>i. ucast (drop_bit (8 * i) x)) (rev [0..<n])"

definition of_be_bytes :: "bytes \<Rightarrow> 'a::len word" where
  "of_be_bytes bs = foldl (\<lambda>acc b. push_bit 8 acc OR ucast b) 0 bs"

lemma length_be_bytes [simp]: "length (be_bytes n x) = n"
  by (simp add: be_bytes_def)

lemma be_bytes_Suc: "be_bytes (Suc n) x = ucast (drop_bit (8 * n) x) # be_bytes n x"
  by (simp add: be_bytes_def)

lemma of_be_bytes_snoc: "of_be_bytes (bs @ [b]) = push_bit 8 (of_be_bytes bs) OR ucast b"
  by (simp add: of_be_bytes_def)

lemma bit_of_be_bytes:
  "bit (of_be_bytes bs :: 'a::len word) k \<longleftrightarrow>
     k < LENGTH('a) \<and> k < 8 * length bs \<and> bit (rev bs ! (k div 8)) (k mod 8)"
proof (induction bs arbitrary: k rule: rev_induct)
  case Nil
  then show ?case by (simp add: of_be_bytes_def)
next
  case (snoc b bs)
  show ?case
  proof (cases "k < 8")
    case True
    then show ?thesis by (auto simp: of_be_bytes_snoc bit_simps)
  next
    case False
    then obtain j where j: "k = 8 + j" by (metis le_Suc_ex not_less)
    have "\<not> bit b k" using False by (auto dest: bit_imp_le_length)
    moreover have "(8 + j) div 8 - Suc 0 = j div 8" by simp
    ultimately show ?thesis using snoc.IH[of j] j
      by (auto simp: of_be_bytes_snoc bit_simps)
  qed
qed

lemma nth_rev_be_bytes: "i < n \<Longrightarrow> rev (be_bytes n x) ! i = ucast (drop_bit (8 * i) x)"
  by (simp add: be_bytes_def rev_map)

lemma of_be_bytes_be_bytes:
  fixes x :: "'a::len word"
  assumes "LENGTH('a) = 8 * n"
  shows "of_be_bytes (be_bytes n x) = x"
proof (rule bit_word_eqI)
  fix k assume k: "k < LENGTH('a)"
  then have "k div 8 < n" using assms by auto
  moreover have "8 * (k div 8) + k mod 8 = k" by simp
  ultimately show "bit (of_be_bytes (be_bytes n x) :: 'a word) k = bit x k"
    using k assms by (auto simp: bit_of_be_bytes nth_rev_be_bytes bit_simps)
qed

lemma be_bytes_of_be_bytes:
  assumes "LENGTH('a::len) = 8 * length bs"
  shows "be_bytes (length bs) (of_be_bytes bs :: 'a word) = bs"
proof (rule rev_is_rev_conv[THEN iffD1], rule nth_equalityI)
  show "length (rev (be_bytes (length bs) (of_be_bytes bs :: 'a word))) = length (rev bs)" by simp
  fix i assume "i < length (rev (be_bytes (length bs) (of_be_bytes bs :: 'a word)))"
  then have i: "i < length bs" by simp
  show "rev (be_bytes (length bs) (of_be_bytes bs :: 'a word)) ! i = rev bs ! i"
    unfolding nth_rev_be_bytes[OF i]
  proof (rule bit_word_eqI)
    fix j assume j: "j < LENGTH(8)"
    then have "(8 * i + j) div 8 = i" "(8 * i + j) mod 8 = j" "8 * i + j < 8 * length bs"
      using i by auto
    then show "bit (ucast (drop_bit (8 * i) (of_be_bytes bs :: 'a word)) :: byte) j = bit (rev bs ! i) j"
      using j assms by (simp add: bit_simps bit_of_be_bytes)
  qed
qed

section \<open>Errors\<close>

text \<open>The operating system's error numbers that the file operations can return.\<close>

datatype errno = ENOENT | ENOTDIR | EISDIR | EEXIST | ENOTEMPTY | EINVAL | EIO

text \<open>One constructor per error value the program makes or passes on.\<close>

datatype error =
    PathError errno string
  | EmptyPath
  | UnsafePath string
  | EscapesRoot string
  | FileTooLarge string int int
  | ProjectTooLarge int
  | InvalidHash string
  | HashMismatch string string
  | ErrInvalid
  | ErrMsg string
  | Wrapped string error
  | Joined "error list"
  | JsonError
  | UnknownStream "64 word"
  | Canceled
  | ExitError int

section \<open>Programs that mutate a state and may fail\<close>

type_synonym ('s, 'a) prog = "'s \<Rightarrow> (error + 'a) \<times> 's"

definition retE :: "'a \<Rightarrow> ('s, 'a) prog" where
  "retE a s = (Inr a, s)"

definition throwE :: "error \<Rightarrow> ('s, 'a) prog" where
  "throwE e s = (Inl e, s)"

text \<open>\<^verbatim>\<open>x, err := m(); if err != nil { return err }; f(x)\<close>\<close>

definition bindE :: "('s, 'a) prog \<Rightarrow> ('a \<Rightarrow> ('s, 'b) prog) \<Rightarrow> ('s, 'b) prog" where
  "bindE m f s = (case m s of (Inl e, s') \<Rightarrow> (Inl e, s') | (Inr a, s') \<Rightarrow> f a s')"

text \<open>An operation that only reads the state.\<close>

definition readE :: "('s \<Rightarrow> error + 'a) \<Rightarrow> ('s, 'a) prog" where
  "readE g s = (g s, s)"

text \<open>\<^verbatim>\<open>defer c()\<close>: \<open>c\<close> runs after \<open>m\<close> on every path, its own error is dropped.\<close>

definition deferE :: "('s, 'a) prog \<Rightarrow> ('s, 'c) prog \<Rightarrow> ('s, 'a) prog" where
  "deferE m c s = (case m s of (r, s') \<Rightarrow> (r, snd (c s')))"

text \<open>\<^verbatim>\<open>if err := m(); err != nil { c(); return err }\<close>\<close>

definition onErrE :: "('s, 'a) prog \<Rightarrow> ('s, 'c) prog \<Rightarrow> ('s, 'a) prog" where
  "onErrE m c s = (case m s of (Inl e, s') \<Rightarrow> (Inl e, snd (c s')) | (Inr a, s') \<Rightarrow> (Inr a, s'))"

text \<open>\<^verbatim>\<open>x, err := m()\<close> where the code goes on to look at \<^verbatim>\<open>err\<close>.\<close>

definition tryE :: "('s, 'a) prog \<Rightarrow> ('s, error + 'a) prog" where
  "tryE m s = (case m s of (r, s') \<Rightarrow> (Inr r, s'))"

text \<open>\<^verbatim>\<open>for _, x := range xs { if err := f(x); err != nil { return err } }\<close>\<close>

fun forE :: "'a list \<Rightarrow> ('a \<Rightarrow> ('s, unit) prog) \<Rightarrow> ('s, unit) prog" where
  "forE [] f = retE ()"
| "forE (x # xs) f = bindE (f x) (\<lambda>_. forE xs f)"

lemma retE_run [simp]: "retE a s = (Inr a, s)"
  by (simp add: retE_def)

lemma throwE_run [simp]: "throwE e s = (Inl e, s)"
  by (simp add: throwE_def)

lemma readE_run [simp]: "readE g s = (g s, s)"
  by (simp add: readE_def)

lemma bindE_Inl [simp]: "m s = (Inl e, s') \<Longrightarrow> bindE m f s = (Inl e, s')"
  by (simp add: bindE_def)

lemma bindE_Inr [simp]: "m s = (Inr a, s') \<Longrightarrow> bindE m f s = f a s'"
  by (simp add: bindE_def)

lemma bindE_Inr_iff:
  "bindE m f s = (Inr b, s') \<longleftrightarrow> (\<exists>a t. m s = (Inr a, t) \<and> f a t = (Inr b, s'))"
  by (auto simp: bindE_def split: prod.splits sum.splits)

lemma deferE_run: "m s = (r, s') \<Longrightarrow> deferE m c s = (r, snd (c s'))"
  by (simp add: deferE_def)

lemma onErrE_Inl [simp]: "m s = (Inl e, s') \<Longrightarrow> onErrE m c s = (Inl e, snd (c s'))"
  by (simp add: onErrE_def)

lemma onErrE_Inr [simp]: "m s = (Inr a, s') \<Longrightarrow> onErrE m c s = (Inr a, s')"
  by (simp add: onErrE_def)

lemma tryE_run [simp]: "m s = (r, s') \<Longrightarrow> tryE m s = (Inr r, s')"
  by (simp add: tryE_def)

lemma bindE_retE [simp]: "bindE (retE a) f = f a"
  by (rule ext) simp

lemma progE_cases:
  obtains (err) e s' where "m s = (Inl e, s')" | (ok) a s' where "m s = (Inr a, s')"
  by (cases "m s"; cases "fst (m s)") auto

subsection \<open>Hoare rules\<close>

text \<open>
  \<open>hoareE P m Q E\<close>: from a state satisfying \<open>P\<close>, if \<open>m\<close> returns a value then \<open>Q\<close> holds
  of it and of the final state, and if it returns an error then \<open>E\<close> holds of the final
  state. Programs are total functions, so this is total correctness.
\<close>

definition hoareE ::
  "('s \<Rightarrow> bool) \<Rightarrow> ('s, 'a) prog \<Rightarrow> ('a \<Rightarrow> 's \<Rightarrow> bool) \<Rightarrow> ('s \<Rightarrow> bool) \<Rightarrow> bool" where
  "hoareE P m Q E \<longleftrightarrow>
     (\<forall>s. P s \<longrightarrow> (case m s of (Inr a, s') \<Rightarrow> Q a s' | (Inl e, s') \<Rightarrow> E s'))"

named_theorems hoare_rule \<open>Hoare rules of the combinators and of the operations\<close>

lemma hoareE_I:
  "(\<And>s a s'. P s \<Longrightarrow> m s = (Inr a, s') \<Longrightarrow> Q a s') \<Longrightarrow>
   (\<And>s e s'. P s \<Longrightarrow> m s = (Inl e, s') \<Longrightarrow> E s') \<Longrightarrow> hoareE P m Q E"
  by (auto simp: hoareE_def split: prod.splits sum.splits)

lemma hoareE_D1: "hoareE P m Q E \<Longrightarrow> P s \<Longrightarrow> m s = (Inr a, s') \<Longrightarrow> Q a s'"
  by (fastforce simp: hoareE_def)

lemma hoareE_D2: "hoareE P m Q E \<Longrightarrow> P s \<Longrightarrow> m s = (Inl e, s') \<Longrightarrow> E s'"
  by (fastforce simp: hoareE_def)

lemma hoareE_weaken:
  "hoareE P' m Q' E' \<Longrightarrow> (\<And>s. P s \<Longrightarrow> P' s) \<Longrightarrow> (\<And>a s. Q' a s \<Longrightarrow> Q a s) \<Longrightarrow>
   (\<And>s. E' s \<Longrightarrow> E s) \<Longrightarrow> hoareE P m Q E"
  by (fastforce simp: hoareE_def split: prod.splits sum.splits)

lemma hoareE_ret [hoare_rule]: "hoareE (Q a) (retE a) Q E"
  by (simp add: hoareE_def)

lemma hoareE_throw [hoare_rule]: "hoareE E (throwE e) Q E"
  by (simp add: hoareE_def)

lemma hoareE_read [hoare_rule]: "hoareE P (readE g) (\<lambda>_. P) P"
  by (auto simp: hoareE_def split: sum.splits)

lemma hoareE_bind:
  assumes "hoareE P m R E" and "\<And>a. hoareE (R a) (f a) Q E"
  shows "hoareE P (bindE m f) Q E"
  using assms unfolding hoareE_def bindE_def
  by (fastforce split: prod.splits sum.splits)

lemma hoareE_defer:
  assumes "hoareE P m (\<lambda>a. R) R" and "\<And>s. R s \<Longrightarrow> Q (snd (c s))"
  shows "hoareE P (deferE m c) (\<lambda>_. Q) Q"
  using assms unfolding hoareE_def deferE_def
  by (fastforce split: prod.splits sum.splits)

lemma hoareE_for:
  assumes "\<And>x. x \<in> set xs \<Longrightarrow> hoareE I (f x) (\<lambda>_. I) E"
  shows "hoareE I (forE xs f) (\<lambda>_. I) E"
  using assms
proof (induction xs)
  case Nil
  show ?case unfolding forE.simps by (rule hoareE_ret)
next
  case (Cons x xs)
  have "hoareE I (f x) (\<lambda>_. I) E" by (rule Cons.prems) simp
  moreover have "hoareE I (forE xs f) (\<lambda>_. I) E" by (rule Cons.IH) (rule Cons.prems, simp)
  ultimately show ?case by (simp add: hoareE_bind)
qed

section \<open>Searching a list\<close>

lemma find_SomeD: "find P xs = Some x \<Longrightarrow> x \<in> set xs \<and> P x"
  by (induction xs) (auto split: if_splits)

lemma find_exists: "x \<in> set xs \<Longrightarrow> P x \<Longrightarrow> \<exists>y. find P xs = Some y"
  by (induction xs) auto

section \<open>Splitting and joining at a separator\<close>

text \<open>\<^verbatim>\<open>strings.Split\<close> and \<^verbatim>\<open>strings.Join\<close> for a one-byte separator.\<close>

fun split_on :: "'a \<Rightarrow> 'a list \<Rightarrow> 'a list list" where
  "split_on c [] = [[]]"
| "split_on c (x # xs) =
     (if x = c then [] # split_on c xs
      else (case split_on c xs of [] \<Rightarrow> [[x]] | y # ys \<Rightarrow> (x # y) # ys))"

fun join_with :: "'a \<Rightarrow> 'a list list \<Rightarrow> 'a list" where
  "join_with c [] = []"
| "join_with c [x] = x"
| "join_with c (x # y # ys) = x @ c # join_with c (y # ys)"

lemma split_on_not_Nil [simp]: "split_on c s \<noteq> []"
  by (induction s) (auto split: list.splits)

lemma join_with_Cons: "xs \<noteq> [] \<Longrightarrow> join_with c (x # xs) = x @ c # join_with c xs"
  by (cases xs) auto

lemma join_split_on [simp]: "join_with c (split_on c s) = s"
proof (induction s)
  case (Cons x s)
  then show ?case by (cases "split_on c s"; cases "tl (split_on c s)") auto
qed simp

lemma split_on_no_sep: "x \<in> set (split_on c s) \<Longrightarrow> c \<notin> set x"
proof (induction s arbitrary: x)
  case (Cons a s)
  then show ?case by (cases "split_on c s") (auto split: if_splits)
qed simp

lemma split_on_id: "c \<notin> set x \<Longrightarrow> split_on c x = [x]"
  by (induction x) auto

lemma split_on_sep: "c \<notin> set x \<Longrightarrow> split_on c (x @ c # s) = x # split_on c s"
  by (induction x) auto

lemma split_on_append: "split_on c (a @ c # b) = split_on c a @ split_on c b"
proof (induction a)
  case (Cons x a)
  then show ?case by (cases "split_on c a") auto
qed simp

lemma split_join_with:
  "xs \<noteq> [] \<Longrightarrow> (\<And>x. x \<in> set xs \<Longrightarrow> c \<notin> set x) \<Longrightarrow> split_on c (join_with c xs) = xs"
proof (induction c xs rule: join_with.induct)
  case (3 c x y ys)
  then show ?case by (simp add: split_on_sep)
qed (auto simp: split_on_id)

lemma join_with_append:
  "xs \<noteq> [] \<Longrightarrow> ys \<noteq> [] \<Longrightarrow> join_with c (xs @ ys) = join_with c xs @ c # join_with c ys"
proof (induction xs)
  case (Cons x xs)
  then show ?case by (cases xs) (auto simp: join_with_Cons)
qed simp

lemma join_with_inj:
  assumes "join_with c xs = join_with c ys" "xs \<noteq> []" "ys \<noteq> []"
    and "\<And>x. x \<in> set xs \<Longrightarrow> c \<notin> set x" "\<And>y. y \<in> set ys \<Longrightarrow> c \<notin> set y"
  shows "xs = ys"
  using assms split_join_with by metis

section \<open>Decimals\<close>

text \<open>\<^verbatim>\<open>strconv.Itoa\<close> for numbers that are not negative.\<close>

fun decimal :: "nat \<Rightarrow> string" where
  "decimal n =
     (if n < 10 then [char_of (48 + n)] else decimal (n div 10) @ [char_of (48 + n mod 10)])"

declare decimal.simps [simp del]

lemma decimal_digits: "set (decimal n) \<subseteq> set ''0123456789''"
proof (induction n rule: decimal.induct)
  case (1 n)
  have "[char_of (48 + k)] \<in> (\<lambda>c. [c]) ` set ''0123456789''" if "k < 10" for k :: nat
  proof -
    have "k \<in> {0,1,2,3,4,5,6,7,8,9}" using that by auto
    then show ?thesis by (elim insertE emptyE) (simp_all add: char_of_def image_def bit_nat_def)
  qed
  then have digit: "char_of (48 + k) \<in> set ''0123456789''" if "k < 10" for k :: nat
    using that by fastforce
  then show ?case using 1 digit[of "n mod 10"] digit[of n] by (subst decimal.simps) auto
qed

lemma decimal_simps:
  "n < 10 \<Longrightarrow> decimal n = [char_of (48 + n)]"
  "\<not> n < 10 \<Longrightarrow> decimal n = decimal (n div 10) @ [char_of (48 + n mod 10)]"
  by (subst decimal.simps, simp)+

lemma decimal_not_Nil [simp]: "decimal n \<noteq> ''''"
  by (subst decimal.simps) simp

fun parse_decimal :: "nat \<Rightarrow> string \<Rightarrow> nat option" where
  "parse_decimal acc [] = Some acc"
| "parse_decimal acc (c # s) =
     (let d = of_char c :: nat in
      if 48 \<le> d \<and> d \<le> 57 then parse_decimal (acc * 10 + (d - 48)) s else None)"

lemma parse_decimal_append:
  "parse_decimal acc (s @ t) = Option.bind (parse_decimal acc s) (\<lambda>a. parse_decimal a t)"
  by (induction acc s rule: parse_decimal.induct) (auto simp: Let_def)

lemma parse_decimal_decimal [simp]: "parse_decimal 0 (decimal n) = Some n"
proof (induction n rule: decimal.induct)
  case (1 n)
  have digit: "(of_char (char_of (48 + k) :: char) :: nat) = 48 + k" if "k < 10" for k :: nat
    using that by simp
  show ?case
  proof (cases "n < 10")
    case True
    then show ?thesis by (simp add: decimal_simps digit Let_def)
  next
    case False
    have "n mod 10 < 10" by simp
    then show ?thesis using 1 False
      by (simp add: decimal_simps(2)[OF False] parse_decimal_append digit Let_def del: of_char_of)
  qed
qed

end
