(* ===== verification/Domain.thy ===== *)
theory Domain
  imports Prelude
begin

text \<open>
  The business types of \<^verbatim>\<open>internal/core/domain/domain.go\<close>. An open string enumeration of
  the source is a datatype with its named values and one constructor for any other string,
  since such values arrive from the peer unchecked.
\<close>

text \<open>\<^verbatim>\<open>int64\<close> sizes are integers (no file reaches the bound); a \<^verbatim>\<open>float64\<close>, which the
  program only stores, forwards and prints, is its bit pattern.\<close>

type_synonym FileMode = "32 word"
type_synonym float64 = "64 word"

record FileEntry =
  fe_Path :: string
  fe_Hash :: string
  fe_Size :: int
  fe_Mode :: FileMode

record Manifest =
  Entries :: "FileEntry list"

text \<open>Later entries of the same path overwrite earlier ones, as in the source's map.\<close>

definition ByPath :: "Manifest \<Rightarrow> (string \<rightharpoonup> FileEntry)" where
  "ByPath m = foldl (\<lambda>idx e. idx(fe_Path e \<mapsto> e)) Map.empty (Entries m)"

datatype ChangeOp = ChangeCreate | ChangeModify | ChangeDelete | OtherOp string

fun op_string :: "ChangeOp \<Rightarrow> string" where
  "op_string ChangeCreate = ''create''"
| "op_string ChangeModify = ''modify''"
| "op_string ChangeDelete = ''delete''"
| "op_string (OtherOp s) = s"

definition op_of_string :: "string \<Rightarrow> ChangeOp" where
  "op_of_string s =
     (if s = ''create'' then ChangeCreate else if s = ''modify'' then ChangeModify
      else if s = ''delete'' then ChangeDelete else OtherOp s)"

record FileChange =
  fc_Op :: ChangeOp
  fc_Path :: string
  fc_Hash :: string
  fc_Mode :: FileMode

datatype AgentEventKind =
    AgentInit | AgentMessage | AgentToolUse | AgentToolResult | AgentResult | AgentUnknown
  | OtherKind string

fun kind_string :: "AgentEventKind \<Rightarrow> string" where
  "kind_string AgentInit = ''init''"
| "kind_string AgentMessage = ''message''"
| "kind_string AgentToolUse = ''tool_use''"
| "kind_string AgentToolResult = ''tool_result''"
| "kind_string AgentResult = ''result''"
| "kind_string AgentUnknown = ''unknown''"
| "kind_string (OtherKind s) = s"

record TurnResult =
  tr_IsError :: bool
  tr_CostUSD :: float64
  tr_Text :: string
  tr_NumTurns :: int

record AgentEvent =
  ev_Kind :: AgentEventKind
  ev_Text :: string
  ev_Raw :: bytes
  ev_Result :: "TurnResult option"

lemma op_string_of_string [simp]: "op_string (op_of_string s) = s"
  by (simp add: op_of_string_def)

section \<open>The path index\<close>

lemma foldl_index:
  "foldl (\<lambda>idx e. idx(fe_Path e \<mapsto> e)) m es p =
     (case find (\<lambda>e. fe_Path e = p) (rev es) of None \<Rightarrow> m p | Some e \<Rightarrow> Some e)"
proof (induction es rule: rev_induct)
  case Nil
  show ?case by simp
next
  case (snoc e es)
  then show ?case by simp
qed

lemma ByPath_Some:
  assumes "distinct (map fe_Path (Entries m))"
  shows "ByPath m p = Some e \<longleftrightarrow> e \<in> set (Entries m) \<and> fe_Path e = p"
proof
  assume "ByPath m p = Some e"
  then have "find (\<lambda>e. fe_Path e = p) (rev (Entries m)) = Some e"
    by (simp add: ByPath_def foldl_index split: option.splits)
  then show "e \<in> set (Entries m) \<and> fe_Path e = p" using find_SomeD by fastforce
next
  assume e: "e \<in> set (Entries m) \<and> fe_Path e = p"
  then obtain f where f: "find (\<lambda>e. fe_Path e = p) (rev (Entries m)) = Some f"
    using find_exists[of e "rev (Entries m)" "\<lambda>e. fe_Path e = p"] by auto
  then have "f \<in> set (Entries m)" "fe_Path f = p" using find_SomeD by fastforce+
  then have "f = e" using e assms by (metis distinct_map inj_onD)
  then show "ByPath m p = Some e" using f by (simp add: ByPath_def foldl_index)
qed

lemma ByPath_None: "ByPath m p = None \<longleftrightarrow> p \<notin> fe_Path ` set (Entries m)"
proof -
  have "ByPath m p = None \<longleftrightarrow> find (\<lambda>e. fe_Path e = p) (rev (Entries m)) = None"
    by (simp add: ByPath_def foldl_index split: option.splits)
  also have "\<dots> \<longleftrightarrow> (\<nexists>e. e \<in> set (rev (Entries m)) \<and> fe_Path e = p)"
    by (rule find_None_iff)
  also have "\<dots> \<longleftrightarrow> p \<notin> fe_Path ` set (Entries m)" by auto
  finally show ?thesis .

qed

end
