(* ===== verification/Paths.thy ===== *)
theory Paths
  imports Prelude "HOL-Library.Sublist"
begin

text \<open>
  Slash-separated paths: the functions of Go's \<^verbatim>\<open>path/filepath\<close> that the program uses
  (Unix separator), and \<^verbatim>\<open>SafeJoin\<close> of \<^verbatim>\<open>internal/fsutil/fsutil.go\<close>, the guard that
  every operation on a peer-supplied path goes through. The lemmas compute the components of
  a joined path; the properties say that \<open>SafeJoin\<close> never leaves its root, when it
  succeeds, and that its check after the join rejects every proper path below the root
  directory \<^verbatim>\<open>/\<close>.
\<close>

section \<open>filepath\<close>

abbreviation slash :: char where
  "slash \<equiv> CHR ''/''"

definition IsAbs :: "string \<Rightarrow> bool" where
  "IsAbs p \<longleftrightarrow> prefix ''/'' p"

definition FromSlash :: "string \<Rightarrow> string" where
  "FromSlash p = p"

text \<open>
  The loop of \<^verbatim>\<open>filepath.Clean\<close> over the path's elements: \<open>acc\<close> holds the output
  elements, last one first. Empty elements and \<^verbatim>\<open>.\<close> are dropped; \<^verbatim>\<open>..\<close> removes the
  last output element if it can be backed out of, disappears at the root, and is kept at the
  front of a relative path.
\<close>

definition clean_step :: "bool \<Rightarrow> string list \<Rightarrow> string \<Rightarrow> string list" where
  "clean_step rooted acc c =
     (if c = '''' \<or> c = ''.'' then acc
      else if c = ''..'' then
        (case acc of
           [] \<Rightarrow> if rooted then [] else [''..'']
         | a # as \<Rightarrow> if a = ''..'' then ''..'' # acc else as)
      else c # acc)"

definition clean_go :: "bool \<Rightarrow> string list \<Rightarrow> string list \<Rightarrow> string list" where
  "clean_go rooted acc cs = rev (foldl (clean_step rooted) acc cs)"

definition path_comps :: "string \<Rightarrow> string list" where
  "path_comps p = clean_go (IsAbs p) [] (split_on slash p)"

definition Clean :: "string \<Rightarrow> string" where
  "Clean p =
     (if IsAbs p then slash # join_with slash (path_comps p)
      else if path_comps p = [] then ''.'' else join_with slash (path_comps p))"

definition Join :: "string list \<Rightarrow> string" where
  "Join elem =
     (case dropWhile (\<lambda>e. e = '''') elem of [] \<Rightarrow> '''' | es \<Rightarrow> Clean (join_with slash es))"

text \<open>\<^verbatim>\<open>filepath.Dir\<close>: everything up to the last slash, cleaned.\<close>

definition Dir :: "string \<Rightarrow> string" where
  "Dir p = Clean (rev (dropWhile (\<lambda>c. c \<noteq> slash) (rev p)))"

text \<open>\<^verbatim>\<open>filepath.Abs\<close>: \<open>getwd\<close> is the outcome of \<^verbatim>\<open>os.Getwd\<close>.\<close>

definition Abs :: "error + string \<Rightarrow> string \<Rightarrow> error + string" where
  "Abs getwd p =
     (if IsAbs p then Inr (Clean p)
      else (case getwd of Inl e \<Rightarrow> Inl e | Inr wd \<Rightarrow> Inr (Join [wd, p])))"

section \<open>SafeJoin\<close>

definition SafeJoin :: "error + string \<Rightarrow> string \<Rightarrow> string \<Rightarrow> error + string" where
  "SafeJoin getwd root rel =
     (if rel = '''' then Inl EmptyPath
      else let clean = Clean (FromSlash rel) in
        if IsAbs clean \<or> clean = ''..'' \<or> prefix ''../'' clean then Inl (UnsafePath rel)
        else let joined = Join [root, clean] in
          (case Abs getwd root of
             Inl e \<Rightarrow> Inl e
           | Inr rootAbs \<Rightarrow>
               (case Abs getwd joined of
                  Inl e \<Rightarrow> Inl e
                | Inr joinedAbs \<Rightarrow>
                    if joinedAbs \<noteq> rootAbs \<and> \<not> prefix (rootAbs @ ''/'') joinedAbs
                    then Inl (EscapesRoot rel) else Inr joined)))"

text \<open>
  Where a path points: its components below the root directory, for a process whose working
  directory is \<open>wd\<close>.
\<close>

definition locate :: "string \<Rightarrow> string \<Rightarrow> string list" where
  "locate wd p = path_comps (if IsAbs p then p else wd @ slash # p)"

text \<open>An ordinary file name: one element, none of the special ones.\<close>

definition plain_name :: "string \<Rightarrow> bool" where
  "plain_name c \<longleftrightarrow> c \<noteq> '''' \<and> c \<noteq> ''.'' \<and> c \<noteq> ''..'' \<and> slash \<notin> set c"

section \<open>Components\<close>

lemma IsAbs_Cons: "IsAbs p \<longleftrightarrow> (\<exists>q. p = slash # q)"
  by (auto simp: IsAbs_def prefix_def)

lemma IsAbs_simps [simp]: "\<not> IsAbs ''''" "IsAbs (c # p) \<longleftrightarrow> c = slash"
  by (auto simp: IsAbs_Cons)

lemma IsAbs_append: "p \<noteq> '''' \<Longrightarrow> IsAbs (p @ q) = IsAbs p"
  by (cases p) auto

lemma clean_go_Nil [simp]: "clean_go r acc [] = rev acc"
  by (simp add: clean_go_def)

lemma clean_go_Cons [simp]: "clean_go r acc (c # cs) = clean_go r (clean_step r acc c) cs"
  by (simp add: clean_go_def)

lemma clean_go_append:
  "clean_go r acc (xs @ ys) = clean_go r (rev (clean_go r acc xs)) ys"
  by (simp add: clean_go_def)

lemma clean_step_plain: "plain_name c \<Longrightarrow> clean_step r acc c = c # acc"
  by (simp add: clean_step_def plain_name_def)

lemma clean_step_skip [simp]: "clean_step r acc '''' = acc" "clean_step r acc ''.'' = acc"
  by (simp_all add: clean_step_def)

lemma clean_step_up: "plain_name a \<Longrightarrow> clean_step r (a # as) ''..'' = as"
  by (auto simp: clean_step_def plain_name_def)

lemma clean_step_ups: "clean_step False (replicate k ''..'') ''..'' = replicate (Suc k) ''..''"
  by (cases k) (auto simp: clean_step_def)

lemma clean_go_plain: "list_all plain_name cs \<Longrightarrow> clean_go r acc cs = rev acc @ cs"
  by (induction cs arbitrary: acc) (auto simp: clean_step_plain)

lemma clean_step_rooted_plain:
  "list_all plain_name acc \<Longrightarrow> slash \<notin> set c \<Longrightarrow> list_all plain_name (clean_step True acc c)"
  by (auto simp: clean_step_def plain_name_def split: list.splits)

lemma clean_go_rooted_plain:
  "list_all plain_name acc \<Longrightarrow> \<forall>c \<in> set cs. slash \<notin> set c \<Longrightarrow>
   list_all plain_name (clean_go True acc cs)"
  by (induction cs arbitrary: acc) (simp_all add: clean_step_rooted_plain)

text \<open>A cleaned relative path is a run of \<^verbatim>\<open>..\<close> followed by ordinary names.\<close>

definition ups_downs :: "string list \<Rightarrow> bool" where
  "ups_downs cs \<longleftrightarrow> (\<exists>k ds. cs = replicate k ''..'' @ ds \<and> list_all plain_name ds)"

lemma replicate_snoc: "replicate k x @ [x] = replicate (Suc k) x"
  by (simp add: replicate_append_same)

lemma ups_downs_push: "ups_downs cs \<Longrightarrow> plain_name c \<Longrightarrow> ups_downs (cs @ [c])"
  unfolding ups_downs_def by (metis append.assoc list_all_append list.pred_inject)


lemma ups_downs_up:
  assumes "ups_downs (cs @ [''..''])"
  shows "ups_downs (cs @ [''..'', ''..''])"
proof -
  obtain k ds where eq: "cs @ [''..''] = replicate k ''..'' @ ds" and pl: "list_all plain_name ds"
    using assms by (auto simp: ups_downs_def)
  have "ds = []"
  proof (rule ccontr)
    assume "ds \<noteq> []"
    then have "last ds = ''..''" using eq by (metis last_appendR last_snoc)
    then show False using pl \<open>ds \<noteq> []\<close>
      by (metis last_in_set list_all_iff plain_name_def)
  qed
  then have "cs @ [''..'', ''..''] = replicate (Suc k) ''..'' @ []"
    using eq by (metis append.assoc append_Cons append_Nil append_Nil2 replicate_snoc)
  then show ?thesis unfolding ups_downs_def by (metis list.pred_inject(1))
qed

lemma ups_downs_pop:
  assumes "ups_downs (cs @ [c])" "c \<noteq> ''..''"
  shows "ups_downs cs"
proof -
  obtain k ds where eq: "cs @ [c] = replicate k ''..'' @ ds" and pl: "list_all plain_name ds"
    using assms by (auto simp: ups_downs_def)
  have "ds \<noteq> []"
  proof
    assume "ds = []"
    then have "cs @ [c] = replicate k ''..''" using eq by simp
    then have "c \<in> set (replicate k ''..'')" by (metis in_set_conv_decomp)
    then show False using assms(2) by simp
  qed
  then obtain ds' where ds: "ds = ds' @ [c]" using eq by (metis append_butlast_last_id last_appendR last_snoc)
  then have "cs = replicate k ''..'' @ ds'" using eq by simp
  moreover have "list_all plain_name ds'" using pl ds by simp
  ultimately show ?thesis by (auto simp: ups_downs_def)
qed

lemma clean_step_relative:
  assumes "ups_downs (rev acc)" "slash \<notin> set c"
  shows "ups_downs (rev (clean_step False acc c))"
proof -
  consider "c = '''' \<or> c = ''.''" | "c = ''..''" "acc = []"
    | as where "c = ''..''" "acc = ''..'' # as"
    | a as where "c = ''..''" "acc = a # as" "a \<noteq> ''..''" | "plain_name c"
    using assms(2) by (cases acc) (auto simp: plain_name_def)
  then show ?thesis
  proof cases
    case 1
    then show ?thesis using assms by auto
  next
    case 2
    have "ups_downs (replicate 1 ''..'' @ [])" unfolding ups_downs_def
      by (metis list.pred_inject(1))
    then show ?thesis using 2 by (simp add: clean_step_def)
  next
    case 3
    then show ?thesis using assms ups_downs_up[of "rev as"] by (simp add: clean_step_def)
  next
    case 4
    then show ?thesis using assms ups_downs_pop[of "rev as" a] by (simp add: clean_step_def)
  next
    case 5
    then show ?thesis using assms ups_downs_push[of "rev acc" c] by (simp add: clean_step_plain)
  qed
qed

lemma clean_go_relative:
  "ups_downs (rev acc) \<Longrightarrow> \<forall>c \<in> set cs. slash \<notin> set c \<Longrightarrow> ups_downs (clean_go False acc cs)"
  by (induction cs arbitrary: acc) (simp_all add: clean_step_relative)

lemma clean_go_ups: "clean_go False (replicate k ''..'') (replicate j ''..'') = replicate (k + j) ''..''"
proof (induction j arbitrary: k)
  case (Suc j)
  have "clean_go False (replicate k ''..'') (replicate (Suc j) ''..'') =
        clean_go False (replicate (Suc k) ''..'') (replicate j ''..'')"
    by (simp only: replicate_Suc[of j] clean_go_Cons clean_step_ups)
  then show ?case by (simp only: Suc.IH add_Suc add_Suc_right)
qed simp

lemma clean_go_ups_downs: "ups_downs cs \<Longrightarrow> clean_go False [] cs = cs"
  using clean_go_ups[of 0] by (auto simp: ups_downs_def clean_go_append clean_go_plain)

lemma path_comps_plain: "IsAbs p \<Longrightarrow> list_all plain_name (path_comps p)"
  unfolding path_comps_def by (auto intro: clean_go_rooted_plain dest: split_on_no_sep)

lemma path_comps_ups_downs: "\<not> IsAbs p \<Longrightarrow> ups_downs (path_comps p)"
proof -
  have "ups_downs []" unfolding ups_downs_def by (rule exI[of _ 0]) simp
  then show "\<not> IsAbs p \<Longrightarrow> ?thesis"
    unfolding path_comps_def by (auto intro!: clean_go_relative dest: split_on_no_sep)
qed

text \<open>No component of a cleaned path is empty, is a dot, or contains the separator.\<close>

lemma path_comps_elem:
  assumes "c \<in> set (path_comps p)"
  shows "c \<noteq> ''''" "c \<noteq> ''.''" "slash \<notin> set c"
proof -
  have "plain_name c \<or> c = ''..''"
  proof (cases "IsAbs p")
    case True
    then show ?thesis using assms path_comps_plain[of p] by (auto simp: list_all_iff)
  next
    case False
    then obtain k ds where "path_comps p = replicate k ''..'' @ ds" "list_all plain_name ds"
      using path_comps_ups_downs[OF False] unfolding ups_downs_def by blast

    then show ?thesis using assms by (auto simp: list_all_iff)
  qed
  then show "c \<noteq> ''''" "c \<noteq> ''.''" "slash \<notin> set c" by (auto simp: plain_name_def)
qed

lemma split_join_comps:
  "path_comps p \<noteq> [] \<Longrightarrow> split_on slash (join_with slash (path_comps p)) = path_comps p"
  by (rule split_join_with) (auto dest: path_comps_elem)

lemma not_IsAbs_join:
  assumes "\<And>c. c \<in> set cs \<Longrightarrow> c \<noteq> '''' \<and> slash \<notin> set c"
  shows "\<not> IsAbs (join_with slash cs)"
proof (cases cs)
  case (Cons c cs')
  then have "c \<noteq> ''''" "slash \<notin> set c" using assms by auto
  then show ?thesis using Cons by (cases c; cases cs') auto
qed simp

lemma not_IsAbs_join_comps: "\<not> IsAbs (join_with slash (path_comps p))"
  by (rule not_IsAbs_join) (auto dest: path_comps_elem)

lemma IsAbs_Clean [simp]: "IsAbs (Clean p) = IsAbs p"
  by (simp add: Clean_def not_IsAbs_join_comps)

lemma Clean_not_Nil [simp]: "Clean p \<noteq> ''''"
proof (cases "path_comps p")
  case (Cons c cs)
  then have "c \<noteq> ''''" using path_comps_elem(1)[of c p] by simp
  then show ?thesis using Cons by (cases cs) (auto simp: Clean_def)
qed (simp add: Clean_def)

text \<open>The elements of a cleaned path, and cleaning twice.\<close>

lemma split_Clean:
  "split_on slash (Clean p) =
     (if IsAbs p then '''' # (if path_comps p = [] then [''''] else path_comps p)
      else if path_comps p = [] then [''.''] else path_comps p)"
  by (simp add: Clean_def split_join_comps)

lemma path_comps_Clean [simp]: "path_comps (Clean p) = path_comps p"
proof (cases "IsAbs p")
  case True
  then show ?thesis
    using clean_go_plain[OF path_comps_plain[OF True], of True "[]"]
    by (simp add: path_comps_def[of "Clean p"] split_Clean)
next
  case False
  then show ?thesis
    using clean_go_ups_downs[OF path_comps_ups_downs[OF False]]
    by (simp add: path_comps_def[of "Clean p"] split_Clean)
qed

lemma Clean_Clean [simp]: "Clean (Clean p) = Clean p"
  by (simp add: Clean_def[of "Clean p"]) (simp add: Clean_def)

lemma path_comps_append:
  "p \<noteq> '''' \<Longrightarrow> path_comps (p @ slash # q) = clean_go (IsAbs p) (rev (path_comps p)) (split_on slash q)"
  by (simp add: path_comps_def split_on_append clean_go_append IsAbs_append)

text \<open>Cleaning a relative path before appending it to a rooted one changes nothing.\<close>

lemma clean_step_twice:
  assumes "\<forall>a \<in> set acc2. a \<noteq> '''' \<and> a \<noteq> ''.'' \<and> slash \<notin> set a"
  shows "clean_go True acc (rev (clean_step False acc2 c)) = clean_go True acc (rev acc2 @ [c])"
proof -
  consider "c = ''..''" "acc2 = []" | as where "c = ''..''" "acc2 = ''..'' # as"
    | a as where "c = ''..''" "acc2 = a # as" "plain_name a" | "c \<noteq> ''..''"
    using assms by (cases acc2) (auto simp: plain_name_def)
  then show ?thesis
  proof cases
    case 3
    then show ?thesis by (simp add: clean_go_append clean_step_plain clean_step_up)
  qed (auto simp: clean_step_def[of False] clean_go_append)
qed

lemma set_clean_step:
  "x \<in> set (clean_step r acc c) \<Longrightarrow>
   x \<in> set acc \<or> x = ''..'' \<or> x = c \<and> c \<noteq> '''' \<and> c \<noteq> ''.''"
  unfolding clean_step_def by (cases acc) (simp_all only: list.case list.set split: if_splits, auto)

lemma clean_step_elems:
  assumes "\<forall>a \<in> set acc. a \<noteq> '''' \<and> a \<noteq> ''.'' \<and> slash \<notin> set a" "slash \<notin> set c"
  shows "\<forall>a \<in> set (clean_step r acc c). a \<noteq> '''' \<and> a \<noteq> ''.'' \<and> slash \<notin> set a"
proof
  fix a assume "a \<in> set (clean_step r acc c)"
  then consider "a \<in> set acc" | "a = ''..''" | "a = c" "c \<noteq> ''''" "c \<noteq> ''.''"
    using set_clean_step by blast
  then show "a \<noteq> '''' \<and> a \<noteq> ''.'' \<and> slash \<notin> set a"
  proof cases
    case 1
    then show ?thesis using assms(1) by blast
  next
    case 2
    then show ?thesis by simp
  next
    case 3
    then show ?thesis using assms(2) by blast
  qed
qed

lemma clean_go_twice:
  "\<forall>a \<in> set acc2. a \<noteq> '''' \<and> a \<noteq> ''.'' \<and> slash \<notin> set a \<Longrightarrow> \<forall>c \<in> set cs. slash \<notin> set c \<Longrightarrow>
   clean_go True acc (clean_go False acc2 cs) = clean_go True acc (rev acc2 @ cs)"
proof (induction cs arbitrary: acc2)
  case (Cons c cs)
  let ?acc = "clean_step False acc2 c"
  have elems: "\<forall>a \<in> set ?acc. a \<noteq> '''' \<and> a \<noteq> ''.'' \<and> slash \<notin> set a"
    using Cons.prems by (intro clean_step_elems) auto
  have "clean_go True acc (clean_go False ?acc cs) = clean_go True acc (rev ?acc @ cs)"
    using Cons.prems(2) by (intro Cons.IH elems) simp
  also have "\<dots> = clean_go True (rev (clean_go True acc (rev ?acc))) cs"
    by (rule clean_go_append)
  also have "\<dots> = clean_go True (rev (clean_go True acc (rev acc2 @ [c]))) cs"
    by (simp only: clean_step_twice[OF Cons.prems(1)])
  also have "\<dots> = clean_go True acc ((rev acc2 @ [c]) @ cs)"
    by (rule clean_go_append[symmetric])
  also have "\<dots> = clean_go True acc (rev acc2 @ c # cs)"
    by simp
  finally show ?case by (simp only: clean_go_Cons)
qed simp

lemma clean_go_path_comps:
  "\<not> IsAbs p \<Longrightarrow> clean_go True acc (path_comps p) = clean_go True acc (split_on slash p)"
  using clean_go_twice[of "[]" "split_on slash p" acc] by (simp add: path_comps_def split_on_no_sep)

lemma clean_go_split_Clean:
  "\<not> IsAbs p \<Longrightarrow> clean_go True acc (split_on slash (Clean p)) = clean_go True acc (split_on slash p)"
  by (simp add: split_Clean clean_go_path_comps[symmetric])

section \<open>Where joined paths point\<close>

lemma Join2: "root \<noteq> '''' \<Longrightarrow> Join [root, p] = Clean (root @ slash # p)"
  by (simp add: Join_def)

lemma Join2_empty: "p \<noteq> '''' \<Longrightarrow> Join ['''', p] = Clean p"
  by (simp add: Join_def)

lemma Abs_comps:
  assumes "wd \<noteq> ''''"
  shows "Abs (Inr wd) p = Inr (Clean (if IsAbs p then p else wd @ slash # p))"
  using assms by (simp add: Abs_def Join2)

lemma IsAbs_wd: "IsAbs wd \<Longrightarrow> wd \<noteq> ''''"
  by auto

lemma IsAbs_wd_append [simp]: "IsAbs wd \<Longrightarrow> IsAbs (wd @ q)"
  by (auto simp: IsAbs_Cons)

lemma locate_plain: "IsAbs wd \<Longrightarrow> list_all plain_name (locate wd p)"
  unfolding locate_def by (rule path_comps_plain) simp

lemma Clean_locate:
  "IsAbs wd \<Longrightarrow> Clean (if IsAbs p then p else wd @ slash # p) = slash # join_with slash (locate wd p)"
  unfolding Clean_def locate_def by (auto simp: IsAbs_append IsAbs_wd)

lemma locate_rel:
  "IsAbs wd \<Longrightarrow> \<not> IsAbs p \<Longrightarrow>
   locate wd p = clean_go True (rev (path_comps wd)) (split_on slash p)"
  by (simp add: locate_def path_comps_append IsAbs_wd)

lemma locate_Clean: "IsAbs wd \<Longrightarrow> locate wd (Clean p) = locate wd p"
  by (cases "IsAbs p") (simp add: locate_def, simp add: locate_rel clean_go_split_Clean)

text \<open>Appending a clean relative path without \<^verbatim>\<open>..\<close> appends its names.\<close>

lemma locate_append:
  assumes "IsAbs wd" "root \<noteq> ''''" "\<forall>c \<in> set cs. plain_name c \<or> c = '''' \<or> c = ''.''"
    and "split_on slash p = cs"
  shows "locate wd (root @ slash # p) = locate wd root @ filter plain_name cs"
proof -
  have go: "clean_go r acc cs = rev acc @ filter plain_name cs" for r acc
    using assms(3)
  proof (induction cs arbitrary: acc)
    case (Cons c cs)
    then consider "plain_name c" | "c = ''''" | "c = ''.''" by auto
    then show ?case
    proof cases
      case 1
      then show ?thesis using Cons by (simp add: clean_step_plain)
    next
      case 2
      then show ?thesis using Cons by (simp add: plain_name_def[of "''''"])
    next
      case 3
      then show ?thesis using Cons by (simp add: plain_name_def[of "''.''"])
    qed

  qed simp
  show ?thesis
  proof (cases "IsAbs root")
    case True
    then show ?thesis using assms(2,4)
      by (simp add: locate_def IsAbs_append path_comps_append go)
  next
    case False
    then show ?thesis using assms(1,2,4)
      by (simp add: locate_rel IsAbs_append split_on_append clean_go_append go)
  qed
qed

lemma plain_split_Clean:
  assumes "\<not> IsAbs p" "list_all plain_name (path_comps p)"
  shows "\<forall>c \<in> set (split_on slash (Clean p)). plain_name c \<or> c = '''' \<or> c = ''.''"
    and "filter plain_name (split_on slash (Clean p)) = path_comps p"
  using assms by (auto simp: split_Clean list_all_iff filter_id_conv plain_name_def[of "''.''"])

lemma locate_Join:
  assumes "IsAbs wd" "\<not> IsAbs p" "list_all plain_name (path_comps p)"
  shows "locate wd (Join [root, Clean p]) = locate wd root @ path_comps p"
proof (cases "root = ''''")
  case True
  have "locate wd (Clean p) = locate wd '''' @ path_comps p"
  proof -
    have "locate wd (Clean p) = clean_go True (rev (path_comps wd)) (path_comps p)"
      by (simp only: locate_Clean[OF assms(1)] locate_rel[OF assms(1,2)] clean_go_path_comps[OF assms(2)])


    also have "\<dots> = path_comps wd @ path_comps p" by (simp add: clean_go_plain assms(3))
    also have "path_comps wd = locate wd ''''" using assms(1) by (simp add: locate_rel)
    finally show ?thesis .
  qed
  then show ?thesis using True by (simp add: Join2_empty)
next
  case False
  then show ?thesis
    using locate_append[OF assms(1) False plain_split_Clean(1)[OF assms(2,3)] refl] assms
    by (simp add: Join2 locate_Clean plain_split_Clean(2))
qed

text \<open>A relative path escapes exactly if its cleaned form starts with \<^verbatim>\<open>..\<close>.\<close>

definition escapes :: "string \<Rightarrow> bool" where
  "escapes p \<longleftrightarrow> (case path_comps p of [] \<Rightarrow> False | c # _ \<Rightarrow> c = ''..'')"

lemma not_escapes_plain:
  assumes "\<not> IsAbs p" "\<not> escapes p"
  shows "list_all plain_name (path_comps p)"
proof -
  obtain k ds where eq: "path_comps p = replicate k ''..'' @ ds" and "list_all plain_name ds"
    using path_comps_ups_downs[OF assms(1)] unfolding ups_downs_def by blast
  moreover have "k = 0" using assms(2) eq by (cases k) (auto simp: escapes_def)
  ultimately show ?thesis by simp
qed

lemma escapes_iff:
  assumes "\<not> IsAbs p"
  shows "escapes p \<longleftrightarrow> Clean p = ''..'' \<or> prefix ''../'' (Clean p)"
proof (cases "path_comps p")
  case Nil
  then show ?thesis using assms by (simp add: escapes_def Clean_def)
next
  case (Cons c cs)
  have c: "c \<noteq> ''''" "slash \<notin> set c" using path_comps_elem[of c p] Cons by auto
  show ?thesis
  proof (cases cs)
    case Nil
    then show ?thesis using Cons assms c by (auto simp: escapes_def Clean_def prefix_def)
  next
    case (Cons d ds)
    have "prefix ''../'' (c @ slash # join_with slash cs) \<longleftrightarrow> c = ''..''"
    proof
      assume "prefix ''../'' (c @ slash # join_with slash cs)"
      then obtain z where "c @ slash # join_with slash cs = ''..'' @ slash # z"
        by (auto simp: prefix_def)
      then have "split_on slash (c @ slash # join_with slash cs) = split_on slash (''..'' @ slash # z)"
        by simp
      then show "c = ''..''" using c by (simp add: split_on_sep)
    qed simp
    moreover have "c @ slash # join_with slash cs \<noteq> ''..''"
    proof
      assume eq: "c @ slash # join_with slash cs = ''..''"
      have "slash \<in> set (c @ slash # join_with slash cs)" by simp
      then show False unfolding eq by simp
    qed
    ultimately show ?thesis using \<open>path_comps p = c # cs\<close> Cons assms
      by (simp add: escapes_def Clean_def)
  qed
qed

text \<open>A slash-terminated prefix and the last name of a path.\<close>

lemma Dir_split:
  assumes "slash \<notin> set c" "a = '''' \<or> (\<exists>b. a = b @ [slash])"
  shows "Dir (a @ c) = Clean a"
proof -
  have "dropWhile (\<lambda>x. x \<noteq> slash) (rev c @ rev a) = dropWhile (\<lambda>x. x \<noteq> slash) (rev a)"
    by (rule dropWhile_append2) (use assms(1) in \<open>auto simp del: char.inject\<close>)
  also have "\<dots> = rev a" using assms(2) by auto
  finally have "dropWhile (\<lambda>x. x \<noteq> slash) (rev (a @ c)) = rev a" by simp
  then show ?thesis by (simp add: Dir_def)
qed

lemma locate_last:
  assumes "IsAbs wd" "plain_name c" "a = '''' \<or> (\<exists>b. a = b @ [slash])"
  shows "locate wd (a @ c) = locate wd a @ [c]"
proof -
  have c: "slash \<notin> set c" "c \<noteq> ''''" using assms(2) by (auto simp: plain_name_def)
  consider "a = ''''" | "a = ''/''" | b where "a = b @ [slash]" "b \<noteq> ''''" using assms(3) by auto
  then show ?thesis
  proof cases
    case 1
    have "\<not> IsAbs c" using c by (cases c) auto
    then show ?thesis using 1 assms(1,2) c
      by (simp add: locate_rel split_on_id clean_step_plain)
  next
    case 2
    then show ?thesis using assms(2) c
      by (simp add: locate_def path_comps_def split_on_id clean_step_plain)
  next
    case 3
    have "locate wd (b @ slash # c) = locate wd b @ filter plain_name [c]"
      using assms 3 c by (intro locate_append) (auto simp: split_on_id)
    moreover have "locate wd (b @ slash # '''') = locate wd b @ filter plain_name ['''']"
      using assms 3 by (intro locate_append) auto
    ultimately show ?thesis using 3 assms(2) by (simp add: plain_name_def[of "''''"])
  qed
qed

lemma Clean_split_last:
  assumes "path_comps p = xs @ [c]"
  shows "\<exists>a. Clean p = a @ c \<and> (a = '''' \<or> (\<exists>b. a = b @ [slash]))"
proof (cases "xs = []")
  case True
  then show ?thesis using assms by (cases "IsAbs p") (auto simp: Clean_def)
next
  case False
  then have "join_with slash (path_comps p) = join_with slash xs @ slash # c"
    using assms by (simp add: join_with_append)
  then have "Clean p = ((if IsAbs p then [slash] else []) @ join_with slash xs @ [slash]) @ c"
    using assms by (simp add: Clean_def)
  then show ?thesis by (metis append.assoc)
qed

lemma locate_Dir_Clean:
  assumes "IsAbs wd" "path_comps p = xs @ [c]" "plain_name c"
  shows "locate wd (Dir (Clean p)) = butlast (locate wd (Clean p))"
proof -
  obtain a where a: "Clean p = a @ c" "a = '''' \<or> (\<exists>b. a = b @ [slash])"
    using Clean_split_last[OF assms(2)] by blast
  have "slash \<notin> set c" using assms(3) by (simp add: plain_name_def)
  then have "locate wd (Dir (Clean p)) = locate wd a"
    unfolding a(1) using Dir_split[OF _ a(2)] assms(1) by (simp add: locate_Clean)
  then show ?thesis unfolding a(1) using locate_last[OF assms(1,3) a(2)] by simp
qed

lemma locate_Dir_Join:
  assumes "IsAbs wd" "\<not> IsAbs p" "list_all plain_name (path_comps p)" "path_comps p \<noteq> []"
  shows "locate wd (Dir (Join [root, Clean p])) = locate wd root @ butlast (path_comps p)"
proof -
  let ?q = "if root = '''' then Clean p else root @ slash # Clean p"
  have q: "Join [root, Clean p] = Clean ?q" by (simp add: Join2 Join2_empty)
  have last: "plain_name (last (path_comps p))"
    using assms(3,4) by (simp add: list_all_iff)
  have "path_comps ?q = (if root = '''' then [] else path_comps root) @ path_comps p"
    using clean_go_plain[OF assms(3)] plain_split_Clean[OF assms(2,3)] assms
    by (auto simp: path_comps_append split_Clean)
  then obtain xs where "path_comps ?q = xs @ [last (path_comps p)]"
    using assms(4) by (metis append.assoc append_butlast_last_id)
  then have "locate wd (Dir (Clean ?q)) = butlast (locate wd (Clean ?q))"
    using locate_Dir_Clean[OF assms(1) _ last] by blast
  also have "locate wd (Clean ?q) = locate wd root @ path_comps p"
    using locate_Join[OF assms(1-3), of root] q by simp
  finally show ?thesis using assms(4) q by (simp add: butlast_append)
qed

section \<open>What SafeJoin accepts\<close>

lemma strict_prefix_join:
  assumes "list_all plain_name cs" "cs \<noteq> []"
  shows "prefix ((slash # join_with slash rs) @ ''/'') (slash # join_with slash (rs @ cs)) \<longleftrightarrow> rs \<noteq> []"
proof (cases "rs = []")
  case True
  have "\<not> IsAbs (join_with slash cs)"
    using assms(1) by (intro not_IsAbs_join) (auto simp: list_all_iff plain_name_def)
  then show ?thesis using True by (simp add: IsAbs_def)
next
  case False
  then show ?thesis using assms(2) by (simp add: join_with_append)
qed

lemma join_with_eq_iff:
  assumes "list_all plain_name xs" "list_all plain_name ys"
  shows "join_with slash xs = join_with slash ys \<longleftrightarrow> xs = ys"
proof
  assume eq: "join_with slash xs = join_with slash ys"
  have ne: "join_with slash zs \<noteq> ''''" if "list_all plain_name zs" "zs \<noteq> []" for zs
    using that by (cases zs; cases "tl zs") (auto simp: plain_name_def)
  show "xs = ys"
  proof (cases "xs = [] \<or> ys = []")
    case True
    then show ?thesis using eq ne[OF assms(1)] ne[OF assms(2)] by (metis join_with.simps(1))

  next
    case False
    then show ?thesis using eq assms
      by (intro join_with_inj[OF eq]) (auto simp: list_all_iff plain_name_def)
  qed
qed simp

lemma SafeJoin_eval:
  assumes "IsAbs wd"
  shows "SafeJoin (Inr wd) root rel =
     (if rel = '''' then Inl EmptyPath
      else if IsAbs rel \<or> escapes rel then Inl (UnsafePath rel)
      else if path_comps rel \<noteq> [] \<and> locate wd root = [] then Inl (EscapesRoot rel)
      else Inr (Join [root, Clean rel]))"
proof (cases "rel = '''' \<or> IsAbs rel \<or> escapes rel")
  case True
  then show ?thesis
    by (cases "IsAbs rel") (auto simp: SafeJoin_def FromSlash_def Let_def escapes_iff)

next
  case False
  then have rel: "\<not> IsAbs rel" "\<not> escapes rel" "rel \<noteq> ''''" by auto
  then have pl: "list_all plain_name (path_comps rel)" by (simp add: not_escapes_plain)
  have abs: "Abs (Inr wd) q = Inr (slash # join_with slash (locate wd q))" for q
    by (simp add: Abs_comps[OF IsAbs_wd[OF assms]] Clean_locate[OF assms])
  have loc: "locate wd (Join [root, Clean rel]) = locate wd root @ path_comps rel"
    by (rule locate_Join[OF assms rel(1) pl])
  have "(slash # join_with slash (locate wd root @ path_comps rel) \<noteq>
          slash # join_with slash (locate wd root) \<and>
        \<not> prefix ((slash # join_with slash (locate wd root)) @ ''/'')
            (slash # join_with slash (locate wd root @ path_comps rel))) \<longleftrightarrow>
        (path_comps rel \<noteq> [] \<and> locate wd root = [])"
    using strict_prefix_join[OF pl, of "locate wd root"]
      join_with_eq_iff[of "locate wd root @ path_comps rel" "locate wd root"]
      locate_plain[OF assms, of root] pl
    by (cases "path_comps rel = []") auto
  then show ?thesis
    using rel escapes_iff[OF rel(1)]
    by (simp add: SafeJoin_def FromSlash_def abs loc del: append_Cons)
qed

text \<open>
  Containment. If \<open>SafeJoin\<close> accepts a path, the path it returns points to the root
  followed by a list of ordinary names: it never points outside the root, whatever
  separators, dots and \<^verbatim>\<open>..\<close> elements the peer sent, and for relative roots too. The
  names appended are the cleaned elements of the request.
\<close>

theorem safe_join_contained:
  assumes "IsAbs wd" and "SafeJoin (Inr wd) root rel = Inr p"
  shows "locate wd p = locate wd root @ path_comps rel \<and> list_all plain_name (path_comps rel)"
proof -
  have rel: "\<not> IsAbs rel" "\<not> escapes rel" "p = Join [root, Clean rel]"
    using assms(2) by (auto simp: SafeJoin_eval[OF assms(1)] split: if_splits)
  then show ?thesis using locate_Join[OF assms(1) rel(1) not_escapes_plain[OF rel(1,2)]]
      not_escapes_plain by blast
qed

theorem safe_join_contained_witness:
  "locate ''/srv'' ''w/a/c.txt'' = locate ''/srv'' ''w'' @ path_comps ''a/./b/../c.txt'' \<and>
   list_all plain_name (path_comps ''a/./b/../c.txt'')"
proof -
  have wd: "IsAbs ''/srv''" by simp
  have ok: "SafeJoin (Inr ''/srv'') ''w'' ''a/./b/../c.txt'' = Inr ''w/a/c.txt''" by code_simp
  show ?thesis by (rule safe_join_contained [OF wd ok])
qed

text \<open>
  Completeness, with every refusal accounted for. Below any root but \<^verbatim>\<open>/\<close>,
  \<open>SafeJoin\<close> accepts exactly the non-empty relative paths whose cleaned form does not start
  with \<^verbatim>\<open>..\<close>, and returns the join; so the containment check after the join never
  refuses a path that the checks before it let through.
\<close>

theorem safe_join_complete:
  assumes "IsAbs wd" and "locate wd root \<noteq> []"
  shows "SafeJoin (Inr wd) root rel =
    (if rel = '''' then Inl EmptyPath
     else if IsAbs rel \<or> escapes rel then Inl (UnsafePath rel)
     else Inr (Join [root, Clean rel]))"
  using assms by (simp add: SafeJoin_eval)

theorem safe_join_complete_witness:
  "SafeJoin (Inr ''/srv'') ''w'' ''x/../../etc'' = Inl (UnsafePath ''x/../../etc'')"
proof -
  have wd: "IsAbs ''/srv''" by simp
  have root: "locate ''/srv'' ''w'' \<noteq> []" by code_simp
  have esc: "escapes ''x/../../etc''" by code_simp
  show ?thesis using safe_join_complete [OF wd root, of "''x/../../etc''"] esc by simp
qed

text \<open>
  The check after the join compares with the root followed by a slash, which is
  \<^verbatim>\<open>//\<close> for the root directory: \<open>SafeJoin\<close> refuses every proper path below
  \<^verbatim>\<open>/\<close>, so a project or workspace rooted there can be listed but no file of it read
  or written.
\<close>

theorem safe_join_filesystem_root:
  assumes "IsAbs wd" and "path_comps rel \<noteq> []"
  shows "\<exists>e. SafeJoin (Inr wd) ''/'' rel = Inl e"
proof -
  have "locate wd ''/'' = []" by (simp add: locate_def path_comps_def)
  then show ?thesis using assms by (auto simp: SafeJoin_eval)
qed

theorem safe_join_filesystem_root_witness:
  "\<exists>e. SafeJoin (Inr ''/srv'') ''/'' ''etc/hosts'' = Inl e"
proof -
  have wd: "IsAbs ''/srv''" by simp
  have rel: "path_comps ''etc/hosts'' \<noteq> []" by code_simp
  show ?thesis by (rule safe_join_filesystem_root [OF wd rel])
qed

end
