(* ===== verification/Os.thy ===== *)
theory Os
  imports Domain Paths
begin

text \<open>
  The file operations of Go's \<^verbatim>\<open>os\<close> that the program calls, over an explicit file
  tree: what they return and how they change the tree, with the errors of the POSIX calls
  behind them. A directory lists its entries in name order, as \<^verbatim>\<open>os.ReadDir\<close> returns
  them. The environment is part of the state: the working directory, the umask, the random
  numbers that \<^verbatim>\<open>os.CreateTemp\<close> draws, and which calls fail for reasons outside the
  tree (\<open>os_fault\<close>; a failing write stores the first \<open>os_short\<close> bytes). Entries that
  are neither regular files nor directories (\<open>NOther\<close>: sockets, devices, and symbolic
  links, which are not followed here) can be listed, removed and replaced, but not opened.
\<close>

section \<open>File trees\<close>

datatype node = NFile bytes FileMode | NDir "(string \<times> node) list" | NOther

text \<open>What \<^verbatim>\<open>lstat\<close> tells of a node: everything but a directory's entries.\<close>

datatype info = IFile bytes FileMode | IDir | IOther

fun info_of :: "node \<Rightarrow> info" where
  "info_of (NFile b m) = IFile b m"
| "info_of (NDir es) = IDir"
| "info_of NOther = IOther"

fun namei :: "node \<Rightarrow> string list \<Rightarrow> errno + node" where
  "namei n [] = Inr n"
| "namei (NDir es) (c # cs) =
     (case map_of es c of None \<Rightarrow> Inl ENOENT | Some m \<Rightarrow> namei m cs)"
| "namei n (c # cs) = Inl ENOTDIR"

definition look :: "node \<Rightarrow> string list \<Rightarrow> errno + info" where
  "look t p = (case namei t p of Inl e \<Rightarrow> Inl e | Inr n \<Rightarrow> Inr (info_of n))"

fun ins :: "string \<Rightarrow> node \<Rightarrow> (string \<times> node) list \<Rightarrow> (string \<times> node) list" where
  "ins c n [] = [(c, n)]"
| "ins c n ((d, m) # es) =
     (if c < d then (c, n) # (d, m) # es else if c = d then (c, n) # es else (d, m) # ins c n es)"

definition del :: "string \<Rightarrow> (string \<times> node) list \<Rightarrow> (string \<times> node) list" where
  "del c es = filter (\<lambda>(d, _). d \<noteq> c) es"

text \<open>Replace (\<open>Some\<close>) or remove (\<open>None\<close>) the node at a path whose parent exists.\<close>

fun graft :: "node \<Rightarrow> string list \<Rightarrow> node option \<Rightarrow> node" where
  "graft t [] x = (case x of Some n \<Rightarrow> n | None \<Rightarrow> t)"
| "graft (NDir es) [c] x = NDir (case x of Some n \<Rightarrow> ins c n es | None \<Rightarrow> del c es)"
| "graft (NDir es) (c # d # cs) x =
     (case map_of es c of None \<Rightarrow> NDir es | Some m \<Rightarrow> NDir (ins c (graft m (d # cs) x) es))"
| "graft t (c # cs) x = t"

text \<open>\<^verbatim>\<open>mkdir -p\<close>: \<open>None\<close> if a component exists and is not a directory.\<close>

fun mkdirs :: "node \<Rightarrow> string list \<Rightarrow> node option" where
  "mkdirs (NDir es) [] = Some (NDir es)"
| "mkdirs (NDir es) (c # cs) =
     (case mkdirs (case map_of es c of None \<Rightarrow> NDir [] | Some m \<Rightarrow> m) cs of
        None \<Rightarrow> None | Some m \<Rightarrow> Some (NDir (ins c m es)))"
| "mkdirs n cs = None"

text \<open>Every directory lists distinct ordinary names, in increasing order.\<close>

fun wf_node :: "node \<Rightarrow> bool"
  and wf_entries :: "(string \<times> node) list \<Rightarrow> bool" where
  "wf_node (NFile b m) = True"
| "wf_node (NDir es) = (sorted_wrt (<) (map fst es) \<and> wf_entries es)"
| "wf_node NOther = True"
| "wf_entries [] = True"
| "wf_entries ((c, n) # es) = (plain_name c \<and> wf_node n \<and> wf_entries es)"

lemma wf_entries_iff: "wf_entries es \<longleftrightarrow> (\<forall>(c, n) \<in> set es. plain_name c \<and> wf_node n)"
  by (induction es) auto

subsection \<open>Laws of the tree\<close>

lemma map_of_ins [simp]: "map_of (ins c n es) = (map_of es)(c \<mapsto> n)"
  by (induction c n es rule: ins.induct) auto

lemma map_of_del [simp]: "map_of (del c es) = (map_of es)(c := None)"
  by (induction es) (auto simp: del_def)

lemma set_ins: "set (ins c n es) \<subseteq> insert (c, n) (set es)"
  by (induction c n es rule: ins.induct) auto

lemma sorted_ins:
  "sorted_wrt (<) (map fst es) \<Longrightarrow> sorted_wrt (<) (map fst (ins c n es))"
proof (induction c n es rule: ins.induct)
  case (2 c n d m es)
  have "\<forall>x \<in> set (ins c n es). fst x = c \<or> fst x \<in> fst ` set es"
    using set_ins[of c n es] by fastforce
  with 2 show ?case by (fastforce simp: not_less_iff_gr_or_eq)
qed simp

lemma sorted_del: "sorted_wrt (<) (map fst es) \<Longrightarrow> sorted_wrt (<) (map fst (del c es))"
  by (induction es) (auto simp: del_def)

lemma wf_ins:
  "wf_node (NDir es) \<Longrightarrow> plain_name c \<Longrightarrow> wf_node n \<Longrightarrow> wf_node (NDir (ins c n es))"
  using set_ins[of c n es] by (auto simp: wf_entries_iff sorted_ins)

lemma wf_del: "wf_node (NDir es) \<Longrightarrow> wf_node (NDir (del c es))"
  by (auto simp: wf_entries_iff sorted_del) (auto simp: del_def)

lemma wf_map_of: "wf_node (NDir es) \<Longrightarrow> map_of es c = Some n \<Longrightarrow> plain_name c \<and> wf_node n"
  by (auto simp: wf_entries_iff dest: map_of_SomeD)

lemma wf_graft:
  "wf_node t \<Longrightarrow> list_all plain_name p \<Longrightarrow> (\<And>n. x = Some n \<Longrightarrow> wf_node n) \<Longrightarrow> wf_node (graft t p x)"
proof (induction t p x rule: graft.induct)
  case (3 es c d cs x)
  then show ?case
    by (auto simp del: wf_node.simps intro!: wf_ins dest: wf_map_of split: option.split)
qed (auto simp del: wf_node.simps intro: wf_ins wf_del split: option.split)

lemma wf_mkdirs: "wf_node t \<Longrightarrow> list_all plain_name p \<Longrightarrow> mkdirs t p = Some t' \<Longrightarrow> wf_node t'"
proof (induction t p arbitrary: t' rule: mkdirs.induct)
  case (2 es c cs)
  have "wf_node (case map_of es c of None \<Rightarrow> NDir [] | Some m \<Rightarrow> m)"
    using 2(2) wf_map_of by (auto split: option.splits)
  with 2 show ?case
    by (auto simp del: wf_node.simps intro!: wf_ins split: option.splits)
qed auto

lemma look_simps [simp]:
  "look t [] = Inr (info_of t)"
  "look (NDir es) (c # cs) = (case map_of es c of None \<Rightarrow> Inl ENOENT | Some m \<Rightarrow> look m cs)"
  "look (NFile b m) (c # cs) = Inl ENOTDIR"
  "look NOther (c # cs) = Inl ENOTDIR"
  by (auto simp: look_def split: option.splits)

text \<open>
  The effect of an update on every other path: below the path it is the new subtree,
  elsewhere nothing changes.
\<close>

lemma look_graft:
  "p \<noteq> [] \<Longrightarrow> look t (butlast p) = Inr IDir \<Longrightarrow>
   look (graft t p x) q =
     (if prefix p q
      then (case x of Some n \<Rightarrow> look n (drop (length p) q) | None \<Rightarrow> Inl ENOENT)
      else look t q)"
proof (induction t p x arbitrary: q rule: graft.induct)
  case (2 es c x)
  then show ?case by (cases q) (auto split: option.splits)
next
  case (3 es c d cs x)
  show ?case
  proof (cases "map_of es c")
    case None
    then show ?thesis using 3 by simp
  next
    case (Some m)
    then have "look m (butlast (d # cs)) = Inr IDir" using 3(3) by (simp split: if_splits)
    then have IH: "look (graft m (d # cs) x) r =
        (if prefix (d # cs) r
         then (case x of Some n \<Rightarrow> look n (drop (length (d # cs)) r) | None \<Rightarrow> Inl ENOENT)
         else look m r)" for r
      using 3(1)[OF Some] by simp
    show ?thesis using Some by (cases q) (simp_all add: IH split: option.splits)

  qed
qed (auto split: if_splits)

lemma look_ENOENT_below:
  "look t p = Inl e \<Longrightarrow> \<exists>e'. look t (p @ q) = Inl e'"
proof (induction p arbitrary: t)
  case (Cons c p)
  then show ?case by (cases t) (auto split: option.splits)
qed simp

lemma look_file_below: "look t p = Inr i \<Longrightarrow> i \<noteq> IDir \<Longrightarrow> q \<noteq> [] \<Longrightarrow> look t (p @ q) = Inl ENOTDIR"
proof (induction p arbitrary: t)
  case Nil
  then show ?case by (cases t; cases q) auto
next
  case (Cons c p)
  then show ?case by (cases t) (auto split: option.splits)
qed

lemma look_parent: "look t (p @ q) = Inr i \<Longrightarrow> q \<noteq> [] \<Longrightarrow> look t p = Inr IDir"
  by (metis (no_types, lifting) look_ENOENT_below look_file_below Inl_Inr_False old.sum.exhaust)

lemma mkdirs_Some:
  "mkdirs t p = Some t' \<Longrightarrow> look t' q = (if prefix q p then Inr IDir else look t q)"
proof (induction t p arbitrary: t' q rule: mkdirs.induct)
  case (1 es)
  then show ?case by auto
next
  case (2 es c cs)
  show ?case
  proof (cases "map_of es c")
    case None
    then obtain m where m: "mkdirs (NDir []) cs = Some m" "t' = NDir (ins c m es)"
      using 2(2) by (auto split: option.splits)
    have IH: "look m r = (if prefix r cs then Inr IDir else look (NDir []) r)" for r
      using 2(1)[of m r] None m by simp
    then have "info_of m = IDir" using IH[of "[]"] by simp
    with IH show ?thesis using None m by (cases q; cases "tl q") (auto split: if_splits)
  next
    case (Some n)
    then obtain m where m: "mkdirs n cs = Some m" "t' = NDir (ins c m es)"
      using 2(2) by (auto split: option.splits)
    have "look m r = (if prefix r cs then Inr IDir else look n r)" for r
      using 2(1)[of m r] Some m by simp
    then show ?thesis using Some m by (cases q) auto
  qed
qed auto

lemma mkdirs_None_iff:
  "mkdirs t p = None \<longleftrightarrow> (\<exists>q i. prefix q p \<and> look t q = Inr i \<and> i \<noteq> IDir)"
proof (induction t p rule: mkdirs.induct)
  case (2 es c cs)
  have ex: "(\<exists>q i. prefix q (c # cs) \<and> look (NDir es) q = Inr i \<and> i \<noteq> IDir) \<longleftrightarrow>
            (\<exists>q i. prefix q cs \<and> look (NDir es) (c # q) = Inr i \<and> i \<noteq> IDir)"
    by (auto simp: prefix_Cons)
  have empty: "look (NDir []) q = Inr i \<Longrightarrow> i = IDir" for q i
    by (cases q) auto
  show ?case unfolding ex using 2 empty by (auto split: option.splits)
qed (auto intro: exI[of _ "[]"])

lemma look_plain: "wf_node n \<Longrightarrow> look n q = Inr i \<Longrightarrow> list_all plain_name q"
proof (induction q arbitrary: n)
  case (Cons c q)
  then obtain es m where "n = NDir es" "map_of es c = Some m" "look m q = Inr i"
    by (cases n) (auto split: option.splits)
  then show ?case using Cons wf_map_of[of es c m] by auto

qed simp

lemma namei_append: "namei t p = Inr n \<Longrightarrow> look t (p @ q) = look n q"
proof (induction p arbitrary: t)
  case (Cons c p)
  then show ?case by (cases t) (auto split: option.splits)
qed simp

lemma wf_namei: "wf_node t \<Longrightarrow> namei t p = Inr n \<Longrightarrow> wf_node n"
proof (induction p arbitrary: t)
  case (Cons c p)
  then obtain es m where "t = NDir es" "map_of es c = Some m" "namei m p = Inr n"
    by (cases t) (auto split: option.splits)
  then show ?case using Cons wf_map_of[of es c m] by auto
qed simp

lemma look_IDir: "look t p = Inr IDir \<Longrightarrow> \<exists>es. namei t p = Inr (NDir es)"
  by (auto simp: look_def split: sum.splits elim: info_of.elims)

section \<open>The state of the operating system, and its calls\<close>

datatype syscall =
    SysStat | SysReadDir | SysRead | SysOpen | SysCreateTemp | SysWrite | SysClose
  | SysMkdir | SysChmod | SysRename | SysRemove | SysRemoveAll

record os =
  os_tree :: node
  os_cwd :: string
  os_umask :: FileMode
  os_rands :: "nat list"
  os_short :: nat
  os_fault :: "syscall \<Rightarrow> string list \<Rightarrow> errno option"

definition loc :: "os \<Rightarrow> string \<Rightarrow> string list" where
  "loc s p = locate (os_cwd s) p"

text \<open>A call on a path: it fails if the environment says so, otherwise it runs.\<close>

definition sys :: "syscall \<Rightarrow> string \<Rightarrow> (os, 'a) prog \<Rightarrow> (os, 'a) prog" where
  "sys c p m s =
     (case os_fault s c (loc s p) of Some e \<Rightarrow> throwE (PathError e p) s | None \<Rightarrow> m s)"

definition set_tree :: "node \<Rightarrow> os \<Rightarrow> os" where
  "set_tree t s = s\<lparr>os_tree := t\<rparr>"

text \<open>The file modes of \<^verbatim>\<open>Perm()\<close> and of a new file under the umask.\<close>

definition Perm :: "FileMode \<Rightarrow> FileMode" where
  "Perm m = m AND 0x1FF"

definition umasked :: "os \<Rightarrow> FileMode \<Rightarrow> FileMode" where
  "umasked s m = m AND NOT (os_umask s)"

text \<open>\<^verbatim>\<open>mode := os.FileMode(m).Perm(); if mode == 0 { mode = 0o644 }\<close>\<close>

definition file_mode :: "FileMode \<Rightarrow> FileMode" where
  "file_mode m = (let mode = Perm m in if mode = 0 then 0x1A4 else mode)"

text \<open>\<^verbatim>\<open>os.Stat\<close>.\<close>

definition os_Stat :: "string \<Rightarrow> (os, info) prog" where
  "os_Stat p = sys SysStat p (\<lambda>s.
     case look (os_tree s) (loc s p) of Inl e \<Rightarrow> throwE (PathError e p) s | Inr i \<Rightarrow> retE i s)"

text \<open>\<^verbatim>\<open>os.ReadFile\<close>.\<close>

definition os_ReadFile :: "string \<Rightarrow> (os, bytes) prog" where
  "os_ReadFile p = sys SysRead p (\<lambda>s.
     case look (os_tree s) (loc s p) of
       Inl e \<Rightarrow> throwE (PathError e p) s
     | Inr (IFile b m) \<Rightarrow> retE b s
     | Inr IDir \<Rightarrow> throwE (PathError EISDIR p) s
     | Inr IOther \<Rightarrow> throwE (PathError EINVAL p) s)"

text \<open>\<^verbatim>\<open>os.MkdirAll\<close>.\<close>

definition os_MkdirAll :: "string \<Rightarrow> (os, unit) prog" where
  "os_MkdirAll p = sys SysMkdir p (\<lambda>s.
     case mkdirs (os_tree s) (loc s p) of
       None \<Rightarrow> throwE (PathError ENOTDIR p) s
     | Some t \<Rightarrow> retE () (set_tree t s))"

text \<open>
  \<^verbatim>\<open>open\<close> for writing with \<^verbatim>\<open>O_CREATE\<close>: the mode the file has once open, which
  is the given one under the umask for a new file and the old one for an existing file.
\<close>

definition open_mode :: "os \<Rightarrow> string list \<Rightarrow> FileMode \<Rightarrow> errno + FileMode" where
  "open_mode s q mode =
     (case look (os_tree s) q of
        Inr (IFile b m) \<Rightarrow> Inr m
      | Inr IDir \<Rightarrow> Inl EISDIR
      | Inr IOther \<Rightarrow> Inl EINVAL
      | Inl e \<Rightarrow>
          if e = ENOENT \<and> look (os_tree s) (butlast q) = Inr IDir then Inr (umasked s mode) else Inl e)"

definition write_file :: "string list \<Rightarrow> bytes \<Rightarrow> FileMode \<Rightarrow> os \<Rightarrow> os" where
  "write_file q b m s = set_tree (graft (os_tree s) q (Some (NFile b m))) s"

text \<open>\<^verbatim>\<open>os.WriteFile\<close>: truncates or creates, then writes.\<close>

definition os_WriteFile :: "string \<Rightarrow> bytes \<Rightarrow> FileMode \<Rightarrow> (os, unit) prog" where
  "os_WriteFile p b mode = sys SysOpen p (\<lambda>s.
     case open_mode s (loc s p) mode of
       Inl e \<Rightarrow> throwE (PathError e p) s
     | Inr m \<Rightarrow>
         (case os_fault s SysWrite (loc s p) of
            Some e \<Rightarrow> throwE (PathError e p) (write_file (loc s p) (take (os_short s) b) m s)
          | None \<Rightarrow> retE () (write_file (loc s p) b m s)))"

text \<open>
  \<^verbatim>\<open>os.CreateTemp\<close>: the first random decimal that gives a name not yet in use, opened
  exclusively with mode 0600; \<open>EEXIST\<close> when the draws run out (Go tries 10000).
\<close>

definition joinPath :: "string \<Rightarrow> string \<Rightarrow> string" where
  "joinPath dir name = (if suffix ''/'' dir then dir @ name else dir @ slash # name)"

definition os_CreateTemp :: "string \<Rightarrow> string \<Rightarrow> (os, string) prog" where
  "os_CreateTemp dir pre = sys SysCreateTemp dir (\<lambda>s.
     let free = (\<lambda>r. look (os_tree s) (loc s dir @ [pre @ decimal r]) = Inl ENOENT) in
     if look (os_tree s) (loc s dir) \<noteq> Inr IDir
     then throwE (PathError (case look (os_tree s) (loc s dir) of Inl e \<Rightarrow> e | _ \<Rightarrow> ENOTDIR) dir) s
     else case dropWhile (\<lambda>r. \<not> free r) (os_rands s) of
       [] \<Rightarrow> throwE (PathError EEXIST dir) (s\<lparr>os_rands := []\<rparr>)
     | r # rs \<Rightarrow>
         retE (joinPath dir (pre @ decimal r))
           (write_file (loc s dir @ [pre @ decimal r]) [] (umasked s 0x180) (s\<lparr>os_rands := rs\<rparr>)))"

text \<open>\<^verbatim>\<open>Write\<close> and \<^verbatim>\<open>Close\<close> on the file that \<^verbatim>\<open>CreateTemp\<close> opened.\<close>

definition tmp_Write :: "string \<Rightarrow> bytes \<Rightarrow> (os, unit) prog" where
  "tmp_Write p b s =
     (case look (os_tree s) (loc s p) of
        Inr (IFile b0 m) \<Rightarrow>
          (case os_fault s SysWrite (loc s p) of
             Some e \<Rightarrow> throwE (PathError e p) (write_file (loc s p) (b0 @ take (os_short s) b) m s)
           | None \<Rightarrow> retE () (write_file (loc s p) (b0 @ b) m s))
      | _ \<Rightarrow> throwE (PathError EIO p) s)"

definition tmp_Close :: "string \<Rightarrow> (os, unit) prog" where
  "tmp_Close p = sys SysClose p (retE ())"

definition os_Chmod :: "string \<Rightarrow> FileMode \<Rightarrow> (os, unit) prog" where
  "os_Chmod p mode = sys SysChmod p (\<lambda>s.
     case look (os_tree s) (loc s p) of
       Inl e \<Rightarrow> throwE (PathError e p) s
     | Inr (IFile b m) \<Rightarrow> retE () (write_file (loc s p) b mode s)
     | Inr _ \<Rightarrow> retE () s)"

text \<open>
  \<^verbatim>\<open>os.Rename\<close> of a file: an existing directory at the target is an error, anything
  else is replaced in one step.
\<close>

definition os_Rename :: "string \<Rightarrow> string \<Rightarrow> (os, unit) prog" where
  "os_Rename old new = sys SysRename new (\<lambda>s.
     case namei (os_tree s) (loc s old) of
       Inl e \<Rightarrow> throwE (PathError e new) s
     | Inr n \<Rightarrow>
         if loc s new = [] \<or> look (os_tree s) (loc s new) = Inr IDir then throwE (PathError EEXIST new) s
         else if look (os_tree s) (butlast (loc s new)) \<noteq> Inr IDir then
           throwE (PathError (case look (os_tree s) (loc s new) of Inl e \<Rightarrow> e | _ \<Rightarrow> ENOTDIR) new) s
         else retE ()
           (set_tree (graft (graft (os_tree s) (loc s old) None) (loc s new) (Some n)) s))"

text \<open>\<^verbatim>\<open>os.Remove\<close>: a file, or an empty directory.\<close>

definition os_Remove :: "string \<Rightarrow> (os, unit) prog" where
  "os_Remove p = sys SysRemove p (\<lambda>s.
     case namei (os_tree s) (loc s p) of
       Inl e \<Rightarrow> throwE (PathError e p) s
     | Inr n \<Rightarrow>
         if loc s p = [] then throwE (PathError EINVAL p) s else
         (case n of
            NDir (_ # _) \<Rightarrow> throwE (PathError ENOTEMPTY p) s
          | _ \<Rightarrow> retE () (set_tree (graft (os_tree s) (loc s p) None) s)))"

text \<open>\<^verbatim>\<open>os.RemoveAll\<close>: a missing path is no error.\<close>

definition os_RemoveAll :: "string \<Rightarrow> (os, unit) prog" where
  "os_RemoveAll p = sys SysRemoveAll p (\<lambda>s.
     case look (os_tree s) (loc s p) of
       Inl e \<Rightarrow> if e = ENOENT then retE () s else throwE (PathError e p) s
     | Inr _ \<Rightarrow>
         if loc s p = [] then throwE (PathError EINVAL p) s
         else retE () (set_tree (graft (os_tree s) (loc s p) None) s))"

definition IsNotExist :: "error \<Rightarrow> bool" where
  "IsNotExist e \<longleftrightarrow> (case e of PathError ENOENT _ \<Rightarrow> True | _ \<Rightarrow> False)"

end
