(* ===== verification/OsLaws.thy ===== *)
theory OsLaws
  imports Os
begin

text \<open>
  Laws of the file operations in terms of what is at each path: \<open>osat s q\<close> is what
  \<^verbatim>\<open>lstat\<close> finds at \<open>q\<close>, and each operation that succeeds is an update of this map.
  The laws are collected in \<open>os_law\<close>; no operation changes the environment
  (\<open>os_env\<close>), and every one keeps the tree well formed (\<open>os_wf\<close>, which also says that
  \<open>ENOENT\<close> is only reported for a path that does not exist), whether it succeeds or fails.
\<close>

section \<open>What is at a path\<close>

definition osat :: "os \<Rightarrow> string list \<Rightarrow> info option" where
  "osat s q = (case look (os_tree s) q of Inl e \<Rightarrow> None | Inr i \<Rightarrow> Some i)"

definition os_env :: "os \<Rightarrow> string \<times> FileMode \<times> nat \<times> (syscall \<Rightarrow> string list \<Rightarrow> errno option)" where
  "os_env s = (os_cwd s, os_umask s, os_short s, os_fault s)"

definition os_wf :: "os \<Rightarrow> bool" where
  "os_wf s \<longleftrightarrow> IsAbs (os_cwd s) \<and> wf_node (os_tree s) \<and> osat s [] = Some IDir \<and>
     (\<forall>c q. os_fault s c q \<noteq> Some ENOENT)"

named_theorems os_law \<open>the effect of a successful file operation\<close>

lemma osat_Some: "osat s q = Some i \<longleftrightarrow> look (os_tree s) q = Inr i"
  by (simp add: osat_def split: sum.split)

lemma osat_None: "osat s q = None \<longleftrightarrow> (\<exists>e. look (os_tree s) q = Inl e)"
  by (simp add: osat_def split: sum.split)

lemma osat_parent: "osat s (p @ q) = Some i \<Longrightarrow> q \<noteq> [] \<Longrightarrow> osat s p = Some IDir"
  using look_parent by (simp add: osat_Some)

lemma osat_above: "osat s q = Some i \<Longrightarrow> strict_prefix p q \<Longrightarrow> osat s p = Some IDir"
  using osat_parent by (auto simp: strict_prefix_def prefix_def)

lemma osat_butlast: "osat s p = Some i \<Longrightarrow> p \<noteq> [] \<Longrightarrow> osat s (butlast p) = Some IDir"
  using osat_parent[of s "butlast p" "[last p]"] by simp

lemma osat_plain: "os_wf s \<Longrightarrow> osat s q = Some i \<Longrightarrow> list_all plain_name q"
  using look_plain by (auto simp: os_wf_def osat_Some)

lemma loc_plain: "os_wf s \<Longrightarrow> list_all plain_name (loc s p)"
  using locate_plain by (simp add: os_wf_def loc_def)

lemma osat_root: "os_wf s \<Longrightarrow> osat s q \<noteq> Some IDir \<Longrightarrow> q \<noteq> []"
  by (auto simp: os_wf_def)

lemma loc_env: "os_env s' = os_env s \<Longrightarrow> loc s' p = loc s p"
  by (simp add: os_env_def loc_def)

lemma os_env_fault: "os_env s' = os_env s \<Longrightarrow> os_fault s' = os_fault s"
  by (simp add: os_env_def)

lemma os_env_set_tree [simp]: "os_env (set_tree t s) = os_env s"
  by (simp add: os_env_def set_tree_def)

lemma os_env_rands [simp]: "os_env (s\<lparr>os_rands := rs\<rparr>) = os_env s"
  by (simp add: os_env_def)

lemma os_env_write_file [simp]: "os_env (write_file q b m s) = os_env s"
  by (simp add: write_file_def)

lemma osat_rands [simp]: "osat (s\<lparr>os_rands := rs\<rparr>) = osat s"
  by (rule ext) (simp add: osat_def)

subsection \<open>Updates of the map\<close>

lemma prefix_neq_Cons: "prefix q r \<Longrightarrow> r \<noteq> q \<Longrightarrow> \<exists>c x. r = q @ c # x"
  by (metis append_Nil2 list.exhaust prefixE)

lemma osat_write_file:
  assumes "q \<noteq> []" "osat s (butlast q) = Some IDir" "osat s q \<noteq> Some IDir"
  shows "osat (write_file q b m s) = (osat s)(q \<mapsto> IFile b m)"
proof
  fix r
  have look: "look (os_tree (write_file q b m s)) r =
      (if prefix q r then look (NFile b m) (drop (length q) r) else look (os_tree s) r)"
    using look_graft[OF assms(1), of "os_tree s" "Some (NFile b m)" r] assms(2)
    by (simp add: write_file_def set_tree_def osat_Some)
  show "osat (write_file q b m s) r = ((osat s)(q \<mapsto> IFile b m)) r"
  proof (cases "prefix q r \<and> r \<noteq> q")
    case True
    then obtain c x where r: "r = q @ c # x" using prefix_neq_Cons by blast
    then have "osat s r = None" using assms(3) osat_parent[of s q "c # x"] by (cases "osat s r") auto
    then show ?thesis using True look r by (simp add: osat_def)
  next
    case False
    then show ?thesis using look by (auto simp: osat_def)
  qed
qed

lemma osat_remove:
  assumes "q \<noteq> []" "osat s q = Some i" "\<And>c r. osat s (q @ c # r) = None"
  shows "osat (set_tree (graft (os_tree s) q None) s) = (osat s)(q := None)"
proof
  fix r
  have "look (os_tree s) (butlast q) = Inr IDir"
    using osat_butlast[OF assms(2,1)] by (simp add: osat_Some)
  then have look: "look (graft (os_tree s) q None) r =
      (if prefix q r then Inl ENOENT else look (os_tree s) r)"
    using look_graft[OF assms(1), of "os_tree s" None r] by simp
  show "osat (set_tree (graft (os_tree s) q None) s) r = ((osat s)(q := None)) r"
  proof (cases "prefix q r \<and> r \<noteq> q")
    case True
    then obtain c x where r: "r = q @ c # x" using prefix_neq_Cons by blast
    then show ?thesis using True look assms(3) by (simp add: osat_def set_tree_def)
  next
    case False
    then show ?thesis using look by (auto simp: osat_def set_tree_def)
  qed
qed

lemma osat_below_file:
  assumes "osat s q = Some i" "i \<noteq> IDir"
  shows "osat s (q @ c # r) = None"
  using osat_parent[of s q "c # r"] assms by (cases "osat s (q @ c # r)") auto

lemma osat_mkdirs:
  "mkdirs (os_tree s) q = Some t \<Longrightarrow>
   osat (set_tree t s) r = (if prefix r q then Some IDir else osat s r)"
  using mkdirs_Some[of "os_tree s" q t r] by (simp add: osat_def set_tree_def)

subsection \<open>Well-formedness\<close>

lemma os_wf_write_file:
  assumes "os_wf s" "list_all plain_name q" "q \<noteq> []" "osat s (butlast q) = Some IDir"
    "osat s q \<noteq> Some IDir"
  shows "os_wf (write_file q b m s)"
  using assms osat_write_file[OF assms(3-5), of b m]
  by (auto simp: os_wf_def write_file_def set_tree_def intro!: wf_graft)

lemma graft_root: "look t [] = Inr IDir \<Longrightarrow> p \<noteq> [] \<or> x = None \<Longrightarrow> look (graft t p x) [] = Inr IDir"
  by (cases "(t, p, x)" rule: graft.cases) (auto split: option.splits)

lemma os_wf_graft:
  assumes "os_wf s" "list_all plain_name q" "q \<noteq> [] \<or> x = None" "\<And>n. x = Some n \<Longrightarrow> wf_node n"
  shows "os_wf (set_tree (graft (os_tree s) q x) s)"
  using assms graft_root[of "os_tree s" q x]
  by (auto simp: os_wf_def set_tree_def osat_Some intro!: wf_graft)

lemma os_wf_remove:
  assumes "os_wf s" "list_all plain_name q"
  shows "os_wf (set_tree (graft (os_tree s) q None) s)"
  using assms by (intro os_wf_graft) auto

lemma os_wf_mkdirs:
  assumes "os_wf s" "mkdirs (os_tree s) q = Some t" "list_all plain_name q"
  shows "os_wf (set_tree t s)"
  using assms wf_mkdirs osat_mkdirs[OF assms(2), of "[]"] by (auto simp: os_wf_def set_tree_def)

lemma os_wf_rands [simp]: "os_wf (s\<lparr>os_rands := rs\<rparr>) = os_wf s"
  by (simp add: os_wf_def)

section \<open>Every operation keeps the environment and well-formedness\<close>

definition os_keeps :: "(os, 'a) prog \<Rightarrow> bool" where
  "os_keeps m \<longleftrightarrow> (\<forall>s. os_wf s \<longrightarrow> os_wf (snd (m s)) \<and> os_env (snd (m s)) = os_env s)"

named_theorems os_keeps_rule

lemma os_keepsD:
  "os_keeps m \<Longrightarrow> os_wf s \<Longrightarrow> m s = (r, s') \<Longrightarrow> os_wf s' \<and> os_env s' = os_env s"
  by (auto simp: os_keeps_def)

lemma os_keeps_ret [os_keeps_rule]: "os_keeps (retE a)" "os_keeps (throwE e)" "os_keeps (readE g)"
  by (simp_all add: os_keeps_def)

lemma os_keeps_bind [os_keeps_rule]:
  assumes "os_keeps m" "\<And>a. os_keeps (f a)"
  shows "os_keeps (bindE m f)"
  using assms unfolding os_keeps_def bindE_def
  by (auto split: prod.split sum.split)

lemma os_keeps_defer [os_keeps_rule]:
  assumes "os_keeps m" "os_keeps c"
  shows "os_keeps (deferE m c)"
  using assms unfolding os_keeps_def deferE_def
  by (auto split: prod.split)

lemma os_keeps_onErr [os_keeps_rule]:
  assumes "os_keeps m" "os_keeps c"
  shows "os_keeps (onErrE m c)"
  using assms unfolding os_keeps_def onErrE_def
  by (auto split: prod.split sum.split)

lemma os_keeps_try [os_keeps_rule]: "os_keeps m \<Longrightarrow> os_keeps (tryE m)"
  unfolding os_keeps_def tryE_def by (auto split: prod.split)

lemma os_keeps_for [os_keeps_rule]: "(\<And>x. os_keeps (f x)) \<Longrightarrow> os_keeps (forE xs f)"
  by (induction xs) (auto intro: os_keeps_ret os_keeps_bind simp del: retE_run)

lemma os_keeps_sys [os_keeps_rule]: "os_keeps m \<Longrightarrow> os_keeps (sys c p m)"
  by (auto simp: os_keeps_def sys_def split: option.split)

text \<open>The operations, in turn.\<close>

lemma open_mode_Inr:
  assumes "os_wf s" "open_mode s q mode = Inr m"
  shows "q \<noteq> []" "osat s (butlast q) = Some IDir" "osat s q \<noteq> Some IDir"
    "m = (case osat s q of Some (IFile b m0) \<Rightarrow> m0 | _ \<Rightarrow> umasked s mode)"
proof -
  have cases: "(\<exists>b. osat s q = Some (IFile b m)) \<or>
      osat s q = None \<and> osat s (butlast q) = Some IDir \<and> m = umasked s mode"
    using assms(2)
    by (auto simp: open_mode_def osat_def split: sum.splits info.splits if_splits)
  then show nd: "osat s q \<noteq> Some IDir" by auto
  then show "q \<noteq> []" using osat_root[OF assms(1)] by blast
  then show "osat s (butlast q) = Some IDir" using cases osat_butlast by blast
  show "m = (case osat s q of Some (IFile b m0) \<Rightarrow> m0 | _ \<Rightarrow> umasked s mode)"
    using cases by auto
qed

lemma os_keeps_WriteFile [os_keeps_rule]: "os_keeps (os_WriteFile p b mode)"
  unfolding os_WriteFile_def
proof (rule os_keeps_sys, unfold os_keeps_def, intro allI impI)
  fix s assume wf: "os_wf s"
  show "os_wf (snd (case open_mode s (loc s p) mode of
       Inl e \<Rightarrow> throwE (PathError e p) s
     | Inr m \<Rightarrow>
         (case os_fault s SysWrite (loc s p) of
            Some e \<Rightarrow> throwE (PathError e p) (write_file (loc s p) (take (os_short s) b) m s)
          | None \<Rightarrow> retE () (write_file (loc s p) b m s)))) \<and>
    os_env (snd (case open_mode s (loc s p) mode of
       Inl e \<Rightarrow> throwE (PathError e p) s
     | Inr m \<Rightarrow>
         (case os_fault s SysWrite (loc s p) of
            Some e \<Rightarrow> throwE (PathError e p) (write_file (loc s p) (take (os_short s) b) m s)
          | None \<Rightarrow> retE () (write_file (loc s p) b m s)))) = os_env s"
  proof (cases "open_mode s (loc s p) mode")
    case (Inl e)
    then show ?thesis using wf by simp
  next
    case (Inr m)
    note os_wf_write_file[OF wf loc_plain[OF wf] open_mode_Inr(1-3)[OF wf Inr]]
    then show ?thesis using Inr by (simp split: option.split)
  qed
qed

lemma os_keeps_existing:
  assumes wf: "os_wf s" and at: "osat s q = Some (IFile b m)"
  shows "os_wf (write_file q b' m' s)"
proof -
  have "q \<noteq> []" using osat_root[OF wf] at by auto
  then show ?thesis
    using os_wf_write_file[OF wf osat_plain[OF wf at] _ osat_butlast[OF at]] at by auto
qed

lemma os_keepsI:
  "(\<And>s. os_wf s \<Longrightarrow> os_wf (snd (m s)) \<and> os_env (snd (m s)) = os_env s) \<Longrightarrow> os_keeps m"
  by (simp add: os_keeps_def)

lemma os_keeps_tmp_Write [os_keeps_rule]: "os_keeps (tmp_Write p b)"
proof (rule os_keepsI)
  fix s assume wf: "os_wf s"
  show "os_wf (snd (tmp_Write p b s)) \<and> os_env (snd (tmp_Write p b s)) = os_env s"
  proof (cases "\<exists>b0 m. look (os_tree s) (loc s p) = Inr (IFile b0 m)")
    case True
    then obtain b0 m where at: "look (os_tree s) (loc s p) = Inr (IFile b0 m)" by blast
    then have "osat s (loc s p) = Some (IFile b0 m)" by (simp add: osat_Some)
    note os_keeps_existing[OF wf this]
    then show ?thesis using at by (simp add: tmp_Write_def split: option.split)
  next
    case False
    then show ?thesis using wf by (simp add: tmp_Write_def split: sum.split info.split)
  qed
qed

lemma os_keeps_Chmod [os_keeps_rule]: "os_keeps (os_Chmod p mode)"
  unfolding os_Chmod_def
proof (rule os_keeps_sys, rule os_keepsI)
  fix s assume wf: "os_wf s"
  show "os_wf (snd (case look (os_tree s) (loc s p) of
       Inl e \<Rightarrow> throwE (PathError e p) s
     | Inr (IFile b m) \<Rightarrow> retE () (write_file (loc s p) b mode s)
     | Inr _ \<Rightarrow> retE () s)) \<and>
    os_env (snd (case look (os_tree s) (loc s p) of
       Inl e \<Rightarrow> throwE (PathError e p) s
     | Inr (IFile b m) \<Rightarrow> retE () (write_file (loc s p) b mode s)
     | Inr _ \<Rightarrow> retE () s)) = os_env s"
    using wf os_keeps_existing[OF wf] by (simp add: osat_Some split: sum.split info.split)
qed

lemma os_keeps_Close [os_keeps_rule]: "os_keeps (tmp_Close p)"
  unfolding tmp_Close_def by (intro os_keeps_sys os_keeps_ret)

lemma os_keeps_Stat [os_keeps_rule]: "os_keeps (os_Stat p)"
  unfolding os_Stat_def by (rule os_keeps_sys) (simp add: os_keeps_def split: sum.split)

lemma os_keeps_ReadFile [os_keeps_rule]: "os_keeps (os_ReadFile p)"
  unfolding os_ReadFile_def by (rule os_keeps_sys) (simp add: os_keeps_def split: sum.split info.split)

lemma os_keeps_MkdirAll [os_keeps_rule]: "os_keeps (os_MkdirAll p)"
  unfolding os_MkdirAll_def
  by (rule os_keeps_sys) (auto simp: os_keeps_def split: option.split intro: os_wf_mkdirs loc_plain)

lemma os_keeps_Remove [os_keeps_rule]: "os_keeps (os_Remove p)"
  unfolding os_Remove_def
  by (rule os_keeps_sys)
     (auto simp: os_keeps_def split: sum.split node.split list.split intro: os_wf_remove loc_plain)

lemma os_keeps_RemoveAll [os_keeps_rule]: "os_keeps (os_RemoveAll p)"
  unfolding os_RemoveAll_def
  by (rule os_keeps_sys)
     (auto simp: os_keeps_def split: sum.split intro: os_wf_remove loc_plain)

lemma os_keeps_Rename [os_keeps_rule]: "os_keeps (os_Rename old new)"
  unfolding os_Rename_def
proof (rule os_keeps_sys, rule os_keepsI)
  fix s assume wf: "os_wf s"
  have "os_wf (set_tree (graft (graft (os_tree s) (loc s old) None) (loc s new) (Some n)) s)"
    if "namei (os_tree s) (loc s old) = Inr n" "loc s new \<noteq> []" for n
    using os_wf_graft[OF os_wf_remove[OF wf loc_plain[OF wf, of old]] loc_plain[OF wf, of new],
      of "Some n"] that wf_namei wf by (auto simp: set_tree_def os_wf_def)
  then show "os_wf (snd (case namei (os_tree s) (loc s old) of
       Inl e \<Rightarrow> throwE (PathError e new) s
     | Inr n \<Rightarrow>
         if loc s new = [] \<or> look (os_tree s) (loc s new) = Inr IDir then throwE (PathError EEXIST new) s
         else if look (os_tree s) (butlast (loc s new)) \<noteq> Inr IDir then
           throwE (PathError (case look (os_tree s) (loc s new) of Inl e \<Rightarrow> e | _ \<Rightarrow> ENOTDIR) new) s
         else retE ()
           (set_tree (graft (graft (os_tree s) (loc s old) None) (loc s new) (Some n)) s))) \<and>
    os_env (snd (case namei (os_tree s) (loc s old) of
       Inl e \<Rightarrow> throwE (PathError e new) s
     | Inr n \<Rightarrow>
         if loc s new = [] \<or> look (os_tree s) (loc s new) = Inr IDir then throwE (PathError EEXIST new) s
         else if look (os_tree s) (butlast (loc s new)) \<noteq> Inr IDir then
           throwE (PathError (case look (os_tree s) (loc s new) of Inl e \<Rightarrow> e | _ \<Rightarrow> ENOTDIR) new) s
         else retE ()
           (set_tree (graft (graft (os_tree s) (loc s old) None) (loc s new) (Some n)) s))) = os_env s"
    using wf by (auto split: sum.split)
qed

text \<open>A name that \<open>CreateTemp\<close> makes is an ordinary one.\<close>

lemma plain_temp:
  assumes "slash \<notin> set pre" "2 < length pre"
  shows "plain_name (pre @ decimal r)"
proof -
  have "slash \<notin> set (decimal r)" using decimal_digits[of r] by auto
  moreover have "pre @ decimal r \<noteq> ''.''" "pre @ decimal r \<noteq> ''..''" "pre @ decimal r \<noteq> ''''"
    using assms(2) by (auto dest!: arg_cong[of _ _ length])
  ultimately show ?thesis using assms(1) by (simp add: plain_name_def)
qed
lemma loc_joinPath:
  assumes "os_wf s" "dir \<noteq> ''''" "plain_name c"
  shows "loc s (joinPath dir c) = loc s dir @ [c]"
proof -
  have wd: "IsAbs (os_cwd s)" using assms(1) by (simp add: os_wf_def)
  show ?thesis
  proof (cases "suffix ''/'' dir")
    case True
    then have "dir = '''' \<or> (\<exists>b. dir = b @ [slash])" by (auto simp: suffix_def)
    from locate_last[OF wd assms(3) this] show ?thesis using True
      by (simp add: joinPath_def loc_def)
  next
    case False
    have c: "split_on slash c = [c]" using assms(3) by (intro split_on_id) (simp add: plain_name_def)
    have "locate (os_cwd s) (dir @ slash # c) = locate (os_cwd s) dir @ filter plain_name [c]"
      by (rule locate_append[OF wd assms(2) _ c]) (use assms(3) in simp)
    then show ?thesis using False assms(3) by (simp add: joinPath_def loc_def)
  qed
qed

text \<open>The outcome of \<open>CreateTemp\<close>: a fresh empty file in the directory, or nothing changed.\<close>

lemma CreateTemp_cases:
  assumes "os_CreateTemp dir pre s = (r, s')"
  obtains e rs where "r = Inl e" "s' = s\<lparr>os_rands := rs\<rparr>"
  | x rs where "r = Inr (joinPath dir (pre @ decimal x))" "osat s (loc s dir) = Some IDir"
      "osat s (loc s dir @ [pre @ decimal x]) = None"
      "s' = write_file (loc s dir @ [pre @ decimal x]) [] (umasked s 0x180) (s\<lparr>os_rands := rs\<rparr>)"
proof (cases "os_fault s SysCreateTemp (loc s dir) = None \<and> look (os_tree s) (loc s dir) = Inr IDir")
  case False
  then have "(\<exists>e. r = Inl e) \<and> s' = s\<lparr>os_rands := os_rands s\<rparr>" using assms
    by (auto simp: os_CreateTemp_def sys_def Let_def split: option.splits if_splits)
  then show ?thesis using that(1) by blast
next
  case True
  let ?free = "\<lambda>r. look (os_tree s) (loc s dir @ [pre @ decimal r]) = Inl ENOENT"
  show ?thesis
  proof (cases "dropWhile (\<lambda>r. \<not> ?free r) (os_rands s)")
    case Nil
    then have "r = Inl (PathError EEXIST dir) \<and> s' = s\<lparr>os_rands := []\<rparr>" using assms True
      by (simp add: os_CreateTemp_def sys_def Let_def del: dropWhile_eq_Nil_conv)
    then show ?thesis using that(1) by blast
  next
    case (Cons x rs)
    then have "?free x"
      using hd_dropWhile[of "\<lambda>r. \<not> ?free r" "os_rands s"] by (simp del: dropWhile_eq_Nil_conv)
    then have "osat s (loc s dir @ [pre @ decimal x]) = None" by (simp add: osat_None)
    moreover have "r = Inr (joinPath dir (pre @ decimal x)) \<and>
       s' = write_file (loc s dir @ [pre @ decimal x]) [] (umasked s 0x180) (s\<lparr>os_rands := rs\<rparr>)"
      using assms True Cons by (simp add: os_CreateTemp_def sys_def Let_def)
    ultimately show ?thesis using that(2) True by (simp add: osat_Some)
  qed
qed

lemma os_keeps_CreateTemp [os_keeps_rule]:
  assumes "slash \<notin> set pre" "2 < length pre"
  shows "os_keeps (os_CreateTemp dir pre)"
proof (rule os_keepsI)
  fix s assume wf: "os_wf s"
  obtain r s' where run: "os_CreateTemp dir pre s = (r, s')" by (cases "os_CreateTemp dir pre s")
  then have "os_wf s' \<and> os_env s' = os_env s"
  proof (cases rule: CreateTemp_cases)
    case (1 e rs)
    then show ?thesis using wf by simp
  next
    case (2 x rs)
    have "os_wf (write_file (loc s dir @ [pre @ decimal x]) [] (umasked s 0x180) (s\<lparr>os_rands := rs\<rparr>))"
      by (rule os_wf_write_file) (use wf 2 loc_plain[OF wf] plain_temp[OF assms] in simp_all)
    then show ?thesis using 2 by simp
  qed
  then show "os_wf (snd (os_CreateTemp dir pre s)) \<and> os_env (snd (os_CreateTemp dir pre s)) = os_env s"
    using run by simp
qed

text \<open>Renaming a file.\<close>

lemma Rename_cases:
  assumes "os_Rename old new s = (r, s')" "osat s (loc s old) = Some (IFile b m)"
  obtains e where "r = Inl e" "s' = s"
  | "r = Inr ()" "loc s new \<noteq> []" "osat s (loc s new) \<noteq> Some IDir"
      "osat s (butlast (loc s new)) = Some IDir"
      "s' = write_file (loc s new) b m (set_tree (graft (os_tree s) (loc s old) None) s)"
proof -
  have n: "namei (os_tree s) (loc s old) = Inr (NFile b m)"
    using assms(2) by (auto simp: osat_Some look_def split: sum.splits elim: info_of.elims)
  show ?thesis
  proof (cases "os_fault s SysRename (loc s new) = None \<and> loc s new \<noteq> [] \<and>
      look (os_tree s) (loc s new) \<noteq> Inr IDir \<and> look (os_tree s) (butlast (loc s new)) = Inr IDir")
    case True
    then show ?thesis using assms(1) n that(2)
      by (simp add: os_Rename_def sys_def osat_Some write_file_def set_tree_def)
  next
    case False
    then have "(\<exists>e. r = Inl e) \<and> s' = s" using assms(1) n
      by (auto simp: os_Rename_def sys_def split: option.splits if_splits)
    then show ?thesis using that(1) by blast
  qed
qed

lemma osat_rename:
  assumes wf: "os_wf s" and old: "osat s q = Some (IFile b m)" and new: "p \<noteq> []" "list_all plain_name p"
    "osat s p \<noteq> Some IDir" "osat s (butlast p) = Some IDir"
    and t: "s' = write_file p b m (set_tree (graft (os_tree s) q None) s)"
  shows "osat s' = (osat s)(q := None, p \<mapsto> IFile b m)" "os_wf s'" "os_env s' = os_env s"
proof -
  let ?s1 = "set_tree (graft (os_tree s) q None) s"
  have q: "q \<noteq> []" using osat_root[OF wf] old by auto
  have s1: "osat ?s1 = (osat s)(q := None)"
    by (rule osat_remove[OF q old]) (rule osat_below_file[OF old], simp)
  have wf1: "os_wf ?s1" by (rule os_wf_remove[OF wf osat_plain[OF wf old]])
  have up: "osat ?s1 (butlast p) = Some IDir" "osat ?s1 p \<noteq> Some IDir"
    using s1 new old by auto
  show "osat s' = (osat s)(q := None, p \<mapsto> IFile b m)"
    unfolding t using osat_write_file[OF new(1) up] s1 by simp
  show "os_wf s'" unfolding t by (rule os_wf_write_file[OF wf1 new(2,1) up])
  show "os_env s' = os_env s" unfolding t by simp
qed

section \<open>What a call that returns has done\<close>

lemma Stat_state [os_law]: "snd (os_Stat p s) = s"
  by (simp add: os_Stat_def sys_def split: option.split sum.split)

lemma Stat_Inr [os_law]: "fst (os_Stat p s) = Inr i \<Longrightarrow> osat s (loc s p) = Some i"
  by (auto simp: os_Stat_def sys_def osat_Some split: option.splits sum.splits)

lemma Stat_IsNotExist [os_law]:
  "fst (os_Stat p s) = Inl e \<Longrightarrow> IsNotExist e \<Longrightarrow> os_wf s \<Longrightarrow> osat s (loc s p) = None"
  by (auto simp: os_Stat_def sys_def osat_None IsNotExist_def os_wf_def
      split: option.splits sum.splits errno.splits)

lemma ReadFile_state [os_law]: "snd (os_ReadFile p s) = s"
  by (simp add: os_ReadFile_def sys_def split: option.split sum.split info.split)

lemma ReadFile_Inr [os_law]:
  "fst (os_ReadFile p s) = Inr b \<Longrightarrow> \<exists>m. osat s (loc s p) = Some (IFile b m)"
  by (auto simp: os_ReadFile_def sys_def osat_Some split: option.splits sum.splits info.splits)

lemma ReadFile_file:
  "osat s (loc s p) = Some (IFile b m) \<Longrightarrow> os_fault s SysRead (loc s p) = None \<Longrightarrow>
   os_ReadFile p s = (Inr b, s)"
  by (simp add: os_ReadFile_def sys_def osat_Some)

lemma MkdirAll_cases:
  assumes "os_MkdirAll p s = (r, s')"
  obtains e where "r = Inl e" "s' = s"
  | "r = Inr ()" "osat s' = (\<lambda>q. if prefix q (loc s p) then Some IDir else osat s q)"
      "os_env s' = os_env s" "os_wf s \<Longrightarrow> os_wf s'"
      "\<And>q i. prefix q (loc s p) \<Longrightarrow> osat s q = Some i \<Longrightarrow> i = IDir"
proof (cases "os_fault s SysMkdir (loc s p) = None \<and> mkdirs (os_tree s) (loc s p) \<noteq> None")
  case False
  then have "(\<exists>e. r = Inl e) \<and> s' = s" using assms
    by (auto simp: os_MkdirAll_def sys_def split: option.splits)
  then show ?thesis using that(1) by blast
next
  case True
  then obtain t where t: "mkdirs (os_tree s) (loc s p) = Some t" by blast
  then have "r = Inr () \<and> s' = set_tree t s" using assms True by (simp add: os_MkdirAll_def sys_def)
  moreover have "i = IDir" if "prefix q (loc s p)" "osat s q = Some i" for q i
    using mkdirs_None_iff[of "os_tree s" "loc s p"] t that by (auto simp: osat_Some)
  ultimately show ?thesis using that(2) osat_mkdirs[OF t] os_wf_mkdirs[OF _ t loc_plain] by auto
qed

text \<open>\<open>MkdirAll\<close> fails only on a fault or on a file above the path.\<close>

lemma MkdirAll_ok:
  assumes "os_fault s SysMkdir (loc s p) = None"
    "\<And>q i. prefix q (loc s p) \<Longrightarrow> osat s q = Some i \<Longrightarrow> i = IDir"
  shows "\<exists>s'. os_MkdirAll p s = (Inr (), s')"
proof -
  have "mkdirs (os_tree s) (loc s p) \<noteq> None"
    using assms(2) by (auto simp: mkdirs_None_iff osat_Some)
  then show ?thesis using assms(1) by (auto simp: os_MkdirAll_def sys_def)
qed

lemma WriteFile_cases:
  assumes wf: "os_wf s" and run: "os_WriteFile p b mode s = (r, s')"
  obtains e where "r = Inl e"
      "osat s' = osat s \<or> (\<exists>b' m. osat s' = (osat s)(loc s p \<mapsto> IFile b' m) \<and> osat s (loc s p) \<noteq> Some IDir)"
  | m where "r = Inr ()" "osat s (loc s p) \<noteq> Some IDir" "osat s (butlast (loc s p)) = Some IDir"
      "m = (case osat s (loc s p) of Some (IFile _ m0) \<Rightarrow> m0 | _ \<Rightarrow> umasked s mode)"
      "osat s' = (osat s)(loc s p \<mapsto> IFile b m)"
proof (cases "os_fault s SysOpen (loc s p)")
  case (Some e)
  then show ?thesis using run that(1) by (auto simp: os_WriteFile_def sys_def)
next
  case None
  show ?thesis
  proof (cases "open_mode s (loc s p) mode")
    case (Inl e)
    then show ?thesis using run None that(1) by (auto simp: os_WriteFile_def sys_def)
  next
    case (Inr m)
    note m = open_mode_Inr[OF wf Inr]
    note w = osat_write_file[OF m(1-3)]
    show ?thesis
    proof (cases "os_fault s SysWrite (loc s p)")
      case (Some e)
      then have "r = Inl (PathError e p) \<and>
          osat s' = (osat s)(loc s p \<mapsto> IFile (take (os_short s) b) m)"
        using run None Inr w by (auto simp: os_WriteFile_def sys_def)
      then show ?thesis using that(1) m(3) by blast
    next
      case N: None
      then have "r = Inr () \<and> osat s' = (osat s)(loc s p \<mapsto> IFile b m)"
        using run None Inr w by (auto simp: os_WriteFile_def sys_def)
      moreover have "m = (case osat s (loc s p) of Some (IFile _ m0) \<Rightarrow> m0 | _ \<Rightarrow> umasked s mode)"
        using m(4) by (simp split: option.splits info.splits)
      ultimately show ?thesis using that(2)[of m] m(2,3) by blast
    qed
  qed
qed

lemma WriteFile_ok:
  assumes "os_fault s SysOpen (loc s p) = None" "os_fault s SysWrite (loc s p) = None"
    "osat s (butlast (loc s p)) = Some IDir" "osat s (loc s p) = None \<or> (\<exists>b' m. osat s (loc s p) = Some (IFile b' m))"
  shows "\<exists>s'. os_WriteFile p b mode s = (Inr (), s')"
proof -
  have "look (os_tree s) (loc s p) = Inl e \<Longrightarrow> e = ENOENT" for e
  proof -
    assume e: "look (os_tree s) (loc s p) = Inl e"
    then have ne: "loc s p \<noteq> []" using assms(3) by (auto simp: osat_Some)
    obtain es where "namei (os_tree s) (butlast (loc s p)) = Inr (NDir es)"
      using look_IDir assms(3) by (auto simp: osat_Some)
    from namei_append[OF this, of "[last (loc s p)]"] e ne show "e = ENOENT"
      by (auto split: option.splits)
  qed
  then have "\<exists>m. open_mode s (loc s p) mode = Inr m"
    using assms(3,4) by (auto simp: open_mode_def osat_Some osat_None)
  then show ?thesis using assms(1,2) by (auto simp: os_WriteFile_def sys_def)
qed

lemma tmp_Write_file:
  assumes wf: "os_wf s" and at: "osat s (loc s p) = Some (IFile b0 m)"
    and run: "tmp_Write p b s = (r, s')"
  obtains e k where "r = Inl e" "osat s' = (osat s)(loc s p \<mapsto> IFile (b0 @ take k b) m)"
      "os_fault s SysWrite (loc s p) \<noteq> None"
  | "r = Inr ()" "osat s' = (osat s)(loc s p \<mapsto> IFile (b0 @ b) m)" "os_fault s SysWrite (loc s p) = None"
proof -
  have ne: "loc s p \<noteq> []" using osat_root[OF wf] at by auto
  note w = osat_write_file[OF ne osat_butlast[OF at ne]]
  show ?thesis
    using run at that w by (cases "os_fault s SysWrite (loc s p)") (auto simp: tmp_Write_def osat_Some)
qed

lemma Close_state [os_law]: "snd (tmp_Close p s) = s"
  by (simp add: tmp_Close_def sys_def split: option.split)

lemma Chmod_file:
  assumes wf: "os_wf s" and at: "osat s (loc s p) = Some (IFile b m)"
    and run: "os_Chmod p mode s = (r, s')"
  obtains e where "r = Inl e" "s' = s" "os_fault s SysChmod (loc s p) \<noteq> None"
  | "r = Inr ()" "osat s' = (osat s)(loc s p \<mapsto> IFile b mode)"
proof -
  have ne: "loc s p \<noteq> []" using osat_root[OF wf] at by auto
  note w = osat_write_file[OF ne osat_butlast[OF at ne]]
  show ?thesis
    using run at that w by (cases "os_fault s SysChmod (loc s p)") (auto simp: os_Chmod_def sys_def osat_Some)
qed

lemma osat_info_of: "namei (os_tree s) q = Inr n \<Longrightarrow> osat s q = Some (info_of n)"
  by (simp add: osat_Some look_def)

lemma Remove_cases:
  assumes wf: "os_wf s" and run: "os_Remove p s = (r, s')"
  obtains e where "r = Inl e" "s' = s" "IsNotExist e \<longrightarrow> osat s (loc s p) = None"
  | i where "r = Inr ()" "osat s (loc s p) = Some i" "loc s p \<noteq> []"
      "i = IDir \<Longrightarrow> \<forall>c q. osat s (loc s p @ c # q) = None"
      "osat s' = (osat s)(loc s p := None)"
proof (cases "os_fault s SysRemove (loc s p)")
  case (Some e)
  then have "\<not> IsNotExist (PathError e p)"
    using wf by (auto simp: IsNotExist_def os_wf_def split: errno.splits)
  moreover have "r = Inl (PathError e p)" "s' = s"
    using Some run by (simp_all add: os_Remove_def sys_def)
  ultimately show ?thesis using that(1)[of "PathError e p"] by blast
next
  case None
  show ?thesis
  proof (cases "namei (os_tree s) (loc s p)")
    case (Inl e)
    then have "osat s (loc s p) = None" by (simp add: osat_None look_def)
    moreover have "r = Inl (PathError e p)" "s' = s"
      using Inl run None by (simp_all add: os_Remove_def sys_def)
    ultimately show ?thesis using that(1)[of "PathError e p"] by blast
  next
    case (Inr n)
    show ?thesis
    proof (cases "loc s p = [] \<or> (\<exists>x xs. n = NDir (x # xs))")
      case True
      then have "s' = s \<and> (r = Inl (PathError EINVAL p) \<or> r = Inl (PathError ENOTEMPTY p))"
        using Inr run None by (auto simp: os_Remove_def sys_def split: if_splits)
      then show ?thesis
        using that(1)[of "PathError EINVAL p"] that(1)[of "PathError ENOTEMPTY p"]
        by (auto simp: IsNotExist_def)
    next
      case False
      then have ne: "loc s p \<noteq> []" by simp
      have below: "osat s (loc s p @ c # q) = None" for c q
      proof -
        have "n = NDir es \<Longrightarrow> es = []" for es using False by (cases es) auto
        then have "\<exists>e. look n (c # q) = Inl e" by (cases n) auto
        then show ?thesis using namei_append[OF Inr, of "c # q"] by (simp add: osat_None)
      qed
      have "r = Inr () \<and> s' = set_tree (graft (os_tree s) (loc s p) None) s"
        using Inr run None False by (auto simp: os_Remove_def sys_def split: node.splits list.splits)
      then show ?thesis using that(2)[OF _ osat_info_of[OF Inr] ne] below
          osat_remove[OF ne osat_info_of[OF Inr] below] by simp
    qed
  qed
qed

lemma Remove_file_ok:
  "osat s (loc s p) = Some (IFile b m) \<Longrightarrow> loc s p \<noteq> [] \<Longrightarrow> os_fault s SysRemove (loc s p) = None \<Longrightarrow>
   \<exists>s'. os_Remove p s = (Inr (), s')"
  by (auto simp: os_Remove_def sys_def osat_Some look_def split: sum.splits elim!: info_of.elims)

lemma RemoveAll_Inr:
  assumes run: "os_RemoveAll p s = (Inr (), s')"
  shows "osat s' = (\<lambda>q. if prefix (loc s p) q then None else osat s q)"
proof (cases "look (os_tree s) (loc s p)")
  case (Inl e)
  then have "s' = s" using run by (auto simp: os_RemoveAll_def sys_def split: option.splits if_splits)
  moreover have "osat s (loc s p @ q) = None" for q
    using look_ENOENT_below[OF Inl, of q] by (simp add: osat_None)
  ultimately show ?thesis by (intro ext) (auto simp: prefix_def)
next
  case (Inr i)
  then have s': "s' = set_tree (graft (os_tree s) (loc s p) None) s" "loc s p \<noteq> []"
    using run by (auto simp: os_RemoveAll_def sys_def split: option.splits if_splits)
  have "osat s (loc s p) = Some i" using Inr by (simp add: osat_Some)
  from osat_butlast[OF this s'(2)] have "look (os_tree s) (butlast (loc s p)) = Inr IDir"
    by (simp add: osat_Some)
  from look_graft[OF s'(2) this, of None] show ?thesis
    unfolding s' by (intro ext) (simp add: osat_def set_tree_def)
qed

section \<open>SafeJoin in a process\<close>

definition SafeJoin_os :: "string \<Rightarrow> string \<Rightarrow> (os, string) prog" where
  "SafeJoin_os root rel = readE (\<lambda>s. SafeJoin (Inr (os_cwd s)) root rel)"

lemma SafeJoin_os_state [os_law]: "snd (SafeJoin_os root rel s) = s"
  by (simp add: SafeJoin_os_def)

lemma os_keeps_SafeJoin [os_keeps_rule]: "os_keeps (SafeJoin_os root rel)"
  unfolding SafeJoin_os_def by (rule os_keeps_ret)

lemma SafeJoin_os_Inr:
  assumes "os_wf s" "SafeJoin_os root rel s = (Inr p, s')"
  shows "s' = s" "loc s p = loc s root @ path_comps rel" "list_all plain_name (path_comps rel)"
    "path_comps rel \<noteq> [] \<Longrightarrow> loc s (Dir p) = loc s root @ butlast (path_comps rel)"
    "p = Join [root, Clean rel]" "\<not> IsAbs rel"
proof -
  have wd: "IsAbs (os_cwd s)" using assms(1) by (simp add: os_wf_def)
  have sj: "SafeJoin (Inr (os_cwd s)) root rel = Inr p" and s': "s' = s"
    using assms(2) by (auto simp: SafeJoin_os_def)
  from sj have rel: "\<not> IsAbs rel" "\<not> escapes rel" and p: "p = Join [root, Clean rel]"
    by (auto simp: SafeJoin_eval[OF wd] split: if_splits)
  have pl: "list_all plain_name (path_comps rel)" by (rule not_escapes_plain[OF rel])
  show "s' = s" by (rule s')
  show "loc s p = loc s root @ path_comps rel"
    using locate_Join[OF wd rel(1) pl] by (simp add: loc_def p)
  show "list_all plain_name (path_comps rel)" by (rule pl)
  show "loc s (Dir p) = loc s root @ butlast (path_comps rel)" if "path_comps rel \<noteq> []"
    using locate_Dir_Join[OF wd rel(1) pl that] by (simp add: loc_def p)
  show "p = Join [root, Clean rel]" "\<not> IsAbs rel" by (rule p, rule rel(1))
qed

text \<open>The parent of a path that stands for the root itself.\<close>

lemma loc_Dir_root:
  assumes "os_wf s" "IsAbs root" "\<not> IsAbs rel" "path_comps rel = []"
  shows "loc s (Dir (Join [root, Clean rel])) = butlast (loc s root)"
proof -
  have wd: "IsAbs (os_cwd s)" using assms(1) by (simp add: os_wf_def)
  have r: "root \<noteq> ''''" using assms(2) by auto
  have c: "Clean rel = ''.''" using assms(3,4) by (simp add: Clean_def)
  have j: "Join [root, Clean rel] = Clean (root @ slash # ''.'')" using r by (simp add: Join2 c)
  have pc: "path_comps (root @ slash # ''.'') = path_comps root"
    by (simp add: path_comps_append r)
  have loc: "loc s root = path_comps root" using assms(2) by (simp add: loc_def locate_def)
  show ?thesis
  proof (cases "path_comps root" rule: rev_cases)
    case Nil
    then have "Join [root, Clean rel] = ''/''"
      using j pc assms(2) r by (simp add: Clean_def IsAbs_append)
    moreover have "locate (os_cwd s) (Dir ''/'') = []"
      by (simp add: Dir_def Clean_def path_comps_def locate_def)
    ultimately show ?thesis using loc Nil by (simp add: loc_def)
  next
    case (snoc xs c)
    have pl: "plain_name c" using path_comps_plain[OF assms(2)] snoc by simp
    have "locate (os_cwd s) (Dir (Clean (root @ slash # ''.''))) =
        butlast (locate (os_cwd s) (Clean (root @ slash # ''.'')))"
      by (rule locate_Dir_Clean[OF wd _ pl]) (use pc snoc in simp)
    also have "locate (os_cwd s) (Clean (root @ slash # ''.'')) = loc s root"
      using pc loc assms(2) r by (simp add: locate_Clean[OF wd] locate_def IsAbs_append)
    finally show ?thesis using j by (simp add: loc_def)
  qed
qed

text \<open>Creating the directories above a joined path adds directories above it, nothing else.\<close>

lemma prefix_butlast: "p \<noteq> [] \<Longrightarrow> prefix q (butlast p) \<longleftrightarrow> strict_prefix q p"
  by (cases p rule: rev_cases) (auto simp: strict_prefix_def dest: prefix_length_le)

lemma above_or_below:
  "prefix q (r @ x) \<Longrightarrow> \<not> strict_prefix r q \<Longrightarrow> prefix q r"
  by (metis prefix_append prefix_order.le_less prefix_same_cases strict_prefix_def prefixI)

lemma MkdirAll_parent:
  assumes wf: "os_wf s" and root: "osat s (loc s root) = Some IDir" "IsAbs root"
    and sj: "SafeJoin_os root rel s = (Inr dst, s)" and mk: "os_MkdirAll (Dir dst) s = (Inr (), s1)"
  shows "osat s1 = (\<lambda>q. if strict_prefix q (loc s root @ path_comps rel) then Some IDir else osat s q)"
    "\<And>q. \<not> strict_prefix (loc s root) q \<Longrightarrow> osat s1 q = osat s q"
    "os_wf s1" "os_env s1 = os_env s"
    "\<And>q i. strict_prefix q (loc s root @ path_comps rel) \<Longrightarrow> osat s q = Some i \<Longrightarrow> i = IDir"
proof -
  let ?R = "loc s root" and ?q = "path_comps rel"
  note dst = SafeJoin_os_Inr[OF wf sj]
  have above: "osat s q = Some IDir" if "strict_prefix q ?R" for q
    by (rule osat_above[OF root(1) that])
  have mk1: "osat s1 = (\<lambda>q. if prefix q (loc s (Dir dst)) then Some IDir else osat s q)"
    "os_env s1 = os_env s" "os_wf s1"
    "\<And>q i. prefix q (loc s (Dir dst)) \<Longrightarrow> osat s q = Some i \<Longrightarrow> i = IDir"
    by (rule MkdirAll_cases[OF mk]; use wf in blast)+
  show "os_env s1 = os_env s" "os_wf s1" by (rule mk1(2), rule mk1(3))
  show "i = IDir" if "strict_prefix q (?R @ ?q)" "osat s q = Some i" for q i
  proof (cases "?q = []")
    case True
    then show ?thesis using that above by simp
  next
    case False
    then have "loc s (Dir dst) = butlast (?R @ ?q)" using dst(4) by (simp add: butlast_append)
    then show ?thesis using mk1(4) that prefix_butlast[of "?R @ ?q" q] False by simp
  qed
  show s1: "osat s1 = (\<lambda>q. if strict_prefix q (?R @ ?q) then Some IDir else osat s q)"
  proof (cases "?q = []")
    case True
    then have d: "loc s (Dir dst) = butlast ?R"
      using loc_Dir_root[OF wf root(2) dst(6)] dst(5) by simp
    have "osat s1 q = osat s q" for q
    proof (cases "prefix q (butlast ?R)")
      case p: True
      then have "strict_prefix q ?R \<or> q = ?R"
        by (cases "?R = []") (auto simp: prefix_butlast)
      then show ?thesis using above[of q] root(1) mk1(1) p d by auto
    qed (use mk1(1) d in simp)
    then show ?thesis using True above by (auto simp: fun_eq_iff)
  next
    case False
    then have "loc s (Dir dst) = butlast (?R @ ?q)" using dst(4) by (simp add: butlast_append)
    moreover have "prefix q (butlast (?R @ ?q)) \<longleftrightarrow> strict_prefix q (?R @ ?q)" for q
      using False by (simp add: prefix_butlast)
    ultimately show ?thesis using mk1(1) by simp
  qed
  fix q assume out: "\<not> strict_prefix ?R q"
  show "osat s1 q = osat s q"
  proof (cases "strict_prefix q (?R @ ?q)")
    case True
    then have "prefix q (?R @ ?q)" by (simp add: strict_prefix_def)
    then have "prefix q ?R" by (rule above_or_below[OF _ out])
    then show ?thesis using s1 True above[of q] root(1) by (cases "q = ?R") auto
  qed (use s1 in simp)
qed

section \<open>Symbolic links\<close>

text \<open>No symbolic link, and no device, is at a path, on the way to it or below it. The laws above are
  those of the real calls only where that is so: the calls follow links, those of the model do not.\<close>

definition no_links :: "os \<Rightarrow> string \<Rightarrow> bool" where
  "no_links s p \<longleftrightarrow> (\<forall>q. osat s q = Some IOther \<longrightarrow> \<not> prefix q (loc s p) \<and> \<not> prefix (loc s p) q)"

text \<open>A tree without any.\<close>

fun linkless :: "node \<Rightarrow> bool"
  and linkless_entries :: "(string \<times> node) list \<Rightarrow> bool" where
  "linkless (NFile b m) = True"
| "linkless (NDir es) = linkless_entries es"
| "linkless NOther = False"
| "linkless_entries [] = True"
| "linkless_entries ((c, n) # es) = (linkless n \<and> linkless_entries es)"

lemma linkless_entries_iff: "linkless_entries es \<longleftrightarrow> (\<forall>(c, n) \<in> set es. linkless n)"
  by (induction es) auto

lemma linkless_look: "linkless t \<Longrightarrow> look t q \<noteq> Inr IOther"
proof (induction q arbitrary: t)
  case Nil
  then show ?case by (cases t) auto
next
  case (Cons c q)
  then show ?case by (cases t) (auto simp: linkless_entries_iff split: option.splits dest!: map_of_SomeD)
qed

lemma linkless_no_links: "linkless (os_tree s) \<Longrightarrow> no_links s p"
  using linkless_look by (auto simp: no_links_def osat_Some)

end
