(* ===== verification/Hashing.thy ===== *)
theory Hashing
  imports Prelude
begin

text \<open>
  \<^verbatim>\<open>HashContent\<close> of \<^verbatim>\<open>internal/fsutil/fsutil.go\<close> and \<^verbatim>\<open>validHash\<close> of
  \<^verbatim>\<open>internal/adapters/workspace/fsstore/blobstore.go\<close>: the lowercase hexadecimal SHA-256
  of a file's content, which names it everywhere in the program. \<^verbatim>\<open>crypto/sha256\<close> and
  \<^verbatim>\<open>encoding/hex\<close> are written out (FIPS 180-4), so hashes compute.
\<close>

section \<open>SHA-256\<close>

type_synonym u32 = "32 word"

definition sha_k :: "u32 list" where
  "sha_k =
    [1116352408, 1899447441, 3049323471, 3921009573, 961987163, 1508970993, 2453635748, 2870763221,
     3624381080, 310598401, 607225278, 1426881987, 1925078388, 2162078206, 2614888103, 3248222580,
     3835390401, 4022224774, 264347078, 604807628, 770255983, 1249150122, 1555081692, 1996064986,
     2554220882, 2821834349, 2952996808, 3210313671, 3336571891, 3584528711, 113926993, 338241895,
     666307205, 773529912, 1294757372, 1396182291, 1695183700, 1986661051, 2177026350, 2456956037,
     2730485921, 2820302411, 3259730800, 3345764771, 3516065817, 3600352804, 4094571909, 275423344,
     430227734, 506948616, 659060556, 883997877, 958139571, 1322822218, 1537002063, 1747873779,
     1955562222, 2024104815, 2227730452, 2361852424, 2428436474, 2756734187, 3204031479, 3329325298]"

datatype sha_state = Sha u32 u32 u32 u32 u32 u32 u32 u32

definition sha_init :: sha_state where
  "sha_init = Sha 1779033703 3144134277 1013904242 2773480762 1359893119 2600822924 528734635 1541459225"

text \<open>Padding: a one bit, zeros, and the length in bits, to a multiple of 64 bytes.\<close>

definition sha_pad :: "bytes \<Rightarrow> bytes" where
  "sha_pad m =
     m @ [0x80] @ replicate ((119 - length m mod 64) mod 64) 0 @
     be_bytes 8 (of_nat (8 * length m) :: 64 word)"

function chunks :: "nat \<Rightarrow> 'a list \<Rightarrow> 'a list list" where
  "chunks n xs = (if xs = [] \<or> n = 0 then [] else take n xs # chunks n (drop n xs))"
  by pat_completeness auto
termination
  by (relation "measure (\<lambda>(n, xs). length xs)") auto

declare chunks.simps [simp del]

text \<open>The message schedule, newest word first.\<close>

definition sha_next :: "u32 list \<Rightarrow> u32 list" where
  "sha_next ws =
     (let x = ws ! 1; y = ws ! 14;
          s1 = word_rotr 17 x XOR word_rotr 19 x XOR drop_bit 10 x;
          s0 = word_rotr 7 y XOR word_rotr 18 y XOR drop_bit 3 y
      in (s1 + ws ! 6 + s0 + ws ! 15) # ws)"

definition sha_schedule :: "bytes \<Rightarrow> u32 list" where
  "sha_schedule block = rev ((sha_next ^^ 48) (rev (map of_be_bytes (chunks 4 block))))"

fun sha_round :: "sha_state \<Rightarrow> u32 \<times> u32 \<Rightarrow> sha_state" where
  "sha_round (Sha a b c d e f g h) (k, w) =
     (let S1 = word_rotr 6 e XOR word_rotr 11 e XOR word_rotr 25 e;
          ch = (e AND f) XOR (NOT e AND g);
          t1 = h + S1 + ch + k + w;
          S0 = word_rotr 2 a XOR word_rotr 13 a XOR word_rotr 22 a;
          maj = (a AND b) XOR (a AND c) XOR (b AND c)
      in Sha (t1 + S0 + maj) a b c (d + t1) e f g)"

fun sha_add :: "sha_state \<Rightarrow> sha_state \<Rightarrow> sha_state" where
  "sha_add (Sha a b c d e f g h) (Sha a' b' c' d' e' f' g' h') =
     Sha (a + a') (b + b') (c + c') (d + d') (e + e') (f + f') (g + g') (h + h')"

definition sha_block :: "sha_state \<Rightarrow> bytes \<Rightarrow> sha_state" where
  "sha_block st block = sha_add st (foldl sha_round st (zip sha_k (sha_schedule block)))"

fun sha_bytes :: "sha_state \<Rightarrow> bytes" where
  "sha_bytes (Sha a b c d e f g h) = concat (map (be_bytes 4) [a, b, c, d, e, f, g, h])"

definition sha256 :: "bytes \<Rightarrow> bytes" where
  "sha256 m = sha_bytes (foldl sha_block sha_init (chunks 64 (sha_pad m)))"

section \<open>Hex encoding and HashContent\<close>

definition hex_digits :: string where
  "hex_digits = ''0123456789abcdef''"

definition hex_encode :: "bytes \<Rightarrow> string" where
  "hex_encode b =
     concat (map (\<lambda>x. [hex_digits ! unat (drop_bit 4 x), hex_digits ! unat (x AND 15)]) b)"

definition HashContent :: "bytes \<Rightarrow> string" where
  "HashContent b = hex_encode (sha256 b)"

definition validHash :: "string \<Rightarrow> bool" where
  "validHash h \<longleftrightarrow>
     length h = 64 \<and>
     (\<forall>c \<in> set h. (CHR ''0'' \<le> c \<and> c \<le> CHR ''9'') \<or> (CHR ''a'' \<le> c \<and> c \<le> CHR ''f''))"

section \<open>Every content hash is a valid hash\<close>

lemma length_sha256 [simp]: "length (sha256 m) = 32"
  unfolding sha256_def by (cases "foldl sha_block sha_init (chunks 64 (sha_pad m))") simp

lemma length_hex_encode [simp]: "length (hex_encode b) = 2 * length b"
  by (induction b) (auto simp: hex_encode_def)

lemma hex_digit_nibble: "unat (x AND 15 :: byte) < 16" "unat (drop_bit 4 x :: byte) < 16"
proof -
  have "unat (x AND 15) \<le> unat (15 :: byte)"
    by (rule word_and_le1 [THEN word_le_nat_alt [THEN iffD1]])
  then show "unat (x AND 15 :: byte) < 16" by simp
  have "unat x < 256" using unsigned_less[of x] by simp
  then show "unat (drop_bit 4 x :: byte) < 16"
    by (simp only: unat_drop_bit_eq) (simp add: drop_bit_eq_div)
qed

lemma hex_digits_valid:
  "n < 16 \<Longrightarrow>
   (CHR ''0'' \<le> hex_digits ! n \<and> hex_digits ! n \<le> CHR ''9'') \<or>
   (CHR ''a'' \<le> hex_digits ! n \<and> hex_digits ! n \<le> CHR ''f'')"
proof -
  have "\<forall>c \<in> set hex_digits. (CHR ''0'' \<le> c \<and> c \<le> CHR ''9'') \<or> (CHR ''a'' \<le> c \<and> c \<le> CHR ''f'')"
    by code_simp
  moreover assume "n < 16"
  then have "hex_digits ! n \<in> set hex_digits" by (intro nth_mem) (simp add: hex_digits_def)
  ultimately show ?thesis by blast
qed

lemma set_hex_encode:
  assumes "c \<in> set (hex_encode b)"
  shows "(CHR ''0'' \<le> c \<and> c \<le> CHR ''9'') \<or> (CHR ''a'' \<le> c \<and> c \<le> CHR ''f'')"
proof -
  obtain n where "n < 16" "c = hex_digits ! n"
    using assms hex_digit_nibble by (auto simp: hex_encode_def)
  then show ?thesis using hex_digits_valid by blast
qed

lemma validHash_HashContent [simp]: "validHash (HashContent b)"
  using set_hex_encode by (simp add: validHash_def HashContent_def)

lemma HashContent_not_Nil [simp]: "HashContent b \<noteq> ''''"
  using length_hex_encode[of "sha256 b"] unfolding HashContent_def by fastforce


end
