(* ===== verification/BlobStore.thy ===== *)
theory BlobStore
  imports OsLaws Hashing
begin

text \<open>
  The driven port \<^verbatim>\<open>BlobStore\<close> of \<^verbatim>\<open>internal/core/ports/ports.go\<close>: the interface
  through which the session service and the workspace reach the store. The port is a record
  of its three methods; the locale \<open>blob_store\<close> states what the clients rely on, in terms
  of the content \<open>held\<close> for each hash, and holds the facts the clients share.
\<close>

record 's BlobStorePort =
  Has :: "string \<Rightarrow> ('s, bool) prog"
  Put :: "string \<Rightarrow> bytes \<Rightarrow> ('s, unit) prog"
  Get :: "string \<Rightarrow> ('s, bytes) prog"

locale blob_store =
  fixes port :: "'s BlobStorePort"
    and inv :: "'s \<Rightarrow> bool"
    and held :: "'s \<Rightarrow> string \<rightharpoonup> bytes"
  assumes has_state: "snd (Has port h s) = s"
    and has_ok: "inv s \<Longrightarrow> fst (Has port h s) = Inr b \<Longrightarrow> b \<longleftrightarrow> held s h \<noteq> None"
    and put_ok: "inv s \<Longrightarrow> Put port h c s = (Inr u, s') \<Longrightarrow>
      inv s' \<and> held s' = (held s)(h \<mapsto> c) \<and> HashContent c = h"
    and put_err: "inv s \<Longrightarrow> Put port h c s = (Inl e, s') \<Longrightarrow> inv s' \<and> held s' = held s"
    and get_state: "snd (Get port h s) = s"
    and get_ok: "inv s \<Longrightarrow> fst (Get port h s) = Inr c \<Longrightarrow> held s h = Some c"
    and held_hash: "inv s \<Longrightarrow> held s h = Some c \<Longrightarrow> HashContent c = h"
begin

lemma put_inv:
  assumes "inv s"
  shows "inv (snd (Put port h c s))"
proof (cases rule: progE_cases[of "Put port h c" s])
  case (err e s')
  then show ?thesis using put_err[OF assms err] by simp
next
  case (ok a s')
  then show ?thesis using put_ok[OF assms ok] by simp
qed

text \<open>A hash once held stays held, by content with that hash.\<close>

lemma put_keeps:
  assumes "inv s" "held s h = Some c"
  shows "\<exists>c'. held (snd (Put port h' d s)) h = Some c' \<and> HashContent c' = h"
proof (cases rule: progE_cases[of "Put port h' d" s])
  case (err e s')
  then show ?thesis using put_err[OF assms(1) err] assms held_hash by auto
next
  case (ok a s')
  then show ?thesis using put_ok[OF assms(1) ok] assms held_hash by (cases "h = h'") auto
qed

text \<open>An upload: a sequence of puts, stopping at the first error.\<close>

definition upload :: "(string \<times> bytes) list \<Rightarrow> ('s, unit) prog" where
  "upload xs = forE xs (\<lambda>(h, c). Put port h c)"

lemma upload_ok:
  "inv s \<Longrightarrow> upload xs s = (Inr (), s') \<Longrightarrow>
   inv s' \<and> (\<forall>(h, c) \<in> set xs. HashContent c = h) \<and> held s' = held s ++ map_of (rev xs)"
proof (induction xs arbitrary: s)
  case Nil
  then show ?case by (simp add: upload_def)
next
  case (Cons x xs)
  obtain h c where x: "x = (h, c)" by (cases x)
  obtain s1 where p: "Put port h c s = (Inr (), s1)" and r: "upload xs s1 = (Inr (), s')"
    using Cons.prems(2) x by (auto simp: upload_def bindE_Inr_iff)
  note p1 = put_ok[OF Cons.prems(1) p]
  note IH = Cons.IH[OF _ r]
  have "held s' = held s ++ map_of (rev (x # xs))"
    using IH p1 x by (auto simp: fun_eq_iff map_add_def split: option.splits)
  then show ?case using IH p1 x by auto
qed

lemma upload_get:
  assumes "inv s" "upload xs s = (Inr (), s')" "h \<in> fst ` set xs" "fst (Get port h s') = Inr c"
  shows "HashContent c = h \<and> (h, c) \<in> set xs"
proof -
  note up = upload_ok[OF assms(1,2)]
  have "held s' h = Some c" using get_ok up assms(4) by blast
  moreover have "map_of (rev xs) h \<noteq> None" using assms(3) by (simp add: map_of_eq_None_iff)
  ultimately have "map_of (rev xs) h = Some c" using up by (auto simp: map_add_def split: option.splits)
  then show ?thesis using map_of_SomeD[of "rev xs" h c] up by auto
qed

end

end
