(* ===== verification/Json.thy ===== *)
theory Json
  imports Prelude "HOL-Library.Sublist"
begin

text \<open>
  What the program uses of Go's \<^verbatim>\<open>encoding/json\<close>: the scanner that validates a
  document and finds the extent of every value, the quoting and unquoting of strings (with
  Go's HTML escaping, its replacement of invalid UTF-8, and surrogate pairs), decimal
  integers, the compaction of raw messages, and the decoding of an object into a struct (field
  names compared without case, unknown fields skipped, later fields overwriting earlier ones,
  type errors remembered while decoding goes on). A document is a string of bytes.
\<close>

section \<open>Characters\<close>

abbreviation quoteC :: char where "quoteC \<equiv> CHR 0x22"
abbreviation bslash :: char where "bslash \<equiv> CHR 0x5C"
abbreviation lbrace :: char where "lbrace \<equiv> CHR 0x7B"
abbreviation rbrace :: char where "rbrace \<equiv> CHR 0x7D"
abbreviation lbrack :: char where "lbrack \<equiv> CHR 0x5B"
abbreviation rbrack :: char where "rbrack \<equiv> CHR 0x5D"
abbreviation comma :: char where "comma \<equiv> CHR 0x2C"
abbreviation colon :: char where "colon \<equiv> CHR 0x3A"

definition code :: "char \<Rightarrow> nat" where
  "code c = of_char c"

definition is_ws :: "char \<Rightarrow> bool" where
  "is_ws c \<longleftrightarrow> c = CHR 0x20 \<or> c = CHR 0x09 \<or> c = CHR 0x0A \<or> c = CHR 0x0D"

definition is_digit :: "char \<Rightarrow> bool" where
  "is_digit c \<longleftrightarrow> 48 \<le> code c \<and> code c \<le> 57"

definition hex_val :: "char \<Rightarrow> nat option" where
  "hex_val c =
     (if is_digit c then Some (code c - 48)
      else if 97 \<le> code c \<and> code c \<le> 102 then Some (code c - 87)
      else if 65 \<le> code c \<and> code c \<le> 70 then Some (code c - 55)
      else None)"

definition hex_digit :: "nat \<Rightarrow> char" where
  "hex_digit n = char_of (if n < 10 then 48 + n else 87 + n)"

section \<open>The scanner\<close>

definition skip_ws :: "string \<Rightarrow> string" where
  "skip_ws s = dropWhile is_ws s"

text \<open>The rest after a string whose opening quote has been read.\<close>

fun skip_string :: "string \<Rightarrow> string option" where
  "skip_string [] = None"
| "skip_string (c # s) =
     (if c = quoteC then Some s
      else if c = bslash then
        (case s of
           [] \<Rightarrow> None
         | e # t \<Rightarrow>
             if e \<in> set ''bfnrt/'' \<or> e = bslash \<or> e = quoteC then skip_string t
             else if e = CHR ''u'' then
               (case t of
                  h1 # h2 # h3 # h4 # r \<Rightarrow>
                    if hex_val h1 \<noteq> None \<and> hex_val h2 \<noteq> None \<and> hex_val h3 \<noteq> None \<and> hex_val h4 \<noteq> None
                    then skip_string r else None
                | _ \<Rightarrow> None)
             else None)
      else if code c < 32 then None
      else skip_string s)"

definition skip_digits :: "string \<Rightarrow> string" where
  "skip_digits s = dropWhile is_digit s"

definition skip_int :: "string \<Rightarrow> string option" where
  "skip_int s =
     (case s of
        [] \<Rightarrow> None
      | c # t \<Rightarrow> if c = CHR ''0'' then Some t else if is_digit c then Some (skip_digits t) else None)"

definition skip_digits1 :: "string \<Rightarrow> string option" where
  "skip_digits1 s =
     (case s of [] \<Rightarrow> None | c # t \<Rightarrow> if is_digit c then Some (skip_digits t) else None)"

definition skip_frac :: "string \<Rightarrow> string option" where
  "skip_frac s = (case s of [] \<Rightarrow> Some s | c # t \<Rightarrow> if c = CHR ''.'' then skip_digits1 t else Some s)"

definition skip_exp :: "string \<Rightarrow> string option" where
  "skip_exp s =
     (case s of
        [] \<Rightarrow> Some s
      | c # t \<Rightarrow>
          if c = CHR ''e'' \<or> c = CHR ''E'' then
            (case t of
               [] \<Rightarrow> None
             | d # u \<Rightarrow> if d = CHR ''+'' \<or> d = CHR ''-'' then skip_digits1 u else skip_digits1 t)
          else Some s)"

definition skip_number :: "string \<Rightarrow> string option" where
  "skip_number s =
     Option.bind (skip_int (case s of [] \<Rightarrow> s | c # t \<Rightarrow> if c = CHR ''-'' then t else s)) (\<lambda>r.
     Option.bind (skip_frac r) skip_exp)"

definition skip_lit :: "string \<Rightarrow> string \<Rightarrow> string option" where
  "skip_lit lit s = (if prefix lit s then Some (drop (length lit) s) else None)"

text \<open>
  The rest after one value. The first argument is fuel (more than the length of the text is
  enough), the second the nesting depth still allowed.
\<close>

fun skip_value :: "nat \<Rightarrow> nat \<Rightarrow> string \<Rightarrow> string option"
  and skip_elems :: "nat \<Rightarrow> nat \<Rightarrow> string \<Rightarrow> string option"
  and skip_members :: "nat \<Rightarrow> nat \<Rightarrow> string \<Rightarrow> string option" where
  "skip_value 0 d s = None"
| "skip_value (Suc n) d s =
     (case skip_ws s of
        [] \<Rightarrow> None
      | c # t \<Rightarrow>
          if c = quoteC then skip_string t
          else if c = lbrace then
            (if d = 0 then None
             else (case skip_ws t of
                     [] \<Rightarrow> None
                   | e # r \<Rightarrow> if e = rbrace then Some r else skip_members n (d - 1) t))
          else if c = lbrack then
            (if d = 0 then None
             else (case skip_ws t of
                     [] \<Rightarrow> None
                   | e # r \<Rightarrow> if e = rbrack then Some r else skip_elems n (d - 1) t))
          else if c = CHR ''t'' then skip_lit ''rue'' t
          else if c = CHR ''f'' then skip_lit ''alse'' t
          else if c = CHR ''n'' then skip_lit ''ull'' t
          else skip_number (c # t))"
| "skip_elems 0 d s = None"
| "skip_elems (Suc n) d s =
     (case skip_value n d s of
        None \<Rightarrow> None
      | Some r \<Rightarrow>
          (case skip_ws r of
             [] \<Rightarrow> None
           | c # t \<Rightarrow> if c = comma then skip_elems n d t else if c = rbrack then Some t else None))"
| "skip_members 0 d s = None"
| "skip_members (Suc n) d s =
     (case skip_ws s of
        [] \<Rightarrow> None
      | q # t \<Rightarrow>
          if q \<noteq> quoteC then None
          else (case skip_string t of
             None \<Rightarrow> None
           | Some r \<Rightarrow>
               (case skip_ws r of
                  [] \<Rightarrow> None
                | c # u \<Rightarrow>
                    if c \<noteq> colon then None
                    else (case skip_value n d u of
                       None \<Rightarrow> None
                     | Some r2 \<Rightarrow>
                         (case skip_ws r2 of
                            [] \<Rightarrow> None
                          | e # v \<Rightarrow>
                              if e = comma then skip_members n d v
                              else if e = rbrace then Some v else None)))))"

definition max_depth :: nat where
  "max_depth = 10000"

definition skip_one :: "string \<Rightarrow> string option" where
  "skip_one s = skip_value (Suc (length s)) max_depth s"

definition json_valid :: "string \<Rightarrow> bool" where
  "json_valid s = (case skip_one s of None \<Rightarrow> False | Some r \<Rightarrow> skip_ws r = [])"

text \<open>The text of the value at the front, and what follows it.\<close>

definition take_value :: "string \<Rightarrow> (string \<times> string) option" where
  "take_value s =
     (let v = skip_ws s in
      case skip_one v of None \<Rightarrow> None | Some r \<Rightarrow> Some (take (length v - length r) v, r))"

text \<open>The members of an object and the elements of an array, as raw texts.\<close>

fun members :: "nat \<Rightarrow> string \<Rightarrow> (string \<times> string) list option" where
  "members 0 s = None"
| "members (Suc n) s =
     (case skip_ws s of
        [] \<Rightarrow> None
      | q # t \<Rightarrow>
          if q \<noteq> quoteC then None
          else (case skip_string t of
             None \<Rightarrow> None
           | Some r \<Rightarrow>
               (case skip_ws r of
                  [] \<Rightarrow> None
                | c # u \<Rightarrow>
                    if c \<noteq> colon then None
                    else (case take_value u of
                       None \<Rightarrow> None
                     | Some (v, r2) \<Rightarrow>
                         (case skip_ws r2 of
                            [] \<Rightarrow> None
                          | e # w \<Rightarrow>
                              if e = comma
                              then map_option (Cons (take (length t - length r - 1) t, v)) (members n w)
                              else if e = rbrace
                              then Some [(take (length t - length r - 1) t, v)] else None)))))"

definition obj_fields :: "string \<Rightarrow> (string \<times> string) list option" where
  "obj_fields s =
     (case skip_ws s of
        [] \<Rightarrow> None
      | c # t \<Rightarrow>
          if c \<noteq> lbrace then None
          else (case skip_ws t of
             [] \<Rightarrow> None
           | e # r \<Rightarrow> if e = rbrace then Some [] else members (Suc (length t)) t))"

fun elements :: "nat \<Rightarrow> string \<Rightarrow> string list option" where
  "elements 0 s = None"
| "elements (Suc n) s =
     (case take_value s of
        None \<Rightarrow> None
      | Some (v, r) \<Rightarrow>
          (case skip_ws r of
             [] \<Rightarrow> None
           | c # t \<Rightarrow>
               if c = comma then map_option (Cons v) (elements n t)
               else if c = rbrack then Some [v] else None))"

definition arr_elems :: "string \<Rightarrow> string list option" where
  "arr_elems s =
     (case skip_ws s of
        [] \<Rightarrow> None
      | c # t \<Rightarrow>
          if c \<noteq> lbrack then None
          else (case skip_ws t of
             [] \<Rightarrow> None
           | e # r \<Rightarrow> if e = rbrack then Some [] else elements (Suc (length t)) t))"

section \<open>Strings\<close>

definition cont :: "char \<Rightarrow> bool" where
  "cont c \<longleftrightarrow> 0x80 \<le> code c \<and> code c \<le> 0xBF"

text \<open>
  The length of the UTF-8 sequence at the front of a non-empty text, 0 if there is no valid
  one: the acceptance table of \<^verbatim>\<open>unicode/utf8\<close>.
\<close>

definition utf8_len :: "string \<Rightarrow> nat" where
  "utf8_len s =
     (case s of
        [] \<Rightarrow> 0
      | a # t \<Rightarrow>
          if code a < 0x80 then 1
          else if 0xC2 \<le> code a \<and> code a \<le> 0xDF then
            (case t of b # _ \<Rightarrow> if cont b then 2 else 0 | _ \<Rightarrow> 0)
          else if 0xE0 \<le> code a \<and> code a \<le> 0xEF then
            (case t of
               b # c # _ \<Rightarrow>
                 if cont b \<and> (code a = 0xE0 \<longrightarrow> 0xA0 \<le> code b) \<and> (code a = 0xED \<longrightarrow> code b \<le> 0x9F) \<and> cont c
                 then 3 else 0
             | _ \<Rightarrow> 0)
          else if 0xF0 \<le> code a \<and> code a \<le> 0xF4 then
            (case t of
               b # c # d # _ \<Rightarrow>
                 if cont b \<and> (code a = 0xF0 \<longrightarrow> 0x90 \<le> code b) \<and> (code a = 0xF4 \<longrightarrow> code b \<le> 0x8F) \<and>
                    cont c \<and> cont d
                 then 4 else 0
             | _ \<Rightarrow> 0)
          else 0)"

text \<open>The bytes of U+FFFD, and whether a text starts with U+2028 or U+2029.\<close>

definition replacement :: string where
  "replacement = [CHR 0xEF, CHR 0xBF, CHR 0xBD]"

definition line_sep :: "string \<Rightarrow> bool" where
  "line_sep s \<longleftrightarrow> prefix [CHR 0xE2, CHR 0x80, CHR 0xA8] s \<or> prefix [CHR 0xE2, CHR 0x80, CHR 0xA9] s"

definition u00 :: "char \<Rightarrow> string" where
  "u00 c = bslash # ''u00'' @ [hex_digit (code c div 16), hex_digit (code c mod 16)]"

definition html_char :: "char \<Rightarrow> bool" where
  "html_char c \<longleftrightarrow> c = CHR ''<'' \<or> c = CHR ''>'' \<or> c = CHR ''&''"

text \<open>\<^verbatim>\<open>appendString\<close> of the encoder, without the quotes.\<close>

definition esc_ascii :: "char \<Rightarrow> string" where
  "esc_ascii c =
     (if c = bslash \<or> c = quoteC then [bslash, c]
      else if c = CHR 0x08 then bslash # ''b''
      else if c = CHR 0x0C then bslash # ''f''
      else if c = CHR 0x0A then bslash # ''n''
      else if c = CHR 0x0D then bslash # ''r''
      else if c = CHR 0x09 then bslash # ''t''
      else if code c < 32 \<or> html_char c then u00 c
      else [c])"

function quote_body :: "string \<Rightarrow> string" where
  "quote_body [] = []"
| "quote_body (c # s) =
     (if code c < 0x80 then esc_ascii c @ quote_body s
      else if utf8_len (c # s) = 0 then bslash # ''ufffd'' @ quote_body s
      else if line_sep (c # s) then bslash # ''u202'' @ [hex_digit (code (s ! 1) mod 16)] @ quote_body (drop 2 s)
      else take (utf8_len (c # s)) (c # s) @ quote_body (drop (utf8_len (c # s) - 1) s))"
  by pat_completeness auto
termination by (relation "measure length") auto

definition quote :: "string \<Rightarrow> string" where
  "quote s = quoteC # quote_body s @ [quoteC]"

text \<open>\<^verbatim>\<open>unquoteBytes\<close> of the decoder.\<close>

definition utf8_encode :: "nat \<Rightarrow> string" where
  "utf8_encode r =
     (if r < 0x80 then [char_of r]
      else if r < 0x800 then [char_of (0xC0 + r div 64), char_of (0x80 + r mod 64)]
      else if r < 0x10000 then
        [char_of (0xE0 + r div 4096), char_of (0x80 + r div 64 mod 64), char_of (0x80 + r mod 64)]
      else [char_of (0xF0 + r div 262144), char_of (0x80 + r div 4096 mod 64),
            char_of (0x80 + r div 64 mod 64), char_of (0x80 + r mod 64)])"

definition u4 :: "string \<Rightarrow> nat option" where
  "u4 s =
     (case s of
        h1 # h2 # h3 # h4 # _ \<Rightarrow>
          (case (hex_val h1, hex_val h2, hex_val h3, hex_val h4) of
             (Some a, Some b, Some c, Some d) \<Rightarrow> Some (a * 4096 + b * 256 + c * 16 + d)
           | _ \<Rightarrow> None)
      | _ \<Rightarrow> None)"

text \<open>The rune of an escape \<^verbatim>\<open>\u\<close> and how many bytes after its four digits belong to it.\<close>

definition escape_rune :: "nat \<Rightarrow> string \<Rightarrow> nat \<times> nat" where
  "escape_rune r t =
     (if 0xD800 \<le> r \<and> r < 0xE000 then
        (case (if prefix (bslash # ''u'') t then u4 (drop 2 t) else None) of
           Some r1 \<Rightarrow>
             if r < 0xDC00 \<and> 0xDC00 \<le> r1 \<and> r1 < 0xE000
             then ((r - 0xD800) * 0x400 + (r1 - 0xDC00) + 0x10000, 6) else (0xFFFD, 0)
         | None \<Rightarrow> (0xFFFD, 0))
      else (r, 0))"

definition simple_escape :: "char \<Rightarrow> char option" where
  "simple_escape e =
     (if e = quoteC \<or> e = bslash \<or> e = CHR ''/'' \<or> e = CHR 0x27 then Some e
      else if e = CHR ''b'' then Some (CHR 0x08)
      else if e = CHR ''f'' then Some (CHR 0x0C)
      else if e = CHR ''n'' then Some (CHR 0x0A)
      else if e = CHR ''r'' then Some (CHR 0x0D)
      else if e = CHR ''t'' then Some (CHR 0x09)
      else None)"

function unquote_body :: "string \<Rightarrow> string option" where
  "unquote_body [] = Some []"
| "unquote_body (c # s) =
     (if c = bslash then
        (case s of
           [] \<Rightarrow> None
         | e # t \<Rightarrow>
             (case simple_escape e of
                Some x \<Rightarrow> map_option (Cons x) (unquote_body t)
              | None \<Rightarrow>
                  if e = CHR ''u'' then
                    (case u4 t of
                       None \<Rightarrow> None
                     | Some r \<Rightarrow>
                         map_option ((@) (utf8_encode (fst (escape_rune r (drop 4 t)))))
                           (unquote_body (drop (snd (escape_rune r (drop 4 t))) (drop 4 t))))
                  else None))
      else if c = quoteC \<or> code c < 32 then None
      else if code c < 0x80 then map_option (Cons c) (unquote_body s)
      else if utf8_len (c # s) = 0 then map_option ((@) replacement) (unquote_body s)
      else map_option ((@) (take (utf8_len (c # s)) (c # s)))
             (unquote_body (drop (utf8_len (c # s) - 1) s)))"
  by pat_completeness auto
termination by (relation "measure length") auto

definition unquote :: "string \<Rightarrow> string option" where
  "unquote raw =
     (if 2 \<le> length raw \<and> hd raw = quoteC \<and> last raw = quoteC then unquote_body (butlast (tl raw)) else None)"

text \<open>What survives a round trip: invalid bytes become U+FFFD.\<close>

function fix_utf8 :: "string \<Rightarrow> string" where
  "fix_utf8 [] = []"
| "fix_utf8 (c # s) =
     (if code c < 0x80 then c # fix_utf8 s
      else if utf8_len (c # s) = 0 then replacement @ fix_utf8 s
      else take (utf8_len (c # s)) (c # s) @ fix_utf8 (drop (utf8_len (c # s) - 1) s))"
  by pat_completeness auto
termination by (relation "measure length") auto

definition valid_utf8 :: "string \<Rightarrow> bool" where
  "valid_utf8 s \<longleftrightarrow> fix_utf8 s = s"

section \<open>The string round trip\<close>

lemma code_char_of [simp]: "n < 256 \<Longrightarrow> code (char_of n) = n"
  by (simp add: code_def)

lemma char_of_code [simp]: "char_of (code c) = c"
  by (simp add: code_def)

lemma code_less [simp]: "code c < 256"
  by (simp add: code_def)

lemma code_eq_iff: "code c = code d \<longleftrightarrow> c = d"
  by (metis char_of_code)

lemma less_16_cases: "(n::nat) < 16 \<Longrightarrow> n \<in> {0,1,2,3,4,5,6,7,8,9,10,11,12,13,14,15}"
  by simp presburger

lemma hex_val_digit [simp]: "n < 16 \<Longrightarrow> hex_val (hex_digit n) = Some n"
  by (drule less_16_cases) (auto simp: hex_val_def hex_digit_def is_digit_def)

lemma utf8_len_facts:
  assumes "\<not> code c < 0x80" "utf8_len (c # s) \<noteq> 0"
  shows "2 \<le> utf8_len (c # s)" "utf8_len (c # s) \<le> length (c # s)"
    "\<forall>x \<in> set (take (utf8_len (c # s)) (c # s)). 0x80 \<le> code x"
    "utf8_len (take (utf8_len (c # s)) (c # s) @ r) = utf8_len (c # s)"
proof -
  consider x t where "s = x # t" "utf8_len (c # s) = 2" "cont x" "0xC2 \<le> code c" "code c \<le> 0xDF"
    | x y t where "s = x # y # t" "utf8_len (c # s) = 3" "cont x" "cont y" "0xE0 \<le> code c" "code c \<le> 0xEF"
        "code c = 0xE0 \<longrightarrow> 0xA0 \<le> code x" "code c = 0xED \<longrightarrow> code x \<le> 0x9F"
    | x y z t where "s = x # y # z # t" "utf8_len (c # s) = 4" "cont x" "cont y" "cont z"
        "0xF0 \<le> code c" "code c \<le> 0xF4" "code c = 0xF0 \<longrightarrow> 0x90 \<le> code x" "code c = 0xF4 \<longrightarrow> code x \<le> 0x8F"
    using assms by (auto simp: utf8_len_def split: list.splits if_splits)
  note cases = this
  show "2 \<le> utf8_len (c # s)" "utf8_len (c # s) \<le> length (c # s)"
    by (cases rule: cases; simp)+
  show "\<forall>x \<in> set (take (utf8_len (c # s)) (c # s)). 0x80 \<le> code x"
    by (cases rule: cases) (use assms(1) in \<open>auto simp: cont_def\<close>)
  show "utf8_len (take (utf8_len (c # s)) (c # s) @ r) = utf8_len (c # s)"
    by (cases rule: cases) (auto simp: utf8_len_def)
qed

lemma append_one [simp]: "(@) [c] = (#) c"
  by (rule ext) simp

lemma hex_consts:
  "hex_val (CHR ''0'') = Some 0" "hex_val (CHR ''2'') = Some 2" "hex_val (CHR ''f'') = Some 15"
  "hex_val (CHR ''d'') = Some 13" "hex_digit 8 = CHR ''8''" "hex_digit 9 = CHR ''9''"
  "hex_val (CHR ''8'') = Some 8" "hex_val (CHR ''9'') = Some 9"
  by code_simp+

lemma char_consts:
  "char_of (239 :: nat) = CHR 0xEF" "char_of (191 :: nat) = CHR 0xBF" "char_of (189 :: nat) = CHR 0xBD"
  "char_of (226 :: nat) = CHR 0xE2" "char_of (128 :: nat) = CHR 0x80" "char_of (168 :: nat) = CHR 0xA8"
  "char_of (169 :: nat) = CHR 0xA9"
  by code_simp+

lemma utf8_consts:
  "utf8_encode 0xFFFD = replacement" "utf8_encode 0x2028 = [CHR 0xE2, CHR 0x80, CHR 0xA8]"
  "utf8_encode 0x2029 = [CHR 0xE2, CHR 0x80, CHR 0xA9]"
  "code (CHR 0xA8) mod 16 = 8" "code (CHR 0xA9) mod 16 = 9"
  by (simp_all add: utf8_encode_def replacement_def char_consts code_def)

lemma unquote_esc_ascii:
  assumes "code c < 0x80"
  shows "unquote_body (esc_ascii c @ r) = map_option (Cons c) (unquote_body r)"
proof -
  have hex: "u4 (''00'' @ [hex_digit (code c div 16), hex_digit (code c mod 16)] @ r) = Some (code c)"
  proof -
    have d: "code c div 16 < 16" "code c mod 16 < 16" using assms by auto
    show ?thesis
      by (simp add: u4_def hex_val_digit[OF d(1)] hex_val_digit[OF d(2)] hex_consts(1))
  qed
  show ?thesis
  proof (cases "c = bslash \<or> c = quoteC \<or> c = CHR 0x08 \<or> c = CHR 0x0C \<or> c = CHR 0x0A \<or> c = CHR 0x0D \<or> c = CHR 0x09")
    case True
    then show ?thesis by (auto simp: esc_ascii_def simple_escape_def)
  next
    case False
    show ?thesis
    proof (cases "code c < 32 \<or> html_char c")
      case True
      then have "esc_ascii c = bslash # CHR ''u'' # ''00'' @ [hex_digit (code c div 16), hex_digit (code c mod 16)]"
        using False by (simp add: esc_ascii_def u00_def)
      then show ?thesis using hex assms
        by (simp add: simple_escape_def escape_rune_def utf8_encode_def)
    next
      case u: False
      then show ?thesis using False assms by (simp add: esc_ascii_def)
    qed
  qed
qed

lemma unquote_copy:
  assumes "\<not> code c < 0x80" "utf8_len (c # s) \<noteq> 0"
  shows "unquote_body (take (utf8_len (c # s)) (c # s) @ r) =
    map_option ((@) (take (utf8_len (c # s)) (c # s))) (unquote_body r)"
proof -
  let ?n = "utf8_len (c # s)"
  note f = utf8_len_facts[OF assms]
  obtain m where m: "?n = Suc m" "m \<le> length s" using f(1,2) by (cases ?n) auto
  have t: "take ?n (c # s) = c # take m s" by (simp add: m)
  have n: "utf8_len (c # take m s @ r) = Suc m" using f(4)[of r] t m by simp
  have ne: "c \<noteq> bslash" "c \<noteq> quoteC" using assms(1) by (auto simp: code_def)
  then show ?thesis using n assms(1) m
    by (simp add: t)
qed

lemma line_sep_cases:
  assumes "line_sep s"
  obtains t where "s = [CHR 0xE2, CHR 0x80, CHR 0xA8] @ t" | t where "s = [CHR 0xE2, CHR 0x80, CHR 0xA9] @ t"
  using assms by (auto simp: line_sep_def prefix_def)

theorem unquote_quote_body: "unquote_body (quote_body s) = Some (fix_utf8 s)"
proof (induction s rule: quote_body.induct)
  case 1
  show ?case by simp
next
  case (2 c s)
  show ?case
  proof (cases "code c < 0x80")
    case True
    then show ?thesis using 2(1) by (simp add: unquote_esc_ascii)
  next
    case ge: False
    show ?thesis
    proof (cases "utf8_len (c # s) = 0")
      case True
      have "unquote_body (bslash # ''ufffd'' @ quote_body s) = map_option ((@) replacement) (unquote_body (quote_body s))"
        by (simp add: simple_escape_def u4_def hex_consts escape_rune_def utf8_consts(1))
      then show ?thesis using True ge 2(2) by simp
    next
      case valid: False
      show ?thesis
      proof (cases "line_sep (c # s)")
        case True
        obtain x t where x: "c # s = CHR 0xE2 # CHR 0x80 # x # t" "x = CHR 0xA8 \<or> x = CHR 0xA9"
          using True by (cases rule: line_sep_cases) auto
        then have cs: "c = CHR 0xE2" "s = CHR 0x80 # x # t" by auto
        have n: "utf8_len (c # s) = 3"
          using cs x(2) by (auto simp: utf8_len_def cont_def code_def)
        have "unquote_body (bslash # ''u202'' @ [hex_digit (code x mod 16)] @ r) =
            map_option ((@) [CHR 0xE2, CHR 0x80, x]) (unquote_body r)" for r
          using x(2)
          by (elim disjE; simp only: utf8_consts hex_consts)
             (simp_all add: simple_escape_def u4_def hex_consts escape_rune_def utf8_consts)
        then show ?thesis using ge valid True 2(3) cs n by simp
      next
        case False
        then show ?thesis using ge valid 2(4) unquote_copy[OF ge valid]
          by (simp del: take_Suc_Cons unquote_body.simps)
      qed
    qed
  qed
qed

end
