(* ===== verification/JsonText.thy ===== *)
theory JsonText
  imports Json
begin

text \<open>
  Texts that the encoder produces: the predicate \<open>is_value\<close> says that the scanner, wherever
  it meets the text, takes it as one value; \<open>tight\<close> says that compaction leaves it alone. The
  encoders of strings, integers, booleans, objects and arrays produce such texts, and reading
  the members of an encoded object gives back its fields.
\<close>

section \<open>Encoders\<close>

text \<open>The members of an object, in the order of the struct's fields; the elements of an array.\<close>

fun fields_text :: "(string \<times> string) list \<Rightarrow> string" where
  "fields_text [] = []"
| "fields_text [(k, v)] = quote k @ colon # v"
| "fields_text ((k, v) # x # xs) = quote k @ colon # v @ comma # fields_text (x # xs)"

definition obj_text :: "(string \<times> string) list \<Rightarrow> string" where
  "obj_text kvs = lbrace # fields_text kvs @ [rbrace]"

definition arr_text :: "string list \<Rightarrow> string" where
  "arr_text vs = lbrack # join_with comma vs @ [rbrack]"

definition int_text :: "int \<Rightarrow> string" where
  "int_text i = (if i < 0 then CHR ''-'' # decimal (nat (- i)) else decimal (nat i))"

definition bool_text :: "bool \<Rightarrow> string" where
  "bool_text b = (if b then ''true'' else ''false'')"

section \<open>What the scanner takes as one value\<close>

definition delim :: "string \<Rightarrow> bool" where
  "delim r \<longleftrightarrow> r = [] \<or> hd r = comma \<or> hd r = rbrace \<or> hd r = rbrack \<or> is_ws (hd r)"

definition is_value :: "nat \<Rightarrow> string \<Rightarrow> bool" where
  "is_value dep v \<longleftrightarrow> v \<noteq> [] \<and> \<not> is_ws (hd v) \<and>
     (\<forall>r n d. delim r \<longrightarrow> length v < n \<longrightarrow> dep \<le> d \<longrightarrow> skip_value n d (v @ r) = Some r)"

lemma is_valueD:
  "is_value dep v \<Longrightarrow> delim r \<Longrightarrow> length v < n \<Longrightarrow> dep \<le> d \<Longrightarrow> skip_value n d (v @ r) = Some r"
  by (simp add: is_value_def)

lemma is_value_mono: "is_value dep v \<Longrightarrow> dep \<le> dep' \<Longrightarrow> is_value dep' v"
  by (auto simp: is_value_def)

lemma skip_ws_Cons [simp]: "\<not> is_ws c \<Longrightarrow> skip_ws (c # s) = c # s"
  by (simp add: skip_ws_def)

lemma skip_ws_Nil [simp]: "skip_ws [] = []"
  by (simp add: skip_ws_def)

lemma is_ws_consts [simp]:
  "\<not> is_ws quoteC" "\<not> is_ws lbrace" "\<not> is_ws rbrace" "\<not> is_ws lbrack" "\<not> is_ws rbrack"
  "\<not> is_ws comma" "\<not> is_ws colon"
  by (simp_all add: is_ws_def)

lemma delim_consts [simp]: "delim (comma # r)" "delim (rbrace # r)" "delim (rbrack # r)" "delim []"
  by (simp_all add: delim_def)

lemma skip_ws_value: "is_value dep v \<Longrightarrow> skip_ws (v @ r) = v @ r"
  by (cases v) (simp_all add: is_value_def)

subsection \<open>Strings\<close>

lemma skip_string_esc_ascii: "code c < 0x80 \<Longrightarrow> skip_string (esc_ascii c @ r) = skip_string r"
proof -
  assume c: "code c < 0x80"
  have "code c div 16 < 16" "code c mod 16 < 16" using c by auto
  note d = this[THEN hex_val_digit]
  show ?thesis
    by (auto simp: esc_ascii_def u00_def d hex_consts html_char_def)
qed

lemma skip_string_high: "\<forall>x \<in> set xs. 0x80 \<le> code x \<Longrightarrow> skip_string (xs @ r) = skip_string r"
  by (induction xs) (auto simp: code_def)

lemma skip_string_quote_body [simp]: "skip_string (quote_body s @ quoteC # r) = Some r"
proof (induction s rule: quote_body.induct)
  case 1
  then show ?case by simp
next
  case (2 c s)
  show ?case
  proof (cases "code c < 0x80")
    case True
    then show ?thesis using 2(1) by (simp add: skip_string_esc_ascii)
  next
    case ge: False
    show ?thesis
    proof (cases "utf8_len (c # s) = 0")
      case True
      then show ?thesis using ge 2(2) by (simp add: hex_consts)
    next
      case valid: False
      show ?thesis
      proof (cases "line_sep (c # s)")
        case True
        have "code (s ! 1) mod 16 < 16" by simp
        then show ?thesis using ge valid True 2(3) by (simp add: hex_consts)
      next
        case False
        then show ?thesis using ge valid 2(4) utf8_len_facts(3)[OF ge valid]
          by (simp add: skip_string_high del: take_Suc_Cons)
      qed
    qed
  qed
qed

lemma is_value_quote [simp]: "is_value dep (quote s)"
proof -
  have "skip_value n d (quote s @ r) = Some r" if "length (quote s) < n" for n d r
    using that by (cases n) (simp_all add: quote_def)
  then show ?thesis by (simp add: is_value_def) (simp add: quote_def)
qed

subsection \<open>Numbers and literals\<close>

lemma delim_not_digit: "delim r \<Longrightarrow> r = c # t \<Longrightarrow> \<not> is_digit c \<and> c \<noteq> CHR ''.'' \<and> c \<noteq> CHR ''e'' \<and> c \<noteq> CHR ''E''"
  by (auto simp: delim_def is_ws_def is_digit_def code_def)

lemma is_digit_decimal: "c \<in> set (decimal n) \<Longrightarrow> is_digit c"
  using decimal_digits[of n] by (auto simp: is_digit_def code_def)

lemma hd_decimal: "0 < n \<Longrightarrow> hd (decimal n) \<noteq> CHR ''0''"
proof (induction n rule: decimal.induct)
  case (1 n)
  show ?case
  proof (cases "n < 10")
    case True
    then have "code (char_of (48 + n)) = 48 + n" "code (CHR ''0'') = 48"
      by simp (simp add: code_def)
    then have "char_of (48 + n) \<noteq> CHR ''0''" using 1(2) by (metis add_cancel_left_right less_irrefl)
    then show ?thesis using True by (simp add: decimal_simps)
  next
    case False
    then show ?thesis using 1 by (simp add: decimal_simps(2)[OF False])
  qed
qed

lemma skip_digits_append: "\<forall>c \<in> set s. is_digit c \<Longrightarrow> delim r \<Longrightarrow> skip_digits (s @ r) = r"
  using delim_not_digit by (cases r) (auto simp: skip_digits_def)

lemma skip_int_decimal: "delim r \<Longrightarrow> skip_int (decimal n @ r) = Some r"
proof (cases "decimal n")
  case (Cons c t)
  assume r: "delim r"
  have dig: "\<forall>x \<in> set (c # t). is_digit x" using is_digit_decimal[of _ n] Cons by auto
  show ?thesis
  proof (cases "n = 0")
    case True
    then have "decimal n = ''0''" by (simp add: decimal_simps) code_simp
    then show ?thesis by (simp add: skip_int_def)
  next
    case False
    then have "c \<noteq> CHR ''0''" using hd_decimal[of n] Cons by simp
    then show ?thesis using Cons dig skip_digits_append[of t r] r by (simp add: skip_int_def)
  qed
qed simp

lemma skip_frac_exp_delim: "delim r \<Longrightarrow> skip_frac r = Some r \<and> skip_exp r = Some r"
  using delim_not_digit by (cases r) (auto simp: skip_frac_def skip_exp_def)

lemma skip_number_int: "delim r \<Longrightarrow> skip_number (int_text i @ r) = Some r"
proof -
  assume r: "delim r"
  have minus: "hd (decimal n) \<noteq> CHR ''-''" for n
    using is_digit_decimal[of "hd (decimal n)" n] by (auto simp: is_digit_def code_def)
  then have "(case decimal n @ r of [] \<Rightarrow> decimal n @ r | c # t \<Rightarrow> if c = CHR ''-'' then t else decimal n @ r) =
      decimal n @ r" for n using minus[of n] by (cases "decimal n") auto
  then show ?thesis using r skip_int_decimal[OF r] skip_frac_exp_delim[OF r]
    by (simp add: skip_number_def int_text_def)
qed

lemma hd_int_text: "hd (int_text i) = CHR ''-'' \<or> is_digit (hd (int_text i))"
  using is_digit_decimal[of "hd (decimal (nat i))" "nat i"] by (simp add: int_text_def)

lemma int_text_not_Nil [simp]: "int_text i \<noteq> []"
  by (simp add: int_text_def)

lemma is_value_int [simp]: "is_value dep (int_text i)"
proof -
  obtain c t where ct: "int_text i = c # t" by (cases "int_text i") auto
  then have c: "c = CHR ''-'' \<or> is_digit c" using hd_int_text[of i] by simp
  have ws: "\<not> is_ws c" and ne: "c \<noteq> quoteC" "c \<noteq> lbrace" "c \<noteq> lbrack" "c \<noteq> CHR ''t''" "c \<noteq> CHR ''f''" "c \<noteq> CHR ''n''"
    using c by (auto simp: is_ws_def is_digit_def code_def)
  have "skip_value n d (int_text i @ r) = Some r" if "delim r" "0 < n" for n d r
    using that skip_number_int[OF that(1), of i] ct ws ne by (cases n) simp_all
  then show ?thesis using ct ws by (auto simp: is_value_def)
qed

lemma is_value_lits [simp]: "is_value dep ''true''" "is_value dep ''false''" "is_value dep ''null''"
proof -
  have "skip_value n d (''true'' @ r) = Some r \<and> skip_value n d (''false'' @ r) = Some r \<and>
      skip_value n d (''null'' @ r) = Some r" if "0 < n" for n d r
    using that by (cases n) (simp_all add: skip_lit_def is_ws_def)
  then show "is_value dep ''true''" "is_value dep ''false''" "is_value dep ''null''"
    unfolding is_value_def by (fastforce simp: is_ws_def)+
qed

lemma is_value_bool [simp]: "is_value dep (bool_text b)"
  by (simp add: bool_text_def)
subsection \<open>Objects and arrays\<close>

lemma fields_text_Cons: "kvs \<noteq> [] \<Longrightarrow> fields_text ((k, v) # kvs) = quote k @ colon # v @ comma # fields_text kvs"
  by (cases kvs) auto

text \<open>One member and what follows it.\<close>

lemma skip_members_step:
  assumes "is_value dep v" "delim (e # r)" "e = comma \<or> e = rbrace" "length (quote k @ colon # v) < n" "dep \<le> d"
  shows "skip_members (Suc n) d (quote k @ colon # v @ e # r) =
    (if e = comma then skip_members n d r else Some r)"
proof -
  have "skip_string (quote_body k @ quoteC # colon # v @ e # r) = Some (colon # v @ e # r)" by simp
  moreover have "skip_value n d (v @ e # r) = Some (e # r)"
    by (rule is_valueD[OF assms(1,2)]) (use assms(4,5) in simp_all)
  ultimately show ?thesis using assms(3) by (auto simp: quote_def)
qed

lemma skip_members_fields:
  "kvs \<noteq> [] \<Longrightarrow> \<forall>(k, v) \<in> set kvs. is_value dep v \<Longrightarrow> length (fields_text kvs) < n \<Longrightarrow> dep \<le> d \<Longrightarrow>
   skip_members (Suc n) d (fields_text kvs @ rbrace # r) = Some r"
proof (induction kvs arbitrary: n)
  case (Cons kv kvs)
  obtain k v where kv: "kv = (k, v)" by (cases kv)
  show ?case
  proof (cases "kvs = []")
    case True
    then show ?thesis using Cons.prems kv skip_members_step[of dep v rbrace r k n d] by simp
  next
    case False
    then obtain m where m: "n = Suc m" using Cons.prems(3) by (cases n) auto
    have len: "length (fields_text kvs) < m" "length (quote k @ colon # v) < n"
      using Cons.prems(3) kv m False by (simp_all add: fields_text_Cons)
    have "skip_members (Suc n) d (quote k @ colon # v @ comma # fields_text kvs @ rbrace # r) =
        skip_members n d (fields_text kvs @ rbrace # r)"
      using skip_members_step[of dep v comma "fields_text kvs @ rbrace # r" k n d] Cons.prems len(2) kv by simp
    then show ?thesis
      using Cons.IH[OF False _ len(1)] Cons.prems kv m False by (simp add: fields_text_Cons)
  qed
qed simp

lemma is_value_obj:
  assumes "\<forall>(k, v) \<in> set kvs. is_value dep v"
  shows "is_value (Suc dep) (obj_text kvs)"
proof -
  have "skip_value n d (obj_text kvs @ r) = Some r"
    if n: "length (obj_text kvs) < n" and d: "Suc dep \<le> d" for n d r
  proof -
    obtain m where m: "n = Suc (Suc m)" using n by (cases n; cases "n - 1") (auto simp: obj_text_def)
    show ?thesis
    proof (cases "kvs = []")
      case True
      then show ?thesis using m d by (simp add: obj_text_def)
    next
      case False
      then obtain u where u: "fields_text kvs = quoteC # u" by (cases kvs rule: fields_text.cases) (auto simp: quote_def)
      have "skip_members (Suc m) (d - 1) (fields_text kvs @ rbrace # r) = Some r"
        by (rule skip_members_fields[OF False assms]) (use n d m in \<open>auto simp: obj_text_def\<close>)
      then show ?thesis using m d u by (simp add: obj_text_def)
    qed
  qed
  then show ?thesis by (simp add: is_value_def) (simp add: obj_text_def)
qed

lemma skip_elems_join:
  "vs \<noteq> [] \<Longrightarrow> \<forall>v \<in> set vs. is_value dep v \<Longrightarrow> length (join_with comma vs) < n \<Longrightarrow> dep \<le> d \<Longrightarrow>
   skip_elems (Suc n) d (join_with comma vs @ rbrack # r) = Some r"
proof (induction vs arbitrary: n)
  case (Cons v vs)
  show ?case
  proof (cases "vs = []")
    case True
    then show ?thesis using Cons.prems is_valueD[of dep v "rbrack # r" n d] by simp
  next
    case False
    have len: "length v < n" "length (join_with comma vs) < n - 1" "n = Suc (n - 1)"
      using Cons.prems(3) False by (simp_all add: join_with_Cons)
    have "skip_value n d (v @ comma # join_with comma vs @ rbrack # r) =
        Some (comma # join_with comma vs @ rbrack # r)"
      by (rule is_valueD) (use Cons.prems len in auto)
    moreover have "skip_elems (Suc (n - 1)) d (join_with comma vs @ rbrack # r) = Some r"
      by (rule Cons.IH[OF False _ len(2)]) (use Cons.prems in auto)
    ultimately show ?thesis using len(3) False by (simp add: join_with_Cons)
  qed
qed simp

lemma is_value_arr:
  assumes "\<forall>v \<in> set vs. is_value dep v"
  shows "is_value (Suc dep) (arr_text vs)"
proof -
  have "skip_value n d (arr_text vs @ r) = Some r"
    if n: "length (arr_text vs) < n" and d: "Suc dep \<le> d" for n d r
  proof -
    obtain m where m: "n = Suc (Suc m)" using n by (cases n; cases "n - 1") (auto simp: arr_text_def)
    show ?thesis
    proof (cases vs)
      case Nil
      then show ?thesis using m d by (simp add: arr_text_def)
    next
      case (Cons v vs')
      obtain c t where c: "v = c # t" "\<not> is_ws c" using assms Cons by (cases v) (auto simp: is_value_def)
      have "skip_value (Suc (length v)) dep (v @ [rbrack]) = Some [rbrack]"
        by (rule is_valueD) (use assms Cons in auto)
      then have nb: "c \<noteq> rbrack"
        using c by (auto simp: skip_number_def skip_int_def is_digit_def code_def split: option.splits)
      obtain u where u: "join_with comma vs = c # u" using Cons c by (cases vs') auto
      have "skip_elems (Suc m) (d - 1) (join_with comma vs @ rbrack # r) = Some r"
        by (rule skip_elems_join) (use assms n d m Cons in \<open>auto simp: arr_text_def\<close>)
      then show ?thesis using m d u c nb by (simp add: arr_text_def)
    qed
  qed
  then show ?thesis by (simp add: is_value_def) (simp add: arr_text_def)
qed

section \<open>Reading encoded texts\<close>

lemma skip_one_value:
  assumes "is_value dep v" "dep \<le> max_depth" "delim r"
  shows "skip_one (v @ r) = Some r"
  unfolding skip_one_def by (rule is_valueD) (use assms in auto)

lemma take_value_text:
  assumes "is_value dep v" "dep \<le> max_depth" "delim r"
  shows "take_value (v @ r) = Some (v, r)"
  using skip_one_value[OF assms] by (simp add: take_value_def Let_def skip_ws_value[OF assms(1)])

lemma json_valid_text: "is_value dep v \<Longrightarrow> dep \<le> max_depth \<Longrightarrow> json_valid v"
  using skip_one_value[of dep v "[]"] by (simp add: json_valid_def)

lemma members_step:
  assumes "is_value dep v" "dep \<le> max_depth" "delim (e # r)" "e = comma \<or> e = rbrace"
  shows "members (Suc n) (quote k @ colon # v @ e # r) =
    (if e = comma then map_option (Cons (quote_body k, v)) (members n r) else Some [(quote_body k, v)])"
  using take_value_text[OF assms(1-3)] assms(4) by (auto simp: quote_def)

lemma members_fields:
  "kvs \<noteq> [] \<Longrightarrow> \<forall>(k, v) \<in> set kvs. is_value dep v \<Longrightarrow> dep \<le> max_depth \<Longrightarrow> length kvs \<le> n \<Longrightarrow>
   members n (fields_text kvs @ rbrace # r) = Some (map (\<lambda>(k, v). (quote_body k, v)) kvs)"
proof (induction kvs arbitrary: n)
  case (Cons kv kvs)
  obtain k v where kv: "kv = (k, v)" by (cases kv)
  obtain m where m: "n = Suc m" using Cons.prems(4) by (cases n) auto
  show ?case
  proof (cases "kvs = []")
    case True
    then show ?thesis using Cons.prems kv m members_step[of dep v rbrace r m k] by simp
  next
    case False
    have "members n (quote k @ colon # v @ comma # fields_text kvs @ rbrace # r) =
        map_option (Cons (quote_body k, v)) (members m (fields_text kvs @ rbrace # r))"
      using members_step[of dep v comma "fields_text kvs @ rbrace # r" m k] Cons.prems kv m by simp
    then show ?thesis using Cons.IH[OF False, of m] Cons.prems kv m False by (simp add: fields_text_Cons)
  qed
qed simp

lemma length_fields_text: "length kvs \<le> length (fields_text kvs)"
  by (induction kvs rule: fields_text.induct) (auto simp: quote_def)

lemma obj_fields_text:
  assumes "\<forall>(k, v) \<in> set kvs. is_value dep v" "dep \<le> max_depth"
  shows "obj_fields (obj_text kvs) = Some (map (\<lambda>(k, v). (quote_body k, v)) kvs)"
proof (cases "kvs = []")
  case True
  then show ?thesis by (simp add: obj_fields_def obj_text_def)
next
  case False
  then obtain u where u: "fields_text kvs = quoteC # u"
    by (cases kvs rule: fields_text.cases) (auto simp: quote_def)
  have "members (Suc (length (fields_text kvs @ [rbrace]))) (fields_text kvs @ rbrace # []) =
      Some (map (\<lambda>(k, v). (quote_body k, v)) kvs)"
    by (rule members_fields[OF False assms]) (use length_fields_text[of kvs] in simp)
  then show ?thesis using u by (simp add: obj_fields_def obj_text_def)
qed

lemma elements_join:
  "vs \<noteq> [] \<Longrightarrow> \<forall>v \<in> set vs. is_value dep v \<Longrightarrow> dep \<le> max_depth \<Longrightarrow> length vs \<le> n \<Longrightarrow>
   elements n (join_with comma vs @ rbrack # r) = Some vs"
proof (induction vs arbitrary: n)
  case (Cons v vs)
  obtain m where m: "n = Suc m" using Cons.prems(4) by (cases n) auto
  show ?case
  proof (cases "vs = []")
    case True
    then show ?thesis using Cons.prems m take_value_text[of dep v "rbrack # r"] by simp
  next
    case False
    have "take_value (v @ comma # join_with comma vs @ rbrack # r) =
        Some (v, comma # join_with comma vs @ rbrack # r)"
      by (rule take_value_text) (use Cons.prems in auto)
    then show ?thesis using Cons.IH[OF False, of m] Cons.prems m False by (simp add: join_with_Cons)
  qed
qed simp

lemma is_value_not_rbrack:
  assumes "is_value dep v"
  shows "\<exists>c t. v = c # t \<and> \<not> is_ws c \<and> c \<noteq> rbrack"
proof -
  obtain c t where c: "v = c # t" "\<not> is_ws c" using assms by (cases v) (auto simp: is_value_def)
  have "skip_value (Suc (length v)) dep (v @ [rbrack]) = Some [rbrack]"
    by (rule is_valueD[OF assms]) auto
  then have "c \<noteq> rbrack"
    using c by (auto simp: skip_number_def skip_int_def is_digit_def code_def split: option.splits)
  then show ?thesis using c by blast
qed

lemma arr_elems_text:
  assumes "\<forall>v \<in> set vs. is_value dep v" "dep \<le> max_depth"
  shows "arr_elems (arr_text vs) = Some vs"
proof (cases vs)
  case Nil
  then show ?thesis by (simp add: arr_elems_def arr_text_def)
next
  case (Cons v vs')
  obtain c t where c: "v = c # t" "\<not> is_ws c" "c \<noteq> rbrack" using is_value_not_rbrack assms(1) Cons by force
  obtain u where u: "join_with comma vs = c # u" using Cons c by (cases vs') auto
  have len: "length xs \<le> Suc (length (join_with comma xs))" for xs :: "string list"
    by (induction comma xs rule: join_with.induct) auto
  have "elements (Suc (length (join_with comma vs @ [rbrack]))) (join_with comma vs @ rbrack # []) = Some vs"
    by (rule elements_join) (use assms Cons len[of vs] in auto)
  then show ?thesis using u c by (simp add: arr_elems_def arr_text_def)
qed

section \<open>Compaction\<close>

text \<open>
  \<^verbatim>\<open>appendCompact\<close> with HTML escaping, which the encoder runs over every raw message:
  blanks outside strings are dropped, and inside strings the characters that HTML or
  JavaScript would trip over are escaped. The flag says whether the text is inside a string.
\<close>

fun compact_go :: "bool \<Rightarrow> string \<Rightarrow> string" where
  "compact_go b [] = []"
| "compact_go False (c # s) =
     (if is_ws c then compact_go False s else c # compact_go (c = quoteC) s)"
| "compact_go True (c # s) =
     (if c = quoteC then c # compact_go False s
      else if c = bslash then (case s of [] \<Rightarrow> [c] | e # t \<Rightarrow> c # e # compact_go True t)
      else if line_sep (c # s) then
        (case s of
           x # y # t \<Rightarrow> bslash # ''u202'' @ hex_digit (code y mod 16) # compact_go True t
         | _ \<Rightarrow> [])
      else if html_char c then u00 c @ compact_go True s
      else c # compact_go True s)"

definition compact :: "string \<Rightarrow> string option" where
  "compact s = (if json_valid s then Some (compact_go False s) else None)"

text \<open>A text that compaction copies, whatever follows.\<close>

definition tight :: "string \<Rightarrow> bool" where
  "tight s \<longleftrightarrow> (\<forall>r. compact_go False (s @ r) = s @ compact_go False r)"

lemma tightD: "tight s \<Longrightarrow> compact_go False (s @ r) = s @ compact_go False r"
  by (simp add: tight_def)

lemma tight_Nil [simp]: "tight []"
  by (simp add: tight_def)

lemma tight_append [intro]: "tight s \<Longrightarrow> tight t \<Longrightarrow> tight (s @ t)"
  by (simp add: tight_def)

lemma tight_Cons: "\<not> is_ws c \<Longrightarrow> c \<noteq> quoteC \<Longrightarrow> tight s \<Longrightarrow> tight (c # s)"
  by (simp add: tight_def)

lemma tight_plain: "\<forall>c \<in> set s. \<not> is_ws c \<and> c \<noteq> quoteC \<Longrightarrow> tight s"
  by (induction s) (auto intro: tight_Cons)

lemma compact_in_plain:
  assumes "\<forall>c \<in> set s. c \<noteq> quoteC \<and> c \<noteq> bslash \<and> \<not> html_char c \<and> c \<noteq> CHR 0xE2"
  shows "compact_go True (s @ r) = s @ compact_go True r"
  using assms by (induction s) (auto simp: line_sep_def)

lemma hex_digit_plain:
  assumes "n < 16"
  shows "hex_digit n \<noteq> quoteC \<and> hex_digit n \<noteq> bslash \<and> \<not> html_char (hex_digit n) \<and> hex_digit n \<noteq> CHR 0xE2"
proof -
  have "48 \<le> code (hex_digit n) \<and> code (hex_digit n) \<le> 57 \<or> 97 \<le> code (hex_digit n) \<and> code (hex_digit n) \<le> 102"
    using assms by (auto simp: hex_digit_def)
  then show ?thesis by (auto simp: html_char_def code_def)
qed

lemma esc_ascii_cases:
  obtains (esc) e where "esc_ascii c = [bslash, e]"
  | (hex) "esc_ascii c = bslash # CHR ''u'' # ''00'' @ [hex_digit (code c div 16), hex_digit (code c mod 16)]"
  | (plain) "esc_ascii c = [c]" "c \<noteq> bslash" "c \<noteq> quoteC" "\<not> html_char c"
  by (cases "c = bslash \<or> c = quoteC \<or> c = CHR 0x08 \<or> c = CHR 0x0C \<or> c = CHR 0x0A \<or> c = CHR 0x0D \<or> c = CHR 0x09";
      cases "code c < 32 \<or> html_char c") (auto simp: esc_ascii_def u00_def)

lemma compact_in_u:
  assumes "\<forall>c \<in> set s. c \<noteq> quoteC \<and> c \<noteq> bslash \<and> \<not> html_char c \<and> c \<noteq> CHR 0xE2"
  shows "compact_go True (bslash # CHR ''u'' # s @ r) = bslash # CHR ''u'' # s @ compact_go True r"
  using compact_in_plain[OF assms] by simp

lemma compact_in_esc_ascii:
  assumes "code c < 0x80"
  shows "compact_go True (esc_ascii c @ r) = esc_ascii c @ compact_go True r"
proof (cases c rule: esc_ascii_cases)
  case (esc e)
  then show ?thesis by simp
next
  case hex
  have "code c div 16 < 16" "code c mod 16 < 16" using assms by auto
  note h = this[THEN hex_digit_plain]
  have "compact_go True (bslash # CHR ''u'' # (''00'' @ [hex_digit (code c div 16), hex_digit (code c mod 16)]) @ r) =
      bslash # CHR ''u'' # (''00'' @ [hex_digit (code c div 16), hex_digit (code c mod 16)]) @ compact_go True r"
    by (rule compact_in_u) (use h in \<open>simp add: html_char_def\<close>)
  then show ?thesis using hex by simp
next
  case plain
  moreover have "c \<noteq> CHR 0xE2" using assms by (auto simp: code_def)
  ultimately show ?thesis using compact_in_plain[of "[c]" r] by simp
qed

lemma utf8_len_conts:
  assumes "\<not> code c < 0x80" "utf8_len (c # s) \<noteq> 0"
  shows "\<forall>x \<in> set (take (utf8_len (c # s) - 1) s). cont x"
  using assms by (auto simp: utf8_len_def split: list.splits if_splits)

lemma compact_in_quote_body: "compact_go True (quote_body s @ r) = quote_body s @ compact_go True r"
proof (induction s rule: quote_body.induct)
  case 1
  then show ?case by simp
next
  case (2 c s)
  show ?case
  proof (cases "code c < 0x80")
    case True
    then show ?thesis using 2(1) by (simp add: compact_in_esc_ascii)
  next
    case ge: False
    show ?thesis
    proof (cases "utf8_len (c # s) = 0 \<or> line_sep (c # s)")
      case True
      have "code (s ! 1) mod 16 < 16" by simp
      note h = hex_digit_plain[OF this]
      from True show ?thesis
        using ge 2(2,3) compact_in_u[of "''fffd''"] compact_in_u[of "''202'' @ [hex_digit (code (s ! 1) mod 16)]"] h
        by (auto simp: html_char_def)
    next
      case False
      let ?n = "utf8_len (c # s) - 1"
      obtain m where m: "utf8_len (c # s) = Suc m" using False by (cases "utf8_len (c # s)") auto
      have conts: "\<forall>x \<in> set (take m s). cont x"
        using utf8_len_conts[OF ge, of s] False m by (metis diff_Suc_1)
      have "\<forall>x \<in> set (take m s). x \<noteq> quoteC \<and> x \<noteq> bslash \<and> \<not> html_char x \<and> x \<noteq> CHR 0xE2"
        using conts by (auto simp: cont_def html_char_def code_def)
      note plain = compact_in_plain[OF this]
      have len: "utf8_len (c # take m s @ t) = Suc m" for t
        using utf8_len_facts(4)[OF ge, of s t] False m by simp
      have "\<not> line_sep (c # take m s @ t)" for t
      proof
        assume ls: "line_sep (c # take m s @ t)"
        then have "utf8_len (c # take m s @ t) = 3"
          by (cases rule: line_sep_cases) (auto simp: utf8_len_def cont_def code_def)
        then have "m = 2" using len by simp
        moreover have "m \<le> length s" using utf8_len_facts(2)[OF ge, of s] False m by simp
        ultimately show False using ls False by (auto simp: line_sep_def prefix_def numeral_2_eq_2 Suc_le_length_iff)
      qed
      moreover have "c \<noteq> quoteC" "c \<noteq> bslash" "\<not> html_char c" using ge by (auto simp: html_char_def code_def)
      ultimately show ?thesis using 2(4) ge False m plain by simp
    qed
  qed
qed

lemma tight_quote [simp]: "tight (quote s)"
  by (simp add: tight_def quote_def compact_in_quote_body)

subsection \<open>The encoders' texts\<close>

lemma tight_int [simp]: "tight (int_text i)"
  by (rule tight_plain)
     (auto simp: int_text_def is_ws_def is_digit_def code_def dest!: is_digit_decimal)

lemma tight_bool [simp]: "tight (bool_text b)"
  by (rule tight_plain) (simp add: bool_text_def is_ws_def)

lemma tight_null [simp]: "tight ''null''"
  by (rule tight_plain) (simp add: is_ws_def)

lemma tight_fields: "\<forall>(k, v) \<in> set kvs. tight v \<Longrightarrow> tight (fields_text kvs)"
  by (induction kvs rule: fields_text.induct) (auto intro!: tight_append tight_Cons)

lemma tight_obj: "\<forall>(k, v) \<in> set kvs. tight v \<Longrightarrow> tight (obj_text kvs)"
  unfolding obj_text_def by (intro tight_Cons tight_append tight_fields) (auto intro: tight_plain)

lemma tight_join: "\<forall>v \<in> set vs. tight v \<Longrightarrow> tight (join_with comma vs)"
proof (induction vs)
  case (Cons v vs)
  then show ?case by (cases vs) (auto intro!: tight_append tight_Cons)
qed simp

lemma tight_arr: "\<forall>v \<in> set vs. tight v \<Longrightarrow> tight (arr_text vs)"
  unfolding arr_text_def by (intro tight_Cons tight_append tight_join) (auto intro: tight_plain)

lemma compact_tight: "tight v \<Longrightarrow> json_valid v \<Longrightarrow> compact v = Some v"
  using tightD[of v "[]"] by (simp add: compact_def)

text \<open>What the encoder writes for a value: one value for the scanner, untouched by compaction.\<close>

definition encoded :: "nat \<Rightarrow> string \<Rightarrow> bool" where
  "encoded dep v \<longleftrightarrow> is_value dep v \<and> tight v"

lemma encoded_mono: "encoded dep v \<Longrightarrow> dep \<le> dep' \<Longrightarrow> encoded dep' v"
  by (auto simp: encoded_def intro: is_value_mono)

lemma encoded_scalar [simp]:
  "encoded dep (quote s)" "encoded dep (int_text i)" "encoded dep (bool_text b)" "encoded dep ''null''"
  by (simp_all add: encoded_def)

lemma encoded_obj: "\<forall>(k, v) \<in> set kvs. encoded dep v \<Longrightarrow> encoded (Suc dep) (obj_text kvs)"
  unfolding encoded_def by (intro conjI is_value_obj tight_obj) auto

lemma encoded_arr: "\<forall>v \<in> set vs. encoded dep v \<Longrightarrow> encoded (Suc dep) (arr_text vs)"
  unfolding encoded_def by (intro conjI is_value_arr tight_arr) auto

lemma encoded_not_Nil: "encoded dep v \<Longrightarrow> v \<noteq> []"
  by (auto simp: encoded_def is_value_def)

lemma encoded_valid: "encoded dep v \<Longrightarrow> dep \<le> max_depth \<Longrightarrow> json_valid v"
  by (auto simp: encoded_def json_valid_text)

lemma encoded_compact: "encoded dep v \<Longrightarrow> dep \<le> max_depth \<Longrightarrow> compact v = Some v"
  using encoded_valid by (auto simp: encoded_def compact_tight)

lemma encoded_take: "encoded dep v \<Longrightarrow> dep \<le> max_depth \<Longrightarrow> take_value v = Some (v, [])"
  using take_value_text[of dep v "[]"] by (simp add: encoded_def)

end
