(* ===== verification/JsonDecode.thy ===== *)
theory JsonDecode
  imports JsonText
begin

text \<open>
  \<^verbatim>\<open>json.Unmarshal\<close> into the types the program uses. A decoder takes the text of one
  value and the old value of the destination, and returns the new value and whether it met no
  type error: decoding goes on after a type error, so the destination is filled as far as
  possible. \<open>null\<close> leaves scalars and structs alone.
\<close>

type_synonym 'a decoder = "string \<Rightarrow> 'a \<Rightarrow> 'a \<times> bool"

section \<open>Scalars\<close>

definition parse_digits :: "string \<Rightarrow> nat option" where
  "parse_digits s = (if s = [] then None else parse_decimal 0 s)"

text \<open>\<^verbatim>\<open>strconv.ParseInt(s, 10, 64)\<close>, and \<^verbatim>\<open>ParseUint\<close> followed by the overflow
  check of the destination's width.\<close>

definition int64_range :: "int \<Rightarrow> bool" where
  "int64_range i \<longleftrightarrow> - (2 ^ 63) \<le> i \<and> i < 2 ^ 63"

definition parse_int :: "string \<Rightarrow> int option" where
  "parse_int s =
     (case s of
        [] \<Rightarrow> None
      | c # t \<Rightarrow>
          if c = CHR ''-'' then map_option (\<lambda>n. - int n) (parse_digits t)
          else map_option int (parse_digits s))"

definition dec_string :: "string decoder" where
  "dec_string v x =
     (if v = ''null'' then (x, True)
      else (case unquote v of Some y \<Rightarrow> (y, True) | None \<Rightarrow> (x, False)))"

definition dec_bool :: "bool decoder" where
  "dec_bool v x =
     (if v = ''null'' then (x, True) else if v = ''true'' then (True, True)
      else if v = ''false'' then (False, True) else (x, False))"

definition dec_int64 :: "int decoder" where
  "dec_int64 v x =
     (if v = ''null'' then (x, True)
      else (case parse_int v of
              Some i \<Rightarrow> if int64_range i then (i, True) else (x, False)
            | None \<Rightarrow> (x, False)))"

definition dec_uint :: "'a::len word decoder" where
  "dec_uint v x =
     (if v = ''null'' then (x, True)
      else (case parse_digits v of
              Some n \<Rightarrow> if n < 2 ^ LENGTH('a) then (of_nat n, True) else (x, False)
            | None \<Rightarrow> (x, False)))"

text \<open>\<^verbatim>\<open>json.RawMessage\<close> keeps the text, also of \<open>null\<close>.\<close>

definition dec_raw :: "string decoder" where
  "dec_raw v x = (v, True)"

text \<open>A \<^verbatim>\<open>float64\<close>: \<open>prs\<close> is \<^verbatim>\<open>strconv.ParseFloat\<close> on number texts.\<close>

definition dec_float :: "(string \<Rightarrow> 'f option) \<Rightarrow> 'f decoder" where
  "dec_float prs v x =
     (if v = ''null'' then (x, True)
      else if v \<noteq> [] \<and> (hd v = CHR ''-'' \<or> is_digit (hd v)) then
        (case prs v of Some f \<Rightarrow> (f, True) | None \<Rightarrow> (x, False))
      else (x, False))"

section \<open>Arrays\<close>

text \<open>Elements are decoded over the old elements at their index, and over \<open>zero\<close> beyond them.\<close>

fun dec_elems :: "'a decoder \<Rightarrow> 'a \<Rightarrow> string list \<Rightarrow> 'a list \<Rightarrow> 'a list \<times> bool" where
  "dec_elems d zero [] old = ([], True)"
| "dec_elems d zero (v # vs) old =
     (let (x, ok) = d v (case old of [] \<Rightarrow> zero | o1 # _ \<Rightarrow> o1);
          (xs, oks) = dec_elems d zero vs (tl old)
      in (x # xs, ok \<and> oks))"

definition dec_slice :: "'a decoder \<Rightarrow> 'a \<Rightarrow> 'a list decoder" where
  "dec_slice d zero v old =
     (if v = ''null'' then ([], True)
      else (case arr_elems v of Some vs \<Rightarrow> dec_elems d zero vs old | None \<Rightarrow> (old, False)))"

section \<open>Structs\<close>

text \<open>
  Field names are matched without case. Two runes outside ASCII fold to letters: the long s
  (U+017F) to S and the Kelvin sign (U+212A) to K.
\<close>

fun fold_key :: "string \<Rightarrow> string" where
  "fold_key [] = []"
| "fold_key (c # s) =
     (if 97 \<le> code c \<and> code c \<le> 122 then char_of (code c - 32) # fold_key s
      else if c = CHR 0xC5 \<and> prefix [CHR 0xBF] s then CHR ''S'' # fold_key (drop 1 s)
      else if c = CHR 0xE2 \<and> prefix [CHR 0x84, CHR 0xAA] s then CHR ''K'' # fold_key (drop 2 s)
      else c # fold_key s)"

type_synonym 'r field = "string \<times> (string \<Rightarrow> 'r \<Rightarrow> 'r \<times> bool)"

text \<open>A field of a record: its name, how to read it, how to update it, and its decoder.\<close>

definition field :: "string \<Rightarrow> ('r \<Rightarrow> 'a) \<Rightarrow> (('a \<Rightarrow> 'a) \<Rightarrow> 'r \<Rightarrow> 'r) \<Rightarrow> 'a decoder \<Rightarrow> 'r field" where
  "field name get upd d = (name, \<lambda>v r. let (x, ok) = d v (get r) in (upd (\<lambda>_. x) r, ok))"

definition find_field :: "'r field list \<Rightarrow> string \<Rightarrow> (string \<Rightarrow> 'r \<Rightarrow> 'r \<times> bool) option" where
  "find_field fs k = map_option snd (find (\<lambda>f. fold_key (fst f) = fold_key k) fs)"

fun dec_fields :: "'r field list \<Rightarrow> (string \<times> string) list \<Rightarrow> 'r \<Rightarrow> 'r \<times> bool" where
  "dec_fields fs [] r = (r, True)"
| "dec_fields fs ((k, v) # kvs) r =
     (case Option.bind (unquote_body k) (find_field fs) of
        None \<Rightarrow> dec_fields fs kvs r
      | Some d \<Rightarrow>
          let (r1, ok) = d v r; (r2, oks) = dec_fields fs kvs r1 in (r2, ok \<and> oks))"

definition dec_struct :: "'r field list \<Rightarrow> 'r decoder" where
  "dec_struct fs v r =
     (if v = ''null'' then (r, True)
      else (case obj_fields v of Some kvs \<Rightarrow> dec_fields fs kvs r | None \<Rightarrow> (r, False)))"

text \<open>
  The whole document: a text the scanner refuses leaves the destination alone; after a type
  error the destination is filled and the error is returned.
\<close>

definition json_Unmarshal :: "'r decoder \<Rightarrow> string \<Rightarrow> ('r, unit) prog" where
  "json_Unmarshal d s r =
     (case (if json_valid s then take_value s else None) of
        None \<Rightarrow> (Inl JsonError, r)
      | Some (v, _) \<Rightarrow> let (r', ok) = d v r in (if ok then Inr () else Inl JsonError, r'))"

section \<open>Reading what the encoders wrote\<close>

lemma quote_not_null [simp]: "quote s \<noteq> ''null''"
  by (simp add: quote_def)

lemma unquote_quote [simp]: "unquote (quote s) = Some (fix_utf8 s)"
  by (simp add: unquote_def quote_def unquote_quote_body butlast_append)

lemma dec_string_quote [simp]: "dec_string (quote s) x = (fix_utf8 s, True)"
  by (simp add: dec_string_def)

lemma dec_bool_text [simp]: "dec_bool (bool_text b) x = (b, True)"
  by (simp add: dec_bool_def bool_text_def)

lemma parse_digits_decimal [simp]: "parse_digits (decimal n) = Some n"
  by (simp add: parse_digits_def)

lemma hd_decimal_digit: "is_digit (hd (decimal n))"
  by (rule is_digit_decimal[of _ n]) simp

lemma parse_int_text [simp]: "parse_int (int_text i) = Some i"
proof (cases "i < 0")
  case True
  then show ?thesis by (simp add: parse_int_def int_text_def)
next
  case False
  obtain c t where ct: "decimal (nat i) = c # t" by (cases "decimal (nat i)") auto
  then have "c \<noteq> CHR ''-''" using hd_decimal_digit[of "nat i"] by (auto simp: is_digit_def code_def)
  then show ?thesis using ct False parse_digits_decimal[of "nat i"]
    by (simp add: parse_int_def int_text_def del: parse_digits_decimal)
qed

lemma int_text_not_null [simp]: "int_text i \<noteq> ''null''"
  using hd_int_text[of i] by (auto simp: is_digit_def code_def)

lemma dec_int64_text: "int64_range i \<Longrightarrow> dec_int64 (int_text i) x = (i, True)"
  by (simp add: dec_int64_def)

lemma int_text_of_nat: "int_text (int n) = decimal n"
  by (simp add: int_text_def)

lemma dec_uint_text [simp]: "dec_uint (int_text (uint (w :: 'a::len word))) x = (w, True)"
proof -
  have t: "int_text (uint w) = decimal (unat w)" by (metis int_text_of_nat uint_nat)
  have "decimal (unat w) \<noteq> ''null''" by (metis t int_text_not_null)
  moreover have "unat w < 2 ^ LENGTH('a)" by simp
  ultimately show ?thesis unfolding t dec_uint_def by simp
qed

lemma obj_text_not_null [simp]: "obj_text kvs \<noteq> ''null''"
  by (simp add: obj_text_def)

lemma arr_text_not_null [simp]: "arr_text vs \<noteq> ''null''"
  by (simp add: arr_text_def)

lemma dec_elems_map:
  "(\<And>x. x \<in> set xs \<Longrightarrow> d (enc x) zero = (f x, True)) \<Longrightarrow>
   dec_elems d zero (map enc xs) [] = (map f xs, True)"
  by (induction xs) auto

lemma dec_slice_map:
  assumes "\<And>x. x \<in> set xs \<Longrightarrow> d (enc x) zero = (f x, True)" "\<And>x. x \<in> set xs \<Longrightarrow> encoded dep (enc x)"
    "dep \<le> max_depth"
  shows "dec_slice d zero (arr_text (map enc xs)) [] = (map f xs, True)"
proof -
  have "arr_elems (arr_text (map enc xs)) = Some (map enc xs)"
    by (rule arr_elems_text[of _ dep]) (use assms(2,3) in \<open>auto simp: encoded_def\<close>)
  then show ?thesis using dec_elems_map[of xs d enc zero f] assms(1) by (simp add: dec_slice_def)
qed

lemma fix_utf8_ascii: "\<forall>c \<in> set s. code c < 0x80 \<Longrightarrow> fix_utf8 s = s"
  by (induction s) auto

lemma dec_struct_text:
  assumes "\<forall>(k, v) \<in> set kvs. encoded dep v" "dep \<le> max_depth"
  shows "dec_struct fs (obj_text kvs) r = dec_fields fs (map (\<lambda>(k, v). (quote_body k, v)) kvs) r"
proof -
  have "obj_fields (obj_text kvs) = Some (map (\<lambda>(k, v). (quote_body k, v)) kvs)"
    by (rule obj_fields_text[of _ dep]) (use assms in \<open>auto simp: encoded_def\<close>)
  then show ?thesis by (simp add: dec_struct_def)
qed

lemma json_Unmarshal_text:
  assumes "encoded dep v" "dep \<le> max_depth"
  shows "json_Unmarshal d v r = (let (r', ok) = d v r in (if ok then Inr () else Inl JsonError, r'))"
  using encoded_valid[OF assms] encoded_take[OF assms] by (simp add: json_Unmarshal_def)

lemma find_field_simps [simp]:
  "find_field [] k = None"
  "find_field (field n get upd d # fs) k =
    (if fold_key n = fold_key k then Some (\<lambda>v r. let (x, ok) = d v (get r) in (upd (\<lambda>_. x) r, ok))
     else find_field fs k)"
  by (simp_all add: find_field_def field_def)

lemma dec_raw_run [simp]: "dec_raw v x = (v, True)"
  by (simp add: dec_raw_def)

lemma max_depth_ge [simp]: "dep \<le> 100 \<Longrightarrow> dep \<le> max_depth"
  by (simp add: max_depth_def)

lemma fix_utf8_Nil_iff [simp]: "fix_utf8 s = [] \<longleftrightarrow> s = []"
  by (cases s) (auto simp: replacement_def)

declare unquote_quote_body [simp] quote_body.simps(2) [simp del] unquote_body.simps(2) [simp del] fix_utf8.simps(2) [simp del]
  fold_key.simps(2) [simp del] skip_value.simps(2) [simp del]

end
