(* ===== verification/Protocol.thy ===== *)
theory Protocol
  imports JsonDecode Domain
begin

text \<open>
  \<^verbatim>\<open>internal/protocol/protocol.go\<close>: the envelopes and payloads of the wire protocol with
  their JSON texts, and the framing of records. The texts of \<^verbatim>\<open>encoding/json\<close> are strings
  of bytes, records are lists of bytes. A raw message that is absent (\<^verbatim>\<open>nil\<close>) is the empty
  text. Formatting and parsing of \<^verbatim>\<open>float64\<close> are a parameter: the program only forwards
  the cost it is given.
\<close>

definition MaxRecordPlaintext :: nat where
  "MaxRecordPlaintext = 65519"

definition ChunkPayloadSize :: nat where
  "ChunkPayloadSize = MaxRecordPlaintext - 1 - 13"

definition tagEnvelope :: byte where
  "tagEnvelope = 1"

definition tagChunk :: byte where
  "tagChunk = 2"

section \<open>Message types\<close>

definition TypeSessionStart :: string where "TypeSessionStart = ''session.start''"
definition TypeBlob :: string where "TypeBlob = ''blob''"
definition TypeSyncDone :: string where "TypeSyncDone = ''sync.done''"
definition TypePrompt :: string where "TypePrompt = ''prompt''"
definition TypeInterrupt :: string where "TypeInterrupt = ''interrupt''"
definition TypeSessionEnd :: string where "TypeSessionEnd = ''session.end''"
definition TypeSessionReady :: string where "TypeSessionReady = ''session.ready''"
definition TypeSyncRequest :: string where "TypeSyncRequest = ''sync.request''"
definition TypeStreamEvent :: string where "TypeStreamEvent = ''stream.event''"
definition TypeFileChange :: string where "TypeFileChange = ''file.change''"
definition TypeTurnDone :: string where "TypeTurnDone = ''turn.done''"
definition TypeError :: string where "TypeError = ''error''"

lemmas type_defs = TypeSessionStart_def TypeBlob_def TypeSyncDone_def TypePrompt_def
  TypeInterrupt_def TypeSessionEnd_def TypeSessionReady_def TypeSyncRequest_def
  TypeStreamEvent_def TypeFileChange_def TypeTurnDone_def TypeError_def

text \<open>No two message types are the same string.\<close>

lemma type_neq [simplified, simp]:
  "TypeSessionStart \<notin> {TypeBlob, TypeSyncDone, TypePrompt, TypeInterrupt, TypeSessionEnd,
    TypeSessionReady, TypeSyncRequest, TypeStreamEvent, TypeFileChange, TypeTurnDone, TypeError}"
  "TypeBlob \<notin> {TypeSessionStart, TypeSyncDone, TypePrompt, TypeInterrupt, TypeSessionEnd,
    TypeSessionReady, TypeSyncRequest, TypeStreamEvent, TypeFileChange, TypeTurnDone, TypeError}"
  "TypeSyncDone \<notin> {TypeSessionStart, TypeBlob, TypePrompt, TypeInterrupt, TypeSessionEnd,
    TypeSessionReady, TypeSyncRequest, TypeStreamEvent, TypeFileChange, TypeTurnDone, TypeError}"
  "TypePrompt \<notin> {TypeSessionStart, TypeBlob, TypeSyncDone, TypeInterrupt, TypeSessionEnd,
    TypeSessionReady, TypeSyncRequest, TypeStreamEvent, TypeFileChange, TypeTurnDone, TypeError}"
  "TypeInterrupt \<notin> {TypeSessionStart, TypeBlob, TypeSyncDone, TypePrompt, TypeSessionEnd,
    TypeSessionReady, TypeSyncRequest, TypeStreamEvent, TypeFileChange, TypeTurnDone, TypeError}"
  "TypeSessionEnd \<notin> {TypeSessionStart, TypeBlob, TypeSyncDone, TypePrompt, TypeInterrupt,
    TypeSessionReady, TypeSyncRequest, TypeStreamEvent, TypeFileChange, TypeTurnDone, TypeError}"
  "TypeSessionReady \<notin> {TypeSessionStart, TypeBlob, TypeSyncDone, TypePrompt, TypeInterrupt,
    TypeSessionEnd, TypeSyncRequest, TypeStreamEvent, TypeFileChange, TypeTurnDone, TypeError}"
  "TypeSyncRequest \<notin> {TypeSessionStart, TypeBlob, TypeSyncDone, TypePrompt, TypeInterrupt,
    TypeSessionEnd, TypeSessionReady, TypeStreamEvent, TypeFileChange, TypeTurnDone, TypeError}"
  "TypeStreamEvent \<notin> {TypeSessionStart, TypeBlob, TypeSyncDone, TypePrompt, TypeInterrupt,
    TypeSessionEnd, TypeSessionReady, TypeSyncRequest, TypeFileChange, TypeTurnDone, TypeError}"
  "TypeFileChange \<notin> {TypeSessionStart, TypeBlob, TypeSyncDone, TypePrompt, TypeInterrupt,
    TypeSessionEnd, TypeSessionReady, TypeSyncRequest, TypeStreamEvent, TypeTurnDone, TypeError}"
  "TypeTurnDone \<notin> {TypeSessionStart, TypeBlob, TypeSyncDone, TypePrompt, TypeInterrupt,
    TypeSessionEnd, TypeSessionReady, TypeSyncRequest, TypeStreamEvent, TypeFileChange, TypeError}"
  "TypeError \<notin> {TypeSessionStart, TypeBlob, TypeSyncDone, TypePrompt, TypeInterrupt,
    TypeSessionEnd, TypeSessionReady, TypeSyncRequest, TypeStreamEvent, TypeFileChange, TypeTurnDone}"
  by (simp_all add: type_defs)

section \<open>Envelopes and payloads\<close>

record Envelope =
  env_Type :: string
  env_ID :: string
  env_Data :: string

record FileEntryDTO =
  dto_Path :: string
  dto_Hash :: string
  dto_Size :: int
  dto_Mode :: "32 word"

record SessionStartData =
  ss_ProjectName :: string
  ss_Manifest :: "FileEntryDTO list"

record SyncRequestData =
  sr_Missing :: "string list"

record BlobData =
  bd_StreamID :: "64 word"
  bd_Hash :: string
  bd_Size :: int

record PromptData =
  pd_Text :: string

record StreamEventData =
  se_Kind :: string
  se_Text :: string
  se_Raw :: string

record FileChangeData =
  fd_Op :: string
  fd_Path :: string
  fd_Mode :: "32 word"
  fd_Hash :: string
  fd_StreamID :: "64 word"
  fd_Size :: int

record TurnDoneData =
  td_IsError :: bool
  td_CostUSD :: float64
  td_Text :: string
  td_NumTurns :: int

record ErrorData =
  er_Message :: string

record SessionReadyData =
  rd_SessionID :: string

text \<open>\<^verbatim>\<open>strconv.FormatFloat\<close> as the encoder calls it (no text for NaN and the infinities) and
  \<^verbatim>\<open>strconv.ParseFloat\<close>.\<close>

record float_ops =
  fmt_float :: "float64 \<Rightarrow> string option"
  prs_float :: "string \<Rightarrow> float64 option"

section \<open>Encoding\<close>

text \<open>\<^verbatim>\<open>omitempty\<close>, and a raw message, which the encoder compacts.\<close>

definition omitempty :: "bool \<Rightarrow> string \<Rightarrow> string \<Rightarrow> (string \<times> string) list" where
  "omitempty e k v = (if e then [] else [(k, v)])"

definition omit_raw :: "string \<Rightarrow> string \<Rightarrow> (string \<times> string) list option" where
  "omit_raw k raw = (if raw = [] then Some [] else map_option (\<lambda>v. [(k, v)]) (compact raw))"

definition marshal_Envelope :: "Envelope \<Rightarrow> string option" where
  "marshal_Envelope e =
     map_option (\<lambda>d. obj_text
       ([(''type'', quote (env_Type e))] @ omitempty (env_ID e = []) ''id'' (quote (env_ID e)) @ d))
       (omit_raw ''data'' (env_Data e))"

definition marshal_FileEntryDTO :: "FileEntryDTO \<Rightarrow> string" where
  "marshal_FileEntryDTO d = obj_text
     [(''path'', quote (dto_Path d)), (''hash'', quote (dto_Hash d)),
      (''size'', int_text (dto_Size d)), (''mode'', int_text (uint (dto_Mode d)))]"

definition marshal_SessionStartData :: "SessionStartData \<Rightarrow> string" where
  "marshal_SessionStartData d = obj_text
     [(''projectName'', quote (ss_ProjectName d)),
      (''manifest'', arr_text (map marshal_FileEntryDTO (ss_Manifest d)))]"

text \<open>The list of missing hashes is built by \<^verbatim>\<open>append\<close> from \<^verbatim>\<open>nil\<close>: empty, it is \<open>null\<close>.\<close>

definition marshal_SyncRequestData :: "SyncRequestData \<Rightarrow> string" where
  "marshal_SyncRequestData d = obj_text
     [(''missing'', if sr_Missing d = [] then ''null'' else arr_text (map quote (sr_Missing d)))]"

definition marshal_BlobData :: "BlobData \<Rightarrow> string" where
  "marshal_BlobData d = obj_text
     [(''streamId'', int_text (uint (bd_StreamID d))), (''hash'', quote (bd_Hash d)),
      (''size'', int_text (bd_Size d))]"

definition marshal_PromptData :: "PromptData \<Rightarrow> string" where
  "marshal_PromptData d = obj_text [(''text'', quote (pd_Text d))]"

definition marshal_StreamEventData :: "StreamEventData \<Rightarrow> string option" where
  "marshal_StreamEventData d =
     map_option (\<lambda>raw. obj_text
       ([(''kind'', quote (se_Kind d))] @ omitempty (se_Text d = []) ''text'' (quote (se_Text d)) @ raw))
       (omit_raw ''raw'' (se_Raw d))"

definition marshal_FileChangeData :: "FileChangeData \<Rightarrow> string" where
  "marshal_FileChangeData d = obj_text
     ([(''op'', quote (fd_Op d)), (''path'', quote (fd_Path d))] @
      omitempty (fd_Mode d = 0) ''mode'' (int_text (uint (fd_Mode d))) @
      omitempty (fd_Hash d = []) ''hash'' (quote (fd_Hash d)) @
      omitempty (fd_StreamID d = 0) ''streamId'' (int_text (uint (fd_StreamID d))) @
      omitempty (fd_Size d = 0) ''size'' (int_text (fd_Size d)))"

text \<open>A \<^verbatim>\<open>float64\<close> is empty if it compares equal to 0, so \<open>-0\<close> is too.\<close>

definition float_zero :: "float64 \<Rightarrow> bool" where
  "float_zero f \<longleftrightarrow> f = 0 \<or> f = push_bit 63 1"

definition marshal_TurnDoneData :: "float_ops \<Rightarrow> TurnDoneData \<Rightarrow> string option" where
  "marshal_TurnDoneData fl d =
     map_option (\<lambda>cost. obj_text
       ([(''isError'', bool_text (td_IsError d))] @ cost @
        omitempty (td_Text d = []) ''text'' (quote (td_Text d)) @
        omitempty (td_NumTurns d = 0) ''numTurns'' (int_text (td_NumTurns d))))
       (if float_zero (td_CostUSD d) then Some []
        else map_option (\<lambda>v. [(''costUSD'', v)]) (fmt_float fl (td_CostUSD d)))"

definition marshal_ErrorData :: "ErrorData \<Rightarrow> string" where
  "marshal_ErrorData d = obj_text [(''message'', quote (er_Message d))]"

definition marshal_SessionReadyData :: "SessionReadyData \<Rightarrow> string" where
  "marshal_SessionReadyData d = obj_text [(''sessionId'', quote (rd_SessionID d))]"

section \<open>Decoding\<close>

definition dec_Envelope :: "Envelope decoder" where
  "dec_Envelope = dec_struct
     [field ''type'' env_Type env_Type_update dec_string,
      field ''id'' env_ID env_ID_update dec_string,
      field ''data'' env_Data env_Data_update dec_raw]"

definition dec_FileEntryDTO :: "FileEntryDTO decoder" where
  "dec_FileEntryDTO = dec_struct
     [field ''path'' dto_Path dto_Path_update dec_string,
      field ''hash'' dto_Hash dto_Hash_update dec_string,
      field ''size'' dto_Size dto_Size_update dec_int64,
      field ''mode'' dto_Mode dto_Mode_update dec_uint]"

definition zero_FileEntryDTO :: FileEntryDTO where
  "zero_FileEntryDTO = \<lparr> dto_Path = [], dto_Hash = [], dto_Size = 0, dto_Mode = 0 \<rparr>"

definition dec_SessionStartData :: "SessionStartData decoder" where
  "dec_SessionStartData = dec_struct
     [field ''projectName'' ss_ProjectName ss_ProjectName_update dec_string,
      field ''manifest'' ss_Manifest ss_Manifest_update (dec_slice dec_FileEntryDTO zero_FileEntryDTO)]"

definition dec_SyncRequestData :: "SyncRequestData decoder" where
  "dec_SyncRequestData = dec_struct
     [field ''missing'' sr_Missing sr_Missing_update (dec_slice dec_string [])]"

definition dec_BlobData :: "BlobData decoder" where
  "dec_BlobData = dec_struct
     [field ''streamId'' bd_StreamID bd_StreamID_update dec_uint,
      field ''hash'' bd_Hash bd_Hash_update dec_string,
      field ''size'' bd_Size bd_Size_update dec_int64]"

definition dec_PromptData :: "PromptData decoder" where
  "dec_PromptData = dec_struct [field ''text'' pd_Text pd_Text_update dec_string]"

definition dec_StreamEventData :: "StreamEventData decoder" where
  "dec_StreamEventData = dec_struct
     [field ''kind'' se_Kind se_Kind_update dec_string,
      field ''text'' se_Text se_Text_update dec_string,
      field ''raw'' se_Raw se_Raw_update dec_raw]"

definition dec_FileChangeData :: "FileChangeData decoder" where
  "dec_FileChangeData = dec_struct
     [field ''op'' fd_Op fd_Op_update dec_string,
      field ''path'' fd_Path fd_Path_update dec_string,
      field ''mode'' fd_Mode fd_Mode_update dec_uint,
      field ''hash'' fd_Hash fd_Hash_update dec_string,
      field ''streamId'' fd_StreamID fd_StreamID_update dec_uint,
      field ''size'' fd_Size fd_Size_update dec_int64]"

definition dec_TurnDoneData :: "float_ops \<Rightarrow> TurnDoneData decoder" where
  "dec_TurnDoneData fl = dec_struct
     [field ''isError'' td_IsError td_IsError_update dec_bool,
      field ''costUSD'' td_CostUSD td_CostUSD_update (dec_float (prs_float fl)),
      field ''text'' td_Text td_Text_update dec_string,
      field ''numTurns'' td_NumTurns td_NumTurns_update dec_int64]"

definition dec_ErrorData :: "ErrorData decoder" where
  "dec_ErrorData = dec_struct [field ''message'' er_Message er_Message_update dec_string]"

definition dec_SessionReadyData :: "SessionReadyData decoder" where
  "dec_SessionReadyData = dec_struct [field ''sessionId'' rd_SessionID rd_SessionID_update dec_string]"

text \<open>The zero values the destinations start from.\<close>

definition zero_Envelope :: Envelope where
  "zero_Envelope = \<lparr> env_Type = [], env_ID = [], env_Data = [] \<rparr>"

definition zero_BlobData :: BlobData where
  "zero_BlobData = \<lparr> bd_StreamID = 0, bd_Hash = [], bd_Size = 0 \<rparr>"

definition zero_FileChangeData :: FileChangeData where
  "zero_FileChangeData =
     \<lparr> fd_Op = [], fd_Path = [], fd_Mode = 0, fd_Hash = [], fd_StreamID = 0, fd_Size = 0 \<rparr>"

definition zero_StreamEventData :: StreamEventData where
  "zero_StreamEventData = \<lparr> se_Kind = [], se_Text = [], se_Raw = [] \<rparr>"

definition zero_TurnDoneData :: TurnDoneData where
  "zero_TurnDoneData = \<lparr> td_IsError = False, td_CostUSD = 0, td_Text = [], td_NumTurns = 0 \<rparr>"

definition zero_SessionStartData :: SessionStartData where
  "zero_SessionStartData = \<lparr> ss_ProjectName = [], ss_Manifest = [] \<rparr>"

text \<open>An envelope without payload decodes as the zero value.\<close>

definition UnmarshalData :: "Envelope \<Rightarrow> 'r decoder \<Rightarrow> ('r, unit) prog" where
  "UnmarshalData env d = (if env_Data env = [] then retE () else json_Unmarshal d (env_Data env))"

section \<open>Record framing\<close>

definition EncodeEnvelope :: "Envelope \<Rightarrow> error + bytes" where
  "EncodeEnvelope env =
     (case marshal_Envelope env of
        None \<Rightarrow> Inl JsonError
      | Some b \<Rightarrow>
          if length b + 1 > MaxRecordPlaintext
          then Inl (ErrMsg ''protocol: envelope exceeds max record size'')
          else Inr (tagEnvelope # bytes_of_string b))"

definition EncodeChunk :: "64 word \<Rightarrow> 32 word \<Rightarrow> bool \<Rightarrow> bytes \<Rightarrow> bytes" where
  "EncodeChunk streamID sq final payload =
     tagChunk # be_bytes 8 streamID @ be_bytes 4 sq @ (if final then 1 else 0) # payload"

record Chunk =
  ch_StreamID :: "64 word"
  ch_Seq :: "32 word"
  ch_Final :: bool
  ch_Payload :: bytes

record Record =
  rc_IsEnvelope :: bool
  rc_Envelope :: Envelope
  rc_Chunk :: Chunk

definition zero_Chunk :: Chunk where
  "zero_Chunk = \<lparr> ch_StreamID = 0, ch_Seq = 0, ch_Final = False, ch_Payload = [] \<rparr>"

definition DecodeRecord :: "bytes \<Rightarrow> error + Record" where
  "DecodeRecord b =
     (case b of
        [] \<Rightarrow> Inl (ErrMsg ''protocol: empty record'')
      | t # r \<Rightarrow>
          if t = tagEnvelope then
            (case json_Unmarshal dec_Envelope (string_of_bytes r) zero_Envelope of
               (Inl e, _) \<Rightarrow> Inl e
             | (Inr _, env) \<Rightarrow>
                 Inr \<lparr> rc_IsEnvelope = True, rc_Envelope = env, rc_Chunk = zero_Chunk \<rparr>)
          else if t = tagChunk then
            (if length b < 14 then Inl (ErrMsg ''protocol: short chunk header'')
             else Inr \<lparr> rc_IsEnvelope = False, rc_Envelope = zero_Envelope,
                    rc_Chunk = \<lparr> ch_StreamID = of_be_bytes (take 8 (drop 1 b)),
                      ch_Seq = of_be_bytes (take 4 (drop 9 b)), ch_Final = b ! 13 = 1,
                      ch_Payload = drop 14 b \<rparr> \<rparr>)
          else Inl (ErrMsg ''protocol: unknown record tag''))"

section \<open>Reading back what was written\<close>

text \<open>The field names, folded.\<close>

lemma fold_names [simp]:
  "fold_key ''type'' = ''TYPE''"
  "fold_key ''id'' = ''ID''"
  "fold_key ''data'' = ''DATA''"
  "fold_key ''path'' = ''PATH''"
  "fold_key ''hash'' = ''HASH''"
  "fold_key ''size'' = ''SIZE''"
  "fold_key ''mode'' = ''MODE''"
  "fold_key ''projectName'' = ''PROJECTNAME''"
  "fold_key ''manifest'' = ''MANIFEST''"
  "fold_key ''missing'' = ''MISSING''"
  "fold_key ''streamId'' = ''STREAMID''"
  "fold_key ''text'' = ''TEXT''"
  "fold_key ''kind'' = ''KIND''"
  "fold_key ''raw'' = ''RAW''"
  "fold_key ''op'' = ''OP''"
  "fold_key ''isError'' = ''ISERROR''"
  "fold_key ''costUSD'' = ''COSTUSD''"
  "fold_key ''numTurns'' = ''NUMTURNS''"
  "fold_key ''message'' = ''MESSAGE''"
  "fold_key ''sessionId'' = ''SESSIONID''"
  by (code_simp)+

lemma fix_names [simp]:
  "fix_utf8 ''type'' = ''type''"
  "fix_utf8 ''id'' = ''id''"
  "fix_utf8 ''data'' = ''data''"
  "fix_utf8 ''path'' = ''path''"
  "fix_utf8 ''hash'' = ''hash''"
  "fix_utf8 ''size'' = ''size''"
  "fix_utf8 ''mode'' = ''mode''"
  "fix_utf8 ''projectName'' = ''projectName''"
  "fix_utf8 ''manifest'' = ''manifest''"
  "fix_utf8 ''missing'' = ''missing''"
  "fix_utf8 ''streamId'' = ''streamId''"
  "fix_utf8 ''text'' = ''text''"
  "fix_utf8 ''kind'' = ''kind''"
  "fix_utf8 ''raw'' = ''raw''"
  "fix_utf8 ''op'' = ''op''"
  "fix_utf8 ''isError'' = ''isError''"
  "fix_utf8 ''costUSD'' = ''costUSD''"
  "fix_utf8 ''numTurns'' = ''numTurns''"
  "fix_utf8 ''message'' = ''message''"
  "fix_utf8 ''sessionId'' = ''sessionId''"
  by (simp_all add: fix_utf8_ascii code_def)

definition fix_FileEntryDTO :: "FileEntryDTO \<Rightarrow> FileEntryDTO" where
  "fix_FileEntryDTO d = d\<lparr> dto_Path := fix_utf8 (dto_Path d), dto_Hash := fix_utf8 (dto_Hash d) \<rparr>"

lemma encoded_FileEntryDTO: "encoded (Suc 0) (marshal_FileEntryDTO d)"
  unfolding marshal_FileEntryDTO_def by (rule encoded_obj) simp

lemma decode_FileEntryDTO:
  "int64_range (dto_Size d) \<Longrightarrow> dec_FileEntryDTO (marshal_FileEntryDTO d) zero_FileEntryDTO = (fix_FileEntryDTO d, True)"
  unfolding dec_FileEntryDTO_def marshal_FileEntryDTO_def
  by (subst dec_struct_text[of _ 0])
     (simp_all add: zero_FileEntryDTO_def fix_FileEntryDTO_def dec_int64_text)

text \<open>
  A string comes back with invalid UTF-8 replaced; everything else comes back as it was, up to
  the sign of a zero cost.
\<close>

definition fix_SessionStartData :: "SessionStartData \<Rightarrow> SessionStartData" where
  "fix_SessionStartData d =
     \<lparr> ss_ProjectName = fix_utf8 (ss_ProjectName d), ss_Manifest = map fix_FileEntryDTO (ss_Manifest d) \<rparr>"

lemma encoded_SessionStartData: "encoded 3 (marshal_SessionStartData d)"
proof -
  have "\<forall>v \<in> set (map marshal_FileEntryDTO (ss_Manifest d)). encoded (Suc 0) v"
    by (auto intro: encoded_FileEntryDTO)
  from encoded_arr[OF this] show ?thesis
    unfolding marshal_SessionStartData_def numeral_3_eq_3 by (intro encoded_obj) simp
qed

lemma decode_SessionStartData:
  assumes "\<forall>e \<in> set (ss_Manifest d). int64_range (dto_Size e)"
  shows "dec_SessionStartData (marshal_SessionStartData d) zero_SessionStartData = (fix_SessionStartData d, True)"
proof -
  have m: "dec_slice dec_FileEntryDTO zero_FileEntryDTO (arr_text (map marshal_FileEntryDTO (ss_Manifest d))) [] =
      (map fix_FileEntryDTO (ss_Manifest d), True)"
    by (rule dec_slice_map[of _ _ _ _ _ "Suc 0"]) (use assms in \<open>auto intro: encoded_FileEntryDTO decode_FileEntryDTO\<close>)
  have "encoded 2 (arr_text (map marshal_FileEntryDTO (ss_Manifest d)))"
    unfolding numeral_2_eq_2 by (rule encoded_arr) (use encoded_FileEntryDTO in auto)
  then show ?thesis
    unfolding dec_SessionStartData_def marshal_SessionStartData_def
    by (subst dec_struct_text[of _ 2])
       (simp_all add: m zero_SessionStartData_def fix_SessionStartData_def)
qed

lemma encoded_SyncRequestData: "encoded 2 (marshal_SyncRequestData d)"
proof -
  have "encoded 1 (arr_text (map quote (sr_Missing d)))"
    unfolding One_nat_def by (rule encoded_arr) simp
  then show ?thesis
    unfolding marshal_SyncRequestData_def numeral_2_eq_2 by (intro encoded_obj) simp
qed

lemma decode_SyncRequestData:
  "dec_SyncRequestData (marshal_SyncRequestData d) \<lparr> sr_Missing = [] \<rparr> =
   (\<lparr> sr_Missing = map fix_utf8 (sr_Missing d) \<rparr>, True)"
proof -
  have m: "dec_slice dec_string [] (arr_text (map quote (sr_Missing d))) [] = (map fix_utf8 (sr_Missing d), True)"
    by (rule dec_slice_map[of _ _ _ _ _ 0]) simp_all
  have n: "dec_slice dec_string [] ''null'' [] = ([], True)" by (simp add: dec_slice_def)
  have "encoded 1 (arr_text (map quote (sr_Missing d)))"
    unfolding One_nat_def by (rule encoded_arr) simp
  then show ?thesis
    unfolding dec_SyncRequestData_def marshal_SyncRequestData_def
    by (subst dec_struct_text[of _ 1]) (auto simp: m n)
qed

lemma encoded_flat: "\<forall>(k, v) \<in> set kvs. encoded 0 v \<Longrightarrow> encoded 1 (obj_text kvs)"
  unfolding One_nat_def by (rule encoded_obj)

lemma encoded_BlobData: "encoded 1 (marshal_BlobData d)"
  unfolding marshal_BlobData_def by (rule encoded_flat) simp

lemma decode_BlobData:
  "int64_range (bd_Size d) \<Longrightarrow>
   dec_BlobData (marshal_BlobData d) zero_BlobData = (d\<lparr> bd_Hash := fix_utf8 (bd_Hash d) \<rparr>, True)"
  unfolding dec_BlobData_def marshal_BlobData_def
  by (subst dec_struct_text[of _ 0]) (simp_all add: zero_BlobData_def dec_int64_text)

lemma encoded_PromptData: "encoded 1 (marshal_PromptData d)"
  unfolding marshal_PromptData_def by (rule encoded_flat) simp

lemma decode_PromptData:
  "dec_PromptData (marshal_PromptData d) \<lparr> pd_Text = [] \<rparr> = (\<lparr> pd_Text = fix_utf8 (pd_Text d) \<rparr>, True)"
  unfolding dec_PromptData_def marshal_PromptData_def
  by (subst dec_struct_text[of _ 0]) simp_all

lemma encoded_ErrorData: "encoded 1 (marshal_ErrorData d)"
  unfolding marshal_ErrorData_def by (rule encoded_flat) simp

lemma decode_ErrorData:
  "dec_ErrorData (marshal_ErrorData d) \<lparr> er_Message = [] \<rparr> = (\<lparr> er_Message = fix_utf8 (er_Message d) \<rparr>, True)"
  unfolding dec_ErrorData_def marshal_ErrorData_def
  by (subst dec_struct_text[of _ 0]) simp_all

lemma encoded_SessionReadyData: "encoded 1 (marshal_SessionReadyData d)"
  unfolding marshal_SessionReadyData_def by (rule encoded_flat) simp

lemma decode_SessionReadyData:
  "dec_SessionReadyData (marshal_SessionReadyData d) \<lparr> rd_SessionID = [] \<rparr> =
   (\<lparr> rd_SessionID = fix_utf8 (rd_SessionID d) \<rparr>, True)"
  unfolding dec_SessionReadyData_def marshal_SessionReadyData_def
  by (subst dec_struct_text[of _ 0]) simp_all

definition fix_FileChangeData :: "FileChangeData \<Rightarrow> FileChangeData" where
  "fix_FileChangeData d = d\<lparr> fd_Op := fix_utf8 (fd_Op d), fd_Path := fix_utf8 (fd_Path d),
     fd_Hash := fix_utf8 (fd_Hash d) \<rparr>"

lemma encoded_FileChangeData: "encoded 1 (marshal_FileChangeData d)"
  unfolding marshal_FileChangeData_def by (rule encoded_flat) (simp add: omitempty_def)

lemma decode_FileChangeData:
  "int64_range (fd_Size d) \<Longrightarrow>
   dec_FileChangeData (marshal_FileChangeData d) zero_FileChangeData = (fix_FileChangeData d, True)"
  unfolding dec_FileChangeData_def marshal_FileChangeData_def
  by (subst dec_struct_text[of _ 0])
     (simp_all add: zero_FileChangeData_def fix_FileChangeData_def dec_int64_text omitempty_def)

text \<open>An event's raw line arrives compacted.\<close>

lemma marshal_StreamEventData_cases:
  assumes "marshal_StreamEventData d = Some t"
  obtains raw where "t = obj_text ([(''kind'', quote (se_Kind d))] @
      omitempty (se_Text d = []) ''text'' (quote (se_Text d)) @ omitempty (se_Raw d = []) ''raw'' raw)"
    "se_Raw d = [] \<or> compact (se_Raw d) = Some raw"
  using assms by (auto simp: marshal_StreamEventData_def omit_raw_def omitempty_def split: if_splits)

lemma encoded_StreamEventData:
  assumes "se_Raw d = [] \<or> compact (se_Raw d) = Some raw \<and> encoded dep raw"
    "marshal_StreamEventData d = Some t"
  shows "encoded (Suc dep) t"
  using assms(2)
proof (cases rule: marshal_StreamEventData_cases)
  case (1 r)
  show ?thesis unfolding 1(1) by (rule encoded_obj) (use 1(2) assms(1) in \<open>auto simp: omitempty_def\<close>)
qed

lemma decode_StreamEventData:
  assumes "se_Raw d = [] \<or> compact (se_Raw d) = Some raw \<and> encoded dep raw" "dep \<le> max_depth"
    "marshal_StreamEventData d = Some t"
  shows "dec_StreamEventData t zero_StreamEventData =
    (\<lparr> se_Kind = fix_utf8 (se_Kind d), se_Text = fix_utf8 (se_Text d),
       se_Raw = (if se_Raw d = [] then [] else raw) \<rparr>, True)"
  using assms(3)
proof (cases rule: marshal_StreamEventData_cases)
  case (1 r)
  show ?thesis unfolding 1(1) dec_StreamEventData_def
    by (subst dec_struct_text[of _ dep])
       (use 1(2) assms(1,2) in \<open>auto simp: omitempty_def zero_StreamEventData_def\<close>)
qed

text \<open>What the program relies on about texts of numbers: they are numbers and parse back.\<close>

definition float_laws :: "float_ops \<Rightarrow> bool" where
  "float_laws fl \<longleftrightarrow>
     (\<forall>f t. fmt_float fl f = Some t \<longrightarrow>
        encoded 0 t \<and> (hd t = CHR ''-'' \<or> is_digit (hd t)) \<and> prs_float fl t = Some f)"

definition fix_TurnDoneData :: "TurnDoneData \<Rightarrow> TurnDoneData" where
  "fix_TurnDoneData d = d\<lparr> td_CostUSD := (if float_zero (td_CostUSD d) then 0 else td_CostUSD d),
     td_Text := fix_utf8 (td_Text d) \<rparr>"

lemma marshal_TurnDoneData_cases:
  assumes "marshal_TurnDoneData fl d = Some t"
  obtains v where "t = obj_text ([(''isError'', bool_text (td_IsError d))] @
      omitempty (float_zero (td_CostUSD d)) ''costUSD'' v @
      omitempty (td_Text d = []) ''text'' (quote (td_Text d)) @
      omitempty (td_NumTurns d = 0) ''numTurns'' (int_text (td_NumTurns d)))"
    "float_zero (td_CostUSD d) \<or> fmt_float fl (td_CostUSD d) = Some v"
  using assms by (auto simp: marshal_TurnDoneData_def omitempty_def split: if_splits)

lemma encoded_TurnDoneData:
  assumes "float_laws fl" "marshal_TurnDoneData fl d = Some t"
  shows "encoded 1 t"
  using assms(2)
proof (cases rule: marshal_TurnDoneData_cases)
  case (1 v)
  show ?thesis unfolding 1(1)
    by (rule encoded_flat) (use 1(2) assms(1) in \<open>auto simp: omitempty_def float_laws_def\<close>)
qed

lemma dec_float_text:
  assumes "float_laws fl" "fmt_float fl f = Some v"
  shows "dec_float (prs_float fl) v x = (f, True)"
proof -
  have v: "encoded 0 v" "hd v = CHR ''-'' \<or> is_digit (hd v)" "prs_float fl v = Some f"
    using assms by (auto simp: float_laws_def)
  then have "v \<noteq> ''null''" by (auto simp: is_digit_def code_def)
  then show ?thesis using v encoded_not_Nil[OF v(1)] by (simp add: dec_float_def)
qed

lemma decode_TurnDoneData:
  assumes "float_laws fl" "int64_range (td_NumTurns d)" "marshal_TurnDoneData fl d = Some t"
  shows "dec_TurnDoneData fl t zero_TurnDoneData = (fix_TurnDoneData d, True)"
  using assms(3)
proof (cases rule: marshal_TurnDoneData_cases)
  case (1 v)
  have "\<forall>(k, w) \<in> set ([(''isError'', bool_text (td_IsError d))] @
      omitempty (float_zero (td_CostUSD d)) ''costUSD'' v @
      omitempty (td_Text d = []) ''text'' (quote (td_Text d)) @
      omitempty (td_NumTurns d = 0) ''numTurns'' (int_text (td_NumTurns d))). encoded 0 w"
    using 1(2) assms(1) by (auto simp: omitempty_def float_laws_def)
  then show ?thesis
    unfolding 1(1) dec_TurnDoneData_def
    by (subst dec_struct_text[of _ 0])
       (use 1(2) dec_float_text[OF assms(1)] assms(2) in
         \<open>auto simp: omitempty_def zero_TurnDoneData_def fix_TurnDoneData_def dec_int64_text\<close>)
qed

section \<open>Records\<close>

lemma encoded_raw_data:
  assumes "env_Data e = [] \<or> encoded dep (env_Data e)" "dep \<le> max_depth"
  shows "omit_raw ''data'' (env_Data e) = Some (omitempty (env_Data e = []) ''data'' (env_Data e))"
  using assms encoded_compact[of dep "env_Data e"] by (auto simp: omit_raw_def omitempty_def)

lemma marshal_Envelope_eq:
  assumes "env_Data e = [] \<or> encoded dep (env_Data e)" "dep \<le> max_depth"
  shows "marshal_Envelope e = Some (obj_text ([(''type'', quote (env_Type e))] @
    omitempty (env_ID e = []) ''id'' (quote (env_ID e)) @ omitempty (env_Data e = []) ''data'' (env_Data e)))"
  using encoded_raw_data[OF assms] by (simp add: marshal_Envelope_def)

definition fix_Envelope :: "Envelope \<Rightarrow> Envelope" where
  "fix_Envelope e = e\<lparr> env_Type := fix_utf8 (env_Type e), env_ID := fix_utf8 (env_ID e) \<rparr>"

lemma decode_Envelope:
  assumes "env_Data e = [] \<or> encoded dep (env_Data e)" "Suc dep \<le> max_depth" "marshal_Envelope e = Some t"
  shows "json_Unmarshal dec_Envelope t zero_Envelope = (Inr (), fix_Envelope e)"
proof -
  let ?kvs = "[(''type'', quote (env_Type e))] @ omitempty (env_ID e = []) ''id'' (quote (env_ID e)) @
    omitempty (env_Data e = []) ''data'' (env_Data e)"
  have t: "t = obj_text ?kvs" using marshal_Envelope_eq[OF assms(1)] assms(2,3) by simp
  have enc: "\<forall>(k, v) \<in> set ?kvs. encoded dep v" using assms(1) by (auto simp: omitempty_def)
  have "dec_Envelope t zero_Envelope = (fix_Envelope e, True)"
    unfolding dec_Envelope_def t
    by (subst dec_struct_text[OF enc]) (use assms(2) in \<open>simp_all add: omitempty_def zero_Envelope_def fix_Envelope_def\<close>)
  then show ?thesis unfolding t
    by (subst json_Unmarshal_text[OF encoded_obj[OF enc] assms(2)]) (simp add: t)
qed

lemma DecodeRecord_envelope:
  assumes "env_Data e = [] \<or> encoded dep (env_Data e)" "Suc dep \<le> max_depth" "EncodeEnvelope e = Inr b"
  shows "DecodeRecord b = Inr \<lparr> rc_IsEnvelope = True, rc_Envelope = fix_Envelope e, rc_Chunk = zero_Chunk \<rparr>"
proof -
  obtain t where t: "marshal_Envelope e = Some t" "b = tagEnvelope # bytes_of_string t"
    using assms(3) by (auto simp: EncodeEnvelope_def split: option.splits if_splits)
  show ?thesis using decode_Envelope[OF assms(1,2) t(1)] t(2) by (simp add: DecodeRecord_def)
qed

lemma EncodeEnvelope_length: "EncodeEnvelope e = Inr b \<Longrightarrow> length b \<le> MaxRecordPlaintext"
  by (auto simp: EncodeEnvelope_def split: option.splits if_splits)

lemma EncodeEnvelope_tag: "EncodeEnvelope e = Inr b \<Longrightarrow> b \<noteq> [] \<and> hd b = tagEnvelope"
  by (auto simp: EncodeEnvelope_def split: option.splits if_splits)

lemma length_EncodeChunk [simp]: "length (EncodeChunk sid sq f p) = 14 + length p"
  by (simp add: EncodeChunk_def)

lemma be_bytes_word [simp]:
  "of_be_bytes (be_bytes 8 (x :: 64 word)) = x" "of_be_bytes (be_bytes 4 (y :: 32 word)) = y"
  by (rule of_be_bytes_be_bytes; simp)+

lemma DecodeRecord_chunk:
  "DecodeRecord (EncodeChunk sid sq f p) =
   Inr \<lparr> rc_IsEnvelope = False, rc_Envelope = zero_Envelope,
     rc_Chunk = \<lparr> ch_StreamID = sid, ch_Seq = sq, ch_Final = f, ch_Payload = p \<rparr> \<rparr>"
proof -
  have a: "take 8 (be_bytes 8 sid @ be_bytes 4 sq @ (if f then 1 else 0) # p) = be_bytes 8 sid"
    and b: "take 4 (drop 8 (be_bytes 8 sid @ be_bytes 4 sq @ (if f then 1 else 0) # p)) = be_bytes 4 sq"
    by simp_all
  have c: "(be_bytes 8 sid @ be_bytes 4 sq @ (if f then 1 else 0) # p) ! 12 = (if f then 1 else (0 :: byte))"
    and d: "drop 13 (be_bytes 8 sid @ be_bytes 4 sq @ (if f then 1 else 0) # p) = p"
    by (simp_all add: nth_append)
  have tags: "tagChunk \<noteq> tagEnvelope" by (simp add: tagChunk_def tagEnvelope_def)
  show ?thesis
    unfolding DecodeRecord_def EncodeChunk_def using tags a b c d by simp
qed

section \<open>Properties of the wire format\<close>

text \<open>An envelope that \<^verbatim>\<open>EncodeEnvelope\<close> accepts fits one sealed record and
  \<^verbatim>\<open>DecodeRecord\<close> gives it back, with the payload text byte for byte and invalid UTF-8 in the
  type and the id replaced; the payload only has to be a text the program's encoders write.\<close>

theorem envelope_record_roundtrip:
  assumes "env_Data e = [] \<or> encoded dep (env_Data e)" "Suc dep \<le> max_depth" "EncodeEnvelope e = Inr b"
  shows "length b \<le> MaxRecordPlaintext \<and>
    DecodeRecord b = Inr \<lparr> rc_IsEnvelope = True, rc_Envelope = fix_Envelope e, rc_Chunk = zero_Chunk \<rparr>"
  using DecodeRecord_envelope[OF assms] EncodeEnvelope_length[OF assms(3)] by blast

definition demo_env :: Envelope where
  "demo_env = \<lparr> env_Type = ''prompt'', env_ID = [], env_Data = marshal_PromptData \<lparr> pd_Text = ''a<b'' \<rparr> \<rparr>"

lemma demo_env_encoded: "EncodeEnvelope demo_env = Inr (tagEnvelope # bytes_of_string
  (obj_text [(''type'', quote ''prompt''), (''data'', marshal_PromptData \<lparr> pd_Text = ''a<b'' \<rparr>)]))"
proof -
  have "marshal_Envelope demo_env = Some (obj_text
      [(''type'', quote ''prompt''), (''data'', marshal_PromptData \<lparr> pd_Text = ''a<b'' \<rparr>)])"
    using marshal_Envelope_eq[of demo_env 1] encoded_PromptData[of "\<lparr> pd_Text = ''a<b'' \<rparr>"]
    by (simp add: demo_env_def omitempty_def marshal_PromptData_def obj_text_def)
  moreover have "length (obj_text [(''type'', quote ''prompt''), (''data'', marshal_PromptData \<lparr> pd_Text = ''a<b'' \<rparr>)]) < 100"
    by code_simp
  ultimately show ?thesis by (simp add: EncodeEnvelope_def MaxRecordPlaintext_def)
qed

theorem envelope_record_roundtrip_witness:
  "\<exists>b. EncodeEnvelope demo_env = Inr b \<and> length b \<le> MaxRecordPlaintext \<and>
     DecodeRecord b = Inr \<lparr> rc_IsEnvelope = True, rc_Envelope = demo_env, rc_Chunk = zero_Chunk \<rparr>"
proof -
  have "fix_Envelope demo_env = demo_env"
    by (simp add: fix_Envelope_def demo_env_def fix_utf8_ascii code_def)
  moreover have "encoded 1 (env_Data demo_env)" by (simp only: demo_env_def Envelope.select_convs encoded_PromptData)
  ultimately show ?thesis
    using envelope_record_roundtrip[OF disjI2 _ demo_env_encoded, of 1] demo_env_encoded by simp
qed

text \<open>A chunk record is exactly 14 bytes longer than its payload, and \<^verbatim>\<open>DecodeRecord\<close>
  gives back the stream id, the sequence number, the final flag and the payload.\<close>

theorem chunk_record_roundtrip:
  "length (EncodeChunk sid sq final payload) = 14 + length payload \<and>
   DecodeRecord (EncodeChunk sid sq final payload) =
     Inr \<lparr> rc_IsEnvelope = False, rc_Envelope = zero_Envelope,
       rc_Chunk = \<lparr> ch_StreamID = sid, ch_Seq = sq, ch_Final = final, ch_Payload = payload \<rparr> \<rparr>"
  by (simp add: DecodeRecord_chunk)

text \<open>Records are unambiguous: whatever bytes \<^verbatim>\<open>DecodeRecord\<close> accepts as a chunk are the
  encoding of that chunk, except that every final byte other than 1 reads as not final.\<close>

theorem decode_chunk_canonical:
  assumes "DecodeRecord b = Inr r" "\<not> rc_IsEnvelope r"
  shows "14 \<le> length b \<and> EncodeChunk (ch_StreamID (rc_Chunk r)) (ch_Seq (rc_Chunk r)) (ch_Final (rc_Chunk r))
      (ch_Payload (rc_Chunk r)) = b[13 := (if b ! 13 = 1 then 1 else 0)]"
proof -
  obtain t s where b: "b = t # s" using assms(1) by (cases b) (auto simp: DecodeRecord_def)
  have t: "t = tagChunk" and len: "14 \<le> length b"
    and r: "rc_Chunk r = \<lparr> ch_StreamID = of_be_bytes (take 8 s), ch_Seq = of_be_bytes (take 4 (drop 8 s)),
        ch_Final = s ! 12 = 1, ch_Payload = drop 13 s \<rparr>"
    using assms b by (auto simp: DecodeRecord_def split: if_splits prod.splits sum.splits)
  have c1: "be_bytes 8 (of_be_bytes (take 8 s) :: 64 word) = take 8 s"
    using be_bytes_of_be_bytes[of "take 8 s", where 'a = 64] len b by simp
  have c2: "be_bytes 4 (of_be_bytes (take 4 (drop 8 s)) :: 32 word) = take 4 (drop 8 s)"
    using be_bytes_of_be_bytes[of "take 4 (drop 8 s)", where 'a = 32] len b by simp
  have c3: "take 12 s @ xs = take 8 s @ take 4 (drop 8 s) @ xs" for xs
    using take_add[of 8 4 s] by simp
  have "EncodeChunk (ch_StreamID (rc_Chunk r)) (ch_Seq (rc_Chunk r)) (ch_Final (rc_Chunk r))
      (ch_Payload (rc_Chunk r)) = t # take 12 s @ (if s ! 12 = 1 then 1 else 0) # drop 13 s"
    unfolding c3 by (simp only: EncodeChunk_def r t c1 c2 Chunk.select_convs)
  also have "take 12 s @ (if s ! 12 = 1 then 1 else 0) # drop 13 s = s[12 := (if s ! 12 = 1 then 1 else 0)]"
    using len b by (simp add: upd_conv_take_nth_drop)
  finally show ?thesis using len b by simp
qed

theorem decode_chunk_canonical_witness:
  "\<exists>r. DecodeRecord (EncodeChunk 7 0 True [42]) = Inr r \<and>
    EncodeChunk (ch_StreamID (rc_Chunk r)) (ch_Seq (rc_Chunk r)) (ch_Final (rc_Chunk r)) (ch_Payload (rc_Chunk r)) =
      (EncodeChunk 7 0 True [42])[13 := (if EncodeChunk 7 0 True [42] ! 13 = 1 then 1 else 0)]"
  using decode_chunk_canonical[OF DecodeRecord_chunk[of 7 0 True "[42]"]] DecodeRecord_chunk[of 7 0 True "[42]"]
  by simp

lemma UnmarshalData_text:
  assumes "encoded dep (env_Data env)" "dep \<le> max_depth" "d (env_Data env) r = (r', True)"
  shows "UnmarshalData env d r = (Inr (), r')"
  using json_Unmarshal_text[OF assms(1,2), of d r] encoded_not_Nil[OF assms(1)] assms(3)
  by (simp add: UnmarshalData_def)

lemma unmarshal_SessionStartData:
  "\<forall>e \<in> set (ss_Manifest d). int64_range (dto_Size e) \<Longrightarrow>
   UnmarshalData \<lparr> env_Type = ty, env_ID = i, env_Data = marshal_SessionStartData d \<rparr>
     dec_SessionStartData zero_SessionStartData = (Inr (), fix_SessionStartData d)"
  by (rule UnmarshalData_text[of 3]) (simp_all add: encoded_SessionStartData decode_SessionStartData)

lemma unmarshal_SyncRequestData:
  "UnmarshalData \<lparr> env_Type = ty, env_ID = i, env_Data = marshal_SyncRequestData d \<rparr>
     dec_SyncRequestData \<lparr> sr_Missing = [] \<rparr> = (Inr (), \<lparr> sr_Missing = map fix_utf8 (sr_Missing d) \<rparr>)"
  by (rule UnmarshalData_text[of 2]) (simp_all add: encoded_SyncRequestData decode_SyncRequestData)

lemma unmarshal_BlobData:
  "int64_range (bd_Size d) \<Longrightarrow>
   UnmarshalData \<lparr> env_Type = ty, env_ID = i, env_Data = marshal_BlobData d \<rparr>
     dec_BlobData zero_BlobData = (Inr (), d\<lparr> bd_Hash := fix_utf8 (bd_Hash d) \<rparr>)"
  by (rule UnmarshalData_text[of 1]) (simp_all add: encoded_BlobData[unfolded One_nat_def] decode_BlobData)

lemma unmarshal_PromptData:
  "UnmarshalData \<lparr> env_Type = ty, env_ID = i, env_Data = marshal_PromptData d \<rparr>
     dec_PromptData \<lparr> pd_Text = [] \<rparr> = (Inr (), \<lparr> pd_Text = fix_utf8 (pd_Text d) \<rparr>)"
  by (rule UnmarshalData_text[of 1]) (simp_all add: encoded_PromptData[unfolded One_nat_def] decode_PromptData)

text \<open>The raw line of an event is absent, or compaction makes an encoded value of it.\<close>

definition raw_ok :: "string \<Rightarrow> string \<Rightarrow> bool" where
  "raw_ok raw t \<longleftrightarrow> (if raw = [] then t = [] else compact raw = Some t \<and> encoded 1000 t)"

lemma unmarshal_StreamEventData:
  assumes "raw_ok (se_Raw d) raw" "marshal_StreamEventData d = Some t"
  shows "UnmarshalData \<lparr> env_Type = ty, env_ID = i, env_Data = t \<rparr> dec_StreamEventData zero_StreamEventData =
    (Inr (), \<lparr> se_Kind = fix_utf8 (se_Kind d), se_Text = fix_utf8 (se_Text d), se_Raw = raw \<rparr>)"
proof (rule UnmarshalData_text[of "Suc 1000"])
  have raw: "se_Raw d = [] \<or> compact (se_Raw d) = Some raw \<and> encoded 1000 raw"
    using assms(1) by (auto simp: raw_ok_def split: if_splits)
  show "encoded (Suc 1000) (env_Data \<lparr> env_Type = ty, env_ID = i, env_Data = t \<rparr>)"
    using encoded_StreamEventData[OF raw assms(2)] by (simp only: Envelope.select_convs)
  show "Suc 1000 \<le> max_depth" by (simp add: max_depth_def)
  show "dec_StreamEventData (env_Data \<lparr> env_Type = ty, env_ID = i, env_Data = t \<rparr>) zero_StreamEventData =
      (\<lparr> se_Kind = fix_utf8 (se_Kind d), se_Text = fix_utf8 (se_Text d), se_Raw = raw \<rparr>, True)"
    using decode_StreamEventData[OF raw _ assms(2)] assms(1) by (simp add: max_depth_def raw_ok_def)
qed

lemma unmarshal_FileChangeData:
  "int64_range (fd_Size d) \<Longrightarrow>
   UnmarshalData \<lparr> env_Type = ty, env_ID = i, env_Data = marshal_FileChangeData d \<rparr>
     dec_FileChangeData zero_FileChangeData = (Inr (), fix_FileChangeData d)"
  by (rule UnmarshalData_text[of 1]) (simp_all add: encoded_FileChangeData[unfolded One_nat_def] decode_FileChangeData)

lemma unmarshal_TurnDoneData:
  "float_laws fl \<Longrightarrow> int64_range (td_NumTurns d) \<Longrightarrow> marshal_TurnDoneData fl d = Some t \<Longrightarrow>
   UnmarshalData \<lparr> env_Type = ty, env_ID = i, env_Data = t \<rparr>
     (dec_TurnDoneData fl) zero_TurnDoneData = (Inr (), fix_TurnDoneData d)"
  by (rule UnmarshalData_text[of 1])
     (simp_all add: encoded_TurnDoneData[unfolded One_nat_def] decode_TurnDoneData)

lemma unmarshal_ErrorData:
  "UnmarshalData \<lparr> env_Type = ty, env_ID = i, env_Data = marshal_ErrorData d \<rparr>
     dec_ErrorData \<lparr> er_Message = [] \<rparr> = (Inr (), \<lparr> er_Message = fix_utf8 (er_Message d) \<rparr>)"
  by (rule UnmarshalData_text[of 1]) (simp_all add: encoded_ErrorData[unfolded One_nat_def] decode_ErrorData)

lemma unmarshal_SessionReadyData:
  "UnmarshalData \<lparr> env_Type = ty, env_ID = i, env_Data = marshal_SessionReadyData d \<rparr>
     dec_SessionReadyData \<lparr> rd_SessionID = [] \<rparr> = (Inr (), \<lparr> rd_SessionID = fix_utf8 (rd_SessionID d) \<rparr>)"
  by (rule UnmarshalData_text[of 1])
     (simp_all add: encoded_SessionReadyData[unfolded One_nat_def] decode_SessionReadyData)

lemmas unmarshal_payload = unmarshal_SessionStartData unmarshal_SyncRequestData unmarshal_BlobData
  unmarshal_PromptData unmarshal_StreamEventData unmarshal_FileChangeData unmarshal_TurnDoneData
  unmarshal_ErrorData unmarshal_SessionReadyData

text \<open>C23. Every payload the two sides exchange is read back by \<^verbatim>\<open>UnmarshalData\<close> into the
  value that was marshalled (strings with invalid UTF-8 replaced, a zero cost without its sign, an
  event's raw line compacted). Sizes and turn counts are in the range of \<^verbatim>\<open>int64\<close>, as they are
  in the program, and a formatted cost is a number text that parses back.\<close>

theorem payload_roundtrip:
  assumes "float_laws fl" "\<forall>e \<in> set (ss_Manifest d1). int64_range (dto_Size e)" "int64_range (bd_Size d3)"
    "raw_ok (se_Raw d5) raw" "marshal_StreamEventData d5 = Some t5" "int64_range (fd_Size d6)"
    "int64_range (td_NumTurns d7)" "marshal_TurnDoneData fl d7 = Some t7"
  shows "UnmarshalData \<lparr> env_Type = ty, env_ID = i, env_Data = marshal_SessionStartData d1 \<rparr>
        dec_SessionStartData zero_SessionStartData = (Inr (), fix_SessionStartData d1) \<and>
    UnmarshalData \<lparr> env_Type = ty, env_ID = i, env_Data = marshal_SyncRequestData d2 \<rparr>
        dec_SyncRequestData \<lparr> sr_Missing = [] \<rparr> = (Inr (), \<lparr> sr_Missing = map fix_utf8 (sr_Missing d2) \<rparr>) \<and>
    UnmarshalData \<lparr> env_Type = ty, env_ID = i, env_Data = marshal_BlobData d3 \<rparr>
        dec_BlobData zero_BlobData = (Inr (), d3\<lparr> bd_Hash := fix_utf8 (bd_Hash d3) \<rparr>) \<and>
    UnmarshalData \<lparr> env_Type = ty, env_ID = i, env_Data = marshal_PromptData d4 \<rparr>
        dec_PromptData \<lparr> pd_Text = [] \<rparr> = (Inr (), \<lparr> pd_Text = fix_utf8 (pd_Text d4) \<rparr>) \<and>
    UnmarshalData \<lparr> env_Type = ty, env_ID = i, env_Data = t5 \<rparr> dec_StreamEventData zero_StreamEventData =
        (Inr (), \<lparr> se_Kind = fix_utf8 (se_Kind d5), se_Text = fix_utf8 (se_Text d5), se_Raw = raw \<rparr>) \<and>
    UnmarshalData \<lparr> env_Type = ty, env_ID = i, env_Data = marshal_FileChangeData d6 \<rparr>
        dec_FileChangeData zero_FileChangeData = (Inr (), fix_FileChangeData d6) \<and>
    UnmarshalData \<lparr> env_Type = ty, env_ID = i, env_Data = t7 \<rparr>
        (dec_TurnDoneData fl) zero_TurnDoneData = (Inr (), fix_TurnDoneData d7) \<and>
    UnmarshalData \<lparr> env_Type = ty, env_ID = i, env_Data = marshal_ErrorData d8 \<rparr>
        dec_ErrorData \<lparr> er_Message = [] \<rparr> = (Inr (), \<lparr> er_Message = fix_utf8 (er_Message d8) \<rparr>) \<and>
    UnmarshalData \<lparr> env_Type = ty, env_ID = i, env_Data = marshal_SessionReadyData d9 \<rparr>
        dec_SessionReadyData \<lparr> rd_SessionID = [] \<rparr> = (Inr (), \<lparr> rd_SessionID = fix_utf8 (rd_SessionID d9) \<rparr>)"
  by (intro conjI unmarshal_payload assms)

text \<open>An instance of the float operations with the laws: texts of the bit patterns.\<close>

definition demo_floats :: float_ops where
  "demo_floats = \<lparr> fmt_float = \<lambda>f. Some (int_text (uint f)), prs_float = \<lambda>s. map_option of_nat (parse_digits s) \<rparr>"

lemma demo_floats_laws: "float_laws demo_floats"
  unfolding float_laws_def
proof (intro allI impI)
  fix f :: float64 and t
  assume "fmt_float demo_floats f = Some t"
  then have "t = int_text (int (unat f))" by (simp add: demo_floats_def)
  moreover define n where "n = unat f"
  then have n: "unat f = n" "f = of_nat n" by simp_all
  ultimately have t: "t = decimal n" by (simp only: n(1) int_text_of_nat n_def[symmetric])
  show "encoded 0 t \<and> (hd t = CHR ''-'' \<or> is_digit (hd t)) \<and> prs_float demo_floats t = Some f"
    using encoded_scalar(2)[of 0 "int n"] hd_decimal_digit[of n] unfolding t int_text_of_nat n(2)
    by (simp add: demo_floats_def)
qed

definition demo_event :: StreamEventData where
  "demo_event = \<lparr> se_Kind = ''message'', se_Text = ''hi'', se_Raw = ''[ ]'' \<rparr>"

definition demo_turn :: TurnDoneData where
  "demo_turn = \<lparr> td_IsError = False, td_CostUSD = 5, td_Text = ''ok'', td_NumTurns = 2 \<rparr>"

theorem payload_roundtrip_witness:
  "\<exists>t5 t7. UnmarshalData \<lparr> env_Type = TypeStreamEvent, env_ID = [], env_Data = t5 \<rparr>
        dec_StreamEventData zero_StreamEventData =
        (Inr (), \<lparr> se_Kind = ''message'', se_Text = ''hi'', se_Raw = ''[]'' \<rparr>) \<and>
     UnmarshalData \<lparr> env_Type = TypeStreamEvent, env_ID = [], env_Data = t7 \<rparr>
        (dec_TurnDoneData demo_floats) zero_TurnDoneData = (Inr (), demo_turn)"
proof -
  have raw: "raw_ok ''[ ]'' ''[]''"
  proof -
    have "encoded (Suc 0) ''[]''" using encoded_arr[of "[]" 0] by (simp add: arr_text_def)
    then have "encoded 1000 ''[]''" by (rule encoded_mono) simp
    moreover have "compact ''[ ]'' = Some ''[]''"
      by (simp add: compact_def json_valid_def skip_one_def max_depth_def skip_value.simps(2) is_ws_def skip_ws_def)
    ultimately show ?thesis by (simp add: raw_ok_def)
  qed
  then obtain t5 where t5: "marshal_StreamEventData demo_event = Some t5"
    by (auto simp: demo_event_def marshal_StreamEventData_def omit_raw_def raw_ok_def)
  have "\<exists>t. marshal_TurnDoneData demo_floats demo_turn = Some t"
    by (cases "float_zero 5") (simp_all add: demo_turn_def marshal_TurnDoneData_def demo_floats_def)
  then obtain t7 where t7: "marshal_TurnDoneData demo_floats demo_turn = Some t7" by blast
  have fx: "fix_utf8 ''message'' = ''message''" "fix_utf8 ''hi'' = ''hi''" "fix_utf8 ''ok'' = ''ok''"
    by (simp_all add: fix_utf8_ascii code_def)
  show ?thesis
    using payload_roundtrip[OF demo_floats_laws _ _ _ t5 _ _ t7,
        of zero_SessionStartData zero_BlobData "''[]''" zero_FileChangeData TypeStreamEvent "[]"] raw fx
    by (intro exI[of _ t5] exI[of _ t7]) (simp add: demo_event_def demo_turn_def zero_SessionStartData_def zero_BlobData_def
        zero_FileChangeData_def int64_range_def fix_TurnDoneData_def float_zero_def push_bit_eq_mult)
qed

end
