(* ===== verification/Codec.thy ===== *)
theory Codec
  imports Protocol
begin

text \<open>
  The connection of \<^verbatim>\<open>internal/adapters/transport/ws/codec.go\<close>, shared by the two
  transports: sealing and writing records, splitting content into chunks, and reassembling
  messages from the records that arrive. The WebSocket library is the environment: the frames
  written so far, the outcome of the next write, the frames that will arrive and the error that
  ends them. The secure channel is a port.
\<close>

section \<open>The secure channel port\<close>

record 'c SecureChannel =
  Seal :: "bytes \<Rightarrow> ('c, bytes) prog"
  Open :: "bytes \<Rightarrow> ('c, bytes) prog"

text \<open>
  What the transports rely on. \<open>R s r\<close> says that endpoint \<open>r\<close> has opened everything that
  endpoint \<open>s\<close> has sealed. Then the next record \<open>s\<close> seals is opened by \<open>r\<close> as the
  plaintext, at most 16 bytes longer on the wire; what an endpoint does in the other direction
  does not matter.
\<close>

definition secure_channel :: "'c SecureChannel \<Rightarrow> ('c \<Rightarrow> 'c \<Rightarrow> bool) \<Rightarrow> bool" where
  "secure_channel S R \<longleftrightarrow>
     (\<forall>s r p c s'. R s r \<longrightarrow> Seal S p s = (Inr c, s') \<longrightarrow>
        length c \<le> length p + 16 \<and> (\<exists>r'. Open S c r = (Inr p, r') \<and> R s' r')) \<and>
     (\<forall>s r p. R s r \<longrightarrow> R s (snd (Seal S p r))) \<and>
     (\<forall>s r c. R s r \<longrightarrow> R (snd (Open S c s)) r)"

section \<open>Connections\<close>

definition readLimit :: nat where
  "readLimit = 2 ^ 20"

record asm =
  as_env :: Envelope
  as_buf :: bytes

record 'c conn =
  cn_ch :: 'c
  cn_outSeq :: "64 word"
  cn_pending :: "64 word \<rightharpoonup> asm"
  cn_wire :: "bytes list"
  cn_fault :: "bytes list \<Rightarrow> error option"
  cn_inbox :: "bytes list"
  cn_end :: error

record Framed =
  fr_Env :: Envelope
  fr_Content :: bytes
  fr_HasContent :: bool

text \<open>A fresh connection over the frames the library will write and read.\<close>

definition newConn :: "'c \<Rightarrow> (bytes list \<Rightarrow> error option) \<Rightarrow> bytes list \<Rightarrow> error \<Rightarrow> 'c conn" where
  "newConn ch fault inbox end_err =
     \<lparr> cn_ch = ch, cn_outSeq = 0, cn_pending = Map.empty, cn_wire = [], cn_fault = fault,
       cn_inbox = inbox, cn_end = end_err \<rparr>"

text \<open>\<^verbatim>\<open>atomic.Uint64.Add(1)\<close> wraps around.\<close>

definition NewStreamID :: "('c conn, 64 word) prog" where
  "NewStreamID c = (Inr (cn_outSeq c + 1), c\<lparr> cn_outSeq := cn_outSeq c + 1 \<rparr>)"

definition writeRecord :: "'c SecureChannel \<Rightarrow> bytes \<Rightarrow> ('c conn, unit) prog" where
  "writeRecord S rec c =
     (case Seal S rec (cn_ch c) of
        (Inl e, ch) \<Rightarrow> (Inl e, c\<lparr> cn_ch := ch \<rparr>)
      | (Inr sealed, ch) \<Rightarrow>
          (case cn_fault c (cn_wire c) of
             Some e \<Rightarrow> (Inl e, c\<lparr> cn_ch := ch \<rparr>)
           | None \<Rightarrow> (Inr (), c\<lparr> cn_ch := ch, cn_wire := cn_wire c @ [sealed] \<rparr>)))"

definition SendEnvelope :: "'c SecureChannel \<Rightarrow> Envelope \<Rightarrow> ('c conn, unit) prog" where
  "SendEnvelope S env =
     (case EncodeEnvelope env of Inl e \<Rightarrow> throwE e | Inr rec \<Rightarrow> writeRecord S rec)"

text \<open>The loop of \<^verbatim>\<open>SendContent\<close> from a sequence number on; the number wraps at 32 bits.\<close>

function send_chunks ::
  "'c SecureChannel \<Rightarrow> 64 word \<Rightarrow> 32 word \<Rightarrow> bytes \<Rightarrow> ('c conn, unit) prog" where
  "send_chunks S sid sq content =
     (let n = min (length content) ChunkPayloadSize;
          final = (n = length content)
      in bindE (writeRecord S (EncodeChunk sid sq final (take n content))) (\<lambda>_.
           if final then retE () else send_chunks S sid (sq + 1) (drop n content)))"
  by pat_completeness auto
termination
  by (relation "measure (\<lambda>(S, sid, sq, content). length content)")
     (auto simp: ChunkPayloadSize_def MaxRecordPlaintext_def min_def split: if_splits)

declare send_chunks.simps [simp del]

definition SendContent :: "'c SecureChannel \<Rightarrow> 64 word \<Rightarrow> bytes \<Rightarrow> ('c conn, unit) prog" where
  "SendContent S sid content = send_chunks S sid 0 content"

text \<open>\<^verbatim>\<open>json.Unmarshal\<close>, which refuses an absent payload, unlike \<^verbatim>\<open>UnmarshalData\<close>.\<close>

definition streamIDOf :: "Envelope \<Rightarrow> error + 64 word" where
  "streamIDOf env =
     (if env_Type env = TypeBlob then
        (case json_Unmarshal dec_BlobData (env_Data env) zero_BlobData of
           (Inl e, _) \<Rightarrow> Inl e | (Inr _, d) \<Rightarrow> Inr (bd_StreamID d))
      else if env_Type env = TypeFileChange then
        (case json_Unmarshal dec_FileChangeData (env_Data env) zero_FileChangeData of
           (Inl e, _) \<Rightarrow> Inl e | (Inr _, d) \<Rightarrow> Inr (fd_StreamID d))
      else Inr 0)"

text \<open>
  What \<^verbatim>\<open>ReadMessage\<close> does with one decoded record, on the table of streams in flight: it
  returns an error, or a complete message, or goes on reading.
\<close>

definition take_record :: "Record \<Rightarrow> (64 word \<rightharpoonup> asm) \<Rightarrow> (error + Framed option) \<times> (64 word \<rightharpoonup> asm)" where
  "take_record rec P =
     (if rc_IsEnvelope rec then
        (case streamIDOf (rc_Envelope rec) of
           Inl e \<Rightarrow> (Inl e, P)
         | Inr sid \<Rightarrow>
             if sid = 0
             then (Inr (Some \<lparr> fr_Env = rc_Envelope rec, fr_Content = [], fr_HasContent = False \<rparr>), P)
             else (Inr None, P(sid \<mapsto> \<lparr> as_env = rc_Envelope rec, as_buf = [] \<rparr>)))
      else
        (let ch = rc_Chunk rec; sid = ch_StreamID ch in
         case P sid of
           None \<Rightarrow> (Inl (UnknownStream sid), P)
         | Some a \<Rightarrow>
             let buf = as_buf a @ ch_Payload ch in
             if ch_Final ch
             then (Inr (Some \<lparr> fr_Env = as_env a, fr_Content = buf, fr_HasContent = True \<rparr>), P(sid := None))
             else (Inr None, P(sid \<mapsto> a\<lparr> as_buf := buf \<rparr>))))"

fun read_frames :: "'c SecureChannel \<Rightarrow> bytes list \<Rightarrow> ('c conn, Framed) prog" where
  "read_frames S [] c = (Inl (cn_end c), c\<lparr> cn_inbox := [] \<rparr>)"
| "read_frames S (f # fs) c =
     (if length f > readLimit then (Inl (ErrMsg ''read limited''), c\<lparr> cn_inbox := fs \<rparr>)
      else
        (case Open S f (cn_ch c) of
           (Inl e, ch) \<Rightarrow> (Inl (Wrapped ''ws: decrypt'' e), c\<lparr> cn_ch := ch, cn_inbox := fs \<rparr>)
         | (Inr plain, ch) \<Rightarrow>
             (case DecodeRecord plain of
                Inl e \<Rightarrow> (Inl e, c\<lparr> cn_ch := ch, cn_inbox := fs \<rparr>)
              | Inr rec \<Rightarrow>
                  (case take_record rec (cn_pending c) of
                     (Inl e, P) \<Rightarrow> (Inl e, c\<lparr> cn_ch := ch, cn_inbox := fs, cn_pending := P \<rparr>)
                   | (Inr (Some m), P) \<Rightarrow>
                       (Inr m, c\<lparr> cn_ch := ch, cn_inbox := fs, cn_pending := P \<rparr>)
                   | (Inr None, P) \<Rightarrow>
                       read_frames S fs (c\<lparr> cn_ch := ch, cn_inbox := fs, cn_pending := P \<rparr>)))))"

definition ReadMessage :: "'c SecureChannel \<Rightarrow> ('c conn, Framed) prog" where
  "ReadMessage S c = read_frames S (cn_inbox c) c"

definition marshalData :: "string \<Rightarrow> string option \<Rightarrow> error + Envelope" where
  "marshalData typ payload =
     (case payload of
        None \<Rightarrow> Inl JsonError
      | Some b \<Rightarrow> Inr \<lparr> env_Type = typ, env_ID = [], env_Data = b \<rparr>)"

section \<open>Sending content is sending its pieces\<close>

text \<open>The reference: the content cut into pieces of the chunk size, at least one, numbered from
  0, only the last one final.\<close>

function pieces :: "bytes \<Rightarrow> bytes list" where
  "pieces content =
     (if length content \<le> ChunkPayloadSize then [content]
      else take ChunkPayloadSize content # pieces (drop ChunkPayloadSize content))"
  by pat_completeness auto
termination by (relation "measure length") (auto simp: ChunkPayloadSize_def MaxRecordPlaintext_def)

declare pieces.simps [simp del]

fun number_chunks :: "64 word \<Rightarrow> 32 word \<Rightarrow> bytes list \<Rightarrow> bytes list" where
  "number_chunks sid sq [] = []"
| "number_chunks sid sq (p # ps) = EncodeChunk sid sq (ps = []) p # number_chunks sid (sq + 1) ps"

definition chunk_records :: "64 word \<Rightarrow> bytes \<Rightarrow> bytes list" where
  "chunk_records sid content = number_chunks sid 0 (pieces content)"

lemma pieces_not_Nil [simp]: "pieces content \<noteq> []"
  by (subst pieces.simps) simp

lemma concat_pieces [simp]: "concat (pieces content) = content"
proof (induction content rule: pieces.induct)
  case (1 content)
  then show ?case by (subst pieces.simps) auto
qed

lemma pieces_size: "p \<in> set (pieces content) \<Longrightarrow> length p \<le> ChunkPayloadSize"
proof (induction content rule: pieces.induct)
  case (1 content)
  then show ?case by (subst (asm) pieces.simps) (auto split: if_splits)
qed

lemma length_number_chunks [simp]: "length (number_chunks sid sq ps) = length ps"
  by (induction ps arbitrary: sq) auto

lemma nth_number_chunks:
  "i < length ps \<Longrightarrow> number_chunks sid sq ps ! i =
     EncodeChunk sid (sq + of_nat i) (Suc i = length ps) (ps ! i)"
proof (induction ps arbitrary: sq i)
  case (Cons p ps)
  then show ?case by (cases i) (auto simp: add.assoc)
qed simp

lemma send_chunks_pieces:
  "send_chunks S sid sq content = forE (number_chunks sid sq (pieces content)) (writeRecord S)"
proof (induction S sid sq content rule: send_chunks.induct)
  case (1 S sid sq content)
  show ?case
  proof (cases "length content \<le> ChunkPayloadSize")
    case True
    then have "min (length content) ChunkPayloadSize = length content" by simp
    then show ?thesis using True
      by (subst send_chunks.simps, subst pieces.simps) (simp add: Let_def)
  next
    case False
    then have m: "min (length content) ChunkPayloadSize = ChunkPayloadSize" by simp
    have "send_chunks S sid (sq + 1) (drop ChunkPayloadSize content) =
        forE (number_chunks sid (sq + 1) (pieces (drop ChunkPayloadSize content))) (writeRecord S)"
      using 1[OF refl refl] False m by simp
    then show ?thesis using False m
      by (subst send_chunks.simps, subst pieces.simps) (simp add: Let_def)
  qed
qed

lemma SendContent_pieces: "SendContent S sid content = forE (chunk_records sid content) (writeRecord S)"
  by (simp add: SendContent_def chunk_records_def send_chunks_pieces)

lemma chunk_records_size: "rec \<in> set (chunk_records sid content) \<Longrightarrow> length rec \<le> MaxRecordPlaintext"
proof -
  assume "rec \<in> set (chunk_records sid content)"
  then obtain i where i: "i < length (pieces content)"
      "rec = EncodeChunk sid (of_nat i) (Suc i = length (pieces content)) (pieces content ! i)"
    by (auto simp: chunk_records_def in_set_conv_nth nth_number_chunks)
  then have "length (pieces content ! i) \<le> ChunkPayloadSize"
    using pieces_size[of "pieces content ! i" content] by simp
  then show ?thesis using i(2) by (simp add: ChunkPayloadSize_def MaxRecordPlaintext_def)
qed

text \<open>\<^verbatim>\<open>SendContent\<close> does exactly what the wire format promises: it writes, in order and
  stopping at the first error, one chunk record per piece of the content, numbered from 0 (modulo
  2^32), the last and only the last one final; the pieces concatenate to the content, there is at
  least one, none is larger than the chunk size, and every record fits a sealed record.\<close>

theorem send_content_is_chunking:
  "SendContent S sid content = forE (chunk_records sid content) (writeRecord S) \<and>
   length (chunk_records sid content) = length (pieces content) \<and> 0 < length (pieces content) \<and>
   concat (pieces content) = content \<and>
   list_all (\<lambda>p. length p \<le> ChunkPayloadSize) (pieces content) \<and>
   list_all (\<lambda>rec. length rec \<le> MaxRecordPlaintext) (chunk_records sid content) \<and>
   chunk_records sid content = map (\<lambda>i. EncodeChunk sid (of_nat i) (Suc i = length (pieces content))
     (pieces content ! i)) [0..<length (pieces content)]"
proof -
  have "chunk_records sid content = map (\<lambda>i. EncodeChunk sid (of_nat i) (Suc i = length (pieces content))
     (pieces content ! i)) [0..<length (pieces content)]"
    by (rule nth_equalityI) (simp_all add: chunk_records_def nth_number_chunks)
  moreover have "list_all (\<lambda>rec. length rec \<le> MaxRecordPlaintext) (chunk_records sid content)"
    using chunk_records_size by (auto simp: list_all_iff)
  ultimately show ?thesis
    using pieces_size by (auto simp: SendContent_pieces list_all_iff chunk_records_def)
qed

section \<open>What the peer opens\<close>

text \<open>Opening a run of frames.\<close>

fun open_all :: "'c SecureChannel \<Rightarrow> bytes list \<Rightarrow> 'c \<Rightarrow> (bytes list \<times> 'c) option" where
  "open_all S [] r = Some ([], r)"
| "open_all S (f # fs) r =
     (case Open S f r of
        (Inr p, r') \<Rightarrow> map_option (\<lambda>(ps, r''). (p # ps, r'')) (open_all S fs r')
      | _ \<Rightarrow> None)"

lemma writeRecord_ok:
  assumes "writeRecord S rec c = (Inr u, c')"
  obtains f where "Seal S rec (cn_ch c) = (Inr f, cn_ch c')" "c' = c\<lparr> cn_ch := cn_ch c', cn_wire := cn_wire c @ [f] \<rparr>"
  using assms by (auto simp: writeRecord_def split: prod.splits sum.splits option.splits)

lemma writes_open:
  assumes "secure_channel S R"
  shows "forE recs (writeRecord S) c = (Inr u, c') \<Longrightarrow> R (cn_ch c) r \<Longrightarrow>
    \<forall>rec \<in> set recs. length rec \<le> MaxRecordPlaintext \<Longrightarrow>
    \<exists>fs r'. c' = c\<lparr> cn_ch := cn_ch c', cn_wire := cn_wire c @ fs \<rparr> \<and> open_all S fs r = Some (recs, r') \<and>
      R (cn_ch c') r' \<and> (\<forall>f \<in> set fs. length f \<le> readLimit)"
proof (induction recs arbitrary: c r)
  case Nil
  then show ?case by (auto intro!: exI[of _ "[]"])
next
  case (Cons rec recs)
  obtain c1 where w: "writeRecord S rec c = (Inr (), c1)" "forE recs (writeRecord S) c1 = (Inr u, c')"
    using Cons.prems(1) by (auto simp: bindE_Inr_iff)
  obtain f where f: "Seal S rec (cn_ch c) = (Inr f, cn_ch c1)" "c1 = c\<lparr> cn_ch := cn_ch c1, cn_wire := cn_wire c @ [f] \<rparr>"
    using w(1) by (rule writeRecord_ok)
  obtain r1 where r1: "Open S f r = (Inr rec, r1)" "R (cn_ch c1) r1" "length f \<le> length rec + 16"
    using assms f(1) Cons.prems(2) unfolding secure_channel_def by blast
  obtain fs r' where IH: "c' = c1\<lparr> cn_ch := cn_ch c', cn_wire := cn_wire c1 @ fs \<rparr>"
      "open_all S fs r1 = Some (recs, r')" "R (cn_ch c') r'" "\<forall>f \<in> set fs. length f \<le> readLimit"
    using Cons.IH[OF w(2) r1(2)] Cons.prems(3) by auto
  have "length f \<le> readLimit"
    using r1(3) Cons.prems(3) by (simp add: readLimit_def MaxRecordPlaintext_def)
  moreover have wire: "cn_wire c1 = cn_wire c @ [f]" by (subst f(2)) simp
  moreover have "c' = c\<lparr> cn_ch := cn_ch c', cn_wire := cn_wire c @ (f # fs) \<rparr>"
    using wire by (subst IH(1), subst f(2)) simp
  ultimately show ?case using r1(1) IH by (intro exI[of _ "f # fs"] exI[of _ r']) auto
qed

section \<open>Reading a message\<close>

lemma read_frame_more:
  assumes "length f \<le> readLimit" "Open S f (cn_ch c) = (Inr plain, ch)" "DecodeRecord plain = Inr rec"
    "take_record rec (cn_pending c) = (Inr None, P)"
  shows "read_frames S (f # fs) c = read_frames S fs (c\<lparr> cn_ch := ch, cn_inbox := fs, cn_pending := P \<rparr>)"
  using assms by simp

lemma read_frame_done:
  assumes "length f \<le> readLimit" "Open S f (cn_ch c) = (Inr plain, ch)" "DecodeRecord plain = Inr rec"
    "take_record rec (cn_pending c) = (Inr (Some m), P)"
  shows "read_frames S (f # fs) c = (Inr m, c\<lparr> cn_ch := ch, cn_inbox := fs, cn_pending := P \<rparr>)"
  using assms by simp

declare read_frames.simps(2) [simp del]

lemma open_all_Cons:
  assumes "open_all S fs r = Some (p # ps, r')"
  obtains f fs' r1 where "fs = f # fs'" "Open S f r = (Inr p, r1)" "open_all S fs' r1 = Some (ps, r')"
  using assms by (cases fs) (auto split: prod.splits sum.splits)

lemma open_all_Nil: "open_all S fs r = Some ([], r') \<Longrightarrow> fs = [] \<and> r' = r"
  by (cases fs) (auto split: prod.splits sum.splits)

text \<open>The chunks of one content, read with its stream in flight.\<close>

lemma read_chunks:
  "ps \<noteq> [] \<Longrightarrow> open_all S fs (cn_ch c) = Some (number_chunks sid sq ps, r') \<Longrightarrow>
   \<forall>f \<in> set fs. length f \<le> readLimit \<Longrightarrow> cn_pending c sid = Some a \<Longrightarrow>
   read_frames S (fs @ rest) c =
     (Inr \<lparr> fr_Env = as_env a, fr_Content = as_buf a @ concat ps, fr_HasContent = True \<rparr>,
      c\<lparr> cn_ch := r', cn_inbox := rest, cn_pending := (cn_pending c)(sid := None) \<rparr>)"
proof (induction ps arbitrary: fs c sq a)
  case (Cons p ps)
  obtain f fs' r1 where f: "fs = f # fs'" "Open S f (cn_ch c) = (Inr (EncodeChunk sid sq (ps = []) p), r1)"
      "open_all S fs' r1 = Some (number_chunks sid (sq + 1) ps, r')"
    using Cons.prems(2) by (auto elim!: open_all_Cons)
  have len: "length f \<le> readLimit" using Cons.prems(3) f(1) by simp
  show ?case
  proof (cases "ps = []")
    case True
    have "fs' = []" "r' = r1" using open_all_Nil[of S fs' r1 r'] f(3) True by auto
    moreover have "take_record \<lparr> rc_IsEnvelope = False, rc_Envelope = zero_Envelope,
        rc_Chunk = \<lparr> ch_StreamID = sid, ch_Seq = sq, ch_Final = True, ch_Payload = p \<rparr> \<rparr> (cn_pending c) =
        (Inr (Some \<lparr> fr_Env = as_env a, fr_Content = as_buf a @ p, fr_HasContent = True \<rparr>), (cn_pending c)(sid := None))"
      using Cons.prems(4) by (simp add: take_record_def Let_def)
    ultimately show ?thesis
      using read_frame_done[OF len f(2) DecodeRecord_chunk] True f(1) by (simp del: fun_upd_apply)
  next
    case False
    let ?a = "a\<lparr> as_buf := as_buf a @ p \<rparr>"
    let ?c = "c\<lparr> cn_ch := r1, cn_inbox := fs' @ rest, cn_pending := (cn_pending c)(sid \<mapsto> ?a) \<rparr>"
    have tr: "take_record \<lparr> rc_IsEnvelope = False, rc_Envelope = zero_Envelope,
        rc_Chunk = \<lparr> ch_StreamID = sid, ch_Seq = sq, ch_Final = (ps = []), ch_Payload = p \<rparr> \<rparr> (cn_pending c) =
        (Inr None, (cn_pending c)(sid \<mapsto> ?a))"
      using Cons.prems(4) False by (simp add: take_record_def Let_def)
    have "read_frames S (fs' @ rest) ?c =
        (Inr \<lparr> fr_Env = as_env ?a, fr_Content = as_buf ?a @ concat ps, fr_HasContent = True \<rparr>,
         ?c\<lparr> cn_ch := r', cn_inbox := rest, cn_pending := (cn_pending ?c)(sid := None) \<rparr>)"
      by (rule Cons.IH[OF False, of _ _ "sq + 1"]) (use f Cons.prems(3) in auto)
    then show ?thesis using read_frame_more[OF len f(2) DecodeRecord_chunk tr, of "fs' @ rest"] f(1)
      by (simp del: fun_upd_apply)
  qed
qed simp

text \<open>An envelope record as the program's encoders make them.\<close>

definition plain_envelope :: "Envelope \<Rightarrow> bool" where
  "plain_envelope e \<longleftrightarrow> (env_Data e = [] \<or> encoded 2000 (env_Data e)) \<and> fix_Envelope e = e"

lemma DecodeRecord_plain:
  assumes "plain_envelope e" "EncodeEnvelope e = Inr b"
  shows "DecodeRecord b = Inr \<lparr> rc_IsEnvelope = True, rc_Envelope = e, rc_Chunk = zero_Chunk \<rparr>"
  using DecodeRecord_envelope[of e 2000 b] assms by (simp add: plain_envelope_def max_depth_def)

lemma read_envelope:
  assumes "plain_envelope e" "EncodeEnvelope e = Inr b" "streamIDOf e = Inr 0"
    "open_all S fs (cn_ch c) = Some ([b], r')" "\<forall>f \<in> set fs. length f \<le> readLimit" "cn_inbox c = fs @ rest"
  shows "ReadMessage S c = (Inr \<lparr> fr_Env = e, fr_Content = [], fr_HasContent = False \<rparr>,
    c\<lparr> cn_ch := r', cn_inbox := rest \<rparr>)"
proof -
  obtain f where f: "fs = [f]" "Open S f (cn_ch c) = (Inr b, r')"
    using assms(4) by (auto elim!: open_all_Cons dest!: open_all_Nil)
  have "take_record \<lparr> rc_IsEnvelope = True, rc_Envelope = e, rc_Chunk = zero_Chunk \<rparr> (cn_pending c) =
      (Inr (Some \<lparr> fr_Env = e, fr_Content = [], fr_HasContent = False \<rparr>), cn_pending c)"
    using assms(3) by (simp add: take_record_def)
  then show ?thesis
    using read_frame_done[OF _ f(2) DecodeRecord_plain[OF assms(1,2)]] f(1) assms(5,6)
    by (simp add: ReadMessage_def)
qed

lemma read_content:
  assumes "plain_envelope e" "EncodeEnvelope e = Inr b" "streamIDOf e = Inr sid" "sid \<noteq> 0"
    "open_all S fs (cn_ch c) = Some (b # chunk_records sid content, r')"
    "\<forall>f \<in> set fs. length f \<le> readLimit" "cn_inbox c = fs @ rest"
  shows "ReadMessage S c = (Inr \<lparr> fr_Env = e, fr_Content = content, fr_HasContent = True \<rparr>,
    c\<lparr> cn_ch := r', cn_inbox := rest, cn_pending := (cn_pending c)(sid := None) \<rparr>)"
proof -
  obtain f fs' r1 where f: "fs = f # fs'" "Open S f (cn_ch c) = (Inr b, r1)"
      "open_all S fs' r1 = Some (chunk_records sid content, r')"
    using assms(5) by (auto elim!: open_all_Cons)
  let ?P = "(cn_pending c)(sid \<mapsto> \<lparr> as_env = e, as_buf = [] \<rparr>)"
  let ?c = "c\<lparr> cn_ch := r1, cn_inbox := fs' @ rest, cn_pending := ?P \<rparr>"
  have tr: "take_record \<lparr> rc_IsEnvelope = True, rc_Envelope = e, rc_Chunk = zero_Chunk \<rparr> (cn_pending c) = (Inr None, ?P)"
    using assms(3,4) by (simp add: take_record_def)
  have "read_frames S (fs' @ rest) ?c =
      (Inr \<lparr> fr_Env = e, fr_Content = [] @ concat (pieces content), fr_HasContent = True \<rparr>,
       ?c\<lparr> cn_ch := r', cn_inbox := rest, cn_pending := (cn_pending ?c)(sid := None) \<rparr>)"
    using read_chunks[of "pieces content" S fs' ?c sid 0 r' "\<lparr> as_env = e, as_buf = [] \<rparr>" rest] f assms(6)
    by (simp add: chunk_records_def)
  then show ?thesis
    using read_frame_more[OF _ f(2) DecodeRecord_plain[OF assms(1,2)] tr, of "fs' @ rest"] f(1) assms(6,7)
    by (simp add: ReadMessage_def)
qed

section \<open>Streams do not disturb each other\<close>

text \<open>All the messages that a run of records completes, as \<^verbatim>\<open>ReadMessage\<close> called again and
  again returns them.\<close>

fun feed :: "Record list \<Rightarrow> (64 word \<rightharpoonup> asm) \<Rightarrow> (error + Framed list) \<times> (64 word \<rightharpoonup> asm)" where
  "feed [] P = (Inr [], P)"
| "feed (r # rs) P =
     (case take_record r P of
        (Inl e, P1) \<Rightarrow> (Inl e, P1)
      | (Inr m, P1) \<Rightarrow>
          (case feed rs P1 of
             (Inl e, P2) \<Rightarrow> (Inl e, P2)
           | (Inr ms, P2) \<Rightarrow> (Inr ((case m of None \<Rightarrow> [] | Some x \<Rightarrow> [x]) @ ms), P2)))"

text \<open>The stream a record belongs to; envelopes without content, and those whose payload does
  not decode, belong to stream 0.\<close>

definition env_stream :: "Envelope \<Rightarrow> 64 word" where
  "env_stream e = (case streamIDOf e of Inl _ \<Rightarrow> 0 | Inr sid \<Rightarrow> sid)"

definition rec_stream :: "Record \<Rightarrow> 64 word" where
  "rec_stream r = (if rc_IsEnvelope r then env_stream (rc_Envelope r) else ch_StreamID (rc_Chunk r))"

definition fr_stream :: "Framed \<Rightarrow> 64 word" where
  "fr_stream m = env_stream (fr_Env m)"

text \<open>What \<^verbatim>\<open>ReadMessage\<close> keeps of the table: a stream in flight is the one its envelope
  announced, and stream 0 is never in flight.\<close>

definition pending_ok :: "(64 word \<rightharpoonup> asm) \<Rightarrow> bool" where
  "pending_ok P \<longleftrightarrow> P 0 = None \<and> (\<forall>sid a. P sid = Some a \<longrightarrow> env_stream (as_env a) = sid)"

lemma take_record_keeps:
  "pending_ok P \<Longrightarrow> pending_ok (snd (take_record r P))"
proof (cases "rc_IsEnvelope r")
  case True
  then show "pending_ok P \<Longrightarrow> ?thesis"
    by (auto simp: take_record_def pending_ok_def env_stream_def split: sum.splits)
next
  case False
  assume P: "pending_ok P"
  show ?thesis
  proof (cases "P (ch_StreamID (rc_Chunk r))")
    case None
    then show ?thesis using False P by (simp add: take_record_def Let_def)
  next
    case (Some a)
    then have "env_stream (as_env a) = ch_StreamID (rc_Chunk r)" "ch_StreamID (rc_Chunk r) \<noteq> 0"
      using P by (auto simp: pending_ok_def)
    then show ?thesis using False P Some by (simp add: take_record_def Let_def pending_ok_def)
  qed
qed

lemma take_record_stream:
  assumes "pending_ok P" "take_record r P = (Inr (Some m), P')"
  shows "fr_stream m = rec_stream r"
proof (cases "rc_IsEnvelope r")
  case True
  then show ?thesis using assms(2)
    by (auto simp: take_record_def fr_stream_def rec_stream_def split: sum.splits if_splits)
next
  case False
  then obtain a where "P (ch_StreamID (rc_Chunk r)) = Some a" "fr_Env m = as_env a"
    using assms(2) by (auto simp: take_record_def Let_def split: option.splits if_splits)
  then show ?thesis using False assms(1) by (simp add: pending_ok_def fr_stream_def rec_stream_def)
qed

text \<open>A record is handled by its stream's entry alone.\<close>

lemma take_record_local:
  assumes "P (rec_stream r) = Q (rec_stream r)"
  shows "fst (take_record r P) = fst (take_record r Q)"
    and "snd (take_record r P) = P(rec_stream r := snd (take_record r Q) (rec_stream r))"
proof -
  have "fst (take_record r P) = fst (take_record r Q) \<and>
    snd (take_record r P) = P(rec_stream r := snd (take_record r Q) (rec_stream r))"
  proof (cases "rc_IsEnvelope r")
    case True
    then show ?thesis using assms
      by (cases "streamIDOf (rc_Envelope r)") (auto simp: take_record_def rec_stream_def env_stream_def fun_eq_iff)
  next
    case False
    then show ?thesis using assms
      by (auto simp: take_record_def rec_stream_def Let_def fun_eq_iff split: option.splits)
  qed
  then show "fst (take_record r P) = fst (take_record r Q)"
    "snd (take_record r P) = P(rec_stream r := snd (take_record r Q) (rec_stream r))" by auto
qed

definition only :: "64 word \<Rightarrow> (64 word \<rightharpoonup> asm) \<Rightarrow> (64 word \<rightharpoonup> asm)" where
  "only sid P = P |` {sid}"

lemma take_record_only:
  "rec_stream r = sid \<Longrightarrow> take_record r (only sid P) =
     (fst (take_record r P), only sid (snd (take_record r P)))"
proof -
  assume r: "rec_stream r = sid"
  then have eq: "only sid P (rec_stream r) = P (rec_stream r)" by (simp add: only_def)
  have "snd (take_record r (only sid P)) = (only sid P)(sid := snd (take_record r P) sid)"
    using take_record_local(2)[of "only sid P" r P, OF eq] r by simp
  also have "\<dots> = only sid (snd (take_record r P))" by (rule ext) (simp add: only_def restrict_map_def)
  finally show ?thesis using take_record_local(1)[of "only sid P" r P, OF eq] by (simp add: prod_eq_iff)
qed

lemma take_record_other: "rec_stream r \<noteq> sid \<Longrightarrow> only sid (snd (take_record r P)) = only sid P"
  using take_record_local(2)[of P r P, OF refl, THEN fun_cong, of sid]
  by (intro ext) (simp add: only_def restrict_map_def)

lemma feed_project:
  "pending_ok P \<Longrightarrow> feed rs P = (Inr ms, P') \<Longrightarrow>
   feed (filter (\<lambda>r. rec_stream r = sid) rs) (only sid P) =
     (Inr (filter (\<lambda>m. fr_stream m = sid) ms), only sid P')"
proof (induction rs arbitrary: P ms)
  case Nil
  then show ?case by simp
next
  case (Cons r rs)
  obtain m P1 ms1 where t: "take_record r P = (Inr m, P1)" and f: "feed rs P1 = (Inr ms1, P')"
      and ms: "ms = (case m of None \<Rightarrow> [] | Some x \<Rightarrow> [x]) @ ms1"
    using Cons.prems(2) by (auto split: prod.splits sum.splits)
  have P1: "pending_ok P1" using take_record_keeps[OF Cons.prems(1), of r] t by simp
  note IH = Cons.IH[OF P1 f]
  have stream: "fr_stream x = rec_stream r" if "m = Some x" for x
    using take_record_stream[OF Cons.prems(1)] t that by simp
  show ?case
  proof (cases "rec_stream r = sid")
    case True
    then have "take_record r (only sid P) = (Inr m, only sid P1)" using take_record_only[of r sid P] t by simp
    then show ?thesis using IH True ms stream by (auto split: option.splits)
  next
    case False
    have "only sid P1 = only sid P" using take_record_other[OF False, of P] t by simp
    then show ?thesis using IH False ms stream by (auto split: option.splits)
  qed
qed

lemma feed_total:
  "pending_ok P \<Longrightarrow> (\<And>sid. \<exists>ms P'. feed (filter (\<lambda>r. rec_stream r = sid) rs) (only sid P) = (Inr ms, P')) \<Longrightarrow>
   \<exists>ms P'. feed rs P = (Inr ms, P')"
proof (induction rs arbitrary: P)
  case Nil
  then show ?case by simp
next
  case (Cons r rs)
  let ?s = "rec_stream r"
  obtain m P1 where t: "take_record r P = (Inr m, P1)"
    using Cons.prems(2)[of ?s] take_record_only[of r ?s P] by (cases "take_record r P"; cases "fst (take_record r P)") auto
  have P1: "pending_ok P1" using take_record_keeps[OF Cons.prems(1), of r] t by simp
  have "\<exists>ms P'. feed (filter (\<lambda>r. rec_stream r = sid) rs) (only sid P1) = (Inr ms, P')" for sid
  proof (cases "?s = sid")
    case True
    then have "take_record r (only sid P) = (Inr m, only sid P1)" using take_record_only[of r sid P] t by simp
    then show ?thesis using Cons.prems(2)[of sid] True by (auto split: prod.splits sum.splits)
  next
    case False
    have "only sid P1 = only sid P" using take_record_other[OF False, of P] t by simp
    then show ?thesis using Cons.prems(2)[of sid] False by simp
  qed
  from Cons.IH[OF P1 this] t show ?case by (auto split: prod.splits sum.splits)
qed

subsection \<open>Whole messages in any interleaving\<close>

fun chunk_recs :: "64 word \<Rightarrow> 32 word \<Rightarrow> bytes list \<Rightarrow> Record list" where
  "chunk_recs sid sq [] = []"
| "chunk_recs sid sq (p # ps) =
     \<lparr> rc_IsEnvelope = False, rc_Envelope = zero_Envelope,
       rc_Chunk = \<lparr> ch_StreamID = sid, ch_Seq = sq, ch_Final = (ps = []), ch_Payload = p \<rparr> \<rparr> #
     chunk_recs sid (sq + 1) ps"

definition env_rec :: "Envelope \<Rightarrow> Record" where
  "env_rec e = \<lparr> rc_IsEnvelope = True, rc_Envelope = e, rc_Chunk = zero_Chunk \<rparr>"

definition stream_recs :: "64 word \<Rightarrow> Envelope \<Rightarrow> bytes \<Rightarrow> Record list" where
  "stream_recs sid e content = env_rec e # chunk_recs sid 0 (pieces content)"

text \<open>These are the records that \<^verbatim>\<open>SendContent\<close> writes.\<close>

lemma decode_number_chunks: "map DecodeRecord (number_chunks sid sq ps) = map Inr (chunk_recs sid sq ps)"
  by (induction ps arbitrary: sq) (auto simp: DecodeRecord_chunk)

lemma feed_chunks:
  "ps \<noteq> [] \<Longrightarrow> P sid = Some a \<Longrightarrow> feed (chunk_recs sid sq ps) P =
     (Inr [\<lparr> fr_Env = as_env a, fr_Content = as_buf a @ concat ps, fr_HasContent = True \<rparr>], P(sid := None))"
proof (induction ps arbitrary: P a sq)
  case (Cons p ps)
  let ?r = "\<lparr> rc_IsEnvelope = False, rc_Envelope = zero_Envelope,
    rc_Chunk = \<lparr> ch_StreamID = sid, ch_Seq = sq, ch_Final = (ps = []), ch_Payload = p \<rparr> \<rparr>"
  show ?case
  proof (cases "ps = []")
    case True
    have "take_record ?r P = (Inr (Some \<lparr> fr_Env = as_env a, fr_Content = as_buf a @ p, fr_HasContent = True \<rparr>), P(sid := None))"
      using Cons.prems(2) True by (simp add: take_record_def)
    then show ?thesis using True by (simp del: fun_upd_apply)
  next
    case False
    let ?a = "a\<lparr> as_buf := as_buf a @ p \<rparr>"
    have "take_record ?r P = (Inr None, P(sid \<mapsto> ?a))"
      using Cons.prems(2) False by (simp add: take_record_def)
    then show ?thesis using Cons.IH[OF False, of "P(sid \<mapsto> ?a)" ?a "sq + 1", OF fun_upd_same]
      by (simp del: fun_upd_apply)
  qed
qed simp

lemma feed_stream_recs:
  assumes "streamIDOf e = Inr sid" "sid \<noteq> 0"
  shows "feed (stream_recs sid e content) P =
    (Inr [\<lparr> fr_Env = e, fr_Content = content, fr_HasContent = True \<rparr>], P(sid := None))"
  using feed_chunks[of "pieces content" "P(sid \<mapsto> \<lparr> as_env = e, as_buf = [] \<rparr>)" sid "\<lparr> as_env = e, as_buf = [] \<rparr>" 0] assms
  by (simp add: stream_recs_def env_rec_def take_record_def)

lemma feed_controls:
  "\<forall>r \<in> set rs. rc_IsEnvelope r \<and> streamIDOf (rc_Envelope r) = Inr 0 \<Longrightarrow>
   feed rs P = (Inr (map (\<lambda>r. \<lparr> fr_Env = rc_Envelope r, fr_Content = [], fr_HasContent = False \<rparr>) rs), P)"
  by (induction rs) (auto simp: take_record_def)

text \<open>C21. Content streams do not disturb each other. However the records of several messages
  with different stream ids and of any number of plain envelopes are interleaved on the wire, as
  concurrent senders may do, reading them all succeeds: every content message comes out exactly
  once, with its own envelope and its whole content; the plain envelopes come out in their order;
  and no stream is left in flight.\<close>

theorem interleaved_streams:
  assumes "distinct (map fst msgs)"
    "\<forall>(sid, e, content) \<in> set msgs. sid \<noteq> 0 \<and> streamIDOf e = Inr sid \<and>
       filter (\<lambda>r. rec_stream r = sid) rs = stream_recs sid e content"
    "\<forall>r \<in> set rs. rec_stream r \<in> fst ` set msgs \<or> rc_IsEnvelope r \<and> streamIDOf (rc_Envelope r) = Inr 0"
  shows "\<exists>ms. feed rs Map.empty = (Inr ms, Map.empty) \<and>
    (\<forall>(sid, e, content) \<in> set msgs. filter (\<lambda>m. fr_stream m = sid) ms =
       [\<lparr> fr_Env = e, fr_Content = content, fr_HasContent = True \<rparr>]) \<and>
    filter (\<lambda>m. fr_stream m = 0) ms =
      map (\<lambda>r. \<lparr> fr_Env = rc_Envelope r, fr_Content = [], fr_HasContent = False \<rparr>)
        (filter (\<lambda>r. rec_stream r = 0) rs)"
proof -
  let ?f = "\<lambda>sid. filter (\<lambda>r. rec_stream r = sid) rs"
  have stream: "feed (?f sid) P = (Inr [\<lparr> fr_Env = e, fr_Content = content, fr_HasContent = True \<rparr>], P(sid := None))"
    if "(sid, e, content) \<in> set msgs" for sid e content P
    using assms(2) feed_stream_recs[of e sid content P] that by fastforce
  have "\<forall>r \<in> set (?f 0). rc_IsEnvelope r \<and> streamIDOf (rc_Envelope r) = Inr 0"
    using assms(2,3) by fastforce
  note control = feed_controls[OF this]
  have none: "?f sid = []" if "sid \<notin> fst ` set msgs" "sid \<noteq> 0" for sid
  proof -
    have "rec_stream r = 0" if "rc_IsEnvelope r" "streamIDOf (rc_Envelope r) = Inr 0" for r
      using that by (simp add: rec_stream_def env_stream_def)
    then have "rec_stream r \<noteq> sid" if "r \<in> set rs" for r
      using assms(3) that \<open>sid \<notin> fst ` set msgs\<close> \<open>sid \<noteq> 0\<close> by metis
    then show ?thesis by (simp add: filter_empty_conv)
  qed
  have ok: "pending_ok Map.empty" by (simp add: pending_ok_def)
  have "\<exists>ms P'. feed (?f sid) (only sid Map.empty) = (Inr ms, P') \<and> P' = Map.empty" for sid
  proof (cases "sid \<in> fst ` set msgs")
    case True
    then show ?thesis using stream by (force simp: only_def)
  next
    case False
    then show ?thesis using none control by (cases "sid = 0") (auto simp: only_def)
  qed
  note each = this
  obtain ms P' where feed: "feed rs Map.empty = (Inr ms, P')"
    using feed_total[OF ok] each by blast
  note proj = feed_project[OF ok feed]
  have "P' sid = None" for sid
  proof -
    have "only sid P' = Map.empty" using proj[of sid] each[of sid] by auto
    then show ?thesis by (metis only_def restrict_in singletonI)
  qed
  then have "P' = Map.empty" by (rule ext)
  moreover have "filter (\<lambda>m. fr_stream m = sid) ms = [\<lparr> fr_Env = e, fr_Content = content, fr_HasContent = True \<rparr>]"
    if "(sid, e, content) \<in> set msgs" for sid e content
    using proj[of sid] stream[OF that] by simp
  moreover have "filter (\<lambda>m. fr_stream m = 0) ms =
      map (\<lambda>r. \<lparr> fr_Env = rc_Envelope r, fr_Content = [], fr_HasContent = False \<rparr>) (?f 0)"
    using proj[of 0] control by simp
  ultimately show ?thesis using feed by blast
qed

lemma streamIDOf_blob:
  "int64_range (bd_Size d) \<Longrightarrow>
   streamIDOf \<lparr> env_Type = TypeBlob, env_ID = i, env_Data = marshal_BlobData d \<rparr> = Inr (bd_StreamID d)"
  using json_Unmarshal_text[OF encoded_BlobData, of dec_BlobData d zero_BlobData]
  by (simp add: streamIDOf_def decode_BlobData)

lemma streamIDOf_change:
  "int64_range (fd_Size d) \<Longrightarrow>
   streamIDOf \<lparr> env_Type = TypeFileChange, env_ID = i, env_Data = marshal_FileChangeData d \<rparr> = Inr (fd_StreamID d)"
  using json_Unmarshal_text[OF encoded_FileChangeData, of dec_FileChangeData d zero_FileChangeData]
  by (simp add: streamIDOf_def decode_FileChangeData fix_FileChangeData_def type_defs)

lemma streamIDOf_other: "ty \<noteq> TypeBlob \<Longrightarrow> ty \<noteq> TypeFileChange \<Longrightarrow>
   streamIDOf \<lparr> env_Type = ty, env_ID = i, env_Data = d \<rparr> = Inr 0"
  by (simp add: streamIDOf_def)

definition demo_blob :: "64 word \<Rightarrow> Envelope" where
  "demo_blob sid = \<lparr> env_Type = TypeBlob, env_ID = [],
     env_Data = marshal_BlobData \<lparr> bd_StreamID = sid, bd_Hash = ''h'', bd_Size = 1 \<rparr> \<rparr>"

definition demo_ctl :: Envelope where
  "demo_ctl = \<lparr> env_Type = TypeSyncDone, env_ID = [], env_Data = [] \<rparr>"

definition demo_chunk :: "64 word \<Rightarrow> byte \<Rightarrow> Record" where
  "demo_chunk sid b = \<lparr> rc_IsEnvelope = False, rc_Envelope = zero_Envelope,
     rc_Chunk = \<lparr> ch_StreamID = sid, ch_Seq = 0, ch_Final = True, ch_Payload = [b] \<rparr> \<rparr>"

theorem interleaved_streams_witness:
  "\<exists>ms. feed [env_rec (demo_blob 1), env_rec (demo_blob 2), demo_chunk 2 20, env_rec demo_ctl, demo_chunk 1 10]
      Map.empty = (Inr ms, Map.empty) \<and>
    filter (\<lambda>m. fr_stream m = 1) ms = [\<lparr> fr_Env = demo_blob 1, fr_Content = [10], fr_HasContent = True \<rparr>] \<and>
    filter (\<lambda>m. fr_stream m = 2) ms = [\<lparr> fr_Env = demo_blob 2, fr_Content = [20], fr_HasContent = True \<rparr>]"
proof -
  have s: "streamIDOf (demo_blob sid) = Inr sid" "streamIDOf demo_ctl = Inr 0" for sid
    by (simp add: demo_blob_def streamIDOf_blob int64_range_def)
       (simp add: demo_ctl_def streamIDOf_other type_defs)
  have p: "pieces [b] = [[b]]" for b
    by (subst pieces.simps) (simp add: ChunkPayloadSize_def MaxRecordPlaintext_def)
  have r: "rec_stream (env_rec (demo_blob sid)) = sid" "rec_stream (env_rec demo_ctl) = 0"
      "rec_stream (demo_chunk sid b) = sid" for sid b
    by (simp_all add: rec_stream_def env_rec_def demo_chunk_def env_stream_def s)
  have c: "stream_recs sid (demo_blob sid) [b] = [env_rec (demo_blob sid), demo_chunk sid b]" for sid b
    by (simp add: stream_recs_def p demo_chunk_def)
  show ?thesis
    using interleaved_streams[of "[(1, demo_blob 1, [10]), (2, demo_blob 2, [20])]"
        "[env_rec (demo_blob 1), env_rec (demo_blob 2), demo_chunk 2 20, env_rec demo_ctl, demo_chunk 1 10]"]
    by (simp add: r c s) (auto simp: env_rec_def s)
qed

section \<open>Delivery\<close>

text \<open>
  \<open>delivers S R m c c' r\<close>: what the sender wrote between \<open>c\<close> and \<open>c'\<close> makes the receiver
  \<open>r\<close>, when it arrives, return the message \<open>m\<close>, and leaves the two synchronized.
\<close>

definition delivers ::
  "'c SecureChannel \<Rightarrow> ('c \<Rightarrow> 'c \<Rightarrow> bool) \<Rightarrow> Framed \<Rightarrow> 'c conn \<Rightarrow> 'c conn \<Rightarrow> 'c conn \<Rightarrow> bool" where
  "delivers S R m c c' r \<longleftrightarrow>
     (\<exists>fs ch. cn_wire c' = cn_wire c @ fs \<and> fs \<noteq> [] \<and> R (cn_ch c') ch \<and>
        (\<forall>rest. ReadMessage S (r\<lparr> cn_inbox := fs @ rest \<rparr>) =
           (Inr m, r\<lparr> cn_ch := ch, cn_inbox := rest, cn_pending := (cn_pending r)(fr_stream m := None) \<rparr>)))"

lemma SendEnvelope_writes:
  assumes "SendEnvelope S e c = (Inr u, c')"
  obtains b where "EncodeEnvelope e = Inr b" "forE [b] (writeRecord S) c = (Inr (), c')"
  using assms by (auto simp: SendEnvelope_def bindE_Inr_iff split: sum.splits)

lemma SendEnvelope_delivers:
  assumes "secure_channel S R" "R (cn_ch c) (cn_ch r)" "cn_pending r 0 = None"
    "plain_envelope e" "streamIDOf e = Inr 0" "SendEnvelope S e c = (Inr u, c')"
  shows "delivers S R \<lparr> fr_Env = e, fr_Content = [], fr_HasContent = False \<rparr> c c' r"
proof -
  obtain b where b: "EncodeEnvelope e = Inr b" "forE [b] (writeRecord S) c = (Inr (), c')"
    using assms(6) by (rule SendEnvelope_writes)
  obtain fs ch where fs: "c' = c\<lparr> cn_ch := cn_ch c', cn_wire := cn_wire c @ fs \<rparr>"
      "open_all S fs (cn_ch r) = Some ([b], ch)" "R (cn_ch c') ch" "\<forall>f \<in> set fs. length f \<le> readLimit"
    using writes_open[OF assms(1) b(2) assms(2)] EncodeEnvelope_length[OF b(1)] by auto
  have "fs \<noteq> []" using fs(2) by auto
  moreover have "cn_wire c' = cn_wire c @ fs" by (subst fs(1)) simp
  moreover have "(cn_pending r)(0 := None) = cn_pending r" using assms(3) by (simp add: fun_upd_idem)
  moreover have "ReadMessage S (r\<lparr> cn_inbox := fs @ rest \<rparr>) =
      (Inr \<lparr> fr_Env = e, fr_Content = [], fr_HasContent = False \<rparr>, r\<lparr> cn_ch := ch, cn_inbox := rest \<rparr>)" for rest
    using read_envelope[OF assms(4) b(1) assms(5), of S fs "r\<lparr> cn_inbox := fs @ rest \<rparr>" ch rest] fs(2,4) by simp
  ultimately show ?thesis
    unfolding delivers_def using fs(3) assms(5)
    by (intro exI[of _ fs] exI[of _ ch]) (simp add: fr_stream_def env_stream_def)
qed

lemma forE_append: "forE (xs @ ys) f = bindE (forE xs f) (\<lambda>_. forE ys f)"
  by (rule ext, induction xs) (auto simp: bindE_def split: prod.splits sum.splits)

lemma SendContent_delivers:
  assumes "secure_channel S R" "R (cn_ch c) (cn_ch r)"
    "plain_envelope e" "streamIDOf e = Inr sid" "sid \<noteq> 0"
    "SendEnvelope S e c = (Inr u, c1)" "SendContent S sid content c1 = (Inr u', c')"
  shows "delivers S R \<lparr> fr_Env = e, fr_Content = content, fr_HasContent = True \<rparr> c c' r"
proof -
  obtain b where b: "EncodeEnvelope e = Inr b" "forE [b] (writeRecord S) c = (Inr (), c1)"
    using assms(6) by (rule SendEnvelope_writes)
  have "forE ([b] @ chunk_records sid content) (writeRecord S) c = (Inr u', c')"
    using b(2) assms(7) unfolding forE_append by (simp add: SendContent_pieces bindE_Inr_iff)
  then have w: "forE (b # chunk_records sid content) (writeRecord S) c = (Inr u', c')" by simp
  obtain fs ch where fs: "c' = c\<lparr> cn_ch := cn_ch c', cn_wire := cn_wire c @ fs \<rparr>"
      "open_all S fs (cn_ch r) = Some (b # chunk_records sid content, ch)" "R (cn_ch c') ch"
      "\<forall>f \<in> set fs. length f \<le> readLimit"
    using writes_open[OF assms(1) w assms(2)] EncodeEnvelope_length[OF b(1)] chunk_records_size by auto
  have "fs \<noteq> []" using fs(2) by auto
  moreover have "cn_wire c' = cn_wire c @ fs" by (subst fs(1)) simp
  moreover have "ReadMessage S (r\<lparr> cn_inbox := fs @ rest \<rparr>) =
      (Inr \<lparr> fr_Env = e, fr_Content = content, fr_HasContent = True \<rparr>,
       r\<lparr> cn_ch := ch, cn_inbox := rest, cn_pending := (cn_pending r)(sid := None) \<rparr>)" for rest
    using read_content[OF assms(3) b(1) assms(4,5), of S fs "r\<lparr> cn_inbox := fs @ rest \<rparr>" content ch rest] fs(2,4)
    by (simp del: fun_upd_apply)
  ultimately show ?thesis
    unfolding delivers_def using fs(3) assms(4)
    by (intro exI[of _ fs] exI[of _ ch]) (simp add: fr_stream_def env_stream_def)
qed

section \<open>What reading keeps\<close>

text \<open>C24. \<^verbatim>\<open>ReadMessage\<close> always returns. It consumes a prefix of the frames that arrive, at
  least one unless there are none, and then it reports the error that ended the connection; it
  never touches the sending side; and it keeps the table of streams in flight well formed: stream 0
  is never in it, and every entry is under the id its envelope announced.\<close>

theorem read_message_invariant:
  assumes "pending_ok (cn_pending c)" "ReadMessage S c = (x, c')"
  shows "pending_ok (cn_pending c') \<and> (\<exists>k. cn_inbox c' = drop k (cn_inbox c) \<and> (cn_inbox c \<noteq> [] \<longrightarrow> 0 < k)) \<and>
    (cn_inbox c = [] \<longrightarrow> x = Inl (cn_end c)) \<and>
    cn_wire c' = cn_wire c \<and> cn_outSeq c' = cn_outSeq c"
proof -
  have "pending_ok (cn_pending c) \<Longrightarrow> read_frames S fs c = (x, c') \<Longrightarrow>
      pending_ok (cn_pending c') \<and> (\<exists>k. cn_inbox c' = drop k fs \<and> (fs \<noteq> [] \<longrightarrow> 0 < k)) \<and>
      (fs = [] \<longrightarrow> x = Inl (cn_end c)) \<and> cn_wire c' = cn_wire c \<and> cn_outSeq c' = cn_outSeq c" for fs c
  proof (induction fs arbitrary: c)
    case Nil
    then show ?case by auto
  next
    case (Cons f fs)
    have one: "\<exists>k. fs = drop k (f # fs) \<and> 0 < k" by (intro exI[of _ 1]) simp
    show ?case
    proof (cases "length f \<le> readLimit \<and> (\<exists>plain ch rec. Open S f (cn_ch c) = (Inr plain, ch) \<and> DecodeRecord plain = Inr rec)")
      case False
      then show ?thesis using Cons.prems one
        by (auto simp: read_frames.simps(2) split: if_splits prod.splits sum.splits)
    next
      case True
      then obtain plain ch rec where o: "length f \<le> readLimit" "Open S f (cn_ch c) = (Inr plain, ch)"
          "DecodeRecord plain = Inr rec" by blast
      obtain y P where tr: "take_record rec (cn_pending c) = (y, P)" by (cases "take_record rec (cn_pending c)")
      then have P: "pending_ok P" using take_record_keeps[OF Cons.prems(1), of rec] by simp
      show ?thesis
      proof (cases "y = Inr None")
        case True
        then have "read_frames S fs (c\<lparr> cn_ch := ch, cn_inbox := fs, cn_pending := P \<rparr>) = (x, c')"
          using read_frame_more[OF o tr[unfolded True], of fs] Cons.prems(2) by simp
        from Cons.IH[OF _ this] P obtain k where k: "cn_inbox c' = drop k fs"
          and rest: "pending_ok (cn_pending c')" "cn_wire c' = cn_wire c" "cn_outSeq c' = cn_outSeq c" by auto
        have "cn_inbox c' = drop (Suc k) (f # fs)" using k by simp
        then show ?thesis using rest by (metis list.distinct(1) zero_less_Suc)
      next
        case False
        then show ?thesis using Cons.prems(2) o tr P one
          by (auto simp: read_frames.simps(2) split: sum.splits option.splits)
      qed
    qed
  qed
  then show ?thesis using assms unfolding ReadMessage_def by blast
qed

definition id_channel :: "unit SecureChannel" where
  "id_channel = \<lparr> Seal = \<lambda>p s. (Inr p, s), Open = \<lambda>c s. (Inr c, s) \<rparr>"

lemma id_channel_secure: "secure_channel id_channel (\<lambda>_ _. True)"
  by (simp add: secure_channel_def id_channel_def)

theorem read_message_invariant_witness:
  "\<exists>x c'. ReadMessage id_channel (newConn () (\<lambda>_. None) [[9], [8]] Canceled) = (x, c') \<and>
     pending_ok (cn_pending c') \<and> (\<exists>k. cn_inbox c' = drop k [[9], [8]] \<and> 0 < k)"
proof -
  let ?c = "newConn () (\<lambda>_. None) [[9], [8]] Canceled"
  obtain x c' where r: "ReadMessage id_channel ?c = (x, c')" by (cases "ReadMessage id_channel ?c")
  have "pending_ok (cn_pending ?c)" by (simp add: newConn_def pending_ok_def)
  from read_message_invariant[OF this r] r show ?thesis by (auto simp: newConn_def)
qed

text \<open>\<open>k\<close> stream ids taken from one connection.\<close>

fun take_ids :: "nat \<Rightarrow> 'c conn \<Rightarrow> 64 word list \<times> 'c conn" where
  "take_ids 0 c = ([], c)"
| "take_ids (Suc k) c =
     (case NewStreamID c of
        (Inr sid, c1) \<Rightarrow> (case take_ids k c1 of (ids, c2) \<Rightarrow> (sid # ids, c2))
      | (Inl e, c1) \<Rightarrow> ([], c1))"

lemma take_ids_eq: "fst (take_ids k c) = map (\<lambda>i. cn_outSeq c + of_nat (Suc i)) [0..<k]"
proof (induction k arbitrary: c)
  case (Suc k)
  let ?c = "c\<lparr> cn_outSeq := cn_outSeq c + 1 \<rparr>"
  have "fst (take_ids (Suc k) c) = (cn_outSeq c + 1) # fst (take_ids k ?c)"
    by (simp add: NewStreamID_def split: prod.splits)
  also have "\<dots> = (cn_outSeq c + 1) # map (\<lambda>i. cn_outSeq c + of_nat (Suc (Suc i))) [0..<k]"
    unfolding Suc.IH by (simp add: algebra_simps)
  also have "\<dots> = map (\<lambda>i. cn_outSeq c + of_nat (Suc i)) (0 # map Suc [0..<k])" by (simp add: o_def)
  also have "0 # map Suc [0..<k] = [0..<Suc k]" by (simp only: map_Suc_upt upt_conv_Cons zero_less_Suc)
  finally show ?case .
qed simp

text \<open>Stream ids: the \<open>i\<close>-th id a fresh connection hands out is \<open>i\<close>, so ids are distinct and
  positive for the first 2^64 - 1 contents; the counter then wraps, and the id 0 that follows would
  announce a content that never comes.\<close>

theorem stream_ids_distinct:
  "fst (take_ids k (newConn ch fault inbox e)) = map (\<lambda>i. of_nat (Suc i)) [0..<k] \<and>
   (distinct (fst (take_ids k (newConn ch fault inbox e))) \<and> 0 \<notin> set (fst (take_ids k (newConn ch fault inbox e)))
      \<longleftrightarrow> k < 2 ^ 64)"
proof -
  let ?ids = "map (\<lambda>i. of_nat (Suc i)) [0..<k] :: 64 word list"
  have ids: "fst (take_ids k (newConn ch fault inbox e)) = ?ids"
    unfolding take_ids_eq by (simp add: newConn_def)
  have "distinct ?ids \<and> 0 \<notin> set ?ids" if k: "k < 2 ^ 64"
  proof -
    have u: "unat (of_nat (Suc i) :: 64 word) = Suc i" if "i < k" for i
      using that k by (simp add: unat_of_nat take_bit_eq_mod del: of_nat_Suc)
    have "inj_on (\<lambda>i. of_nat (Suc i) :: 64 word) {0..<k}" by (rule inj_onI) (metis atLeastLessThan_iff nat.inject u)
    moreover have "(of_nat (Suc i) :: 64 word) \<noteq> 0" if "i < k" for i using u[OF that] by (metis nat.distinct(1) unat_0)
    ultimately show ?thesis by (auto simp: distinct_map simp del: of_nat_Suc)
  qed
  moreover have "0 \<in> set ?ids" if "\<not> k < 2 ^ 64"
  proof -
    have "(of_nat (Suc (2 ^ 64 - 1)) :: 64 word) = of_nat (2 ^ LENGTH(64))" by simp
    also have "\<dots> = 0" by (metis of_nat_0 word_of_nat_eq_0_iff dvd_refl)
    finally show ?thesis using that by (auto simp del: of_nat_Suc intro!: image_eqI[of _ _ "2 ^ 64 - 1"])
  qed
  ultimately show ?thesis unfolding ids by blast
qed

end
