(* ===== verification/Notifier.thy ===== *)
theory Notifier
  imports Codec
begin

text \<open>
  The outbound port \<^verbatim>\<open>ClientNotifier\<close> of \<^verbatim>\<open>internal/core/ports/ports.go\<close> and its
  implementation over a connection, \<^verbatim>\<open>internal/adapters/transport/ws/notifier.go\<close>; the
  senders of \<^verbatim>\<open>client.go\<close> are built from the same parts.
\<close>

record 's ClientNotifier =
  SessionReady :: "string \<Rightarrow> ('s, unit) prog"
  SyncRequest :: "string list \<Rightarrow> ('s, unit) prog"
  StreamEvent :: "AgentEvent \<Rightarrow> ('s, unit) prog"
  FileChanged :: "FileChange \<Rightarrow> bytes \<Rightarrow> ('s, unit) prog"
  TurnDone :: "TurnResult \<Rightarrow> ('s, unit) prog"
  Error :: "string \<Rightarrow> ('s, unit) prog"

section \<open>The implementation\<close>

text \<open>\<^verbatim>\<open>env, err := marshalData(typ, payload); if err != nil { return err }; SendEnvelope\<close>\<close>

definition send_data :: "'c SecureChannel \<Rightarrow> string \<Rightarrow> string option \<Rightarrow> ('c conn, unit) prog" where
  "send_data S typ payload =
     (case marshalData typ payload of Inl e \<Rightarrow> throwE e | Inr env \<Rightarrow> SendEnvelope S env)"

definition nt_SessionReady :: "'c SecureChannel \<Rightarrow> string \<Rightarrow> ('c conn, unit) prog" where
  "nt_SessionReady S sessionID =
     send_data S TypeSessionReady (Some (marshal_SessionReadyData \<lparr> rd_SessionID = sessionID \<rparr>))"

definition nt_SyncRequest :: "'c SecureChannel \<Rightarrow> string list \<Rightarrow> ('c conn, unit) prog" where
  "nt_SyncRequest S missing =
     send_data S TypeSyncRequest (Some (marshal_SyncRequestData \<lparr> sr_Missing = missing \<rparr>))"

definition nt_StreamEvent :: "'c SecureChannel \<Rightarrow> AgentEvent \<Rightarrow> ('c conn, unit) prog" where
  "nt_StreamEvent S ev =
     send_data S TypeStreamEvent (marshal_StreamEventData
       \<lparr> se_Kind = kind_string (ev_Kind ev), se_Text = ev_Text ev, se_Raw = string_of_bytes (ev_Raw ev) \<rparr>)"

definition change_data :: "FileChange \<Rightarrow> 64 word \<Rightarrow> int \<Rightarrow> FileChangeData" where
  "change_data ch sid sz =
     \<lparr> fd_Op = op_string (fc_Op ch), fd_Path = fc_Path ch, fd_Mode = fc_Mode ch,
       fd_Hash = fc_Hash ch, fd_StreamID = sid, fd_Size = sz \<rparr>"

definition nt_FileChange :: "'c SecureChannel \<Rightarrow> FileChange \<Rightarrow> bytes \<Rightarrow> ('c conn, unit) prog" where
  "nt_FileChange S ch content =
     bindE (if fc_Op ch \<noteq> ChangeDelete
            then bindE NewStreamID (\<lambda>sid. retE (change_data ch sid (int (length content))))
            else retE (change_data ch 0 0)) (\<lambda>d.
     bindE (send_data S TypeFileChange (Some (marshal_FileChangeData d))) (\<lambda>_.
       if fd_StreamID d \<noteq> 0 then SendContent S (fd_StreamID d) content else retE ()))"

definition nt_TurnDone :: "float_ops \<Rightarrow> 'c SecureChannel \<Rightarrow> TurnResult \<Rightarrow> ('c conn, unit) prog" where
  "nt_TurnDone fl S res =
     send_data S TypeTurnDone (marshal_TurnDoneData fl
       \<lparr> td_IsError = tr_IsError res, td_CostUSD = tr_CostUSD res, td_Text = tr_Text res,
         td_NumTurns = tr_NumTurns res \<rparr>)"

definition nt_Error :: "'c SecureChannel \<Rightarrow> string \<Rightarrow> ('c conn, unit) prog" where
  "nt_Error S message = send_data S TypeError (Some (marshal_ErrorData \<lparr> er_Message = message \<rparr>))"

definition ws_notifier :: "float_ops \<Rightarrow> 'c SecureChannel \<Rightarrow> 'c conn ClientNotifier" where
  "ws_notifier fl S =
     \<lparr> SessionReady = nt_SessionReady S, SyncRequest = nt_SyncRequest S,
       StreamEvent = nt_StreamEvent S, FileChanged = nt_FileChange S,
       TurnDone = nt_TurnDone fl S, Error = nt_Error S \<rparr>"

end
