(* ===== verification/Fsutil.thy ===== *)
theory Fsutil
  imports Os Hashing "HOL-Library.Multiset"
begin

text \<open>
  \<^verbatim>\<open>internal/fsutil/fsutil.go\<close>: the manifest of a directory tree (\<open>WalkManifest\<close>) and
  the difference of two manifests (\<open>Diff\<close>). The lemmas say exactly which files a manifest
  lists and that applying a difference to the old manifest's files gives the new one's.
\<close>

section \<open>Definitions\<close>

definition DefaultIgnoredDirs :: "string set" where
  "DefaultIgnoredDirs = {''.git'', ''node_modules'', ''.claude''}"

record WalkOptions =
  wo_Ignore :: "(string \<Rightarrow> bool \<Rightarrow> bool) option"
  wo_MaxFileSize :: int
  wo_MaxTotalSize :: int

text \<open>The zero value \<^verbatim>\<open>WalkOptions{}\<close>.\<close>

definition no_opts :: WalkOptions where
  "no_opts = \<lparr>wo_Ignore = None, wo_MaxFileSize = 0, wo_MaxTotalSize = 0\<rparr>"

definition ignored_by :: "WalkOptions \<Rightarrow> string \<Rightarrow> bool \<Rightarrow> bool" where
  "ignored_by opts rel isDir = (case wo_Ignore opts of None \<Rightarrow> False | Some f \<Rightarrow> f rel isDir)"

definition rel_path :: "string list \<Rightarrow> string" where
  "rel_path cs = join_with slash cs"

definition file_entry :: "string list \<Rightarrow> bytes \<Rightarrow> FileMode \<Rightarrow> FileEntry" where
  "file_entry cs b m =
     \<lparr>fe_Path = rel_path cs, fe_Hash = HashContent b, fe_Size = int (length b), fe_Mode = Perm m\<rparr>"

text \<open>
  The callback of \<^verbatim>\<open>WalkDir\<close> on the node at \<open>root/rel\<close>, followed by the walk of its
  entries if it is a directory that is not skipped. The accumulator is the callback's
  \<^verbatim>\<open>entries\<close> and \<^verbatim>\<open>total\<close>.
\<close>

fun walk_node :: "os \<Rightarrow> WalkOptions \<Rightarrow> string \<Rightarrow> string list \<Rightarrow> node \<Rightarrow>
    FileEntry list \<times> int \<Rightarrow> error + FileEntry list \<times> int"
  and walk_entries :: "os \<Rightarrow> WalkOptions \<Rightarrow> string \<Rightarrow> string list \<Rightarrow> (string \<times> node) list \<Rightarrow>
    FileEntry list \<times> int \<Rightarrow> error + FileEntry list \<times> int" where
  "walk_node s opts root rel (NDir es) acc =
     (if last rel \<in> DefaultIgnoredDirs then Inr acc
      else if ignored_by opts (rel_path rel @ ''/'') True then Inr acc
      else (case os_fault s SysReadDir (loc s root @ rel) of
              Some e \<Rightarrow> Inl (PathError e (rel_path rel))
            | None \<Rightarrow> walk_entries s opts root rel es acc))"
| "walk_node s opts root rel NOther acc = Inr acc"
| "walk_node s opts root rel (NFile b m) (entries, tot) =
     (if ignored_by opts (rel_path rel) False then Inr (entries, tot)
      else (case os_fault s SysStat (loc s root @ rel) of
              Some e \<Rightarrow> Inl (PathError e (rel_path rel))
            | None \<Rightarrow>
                let size = int (length b) in
                if wo_MaxFileSize opts > 0 \<and> size > wo_MaxFileSize opts
                then Inl (FileTooLarge (rel_path rel) size (wo_MaxFileSize opts))
                else let tot' = tot + size in
                if wo_MaxTotalSize opts > 0 \<and> tot' > wo_MaxTotalSize opts
                then Inl (ProjectTooLarge (wo_MaxTotalSize opts))
                else (case os_fault s SysRead (loc s root @ rel) of
                        Some e \<Rightarrow> Inl (PathError e (rel_path rel))
                      | None \<Rightarrow> Inr (entries @ [file_entry rel b m], tot'))))"
| "walk_entries s opts root rel [] acc = Inr acc"
| "walk_entries s opts root rel ((c, n) # es) acc =
     (case walk_node s opts root (rel @ [c]) n acc of
        Inl e \<Rightarrow> Inl e
      | Inr acc' \<Rightarrow> walk_entries s opts root rel es acc')"

definition WalkManifest :: "string \<Rightarrow> WalkOptions \<Rightarrow> (os, Manifest) prog" where
  "WalkManifest root opts = readE (\<lambda>s.
     case os_fault s SysStat (loc s root) of
       Some e \<Rightarrow> Inl (PathError e root)
     | None \<Rightarrow>
         (case namei (os_tree s) (loc s root) of
            Inl e \<Rightarrow> Inl (PathError e root)
          | Inr (NDir es) \<Rightarrow>
              (case os_fault s SysReadDir (loc s root) of
                 Some e \<Rightarrow> Inl (PathError e root)
               | None \<Rightarrow>
                   (case walk_entries s opts root [] es ([], 0) of
                      Inl e \<Rightarrow> Inl e
                    | Inr (entries, tot) \<Rightarrow> Inr \<lparr>Entries = sort_key fe_Path entries\<rparr>))
          | Inr _ \<Rightarrow> Inr \<lparr>Entries = []\<rparr>))"

text \<open>
  \<^verbatim>\<open>Diff\<close>. The two loops, then the sort by path; \<^verbatim>\<open>sort.Slice\<close> is not stable, which
  makes no difference when no two changes share a path, the case for the manifests of
  \<open>WalkManifest\<close>.
\<close>

definition diff_new :: "(string \<rightharpoonup> FileEntry) \<Rightarrow> FileEntry \<Rightarrow> FileChange list" where
  "diff_new oldIdx e =
     (case oldIdx (fe_Path e) of
        None \<Rightarrow> [\<lparr>fc_Op = ChangeCreate, fc_Path = fe_Path e, fc_Hash = fe_Hash e, fc_Mode = fe_Mode e\<rparr>]
      | Some prev \<Rightarrow>
          if fe_Hash prev \<noteq> fe_Hash e \<or> fe_Mode prev \<noteq> fe_Mode e
          then [\<lparr>fc_Op = ChangeModify, fc_Path = fe_Path e, fc_Hash = fe_Hash e, fc_Mode = fe_Mode e\<rparr>]
          else [])"

definition diff_old :: "(string \<rightharpoonup> FileEntry) \<Rightarrow> FileEntry \<Rightarrow> FileChange list" where
  "diff_old newIdx e =
     (case newIdx (fe_Path e) of
        None \<Rightarrow> [\<lparr>fc_Op = ChangeDelete, fc_Path = fe_Path e, fc_Hash = '''', fc_Mode = 0\<rparr>]
      | Some _ \<Rightarrow> [])"

definition Diff :: "Manifest \<Rightarrow> Manifest \<Rightarrow> FileChange list" where
  "Diff oldM newM =
     sort_key fc_Path
       (concat (map (diff_new (ByPath oldM)) (Entries newM)) @
        concat (map (diff_old (ByPath newM)) (Entries oldM)))"

section \<open>Which files a walk lists\<close>

text \<open>The listing without errors and limits.\<close>

fun scan_node :: "WalkOptions \<Rightarrow> string list \<Rightarrow> node \<Rightarrow> FileEntry list"
  and scan_entries :: "WalkOptions \<Rightarrow> string list \<Rightarrow> (string \<times> node) list \<Rightarrow> FileEntry list" where
  "scan_node opts rel (NDir es) =
     (if last rel \<in> DefaultIgnoredDirs \<or> ignored_by opts (rel_path rel @ ''/'') True then []
      else scan_entries opts rel es)"
| "scan_node opts rel NOther = []"
| "scan_node opts rel (NFile b m) =
     (if ignored_by opts (rel_path rel) False then [] else [file_entry rel b m])"
| "scan_entries opts rel [] = []"
| "scan_entries opts rel ((c, n) # es) = scan_node opts (rel @ [c]) n @ scan_entries opts rel es"

definition within_limits :: "WalkOptions \<Rightarrow> FileEntry list \<Rightarrow> int \<Rightarrow> bool" where
  "within_limits opts es tot \<longleftrightarrow>
     (wo_MaxFileSize opts > 0 \<longrightarrow> (\<forall>e \<in> set es. fe_Size e \<le> wo_MaxFileSize opts)) \<and>
     (wo_MaxTotalSize opts > 0 \<longrightarrow> es \<noteq> [] \<longrightarrow>
        tot + sum_list (map fe_Size es) \<le> wo_MaxTotalSize opts)"

lemma fe_Size_file_entry [simp]: "fe_Size (file_entry rel b m) = int (length b)"
  by (simp add: file_entry_def)

lemma fe_Path_file_entry [simp]: "fe_Path (file_entry rel b m) = rel_path rel"
  by (simp add: file_entry_def)

lemma scan_sizes:
  "e \<in> set (scan_node opts rel n) \<Longrightarrow> 0 \<le> fe_Size e"
  "e \<in> set (scan_entries opts rel es) \<Longrightarrow> 0 \<le> fe_Size e"
  by (induction opts rel n and opts rel es rule: scan_node_scan_entries.induct)
     (auto split: if_splits)

lemma sum_scan:
  "0 \<le> sum_list (map fe_Size (scan_node opts rel n))"
  "0 \<le> sum_list (map fe_Size (scan_entries opts rel es))"
  by (auto intro!: sum_list_nonneg dest: scan_sizes)

text \<open>A walk that returns has listed the scan, and the limits hold.\<close>

lemma walk_scan:
  "walk_node s opts root rel n acc = Inr (es', t') \<Longrightarrow>
     es' = fst acc @ scan_node opts rel n \<and>
     t' = snd acc + sum_list (map fe_Size (scan_node opts rel n)) \<and>
     within_limits opts (scan_node opts rel n) (snd acc)"
  "walk_entries s opts root rel es acc = Inr (es', t') \<Longrightarrow>
     es' = fst acc @ scan_entries opts rel es \<and>
     t' = snd acc + sum_list (map fe_Size (scan_entries opts rel es)) \<and>
     within_limits opts (scan_entries opts rel es) (snd acc)"
proof (induction s opts root rel n acc and s opts root rel es acc arbitrary: es' t' and es' t'
    rule: walk_node_walk_entries.induct)
  case (5 s opts root rel c n es acc)
  then obtain e1 t1 where one: "walk_node s opts root (rel @ [c]) n acc = Inr (e1, t1)"
    and rest: "walk_entries s opts root rel es (e1, t1) = Inr (es', t')"
    by (auto split: sum.splits)
  note a = 5(1)[OF one] and b = 5(2)[OF one rest]
  show ?case using a b sum_scan(1)[of opts "rel @ [c]" n] sum_scan(2)[of opts rel es]
    by (auto simp: within_limits_def)
qed (auto simp: within_limits_def Let_def split: if_splits option.splits)

text \<open>Without failures of the environment, a walk within the limits returns.\<close>

lemma within_limits_append:
  assumes "within_limits opts (xs @ ys) t" "\<forall>e \<in> set (xs @ ys). 0 \<le> fe_Size e"
  shows "within_limits opts xs t" "within_limits opts ys (t + sum_list (map fe_Size xs))"
proof -
  have "0 \<le> sum_list (map fe_Size ys)" using assms(2) by (auto intro!: sum_list_nonneg)
  then show "within_limits opts xs t" "within_limits opts ys (t + sum_list (map fe_Size xs))"
    using assms(1) by (auto simp: within_limits_def)
qed

lemma walk_returns:
  "\<forall>c p. os_fault s c p = None \<Longrightarrow> within_limits opts (scan_node opts rel n) (snd acc) \<Longrightarrow>
     \<exists>r. walk_node s opts root rel n acc = Inr r"
  "\<forall>c p. os_fault s c p = None \<Longrightarrow> within_limits opts (scan_entries opts rel es) (snd acc) \<Longrightarrow>
     \<exists>r. walk_entries s opts root rel es acc = Inr r"
proof (induction s opts root rel n acc and s opts root rel es acc
    rule: walk_node_walk_entries.induct)
  case (5 s opts root rel c n es acc)
  have nonneg: "\<forall>e \<in> set (scan_node opts (rel @ [c]) n @ scan_entries opts rel es). 0 \<le> fe_Size e"
    using scan_sizes by (metis Un_iff set_append)
  note lim = within_limits_append[OF _ nonneg, of opts "snd acc"]
  have lim: "within_limits opts (scan_node opts (rel @ [c]) n) (snd acc)"
    "within_limits opts (scan_entries opts rel es)
       (snd acc + sum_list (map fe_Size (scan_node opts (rel @ [c]) n)))"
    using lim 5(4) by simp_all
  obtain e1 t1 where one: "walk_node s opts root (rel @ [c]) n acc = Inr (e1, t1)"
    using 5(1)[OF 5(3) lim(1)] by fastforce
  show ?case using walk_scan(1)[OF one] lim(2) 5(2)[OF one 5(3)] one by auto
qed (auto simp: within_limits_def Let_def split: if_splits)

text \<open>
  A file is listed unless it is ignored itself or a directory above it, below the root, is
  skipped: \<open>rel\<close> is the path walked so far.
\<close>

definition skipped_dir :: "WalkOptions \<Rightarrow> string list \<Rightarrow> bool" where
  "skipped_dir opts d \<longleftrightarrow> last d \<in> DefaultIgnoredDirs \<or> ignored_by opts (rel_path d @ ''/'') True"

fun visible_from :: "WalkOptions \<Rightarrow> string list \<Rightarrow> string list \<Rightarrow> bool" where
  "visible_from opts rel [] = (\<not> ignored_by opts (rel_path rel) False)"
| "visible_from opts rel (c # q) = (\<not> skipped_dir opts rel \<and> visible_from opts (rel @ [c]) q)"

definition visible :: "WalkOptions \<Rightarrow> string list \<Rightarrow> bool" where
  "visible opts q = (case q of [] \<Rightarrow> False | c # cs \<Rightarrow> visible_from opts [c] cs)"

lemma wf_distinct: "wf_node (NDir es) \<Longrightarrow> distinct (map fst es)"
  by (simp add: strict_sorted_iff)

lemma look_NDir_iff:
  assumes "distinct (map fst es)"
  shows "look (NDir es) (c # q) = Inr i \<longleftrightarrow> (\<exists>n. (c, n) \<in> set es \<and> look n q = Inr i)"
  using assms by (auto split: option.splits) (metis map_of_eq_Some_iff option.inject)+

lemma scan_iff:
  "wf_node n \<Longrightarrow> e \<in> set (scan_node opts rel n) \<longleftrightarrow>
     (\<exists>q b m. look n q = Inr (IFile b m) \<and> visible_from opts rel q \<and> e = file_entry (rel @ q) b m)"
  "wf_entries es \<Longrightarrow> e \<in> set (scan_entries opts rel es) \<longleftrightarrow>
     (\<exists>c n q b m. (c, n) \<in> set es \<and> look n q = Inr (IFile b m) \<and>
        visible_from opts (rel @ [c]) q \<and> e = file_entry (rel @ c # q) b m)"
proof (induction opts rel n and opts rel es rule: scan_node_scan_entries.induct)
  case (1 opts rel es)
  then have dist: "distinct (map fst es)" by (intro wf_distinct)
  show ?case
  proof
    assume e: "e \<in> set (scan_node opts rel (NDir es))"
    then have ns: "\<not> skipped_dir opts rel" and "e \<in> set (scan_entries opts rel es)"
      by (auto simp: skipped_dir_def split: if_splits)
    then obtain c n q b m where x: "(c, n) \<in> set es" "look n q = Inr (IFile b m)"
        "visible_from opts (rel @ [c]) q" "e = file_entry (rel @ c # q) b m"
      using 1 by (auto simp: skipped_dir_def)
    then have "look (NDir es) (c # q) = Inr (IFile b m)" using look_NDir_iff[OF dist] by blast
    then show "\<exists>q b m. look (NDir es) q = Inr (IFile b m) \<and> visible_from opts rel q \<and>
        e = file_entry (rel @ q) b m"
      using x ns by (intro exI[of _ "c # q"]) auto
  next
    assume "\<exists>q b m. look (NDir es) q = Inr (IFile b m) \<and> visible_from opts rel q \<and>
        e = file_entry (rel @ q) b m"
    then obtain q b m where x: "look (NDir es) q = Inr (IFile b m)" "visible_from opts rel q"
        "e = file_entry (rel @ q) b m" by blast
    then obtain c r where q: "q = c # r" by (cases q) auto
    then obtain n where "(c, n) \<in> set es" "look n r = Inr (IFile b m)"
      using x(1) look_NDir_iff[OF dist] by blast
    moreover have ns: "\<not> skipped_dir opts rel" and vis: "visible_from opts (rel @ [c]) r"
      using x(2) q by auto
    moreover have "e = file_entry (rel @ c # r) b m" using x(3) q by simp
    moreover have "e \<in> set (scan_entries opts rel es) \<longleftrightarrow>
      (\<exists>c n q b m. (c, n) \<in> set es \<and> look n q = Inr (IFile b m) \<and>
        visible_from opts (rel @ [c]) q \<and> e = file_entry (rel @ c # q) b m)"
      by (intro "1.IH") (use "1.prems" ns in \<open>simp_all add: skipped_dir_def\<close>)

    ultimately show "e \<in> set (scan_node opts rel (NDir es))"
      using ns by (simp add: skipped_dir_def) blast

  qed
next
  case (2 opts rel)
  have "look NOther q \<noteq> Inr (IFile b m)" for q b m by (cases q) auto
  then show ?case by simp
next
  case (3 opts rel b m)
  have "look (NFile b m) q = Inr i \<longleftrightarrow> q = [] \<and> i = IFile b m" for q i by (cases q) auto
  then show ?case by auto
next
  case (5 opts rel c n es)
  have l: "e \<in> set (scan_node opts (rel @ [c]) n) \<longleftrightarrow>
      (\<exists>q b m. look n q = Inr (IFile b m) \<and> visible_from opts (rel @ [c]) q \<and>
         e = file_entry (rel @ c # q) b m)"
    using 5 by simp
  have r: "e \<in> set (scan_entries opts rel es) \<longleftrightarrow>
      (\<exists>c n q b m. (c, n) \<in> set es \<and> look n q = Inr (IFile b m) \<and>
         visible_from opts (rel @ [c]) q \<and> e = file_entry (rel @ c # q) b m)"
    using 5 by (intro "5.IH"(2)) simp
  show ?case
    by (simp only: scan_entries.simps set_append Un_iff l r list.set insert_iff prod.inject) blast
qed auto

lemma rel_path_inj:
  assumes "rel_path p = rel_path q" "list_all plain_name p" "list_all plain_name q"
  shows "p = q"
  using assms join_with_eq_iff[of p q] by (simp add: rel_path_def)

lemma scan_distinct:
  "wf_node n \<Longrightarrow> list_all plain_name rel \<Longrightarrow> distinct (map fe_Path (scan_node opts rel n))"
  "wf_entries es \<Longrightarrow> distinct (map fst es) \<Longrightarrow> list_all plain_name rel \<Longrightarrow>
     distinct (map fe_Path (scan_entries opts rel es))"
proof (induction opts rel n and opts rel es rule: scan_node_scan_entries.induct)
  case (1 opts rel es)
  then show ?case using wf_distinct[of es] by auto
next
  case (5 opts rel c n es)
  have "fe_Path e \<noteq> fe_Path e'"
    if e: "e \<in> set (scan_node opts (rel @ [c]) n)" "e' \<in> set (scan_entries opts rel es)" for e e'
  proof -
    obtain q b m where q: "look n q = Inr (IFile b m)" "e = file_entry (rel @ c # q) b m"
      using e(1) 5 by (auto simp: scan_iff)
    obtain d n' q' b' m' where q': "(d, n') \<in> set es" "look n' q' = Inr (IFile b' m')"
        "e' = file_entry (rel @ d # q') b' m'"
      using e(2) 5 by (auto simp: scan_iff)
    have "list_all plain_name (rel @ c # q)" "list_all plain_name (rel @ d # q')"
      using 5 q q' look_plain[OF _ q(1)] look_plain[OF _ q'(2)] by (auto simp: wf_entries_iff)
    moreover have "c \<noteq> d" using 5 q' by force
    ultimately show ?thesis using rel_path_inj[of "rel @ c # q" "rel @ d # q'"] q(2) q'(3) by auto
  qed
  then show ?case using 5 by auto
qed auto

section \<open>WalkManifest\<close>

text \<open>The files below a root that a walk may list, as a set of manifest entries.\<close>

definition listed :: "os \<Rightarrow> WalkOptions \<Rightarrow> string \<Rightarrow> FileEntry set" where
  "listed s opts root =
     {file_entry q b m | q b m.
        look (os_tree s) (loc s root @ q) = Inr (IFile b m) \<and> visible opts q}"

lemma set_scan_listed:
  assumes "wf_node (os_tree s)" "namei (os_tree s) (loc s root) = Inr (NDir es)"
  shows "set (scan_entries opts [] es) = listed s opts root"
proof -
  have wf: "wf_node (NDir es)" using wf_namei assms by blast
  have look: "look (os_tree s) (loc s root @ c # q) = Inr i \<longleftrightarrow>
      (\<exists>n. (c, n) \<in> set es \<and> look n q = Inr i)" for c q i
    using namei_append[OF assms(2)] look_NDir_iff[OF wf_distinct[OF wf]] by simp
  have root: "look (os_tree s) (loc s root @ []) \<noteq> Inr (IFile b m)" for b m
    using namei_append[OF assms(2), of "[]"] by simp
  have "e \<in> set (scan_entries opts [] es) \<longleftrightarrow> e \<in> listed s opts root" for e
  proof -
    have "wf_entries es" using wf by simp
    note sc = scan_iff(2)[OF this, of e opts "[]", unfolded append_Nil]
    have "e \<in> set (scan_entries opts [] es) \<longleftrightarrow>
       (\<exists>c q b m. look (os_tree s) (loc s root @ c # q) = Inr (IFile b m) \<and>
          visible opts (c # q) \<and> e = file_entry (c # q) b m)"
      unfolding sc look visible_def list.case by blast
    also have "\<dots> \<longleftrightarrow>
       (\<exists>q b m. look (os_tree s) (loc s root @ q) = Inr (IFile b m) \<and>
          visible opts q \<and> e = file_entry q b m)"
      using root by (metis list.exhaust)
    also have "\<dots> \<longleftrightarrow> e \<in> listed s opts root"
      unfolding listed_def by blast
    finally show ?thesis .
  qed
  then show ?thesis by blast
qed

lemma WalkManifest_Inr:
  assumes "WalkManifest root opts s = (Inr M, s')" "look (os_tree s) (loc s root) = Inr IDir"
  obtains es where "namei (os_tree s) (loc s root) = Inr (NDir es)" "s' = s"
    "Entries M = sort_key fe_Path (scan_entries opts [] es)"
    "within_limits opts (scan_entries opts [] es) 0"
proof -
  obtain es where es: "namei (os_tree s) (loc s root) = Inr (NDir es)"
    using look_IDir[OF assms(2)] by blast
  have f1: "os_fault s SysStat (loc s root) = None"
    using assms(1) by (cases "os_fault s SysStat (loc s root)") (simp_all add: WalkManifest_def)
  have f2: "os_fault s SysReadDir (loc s root) = None"
    using assms(1) f1 es
    by (cases "os_fault s SysReadDir (loc s root)") (simp_all add: WalkManifest_def)
  obtain entries t where w: "walk_entries s opts root [] es ([], 0) = Inr (entries, t)"
    using assms(1) f1 f2 es
    by (cases "walk_entries s opts root [] es ([], 0)") (auto simp add: WalkManifest_def)
  have "s' = s" "Entries M = sort_key fe_Path entries"
    using assms(1) f1 f2 es w by (auto simp add: WalkManifest_def)
  then show ?thesis using that[OF es] walk_scan(2)[OF w] by simp
qed

lemma distinct_sort_key:
  fixes f :: "'a \<Rightarrow> 'b::linorder"
  shows "distinct (map f (sort_key f xs)) = distinct (map f xs)"
proof -
  have "mset (map f (sort_key f xs)) = mset (map f xs)" by simp
  then show ?thesis by (rule mset_eq_imp_distinct_iff)
qed

lemma sorted_distinct_paths:
  fixes f :: "'a \<Rightarrow> 'b::linorder"
  shows "distinct (map f xs) \<Longrightarrow> sorted_wrt (<) (map f (sort_key f xs))"
  by (simp add: strict_sorted_iff distinct_sort_key)

lemma WalkManifest_facts:
  assumes "wf_node (os_tree s)" "look (os_tree s) (loc s root) = Inr IDir"
    and "WalkManifest root opts s = (Inr M, s')"
  shows "s' = s" "set (Entries M) = listed s opts root"
    "sorted_wrt (<) (map fe_Path (Entries M))" "distinct (map fe_Path (Entries M))"
proof -
  obtain es where es: "namei (os_tree s) (loc s root) = Inr (NDir es)" "s' = s"
      "Entries M = sort_key fe_Path (scan_entries opts [] es)"
    using WalkManifest_Inr[OF assms(3,2)] by metis
  have wf: "wf_node (NDir es)" using wf_namei assms(1) es(1) by blast
  have "distinct (map fe_Path (scan_entries opts [] es))"
    using wf wf_distinct[OF wf] by (intro scan_distinct) auto
  then show "sorted_wrt (<) (map fe_Path (Entries M))" "distinct (map fe_Path (Entries M))"
    using sorted_distinct_paths es(3) by (auto simp: strict_sorted_iff)
  show "s' = s" by (rule es(2))
  show "set (Entries M) = listed s opts root"
    using set_scan_listed[OF assms(1) es(1)] es(3) by simp
qed

text \<open>
  C18. What a manifest lists. When \<open>WalkManifest\<close> returns, the manifest's entries are
  exactly the regular files below the root that are not ignored and have no skipped directory
  above them, each with its slash-separated path, the hash and size of its content and its
  permission bits; they are sorted by path, no path occurs twice, and the walk changed
  nothing.
\<close>

theorem walk_manifest_exact:
  assumes "wf_node (os_tree s)" and "look (os_tree s) (loc s root) = Inr IDir"
    and "WalkManifest root opts s = (Inr M, s')"
  shows "set (Entries M) =
      {file_entry q b m | q b m.
         look (os_tree s) (loc s root @ q) = Inr (IFile b m) \<and> visible opts q} \<and>
    sorted_wrt (<) (map fe_Path (Entries M)) \<and> s' = s"
  using WalkManifest_facts[OF assms] by (simp add: listed_def)

definition demo_os :: "node \<Rightarrow> os" where
  "demo_os t = \<lparr>os_tree = t, os_cwd = ''/'', os_umask = 0x12, os_rands = [7, 8, 9],
     os_short = 0, os_fault = (\<lambda>_ _. None)\<rparr>"

definition demo_entries :: "(string \<times> node) list" where
  "demo_entries =
     [(''.git'', NDir [(''x'', NFile [1] 0x1A4)]), (''a'', NDir [(''b'', NFile [2, 3] 0x1A4)]),
      (''a.txt'', NFile [4] 0x1ED), (''sock'', NOther)]"

definition demo_tree :: node where

  "demo_tree = NDir [(''p'', NDir demo_entries)]"

lemma demo_os_simps [simp]:
  "os_fault (demo_os t) c p = None" "os_tree (demo_os t) = t" "os_cwd (demo_os t) = ''/''"
  by (simp_all add: demo_os_def)

lemma demo_wf [simp]: "wf_node demo_tree"
  by code_simp

theorem walk_manifest_exact_witness:
  "set [file_entry [''a'', ''b''] [2, 3] 0x1A4, file_entry [''a.txt''] [4] 0x1ED] =
      {file_entry q b m | q b m.
         look (os_tree (demo_os demo_tree)) (loc (demo_os demo_tree) ''/p'' @ q) =
           Inr (IFile b m) \<and> visible no_opts q}"
proof -
  let ?s = "demo_os demo_tree"
  let ?M = "\<lparr>Entries = sort_key fe_Path
         [file_entry [''a'', ''b''] [2, 3] 0x1A4, file_entry [''a.txt''] [4] 0x1ED]\<rparr>"
  have wf: "wf_node (os_tree ?s)" by simp
  have root: "look (os_tree ?s) (loc ?s ''/p'') = Inr IDir" by code_simp
  have walk: "walk_entries ?s no_opts ''/p'' [] demo_entries ([], 0) =
      Inr ([file_entry [''a'', ''b''] [2, 3] 0x1A4, file_entry [''a.txt''] [4] 0x1ED], 3)"
    by (simp add: demo_entries_def no_opts_def ignored_by_def DefaultIgnoredDirs_def)
  have name: "namei (os_tree ?s) (loc ?s ''/p'') = Inr (NDir demo_entries)"
    by code_simp
  have ret: "WalkManifest ''/p'' no_opts ?s = (Inr ?M, ?s)"
    by (simp only: WalkManifest_def readE_run demo_os_simps(1) name walk
        option.case sum.case node.case prod.case)
  show ?thesis using conjunct1 [OF walk_manifest_exact [OF wf root ret]]
    by (simp only: Manifest.select_convs set_sort)

qed

text \<open>A walk with limits, without failures: the same walk, or an error if a limit is passed.\<close>

definition unlimited :: "WalkOptions \<Rightarrow> WalkOptions" where
  "unlimited opts = opts\<lparr>wo_MaxFileSize := 0, wo_MaxTotalSize := 0\<rparr>"

lemma scan_unlimited [simp]:
  "scan_node (unlimited opts) rel n = scan_node opts rel n"
  "scan_entries (unlimited opts) rel es = scan_entries opts rel es"
  by (induction opts rel n and opts rel es rule: scan_node_scan_entries.induct)
     (simp_all add: unlimited_def ignored_by_def)

lemma within_unlimited [simp]: "within_limits (unlimited opts) es t"
  by (simp add: within_limits_def unlimited_def)

lemma WalkManifest_eval:
  assumes "\<forall>c p. os_fault s c p = None" "namei (os_tree s) (loc s root) = Inr (NDir es)"
  shows "within_limits opts (scan_entries opts [] es) 0 \<Longrightarrow> WalkManifest root opts s =
      (Inr \<lparr>Entries = sort_key fe_Path (scan_entries opts [] es)\<rparr>, s)"
    and "\<not> within_limits opts (scan_entries opts [] es) 0 \<Longrightarrow>
      \<exists>e. WalkManifest root opts s = (Inl e, s)"
proof -
  have run: "WalkManifest root opts s = (case walk_entries s opts root [] es ([], 0) of
      Inl e \<Rightarrow> (Inl e, s)
    | Inr (entries, tot) \<Rightarrow> (Inr \<lparr>Entries = sort_key fe_Path entries\<rparr>, s))"
    using assms by (simp add: WalkManifest_def split: sum.split prod.split)
  show "within_limits opts (scan_entries opts [] es) 0 \<Longrightarrow> WalkManifest root opts s =
      (Inr \<lparr>Entries = sort_key fe_Path (scan_entries opts [] es)\<rparr>, s)"
    using walk_returns(2)[OF assms(1), of opts "[]" es "([], 0)" root]
      walk_scan(2)[of s opts root "[]" es "([], 0)"] unfolding run by fastforce
  show "\<not> within_limits opts (scan_entries opts [] es) 0 \<Longrightarrow>
      \<exists>e. WalkManifest root opts s = (Inl e, s)"
    using walk_scan(2)[of s opts root "[]" es "([], 0)"] unfolding run
    by (cases "walk_entries s opts root [] es ([], 0)") auto
qed

text \<open>
  The size guards. On a tree that can be read, the walk without limits returns a
  manifest, and the walk with limits returns that same manifest if every listed file is
  within \<^verbatim>\<open>MaxFileSize\<close> and their total within \<^verbatim>\<open>MaxTotalSize\<close> (0 meaning no
  limit), and an error otherwise.
\<close>

theorem walk_manifest_limits:
  assumes "\<forall>c p. os_fault s c p = None" and "look (os_tree s) (loc s root) = Inr IDir"
  shows "\<exists>M. WalkManifest root (unlimited opts) s = (Inr M, s) \<and>
    (if (wo_MaxFileSize opts > 0 \<longrightarrow> (\<forall>e \<in> set (Entries M). fe_Size e \<le> wo_MaxFileSize opts)) \<and>
        (wo_MaxTotalSize opts > 0 \<longrightarrow> sum_list (map fe_Size (Entries M)) \<le> wo_MaxTotalSize opts)
     then WalkManifest root opts s = (Inr M, s)
     else \<exists>e. WalkManifest root opts s = (Inl e, s))"
proof -
  obtain es where es: "namei (os_tree s) (loc s root) = Inr (NDir es)"
    using look_IDir[OF assms(2)] by blast
  let ?M = "\<lparr>Entries = sort_key fe_Path (scan_entries opts [] es)\<rparr>"
  have "sum_list (map fe_Size (Entries ?M)) = sum_list (map fe_Size (scan_entries opts [] es))"
    by (simp add: sum_mset_sum_list [symmetric])
  then have lim: "((wo_MaxFileSize opts > 0 \<longrightarrow> (\<forall>e \<in> set (Entries ?M). fe_Size e \<le> wo_MaxFileSize opts)) \<and>
      (wo_MaxTotalSize opts > 0 \<longrightarrow> sum_list (map fe_Size (Entries ?M)) \<le> wo_MaxTotalSize opts)) \<longleftrightarrow>
      within_limits opts (scan_entries opts [] es) 0"
    by (auto simp: within_limits_def)
  have "WalkManifest root (unlimited opts) s = (Inr ?M, s)"
    using WalkManifest_eval(1)[OF assms(1) es, of "unlimited opts"] by simp
  then show ?thesis using WalkManifest_eval[OF assms(1) es, of opts] lim by auto
qed

theorem walk_manifest_limits_witness:
  "\<exists>M. WalkManifest ''/p'' (unlimited no_opts) (demo_os demo_tree) = (Inr M, demo_os demo_tree)"
proof -
  have ok: "\<forall>c p. os_fault (demo_os demo_tree) c p = None" by simp
  have root: "look (os_tree (demo_os demo_tree)) (loc (demo_os demo_tree) ''/p'') = Inr IDir"
    by code_simp
  show ?thesis using walk_manifest_limits [OF ok root, of no_opts] by blast
qed

section \<open>Diff\<close>

text \<open>What a manifest says of a path, and what a change does to it.\<close>

definition file_view :: "Manifest \<Rightarrow> (string \<rightharpoonup> string \<times> FileMode)" where
  "file_view m p = map_option (\<lambda>e. (fe_Hash e, fe_Mode e)) (ByPath m p)"

definition patch :: "(string \<rightharpoonup> string \<times> FileMode) \<Rightarrow> FileChange \<Rightarrow> (string \<rightharpoonup> string \<times> FileMode)" where
  "patch v ch =
     (if fc_Op ch = ChangeDelete then v(fc_Path ch := None)
      else v(fc_Path ch \<mapsto> (fc_Hash ch, fc_Mode ch)))"

lemma patch_all:
  "distinct (map fc_Path cs) \<Longrightarrow>
   foldl patch v cs p = (case find (\<lambda>c. fc_Path c = p) cs of None \<Rightarrow> v p | Some c \<Rightarrow> patch v c p)"
proof (induction cs arbitrary: v)
  case (Cons c cs)
  have none: "find (\<lambda>d. fc_Path d = fc_Path c) cs = None"
    using Cons.prems unfolding find_None_iff by (simp) (metis image_eqI)
  show ?case
  proof (cases "fc_Path c = p")
    case True
    then show ?thesis using Cons none by simp
  next
    case False
    then show ?thesis using Cons by (auto simp: patch_def split: option.splits)
  qed
qed simp

text \<open>A patch looks at one path only.\<close>

lemma patch_pointwise: "v x = w x \<Longrightarrow> foldl patch v cs x = foldl patch w cs x"
proof (induction cs arbitrary: v w)
  case (Cons c cs)
  have "patch v c x = patch w c x" using Cons.prems by (simp add: patch_def)
  then show ?case using Cons.IH[of "patch v c" "patch w c"] by simp
qed simp

lemma set_Diff:
  "c \<in> set (Diff m n) \<longleftrightarrow>
     (\<exists>e \<in> set (Entries n). c \<in> set (diff_new (ByPath m) e)) \<or>
     (\<exists>e \<in> set (Entries m). c \<in> set (diff_old (ByPath n) e))"
  by (auto simp: Diff_def)

lemma diff_new_path: "c \<in> set (diff_new idx e) \<Longrightarrow> fc_Path c = fe_Path e"
  by (auto simp: diff_new_def split: option.splits if_splits)

lemma diff_old_path: "c \<in> set (diff_old idx e) \<Longrightarrow> fc_Path c = fe_Path e \<and> idx (fe_Path e) = None"
  by (auto simp: diff_old_def split: option.splits)

lemma distinct_concat_paths:
  assumes "distinct (map fe_Path es)" "\<And>e c. c \<in> set (f e) \<Longrightarrow> fc_Path c = fe_Path e"
    and "\<And>e. length (f e) \<le> 1"
  shows "distinct (map fc_Path (concat (map f es)))"
  using assms(1)
proof (induction es)
  case (Cons e es)
  have "distinct (map fc_Path (f e))" using assms(3)[of e] by (cases "f e") auto
  moreover have "set (map fc_Path (f e)) \<inter> set (map fc_Path (concat (map f es))) = {}"
    using Cons.prems assms(2) by fastforce
  ultimately show ?case using Cons by auto
qed simp

lemma diff_distinct:
  assumes "distinct (map fe_Path (Entries m))" "distinct (map fe_Path (Entries n))"
  shows "distinct (map fc_Path (Diff m n))" "sorted_wrt (<) (map fc_Path (Diff m n))"
proof -
  let ?a = "concat (map (diff_new (ByPath m)) (Entries n))"
  let ?b = "concat (map (diff_old (ByPath n)) (Entries m))"
  have "distinct (map fc_Path ?a)"
    by (rule distinct_concat_paths[OF assms(2) diff_new_path])
       (auto simp: diff_new_def split: option.splits)
  moreover have "distinct (map fc_Path ?b)"
    by (rule distinct_concat_paths[OF assms(1)])
       (auto simp: diff_old_def split: option.splits)
  moreover have "fc_Path c \<noteq> fc_Path d" if cd: "c \<in> set ?a" "d \<in> set ?b" for c d
  proof -
    obtain e where "e \<in> set (Entries n)" "fc_Path c = fe_Path e"
      using cd(1) diff_new_path by fastforce
    moreover have "ByPath n (fc_Path d) = None" using cd(2) diff_old_path by fastforce
    ultimately show ?thesis by (metis ByPath_None image_eqI)
  qed
  ultimately have dist: "distinct (map fc_Path (?a @ ?b))" by fastforce
  then show "distinct (map fc_Path (Diff m n))" "sorted_wrt (<) (map fc_Path (Diff m n))"
    using sorted_distinct_paths[OF dist] by (simp_all add: Diff_def distinct_sort_key)
qed

text \<open>The change that \<open>Diff\<close> makes for a path, from what the two manifests say of it.\<close>

definition change_of :: "string \<Rightarrow> (string \<times> FileMode) option \<Rightarrow> (string \<times> FileMode) option \<Rightarrow>
    FileChange option" where
  "change_of p old new =
     (case new of
        None \<Rightarrow>
          (case old of None \<Rightarrow> None
           | Some _ \<Rightarrow> Some \<lparr>fc_Op = ChangeDelete, fc_Path = p, fc_Hash = '''', fc_Mode = 0\<rparr>)
      | Some (h, m) \<Rightarrow>
          (case old of
             None \<Rightarrow> Some \<lparr>fc_Op = ChangeCreate, fc_Path = p, fc_Hash = h, fc_Mode = m\<rparr>
           | Some _ \<Rightarrow>
               if old = new then None
               else Some \<lparr>fc_Op = ChangeModify, fc_Path = p, fc_Hash = h, fc_Mode = m\<rparr>))"

lemma change_of_None [simp]: "change_of p old new = None \<longleftrightarrow> old = new"
  by (auto simp: change_of_def split: option.splits)

lemma change_of_path: "change_of p old new = Some c \<Longrightarrow> fc_Path c = p"
  by (auto simp: change_of_def split: option.splits if_splits)

lemma patch_change_of: "change_of p (v p) new = Some c \<Longrightarrow> patch v c p = new"
  by (cases c; cases "v p"; cases new) (auto simp: change_of_def patch_def split: if_splits)

lemma Diff_iff:
  assumes "distinct (map fe_Path (Entries m))" "distinct (map fe_Path (Entries n))"
  shows "c \<in> set (Diff m n) \<longleftrightarrow>
    change_of (fc_Path c) (file_view m (fc_Path c)) (file_view n (fc_Path c)) = Some c"
proof (cases "ByPath n (fc_Path c)")
  case None
  then have "\<not> (\<exists>e \<in> set (Entries n). c \<in> set (diff_new (ByPath m) e))"
    by (auto simp: ByPath_None dest: diff_new_path)
  then have "c \<in> set (Diff m n) \<longleftrightarrow> (\<exists>e \<in> set (Entries m). c \<in> set (diff_old (ByPath n) e))"
    by (simp add: set_Diff)
  also have "\<dots> \<longleftrightarrow> (\<exists>e \<in> set (Entries m). fe_Path e = fc_Path c \<and>
      c = \<lparr>fc_Op = ChangeDelete, fc_Path = fc_Path c, fc_Hash = [], fc_Mode = 0\<rparr>)"
  proof (rule bex_cong[OF refl])
    fix e
    show "c \<in> set (diff_old (ByPath n) e) \<longleftrightarrow> fe_Path e = fc_Path c \<and>
        c = \<lparr>fc_Op = ChangeDelete, fc_Path = fc_Path c, fc_Hash = [], fc_Mode = 0\<rparr>"
      using None by (cases c) (auto simp: diff_old_def split: option.splits)
  qed
  also have "\<dots> \<longleftrightarrow> (\<exists>e. ByPath m (fc_Path c) = Some e) \<and>
      c = \<lparr>fc_Op = ChangeDelete, fc_Path = fc_Path c, fc_Hash = [], fc_Mode = 0\<rparr>"
    using ByPath_Some[OF assms(1)] by blast
  finally have "c \<in> set (Diff m n) \<longleftrightarrow> (\<exists>e. ByPath m (fc_Path c) = Some e) \<and>
      c = \<lparr>fc_Op = ChangeDelete, fc_Path = fc_Path c, fc_Hash = [], fc_Mode = 0\<rparr>" .
  then show ?thesis using None by (auto simp: change_of_def file_view_def split: option.splits)
next
  case (Some e)
  have "\<not> (\<exists>e \<in> set (Entries m). c \<in> set (diff_old (ByPath n) e))"
    using Some by (auto dest: diff_old_path)
  moreover have "(\<exists>e' \<in> set (Entries n). c \<in> set (diff_new (ByPath m) e')) \<longleftrightarrow>
      c \<in> set (diff_new (ByPath m) e)"
  proof
    assume "\<exists>e' \<in> set (Entries n). c \<in> set (diff_new (ByPath m) e')"
    then obtain e' where e': "e' \<in> set (Entries n)" "c \<in> set (diff_new (ByPath m) e')" by blast
    then have "ByPath n (fc_Path c) = Some e'"
      unfolding ByPath_Some[OF assms(2)] using diff_new_path by fastforce
    then show "c \<in> set (diff_new (ByPath m) e)" using Some e'(2) by simp
  next
    show "c \<in> set (diff_new (ByPath m) e) \<Longrightarrow>
        \<exists>e' \<in> set (Entries n). c \<in> set (diff_new (ByPath m) e')"
      using Some ByPath_Some[OF assms(2)] by blast
  qed
  ultimately have "c \<in> set (Diff m n) \<longleftrightarrow> c \<in> set (diff_new (ByPath m) e)"
    by (simp add: set_Diff)
  moreover have path: "fe_Path e = fc_Path c" using Some ByPath_Some[OF assms(2)] by blast
  have "c \<in> set (diff_new (ByPath m) e) \<longleftrightarrow>
      change_of (fc_Path c) (file_view m (fc_Path c)) (Some (fe_Hash e, fe_Mode e)) = Some c"
    unfolding diff_new_def path change_of_def file_view_def
    by (cases "ByPath m (fc_Path c)"; cases c) auto
  ultimately show ?thesis using Some by (simp add: file_view_def)
qed

lemma Diff_patch:
  assumes "distinct (map fe_Path (Entries oldM))" and "distinct (map fe_Path (Entries newM))"
  shows "foldl patch (file_view oldM) (Diff oldM newM) p = file_view newM p"
proof -
  let ?f = "find (\<lambda>c. fc_Path c = p) (Diff oldM newM)"
  have all: "foldl patch (file_view oldM) (Diff oldM newM) p =
      (case ?f of None \<Rightarrow> file_view oldM p | Some c \<Rightarrow> patch (file_view oldM) c p)"
    by (rule patch_all[OF diff_distinct(1)[OF assms]])
  show "foldl patch (file_view oldM) (Diff oldM newM) p = file_view newM p"
  proof (cases ?f)
    case None
    have "change_of p (file_view oldM p) (file_view newM p) = None"
    proof (rule ccontr)
      assume "change_of p (file_view oldM p) (file_view newM p) \<noteq> None"
      then obtain c where c: "change_of p (file_view oldM p) (file_view newM p) = Some c"
        by (metis not_None_eq)
      then have "c \<in> set (Diff oldM newM)" using Diff_iff[OF assms] change_of_path by metis
      then show False using None change_of_path[OF c] unfolding find_None_iff by blast
    qed
    then show ?thesis using all None by simp
  next
    case (Some c)
    then have "c \<in> set (Diff oldM newM)" "fc_Path c = p" using find_SomeD by fastforce+
    then have "change_of p (file_view oldM p) (file_view newM p) = Some c"
      using Diff_iff[OF assms] by simp
    then show ?thesis using all Some patch_change_of by simp
  qed
qed

text \<open>
  C16. \<open>Diff\<close> is a patch. For manifests without duplicate paths, applying the changes of
  \<open>Diff oldM newM\<close>, in their order, to what the old manifest says of every path gives what
  the new manifest says of it.
\<close>

theorem diff_patches_old_to_new:
  assumes "distinct (map fe_Path (Entries oldM))" and "distinct (map fe_Path (Entries newM))"
  shows "foldl patch (file_view oldM) (Diff oldM newM) = file_view newM"
  by (rule ext) (rule Diff_patch[OF assms])

definition demo_old :: Manifest where
  "demo_old = \<lparr>Entries =
     [\<lparr>fe_Path = ''change.txt'', fe_Hash = ''h2'', fe_Size = 1, fe_Mode = 0x1A4\<rparr>,
      \<lparr>fe_Path = ''gone.txt'', fe_Hash = ''h3'', fe_Size = 1, fe_Mode = 0x1A4\<rparr>,
      \<lparr>fe_Path = ''keep.txt'', fe_Hash = ''h1'', fe_Size = 1, fe_Mode = 0x1A4\<rparr>]\<rparr>"

definition demo_new :: Manifest where
  "demo_new = \<lparr>Entries =
     [\<lparr>fe_Path = ''change.txt'', fe_Hash = ''h2new'', fe_Size = 2, fe_Mode = 0x1A4\<rparr>,
      \<lparr>fe_Path = ''keep.txt'', fe_Hash = ''h1'', fe_Size = 1, fe_Mode = 0x1A4\<rparr>,
      \<lparr>fe_Path = ''new.txt'', fe_Hash = ''h4'', fe_Size = 1, fe_Mode = 0x1ED\<rparr>]\<rparr>"

theorem diff_patches_old_to_new_witness:
  "foldl patch (file_view demo_old) (Diff demo_old demo_new) ''gone.txt'' = None \<and>
   length (Diff demo_old demo_new) = 3"
proof -
  have old: "distinct (map fe_Path (Entries demo_old))" by code_simp
  have new: "distinct (map fe_Path (Entries demo_new))" by code_simp
  have "file_view demo_new ''gone.txt'' = None" by code_simp
  moreover have "length (Diff demo_old demo_new) = 3" by code_simp
  ultimately show ?thesis using diff_patches_old_to_new [OF old new] by simp
qed

text \<open>
  C17. \<open>Diff\<close> is minimal and classified. The changes are sorted by path with no path
  twice; a path is changed exactly if the two manifests disagree on its presence, hash or
  mode (never on its size alone); and each change is the creation, modification or deletion
  that the two manifests call for, a deletion carrying no hash and no mode.
\<close>

theorem diff_minimal_and_classified:
  assumes "distinct (map fe_Path (Entries oldM))" and "distinct (map fe_Path (Entries newM))"
  shows "sorted_wrt (<) (map fc_Path (Diff oldM newM)) \<and>
    (\<forall>p. p \<in> fc_Path ` set (Diff oldM newM) \<longleftrightarrow> file_view oldM p \<noteq> file_view newM p) \<and>
    (\<forall>c. c \<in> set (Diff oldM newM) \<longleftrightarrow>
       change_of (fc_Path c) (file_view oldM (fc_Path c)) (file_view newM (fc_Path c)) = Some c)"
proof (intro conjI allI)
  fix p
  have "p \<in> fc_Path ` set (Diff oldM newM) \<longleftrightarrow>
      (\<exists>c. change_of p (file_view oldM p) (file_view newM p) = Some c)"
    unfolding image_iff Bex_def Diff_iff[OF assms] using change_of_path by metis
  also have "\<dots> \<longleftrightarrow> change_of p (file_view oldM p) (file_view newM p) \<noteq> None" by blast
  also have "\<dots> \<longleftrightarrow> file_view oldM p \<noteq> file_view newM p" by simp
  finally show "p \<in> fc_Path ` set (Diff oldM newM) \<longleftrightarrow> file_view oldM p \<noteq> file_view newM p" .
qed (use diff_distinct[OF assms] Diff_iff[OF assms] in auto)

theorem diff_minimal_and_classified_witness:
  "sorted_wrt (<) (map fc_Path (Diff demo_old demo_new)) \<and>
   ''keep.txt'' \<notin> fc_Path ` set (Diff demo_old demo_new)"
proof -
  have old: "distinct (map fe_Path (Entries demo_old))" by code_simp
  have new: "distinct (map fe_Path (Entries demo_new))" by code_simp
  have "file_view demo_old ''keep.txt'' = file_view demo_new ''keep.txt''" by code_simp
  then show ?thesis using diff_minimal_and_classified [OF old new] by simp
qed

end
