(* ===== verification/Ports.thy ===== *)
theory Ports
  imports BlobStore Notifier Fsutil
begin

text \<open>
  The other driven ports of \<^verbatim>\<open>internal/core/ports/ports.go\<close> as the session service sees
  them: records of their methods over a state \<open>'s\<close> that stands for everything outside the
  service. The agent's event channel is part of the session's step relation.
\<close>

record 's WorkspacePort =
  wk_Dir :: string
  wk_Materialize :: "'s BlobStorePort \<Rightarrow> Manifest \<Rightarrow> ('s, unit) prog"
  wk_Snapshot :: "('s, Manifest) prog"
  wk_ReadFile :: "string \<Rightarrow> ('s, bytes) prog"
  wk_Remove :: "('s, unit) prog"

record 's AgentSession =
  ag_Send :: "string \<Rightarrow> ('s, unit) prog"
  ag_Interrupt :: "('s, unit) prog"
  ag_Close :: "('s, unit) prog"

type_synonym 's AgentRunner = "string \<Rightarrow> string \<Rightarrow> ('s, 's AgentSession) prog"

section \<open>What the client reads\<close>

text \<open>
  The contract of the notifier, in terms of what the client at the other end will read: a
  notification that returns without error appends one item of news to it, with the strings as they come
  out of the wire. After an error nothing is promised. \<open>room\<close> is the number of contents that
  can still be announced.
\<close>

datatype news =
    NReady string
  | NMissing "string list"
  | NEvent string string
  | NChange FileChange bytes
  | NDone bool float64 string int
  | NError string

text \<open>What survives the wire: an event whose raw line compacts; a change with proper strings and a
  content of representable length, none for a deletion.\<close>

definition event_ok :: "AgentEvent \<Rightarrow> bool" where
  "event_ok ev \<longleftrightarrow> (\<exists>t. raw_ok (string_of_bytes (ev_Raw ev)) t)"

definition change_ok :: "FileChange \<Rightarrow> bytes \<Rightarrow> bool" where
  "change_ok ch content \<longleftrightarrow> length content < 2 ^ 63 \<and> (fc_Op ch = ChangeDelete \<longrightarrow> content = []) \<and>
     op_of_string (op_string (fc_Op ch)) = fc_Op ch \<and>
     valid_utf8 (op_string (fc_Op ch)) \<and> valid_utf8 (fc_Path ch) \<and> valid_utf8 (fc_Hash ch)"

text \<open>A cost that compares equal to 0 is not sent.\<close>

definition sent_cost :: "float64 \<Rightarrow> float64" where
  "sent_cost f = (if float_zero f then 0 else f)"

locale client_notifier =
  fixes N :: "'s ClientNotifier" and reads :: "'s \<Rightarrow> news list \<Rightarrow> bool" and room :: "'s \<Rightarrow> nat"
  assumes ready: "reads s ns \<Longrightarrow> SessionReady N i s = (Inr u, s') \<Longrightarrow>
      reads s' (ns @ [NReady (fix_utf8 i)]) \<and> room s' = room s"
    and missing: "reads s ns \<Longrightarrow> SyncRequest N hs s = (Inr u, s') \<Longrightarrow>
      reads s' (ns @ [NMissing (map fix_utf8 hs)]) \<and> room s' = room s"
    and event: "reads s ns \<Longrightarrow> event_ok ev \<Longrightarrow> StreamEvent N ev s = (Inr u, s') \<Longrightarrow>
      reads s' (ns @ [NEvent (fix_utf8 (kind_string (ev_Kind ev))) (fix_utf8 (ev_Text ev))]) \<and> room s' = room s"
    and change: "reads s ns \<Longrightarrow> change_ok ch content \<Longrightarrow> 0 < room s \<Longrightarrow>
      FileChanged N ch content s = (Inr u, s') \<Longrightarrow>
      reads s' (ns @ [NChange ch content]) \<and> room s \<le> Suc (room s')"
    and finished: "reads s ns \<Longrightarrow> int64_range (tr_NumTurns res) \<Longrightarrow> TurnDone N res s = (Inr u, s') \<Longrightarrow>
      reads s' (ns @ [NDone (tr_IsError res) (sent_cost (tr_CostUSD res)) (fix_utf8 (tr_Text res)) (tr_NumTurns res)]) \<and> room s' = room s"
    and failure: "reads s ns \<Longrightarrow> Error N msg s = (Inr u, s') \<Longrightarrow>
      reads s' (ns @ [NError (fix_utf8 msg)]) \<and> room s' = room s"
begin

text \<open>Sending a list of changes with their contents.\<close>

definition send_changes :: "(FileChange \<times> bytes) list \<Rightarrow> ('s, unit) prog" where
  "send_changes xs = forE xs (\<lambda>(ch, content). FileChanged N ch content)"

lemma send_changes_read:
  "reads s ns \<Longrightarrow> send_changes xs s = (Inr u, s') \<Longrightarrow> list_all (\<lambda>(ch, c). change_ok ch c) xs \<Longrightarrow>
   length xs \<le> room s \<Longrightarrow>
   reads s' (ns @ map (\<lambda>(ch, c). NChange ch c) xs) \<and> room s \<le> room s' + length xs"
proof (induction xs arbitrary: s ns)
  case Nil
  then show ?case by (simp add: send_changes_def)
next
  case (Cons x xs)
  obtain ch c where x: "x = (ch, c)" by (cases x)
  obtain s1 where s1: "FileChanged N ch c s = (Inr (), s1)" "send_changes xs s1 = (Inr u, s')"
    using Cons.prems(2) x by (auto simp: send_changes_def bindE_Inr_iff)
  have 1: "reads s1 (ns @ [NChange ch c])" "room s \<le> Suc (room s1)"
    using change[OF Cons.prems(1) _ _ s1(1)] Cons.prems(3,4) x by auto
  have "length xs \<le> room s1" using 1(2) Cons.prems(4) by simp
  from Cons.IH[OF 1(1) s1(2) _ this] Cons.prems(3) x 1(2) show ?case by auto
qed

end

end
