(* ===== verification/Session.thy ===== *)
theory Session
  imports Ports
begin

text \<open>
  The session service of \<^verbatim>\<open>internal/core/app/session.go\<close>: its state, its operations as
  programs over the service and the outside world \<open>'s\<close>, and the concurrent system they form
  as a step relation: the dispatcher's calls, the event pump, and the prompts in flight, with the
  agent's event channel and the one-place channel \<^verbatim>\<open>turnDone\<close> between them.
\<close>

section \<open>State\<close>

record 's Deps =
  dp_Blobs :: "'s BlobStorePort"
  dp_NewWorkspace :: "string \<Rightarrow> ('s, 's WorkspacePort) prog"
  dp_Agent :: "'s AgentRunner"
  dp_Notifier :: "'s ClientNotifier"
  dp_NewID :: "('s, string) prog"

text \<open>\<open>sv_turnDone\<close> is the content of the buffered channel of capacity 1: nothing, or one
  \<^verbatim>\<open>error\<close>, which may be \<^verbatim>\<open>nil\<close>. \<open>sv_pump_started\<close> says that the goroutine of the event pump
  has been started.\<close>

record 's Service =
  sv_sessionID :: string
  sv_manifest :: Manifest
  sv_ws :: "'s WorkspacePort option"
  sv_agent :: "'s AgentSession option"
  sv_preTurn :: Manifest
  sv_turnDone :: "error option option"
  sv_pump_started :: bool

definition NewService :: "'s Service" where
  "NewService = \<lparr> sv_sessionID = [], sv_manifest = \<lparr>Entries = []\<rparr>, sv_ws = None, sv_agent = None,
     sv_preTurn = \<lparr>Entries = []\<rparr>, sv_turnDone = None, sv_pump_started = False \<rparr>"

type_synonym ('s, 'a) sprog = "('s Service \<times> 's, 'a) prog"

text \<open>A call to a collaborator, a look at the service's fields, and a change of them.\<close>

definition outside :: "('s, 'a) prog \<Rightarrow> ('s, 'a) sprog" where
  "outside p x = (case p (snd x) of (r, s') \<Rightarrow> (r, (fst x, s')))"

definition look_sv :: "('s Service \<Rightarrow> 'a) \<Rightarrow> ('s, 'a) sprog" where
  "look_sv f x = (Inr (f (fst x)), x)"

definition set_sv :: "('s Service \<Rightarrow> 's Service) \<Rightarrow> ('s, unit) sprog" where
  "set_sv f x = (Inr (), (f (fst x), snd x))"

section \<open>Operations\<close>

text \<open>The loop of \<^verbatim>\<open>StartSession\<close> over the manifest's entries.\<close>

fun missing_hashes :: "'s BlobStorePort \<Rightarrow> string set \<Rightarrow> string list \<Rightarrow> FileEntry list \<Rightarrow> ('s, string list) prog" where
  "missing_hashes B seen ms [] = retE ms"
| "missing_hashes B seen ms (e # es) =
     (if fe_Hash e \<in> seen then missing_hashes B seen ms es
      else bindE (Has B (fe_Hash e)) (\<lambda>has.
        missing_hashes B (insert (fe_Hash e) seen) (if has then ms else ms @ [fe_Hash e]) es))"

definition StartSession :: "'s Deps \<Rightarrow> string \<Rightarrow> Manifest \<Rightarrow> ('s, string list) sprog" where
  "StartSession D projectName m =
     bindE (set_sv (\<lambda>sv. sv\<lparr> sv_manifest := m \<rparr>)) (\<lambda>_.
     outside (missing_hashes (dp_Blobs D) {} [] (Entries m)))"

definition PutBlob :: "'s Deps \<Rightarrow> string \<Rightarrow> bytes \<Rightarrow> ('s, unit) sprog" where
  "PutBlob D hash content = outside (Put (dp_Blobs D) hash content)"

definition svc_SyncDone :: "'s Deps \<Rightarrow> ('s, string) sprog" where
  "svc_SyncDone D =
     bindE (look_sv (\<lambda>sv. (sv_agent sv \<noteq> None, sv_sessionID sv))) (\<lambda>(started, sid).
     if started then retE sid else
       bindE (outside (dp_NewID D)) (\<lambda>sid.
       bindE (set_sv (\<lambda>sv. sv\<lparr> sv_sessionID := sid \<rparr>)) (\<lambda>_.
       bindE (outside (dp_NewWorkspace D sid)) (\<lambda>ws.
       bindE (set_sv (\<lambda>sv. sv\<lparr> sv_ws := Some ws \<rparr>)) (\<lambda>_.
       bindE (look_sv sv_manifest) (\<lambda>m.
       bindE (outside (wk_Materialize ws (dp_Blobs D) m)) (\<lambda>_.
       bindE (outside (dp_Agent D sid (wk_Dir ws))) (\<lambda>agent.
       bindE (set_sv (\<lambda>sv. sv\<lparr> sv_agent := Some agent, sv_pump_started := True \<rparr>)) (\<lambda>_.
       retE sid)))))))))"

text \<open>\<^verbatim>\<open>finishTurn\<close> with the workspace it reads from the service.\<close>

definition push_change :: "'s Deps \<Rightarrow> 's WorkspacePort \<Rightarrow> FileChange \<Rightarrow> ('s, unit) prog" where
  "push_change D ws ch =
     bindE (if fc_Op ch \<noteq> ChangeDelete then wk_ReadFile ws (fc_Path ch) else retE []) (\<lambda>content.
     FileChanged (dp_Notifier D) ch content)"

definition zero_TurnResult :: TurnResult where
  "zero_TurnResult = \<lparr> tr_IsError = False, tr_CostUSD = 0, tr_Text = [], tr_NumTurns = 0 \<rparr>"

text \<open>Its three parts: the difference, the loop that pushes it, and the end.\<close>

definition turn_changes :: "'s WorkspacePort \<Rightarrow> ('s, Manifest \<times> FileChange list) sprog" where
  "turn_changes ws =
     bindE (outside (wk_Snapshot ws)) (\<lambda>after.
     bindE (look_sv sv_preTurn) (\<lambda>pre.
     retE (after, Diff pre after)))"

definition turn_end :: "'s Deps \<Rightarrow> TurnResult option \<Rightarrow> Manifest \<Rightarrow> ('s, unit) sprog" where
  "turn_end D res after =
     bindE (set_sv (\<lambda>sv. sv\<lparr> sv_preTurn := after \<rparr>)) (\<lambda>_.
     outside (TurnDone (dp_Notifier D) (case res of None \<Rightarrow> zero_TurnResult | Some r \<Rightarrow> r)))"

definition finishTurn :: "'s Deps \<Rightarrow> 's WorkspacePort \<Rightarrow> TurnResult option \<Rightarrow> ('s, unit) sprog" where
  "finishTurn D ws res =
     bindE (turn_changes ws) (\<lambda>(after, changes).
     bindE (outside (forE changes (push_change D ws))) (\<lambda>_.
     turn_end D res after))"

text \<open>\<^verbatim>\<open>select { case s.turnDone <- err: default: }\<close> and the drain before a prompt.\<close>

definition signal_done :: "error option \<Rightarrow> 's Service \<Rightarrow> 's Service" where
  "signal_done e sv = (if sv_turnDone sv = None then sv\<lparr> sv_turnDone := Some e \<rparr> else sv)"

definition drain_done :: "'s Service \<Rightarrow> 's Service" where
  "drain_done sv = sv\<lparr> sv_turnDone := None \<rparr>"

text \<open>\<^verbatim>\<open>HandlePrompt\<close> up to the point where it sends: the agent and the workspace it will use,
  then the snapshot and the drain.\<close>

definition prompt_ready :: "'s Service \<Rightarrow> error + 's AgentSession \<times> 's WorkspacePort" where
  "prompt_ready sv =
     (case (sv_agent sv, sv_ws sv) of
        (Some agent, Some ws) \<Rightarrow> Inr (agent, ws)
      | _ \<Rightarrow> Inl (ErrMsg ''app: session not ready''))"

definition prompt_snap :: "'s WorkspacePort \<Rightarrow> ('s, unit) sprog" where
  "prompt_snap ws =
     bindE (outside (wk_Snapshot ws)) (\<lambda>snap.
     set_sv (\<lambda>sv. drain_done (sv\<lparr> sv_preTurn := snap \<rparr>)))"

definition svc_Interrupt :: "'s Deps \<Rightarrow> ('s, unit) sprog" where
  "svc_Interrupt D =
     bindE (look_sv sv_agent) (\<lambda>a. case a of None \<Rightarrow> retE () | Some agent \<Rightarrow> outside (ag_Interrupt agent))"

text \<open>\<^verbatim>\<open>Close\<close> runs both clean-ups whatever happens and joins their errors.\<close>

definition try_opt :: "'x option \<Rightarrow> ('x \<Rightarrow> ('s, unit) prog) \<Rightarrow> (error \<Rightarrow> error) \<Rightarrow> ('s, error list) sprog" where
  "try_opt x f wrap =
     (case x of
        None \<Rightarrow> retE []
      | Some y \<Rightarrow> bindE (tryE (outside (f y))) (\<lambda>r. retE (case r of Inl e \<Rightarrow> [wrap e] | Inr _ \<Rightarrow> [])))"

text \<open>The part under the lock: the agent and the workspace are taken out of the service.\<close>

definition close_take :: "('s, 's AgentSession option \<times> 's WorkspacePort option) sprog" where
  "close_take =
     bindE (look_sv (\<lambda>sv. (sv_agent sv, sv_ws sv))) (\<lambda>taken.
     bindE (set_sv (\<lambda>sv. sv\<lparr> sv_agent := None, sv_ws := None \<rparr>)) (\<lambda>_. retE taken))"

definition close_agent :: "'s AgentSession option \<Rightarrow> ('s, error list) sprog" where
  "close_agent agent = try_opt agent ag_Close id"

definition close_ws :: "'s WorkspacePort option \<Rightarrow> ('s, error list) sprog" where
  "close_ws ws = try_opt ws wk_Remove (Wrapped ''remove workspace'')"

definition svc_Close :: "'s Deps \<Rightarrow> ('s, unit) sprog" where
  "svc_Close D =
     bindE close_take (\<lambda>(agent, ws).
     bindE (close_agent agent) (\<lambda>es1.
     bindE (close_ws ws) (\<lambda>es2.
     if es1 @ es2 = [] then retE () else throwE (Joined (es1 @ es2)))))"

section \<open>The concurrent system\<close>

text \<open>
  The pump waits for an event; or has forwarded a result and will take the snapshot; or has some
  changes left to push; or has finished the turn and will signal; or has returned. A prompt in
  flight will snapshot, or will send, or has sent and waits; the number kept with it, of which the
  code knows nothing, is how many turns had been finished when it drained the channel.
  \<open>rn_finished\<close> and \<open>rn_completed\<close> count the signals and the prompts that returned on one. The
  steps are cut where the code touches what the goroutines share: the fields \<^verbatim>\<open>s.ws\<close>,
  \<^verbatim>\<open>s.agent\<close> and \<^verbatim>\<open>s.preTurn\<close>, and the channels; a snapshot and the use of
  \<^verbatim>\<open>s.preTurn\<close> that follows it are one step.
\<close>

datatype pump_state =
    PumpWaits
  | PumpFinishes "TurnResult option"
  | PumpPushes "TurnResult option" Manifest "FileChange list"
  | PumpSignals "error option"
  | PumpReturned

datatype 's prompt_state =
    PromptSnaps "'s AgentSession" "'s WorkspacePort" string
  | PromptSends nat "'s AgentSession" string
  | PromptWaits nat

record 's run =
  rn_sv :: "'s Service"
  rn_world :: 's
  rn_events :: "AgentEvent list"
  rn_open :: bool
  rn_pump :: pump_state
  rn_prompts :: "'s prompt_state list"
  rn_returned :: "error option list"
  rn_cancelled :: bool
  rn_closed :: bool
  rn_panicked :: bool
  rn_finished :: nat
  rn_completed :: nat

definition event_capacity :: nat where
  "event_capacity = 64"

text \<open>The result of a call as the \<^verbatim>\<open>error\<close> it returns.\<close>

definition err_of :: "error + 'a \<Rightarrow> error option" where
  "err_of r = (case r of Inl e \<Rightarrow> Some e | Inr _ \<Rightarrow> None)"

datatype call = CStart string Manifest | CPut string bytes | CSyncDone | CInterrupt | CClose

definition run_call :: "'s Deps \<Rightarrow> call \<Rightarrow> ('s, unit) sprog" where
  "run_call D c =
     (case c of
        CStart n m \<Rightarrow> bindE (StartSession D n m) (\<lambda>_. retE ())
      | CPut h b \<Rightarrow> PutBlob D h b
      | CSyncDone \<Rightarrow> bindE (svc_SyncDone D) (\<lambda>_. retE ())
      | CInterrupt \<Rightarrow> svc_Interrupt D
      | CClose \<Rightarrow> svc_Close D)"

text \<open>The pump is about to call a method of \<^verbatim>\<open>s.ws\<close>.\<close>

fun needs_ws :: "pump_state \<Rightarrow> bool" where
  "needs_ws (PumpFinishes res) = True"
| "needs_ws (PumpPushes res after (ch # chs)) \<longleftrightarrow> fc_Op ch \<noteq> ChangeDelete"
| "needs_ws _ = False"

text \<open>
  One step of what runs beside the dispatcher. \<open>A\<close> is what the agent's process may do to
  the world meanwhile; it may also emit any event while the channel has room, and end its output.
\<close>

inductive bstep :: "'s Deps \<Rightarrow> ('s \<Rightarrow> 's \<Rightarrow> bool) \<Rightarrow> 's run \<Rightarrow> 's run \<Rightarrow> bool" for D A where
  emit: "rn_open x \<Longrightarrow> length (rn_events x) < event_capacity \<Longrightarrow>
    bstep D A x (x\<lparr> rn_events := rn_events x @ [ev] \<rparr>)"
| close_events: "rn_open x \<Longrightarrow> bstep D A x (x\<lparr> rn_open := False \<rparr>)"
| agent_works: "A (rn_world x) w \<Longrightarrow> bstep D A x (x\<lparr> rn_world := w \<rparr>)"
| pump_ends: "sv_pump_started (rn_sv x) \<Longrightarrow> rn_pump x = PumpWaits \<Longrightarrow> rn_events x = [] \<Longrightarrow> \<not> rn_open x \<Longrightarrow>
    bstep D A x (x\<lparr> rn_pump := PumpReturned \<rparr>)"
| pump_fails: "sv_pump_started (rn_sv x) \<Longrightarrow> rn_pump x = PumpWaits \<Longrightarrow> rn_events x = ev # evs \<Longrightarrow>
    StreamEvent (dp_Notifier D) ev (rn_world x) = (Inl e, w) \<Longrightarrow>
    bstep D A x (x\<lparr> rn_events := evs, rn_world := w, rn_pump := PumpReturned \<rparr>)"
| pump_forwards: "sv_pump_started (rn_sv x) \<Longrightarrow> rn_pump x = PumpWaits \<Longrightarrow> rn_events x = ev # evs \<Longrightarrow>
    StreamEvent (dp_Notifier D) ev (rn_world x) = (Inr u, w) \<Longrightarrow>
    bstep D A x (x\<lparr> rn_events := evs, rn_world := w,
      rn_pump := (if ev_Kind ev = AgentResult then PumpFinishes (ev_Result ev) else PumpWaits) \<rparr>)"
| pump_snaps: "rn_pump x = PumpFinishes res \<Longrightarrow> sv_ws (rn_sv x) = Some ws \<Longrightarrow>
    turn_changes ws (rn_sv x, rn_world x) = (r, (sv, w)) \<Longrightarrow>
    bstep D A x (x\<lparr> rn_sv := sv, rn_world := w,
      rn_pump := (case r of Inl e \<Rightarrow> PumpSignals (Some e) | Inr (after, chs) \<Rightarrow> PumpPushes res after chs) \<rparr>)"
| pump_pushes: "rn_pump x = PumpPushes res after (ch # chs) \<Longrightarrow>
    fc_Op ch = ChangeDelete \<or> sv_ws (rn_sv x) = Some ws \<Longrightarrow>
    push_change D ws ch (rn_world x) = (r, w) \<Longrightarrow>
    bstep D A x (x\<lparr> rn_world := w,
      rn_pump := (case r of Inl e \<Rightarrow> PumpSignals (Some e) | Inr _ \<Rightarrow> PumpPushes res after chs) \<rparr>)"
| pump_ends_turn: "rn_pump x = PumpPushes res after [] \<Longrightarrow>
    turn_end D res after (rn_sv x, rn_world x) = (r, (sv, w)) \<Longrightarrow>
    bstep D A x (x\<lparr> rn_sv := sv, rn_world := w, rn_pump := PumpSignals (err_of r) \<rparr>)"
| pump_panics: "needs_ws (rn_pump x) \<Longrightarrow> sv_ws (rn_sv x) = None \<Longrightarrow>
    bstep D A x (x\<lparr> rn_panicked := True \<rparr>)"
| pump_signals: "rn_pump x = PumpSignals e \<Longrightarrow>
    bstep D A x (x\<lparr> rn_sv := signal_done e (rn_sv x), rn_pump := PumpWaits, rn_finished := Suc (rn_finished x) \<rparr>)"
| prompt_snaps: "rn_prompts x = ps @ PromptSnaps agent ws text # qs \<Longrightarrow>
    prompt_snap ws (rn_sv x, rn_world x) = (Inr u, (sv, w)) \<Longrightarrow>
    bstep D A x (x\<lparr> rn_sv := sv, rn_world := w, rn_prompts := ps @ PromptSends (rn_finished x) agent text # qs \<rparr>)"
| prompt_snap_fails: "rn_prompts x = ps @ PromptSnaps agent ws text # qs \<Longrightarrow>
    prompt_snap ws (rn_sv x, rn_world x) = (Inl e, (sv, w)) \<Longrightarrow>
    bstep D A x (x\<lparr> rn_sv := sv, rn_world := w, rn_prompts := ps @ qs, rn_returned := rn_returned x @ [Some e] \<rparr>)"
| prompt_sends: "rn_prompts x = ps @ PromptSends k agent text # qs \<Longrightarrow>
    ag_Send agent text (rn_world x) = (Inr u, w) \<Longrightarrow>
    bstep D A x (x\<lparr> rn_world := w, rn_prompts := ps @ PromptWaits k # qs \<rparr>)"
| prompt_send_fails: "rn_prompts x = ps @ PromptSends k agent text # qs \<Longrightarrow>
    ag_Send agent text (rn_world x) = (Inl e, w) \<Longrightarrow>
    bstep D A x (x\<lparr> rn_world := w, rn_prompts := ps @ qs, rn_returned := rn_returned x @ [Some e] \<rparr>)"
| prompt_returns: "rn_prompts x = ps @ PromptWaits k # qs \<Longrightarrow> sv_turnDone (rn_sv x) = Some e \<Longrightarrow>
    bstep D A x (x\<lparr> rn_sv := drain_done (rn_sv x), rn_prompts := ps @ qs, rn_returned := rn_returned x @ [e],
      rn_completed := Suc (rn_completed x) \<rparr>)"
| prompt_cancelled: "rn_prompts x = ps @ PromptWaits k # qs \<Longrightarrow> rn_cancelled x \<Longrightarrow>
    bstep D A x (x\<lparr> rn_prompts := ps @ qs, rn_returned := rn_returned x @ [Some Canceled] \<rparr>)"
| cancel: "bstep D A x (x\<lparr> rn_cancelled := True \<rparr>)"

text \<open>A prompt begins: the goroutine that the dispatcher started looks at the service.\<close>

definition begin_prompt :: "string \<Rightarrow> 's run \<Rightarrow> 's run" where
  "begin_prompt text x =
     (case prompt_ready (rn_sv x) of
        Inr (agent, ws) \<Rightarrow> x\<lparr> rn_prompts := rn_prompts x @ [PromptSnaps agent ws text] \<rparr>
      | Inl e \<Rightarrow> x\<lparr> rn_returned := rn_returned x @ [Some e] \<rparr>)"

text \<open>A step of the session: the dispatcher makes its calls one after the other,
  \<^verbatim>\<open>Close\<close> last; each prompt runs on its own.\<close>

inductive sstep :: "'s Deps \<Rightarrow> ('s \<Rightarrow> 's \<Rightarrow> bool) \<Rightarrow> 's run \<Rightarrow> 's run \<Rightarrow> bool" for D A where
  background: "bstep D A x y \<Longrightarrow> sstep D A x y"
| prompt_begins: "sstep D A x (begin_prompt text x)"
| called: "\<not> rn_closed x \<Longrightarrow> run_call D c (rn_sv x, rn_world x) = (r, (sv, w)) \<Longrightarrow>
    sstep D A x (x\<lparr> rn_sv := sv, rn_world := w, rn_closed := (c = CClose) \<rparr>)"

text \<open>The same steps of the background, as steps of the session.\<close>

lemmas pump_fails_step = bstep.pump_fails[THEN sstep.background]
lemmas pump_forwards_step = bstep.pump_forwards[THEN sstep.background]
lemmas pump_snaps_step = bstep.pump_snaps[THEN sstep.background]
lemmas pump_pushes_step = bstep.pump_pushes[THEN sstep.background]
lemmas pump_ends_turn_step = bstep.pump_ends_turn[THEN sstep.background]
lemmas pump_panics_step = bstep.pump_panics[THEN sstep.background]
lemmas pump_signals_step = bstep.pump_signals[THEN sstep.background]
lemmas prompt_snaps_step = bstep.prompt_snaps[THEN sstep.background]
lemmas prompt_sends_step = bstep.prompt_sends[THEN sstep.background]
lemmas prompt_returns_step = bstep.prompt_returns[THEN sstep.background]
lemmas emit_step = bstep.emit[THEN sstep.background]

definition start_run :: "'s \<Rightarrow> 's run" where
  "start_run w = \<lparr> rn_sv = NewService, rn_world = w, rn_events = [], rn_open = True, rn_pump = PumpWaits,
     rn_prompts = [], rn_returned = [], rn_cancelled = False, rn_closed = False, rn_panicked = False,
     rn_finished = 0, rn_completed = 0 \<rparr>"

text \<open>Nothing happens after a panic.\<close>

definition live_step :: "'s Deps \<Rightarrow> ('s \<Rightarrow> 's \<Rightarrow> bool) \<Rightarrow> 's run \<Rightarrow> 's run \<Rightarrow> bool" where
  "live_step D A x y \<longleftrightarrow> \<not> rn_panicked x \<and> sstep D A x y"

abbreviation reach :: "'s Deps \<Rightarrow> ('s \<Rightarrow> 's \<Rightarrow> bool) \<Rightarrow> 's run \<Rightarrow> 's run \<Rightarrow> bool" where
  "reach D A \<equiv> (live_step D A)\<^sup>*\<^sup>*"

lemma begin_prompt_fields [simp]:
  "rn_sv (begin_prompt text x) = rn_sv x" "rn_world (begin_prompt text x) = rn_world x"
  "rn_pump (begin_prompt text x) = rn_pump x" "rn_events (begin_prompt text x) = rn_events x"
  "rn_cancelled (begin_prompt text x) = rn_cancelled x" "rn_closed (begin_prompt text x) = rn_closed x"
  "rn_panicked (begin_prompt text x) = rn_panicked x" "rn_finished (begin_prompt text x) = rn_finished x"
  "rn_completed (begin_prompt text x) = rn_completed x"
  by (simp_all add: begin_prompt_def split: sum.split prod.split)

lemma begin_prompt_prompts:
  "\<exists>ps. rn_prompts (begin_prompt text x) = rn_prompts x @ ps \<and>
     (ps = [] \<or> (\<exists>agent ws. ps = [PromptSnaps agent ws text] \<and> sv_agent (rn_sv x) = Some agent \<and> sv_ws (rn_sv x) = Some ws))"
  by (auto simp: begin_prompt_def prompt_ready_def split: sum.split prod.split option.split)

section \<open>What the calls leave alone\<close>

lemma outside_run: "outside p (sv, w) = (fst (p w), (sv, snd (p w)))"
  by (simp add: outside_def split: prod.splits)

lemma outside_iff: "outside p (sv, w) = (r, (sv', w')) \<longleftrightarrow> sv' = sv \<and> p w = (r, w')"
  by (auto simp: outside_run prod_eq_iff)

lemma look_sv_run [simp]: "look_sv f (sv, w) = (Inr (f sv), (sv, w))"
  by (simp add: look_sv_def)

lemma set_sv_run [simp]: "set_sv f (sv, w) = (Inr (), (f sv, w))"
  by (simp add: set_sv_def)

lemma bindE_look [simp]: "bindE (look_sv f) g (sv, w) = g (f sv) (sv, w)"
  by (simp add: bindE_def)

lemma bindE_set [simp]: "bindE (set_sv f) g (sv, w) = g () (f sv, w)"
  by (simp add: bindE_def)

lemma bindE_outside:
  "bindE (outside p) f (sv, w) = (case p w of (Inl e, w') \<Rightarrow> (Inl e, (sv, w')) | (Inr a, w') \<Rightarrow> f a (sv, w'))"
  by (simp add: bindE_def outside_def split: prod.splits sum.splits)

lemma turn_changes_keeps: "turn_changes ws (sv, w) = (r, (sv', w')) \<Longrightarrow> sv' = sv"
  by (auto simp: turn_changes_def bindE_outside split: prod.splits sum.splits)

lemma turn_end_keeps: "turn_end D res after (sv, w) = (r, (sv', w')) \<Longrightarrow> sv' = sv\<lparr> sv_preTurn := after \<rparr>"
  by (auto simp: turn_end_def outside_run)

lemma prompt_snap_cases:
  assumes "prompt_snap ws (sv, w) = (r, (sv', w'))"
  obtains e where "r = Inl e" "sv' = sv"
  | M where "r = Inr ()" "wk_Snapshot ws w = (Inr M, w')" "sv' = drain_done (sv\<lparr> sv_preTurn := M \<rparr>)"
  using assms
  by (auto simp: prompt_snap_def bindE_outside split: prod.splits sum.splits)

lemma prompt_ready_Inr:
  "prompt_ready sv = Inr (agent, ws) \<longleftrightarrow> sv_agent sv = Some agent \<and> sv_ws sv = Some ws"
  by (auto simp: prompt_ready_def split: option.splits)

text \<open>The dispatcher's calls do not touch the completion channel, and only \<^verbatim>\<open>Close\<close> takes
  the workspace and the agent away.\<close>

lemma svc_SyncDone_keeps:
  assumes "svc_SyncDone D (sv, w) = (r, (sv', w'))"
  shows "sv_turnDone sv' = sv_turnDone sv"
    and "sv_agent sv \<noteq> None \<Longrightarrow> sv' = sv"
    and "sv_agent sv = None \<Longrightarrow> sv_agent sv' = None \<and> sv_pump_started sv' = sv_pump_started sv \<or>
      sv_agent sv' \<noteq> None \<and> sv_ws sv' \<noteq> None \<and> sv_pump_started sv'"
  using assms
  by (auto simp: svc_SyncDone_def bindE_outside split: prod.splits sum.splits if_splits)

lemma close_take_run [simp]:
  "close_take (sv, w) = (Inr (sv_agent sv, sv_ws sv), (sv\<lparr> sv_agent := None, sv_ws := None \<rparr>, w))"
  by (simp add: close_take_def)

lemma svc_Close_keeps:
  assumes "svc_Close D (sv, w) = (r, (sv', w'))"
  shows "sv' = sv\<lparr> sv_agent := None, sv_ws := None \<rparr>"
  using assms
  by (auto simp: svc_Close_def close_agent_def close_ws_def try_opt_def tryE_def outside_run bindE_def
      split: prod.splits sum.splits option.splits if_splits)

lemma run_call_turnDone:
  "run_call D c (sv, w) = (r, (sv', w')) \<Longrightarrow> sv_turnDone sv' = sv_turnDone sv"
  by (cases c)
     (auto simp: run_call_def StartSession_def PutBlob_def svc_Interrupt_def outside_run bindE_def
       split: prod.splits sum.splits option.splits dest!: svc_SyncDone_keeps(1) svc_Close_keeps)

end
