(* ===== verification/AtomicWrite.thy ===== *)
theory AtomicWrite
  imports OsLaws
begin

text \<open>
  The idiom by which \<^verbatim>\<open>BlobStore.Put\<close> and \<^verbatim>\<open>Project.Apply\<close> write a file:
  create a temporary file in the target's directory, write and close it, perhaps set its
  mode, rename it over the target, and remove the temporary file on the way out. The lemma
  \<open>atomic_write\<close> says that the target changes in one step or not at all, for every
  failure on the way; \<open>atomic_write_ok\<close> says when the write succeeds.
\<close>

text \<open>Every part of the idiom after the temporary file exists; \<open>fin\<close> sets its mode.\<close>

definition fill_and_rename ::
  "(string \<Rightarrow> (os, unit) prog) \<Rightarrow> bytes \<Rightarrow> string \<Rightarrow> string \<Rightarrow> (os, unit) prog" where
  "fill_and_rename fin content target tmp =
     deferE
       (bindE (onErrE (tmp_Write tmp content) (tmp_Close tmp)) (\<lambda>_.
        bindE (tmp_Close tmp) (\<lambda>_.
        bindE (fin tmp) (\<lambda>_.
        os_Rename tmp target))))
       (os_Remove tmp)"

text \<open>\<open>fin\<close> turns the mode \<open>m\<close> of the temporary file into \<open>md m\<close>, or fails and does nothing.\<close>

definition sets_mode :: "(string \<Rightarrow> (os, unit) prog) \<Rightarrow> (FileMode \<Rightarrow> FileMode) \<Rightarrow> bool" where
  "sets_mode fin md \<longleftrightarrow>
     (\<forall>p s b m r s'. os_wf s \<longrightarrow> osat s (loc s p) = Some (IFile b m) \<longrightarrow> fin p s = (r, s') \<longrightarrow>
        os_wf s' \<and> os_env s' = os_env s \<and>
        (case r of Inl e \<Rightarrow> osat s' = osat s \<and> os_fault s SysChmod (loc s p) \<noteq> None
         | Inr _ \<Rightarrow> osat s' = (osat s)(loc s p \<mapsto> IFile b (md m))))"

lemma sets_mode_ret: "sets_mode (\<lambda>_. retE ()) (\<lambda>m. m)"
  by (auto simp: sets_mode_def fun_upd_idem)

lemma sets_mode_Chmod: "sets_mode (\<lambda>p. os_Chmod p mode) (\<lambda>_. mode)"
  unfolding sets_mode_def
proof (intro allI impI)
  fix p s b m r s'
  assume wf: "os_wf s" and at: "osat s (loc s p) = Some (IFile b m)" and run: "os_Chmod p mode s = (r, s')"
  have "os_wf s' \<and> os_env s' = os_env s" by (rule os_keepsD[OF os_keeps_Chmod wf run])
  moreover have "case r of Inl e \<Rightarrow> osat s' = osat s \<and> os_fault s SysChmod (loc s p) \<noteq> None
      | Inr _ \<Rightarrow> osat s' = (osat s)(loc s p \<mapsto> IFile b mode)"
    by (rule Chmod_file[OF wf at run]) auto
  ultimately show "os_wf s' \<and> os_env s' = os_env s \<and>
        (case r of Inl e \<Rightarrow> osat s' = osat s \<and> os_fault s SysChmod (loc s p) \<noteq> None
         | Inr _ \<Rightarrow> osat s' = (osat s)(loc s p \<mapsto> IFile b mode))" by simp
qed

text \<open>The state with no trace of the temporary file, or with the file still there.\<close>

definition but_for :: "os \<Rightarrow> string list \<Rightarrow> os \<Rightarrow> bool" where
  "but_for s t s' \<longleftrightarrow> osat s' = osat s \<or> (\<exists>b m. osat s t = None \<and> osat s' = (osat s)(t \<mapsto> IFile b m))"

lemma Remove_tmp:
  assumes wf: "os_wf s" and at: "osat s (loc s tmp) = Some (IFile b m)"
    and s0: "osat s = (osat s0)(loc s tmp \<mapsto> IFile b m)" "osat s0 (loc s tmp) = None"
    and run: "os_Remove tmp s = (r, s')"
  shows "but_for s0 (loc s tmp) s' \<and> (os_fault s SysRemove (loc s tmp) = None \<longrightarrow> osat s' = osat s0)"
proof -
  have ne: "loc s tmp \<noteq> []" using osat_root[OF wf] at by auto
  show ?thesis
  proof (rule Remove_cases[OF wf run])
    fix e assume e: "r = Inl e" "s' = s"
    then have "os_fault s SysRemove (loc s tmp) \<noteq> None" using Remove_file_ok[OF at ne] run by auto
    then show ?thesis using e s0 by (auto simp: but_for_def)
  next
    fix i assume "osat s' = (osat s)(loc s tmp := None)"
    then have "osat s' = osat s0" using s0 by (auto simp: fun_eq_iff)
    then show ?thesis by (simp add: but_for_def)
  qed
qed

lemma Close_cases:
  assumes "tmp_Close p s = (r, s')"
  obtains e where "r = Inl e" "s' = s" "os_fault s SysClose (loc s p) \<noteq> None" | "r = Inr ()" "s' = s"
  using assms by (cases "os_fault s SysClose (loc s p)") (auto simp: tmp_Close_def sys_def)

text \<open>The body: up to the rename only the temporary file changes.\<close>

lemma fill_steps:
  assumes wf: "os_wf s" and fin: "sets_mode fin md"
    and s0: "osat s = (osat s0)(loc s tmp \<mapsto> IFile [] m)"
    and run: "bindE (onErrE (tmp_Write tmp content) (tmp_Close tmp)) (\<lambda>_.
        bindE (tmp_Close tmp) (\<lambda>_. fin tmp)) s = (r, s')"
  shows "os_wf s' \<and> os_env s' = os_env s \<and>
    (\<exists>b' m'. osat s' = (osat s0)(loc s tmp \<mapsto> IFile b' m') \<and> (r = Inr () \<longrightarrow> b' = content \<and> m' = md m)) \<and>
    (r \<noteq> Inr () \<longrightarrow> (\<exists>c. os_fault s c (loc s tmp) \<noteq> None))"
proof -
  have at: "osat s (loc s tmp) = Some (IFile [] m)" using s0 by simp
  obtain rw s1 where w: "tmp_Write tmp content s = (rw, s1)" by (cases "tmp_Write tmp content s")
  have k1: "os_wf s1 \<and> os_env s1 = os_env s" by (rule os_keepsD[OF os_keeps_tmp_Write wf w])
  have l1: "loc s1 tmp = loc s tmp" using k1 loc_env by blast
  have f1: "os_fault s1 = os_fault s" using k1 os_env_fault by blast
  show ?thesis
  proof (rule tmp_Write_file[OF wf at w])
    fix e k
    assume e: "rw = Inl e" "osat s1 = (osat s)(loc s tmp \<mapsto> IFile ([] @ take k content) m)"
      "os_fault s SysWrite (loc s tmp) \<noteq> None"
    then have "r = Inl e" "s' = s1" using run w Close_state[of tmp s1] by simp_all
    then show ?thesis using e k1 s0 by auto
  next
    assume ok: "rw = Inr ()" "osat s1 = (osat s)(loc s tmp \<mapsto> IFile ([] @ content) m)"
    have at1: "osat s1 (loc s1 tmp) = Some (IFile content m)" using ok(2) l1 by simp
    obtain rc s2 where c: "tmp_Close tmp s1 = (rc, s2)" by (cases "tmp_Close tmp s1")
    show ?thesis
    proof (rule Close_cases[OF c])
      fix e assume e: "rc = Inl e" "s2 = s1" "os_fault s1 SysClose (loc s1 tmp) \<noteq> None"
      then have "r = Inl e" "s' = s1" using run w ok c by simp_all
      then show ?thesis using e k1 s0 ok(2) l1 f1 by auto
    next
      assume c2: "rc = Inr ()" "s2 = s1"
      then have f: "fin tmp s1 = (r, s')" using run w ok c by simp
      have "os_wf s' \<and> os_env s' = os_env s1 \<and>
        (case r of Inl e \<Rightarrow> osat s' = osat s1 \<and> os_fault s1 SysChmod (loc s1 tmp) \<noteq> None
         | Inr _ \<Rightarrow> osat s' = (osat s1)(loc s1 tmp \<mapsto> IFile content (md m)))"
        using fin k1 at1 f unfolding sets_mode_def by blast
      then show ?thesis using k1 s0 ok(2) l1 f1 by (cases r) auto
    qed
  qed
qed

lemma bindE_assoc: "bindE (bindE m f) g = bindE m (\<lambda>x. bindE (f x) g)"
  by (rule ext) (simp add: bindE_def split: prod.split sum.split)

lemma fill_and_rename_alt:
  "fill_and_rename fin content target tmp =
     deferE
       (bindE (bindE (onErrE (tmp_Write tmp content) (tmp_Close tmp)) (\<lambda>_.
          bindE (tmp_Close tmp) (\<lambda>_. fin tmp)))
          (\<lambda>_. os_Rename tmp target))
       (os_Remove tmp)"
  by (simp add: fill_and_rename_def bindE_assoc)

lemma fill_and_rename:
  assumes wf: "os_wf s" and fin: "sets_mode fin md"
    and s0: "osat s = (osat s0)(loc s tmp \<mapsto> IFile [] m)" "osat s0 (loc s tmp) = None"
    and p: "loc s target \<noteq> loc s tmp" "loc s target \<noteq> []"
    and run: "fill_and_rename fin content target tmp s = (r, s')"
  shows "os_wf s' \<and> os_env s' = os_env s \<and>
    (case r of Inl e \<Rightarrow> but_for s0 (loc s tmp) s'
     | Inr _ \<Rightarrow> osat s0 (loc s target) \<noteq> Some IDir \<and> osat s' = (osat s0)(loc s target \<mapsto> IFile content (md m)))"
proof -
  let ?steps = "bindE (onErrE (tmp_Write tmp content) (tmp_Close tmp)) (\<lambda>_.
          bindE (tmp_Close tmp) (\<lambda>_. fin tmp))"
  obtain rs s1 where st: "?steps s = (rs, s1)" by (cases "?steps s")
  obtain b' m' where k1: "os_wf s1" "os_env s1 = os_env s" "osat s1 = (osat s0)(loc s tmp \<mapsto> IFile b' m')"
      "rs = Inr () \<Longrightarrow> b' = content \<and> m' = md m"
    using fill_steps[OF wf fin s0(1) st] by blast
  have l1: "loc s1 q = loc s q" for q using k1(2) loc_env by blast
  have at1: "osat s1 (loc s1 tmp) = Some (IFile b' m')" using k1(3) l1 by simp
  have rem: "os_wf (snd (os_Remove tmp s1)) \<and> os_env (snd (os_Remove tmp s1)) = os_env s \<and>
      but_for s0 (loc s tmp) (snd (os_Remove tmp s1))"
  proof -
    obtain r2 s2 where r2: "os_Remove tmp s1 = (r2, s2)" by (cases "os_Remove tmp s1")
    have "but_for s0 (loc s1 tmp) s2"
      using Remove_tmp[OF k1(1) at1 _ _ r2, of s0] k1(3) s0(2) l1 by simp
    then show ?thesis using os_keepsD[OF os_keeps_Remove k1(1) r2] r2 l1 k1(2) by simp
  qed
  show ?thesis
  proof (cases rs)
    case (Inl e)
    then have "r = Inl e" "s' = snd (os_Remove tmp s1)"
      using run st by (simp_all add: fill_and_rename_alt deferE_def)
    then show ?thesis using rem by simp
  next
    case (Inr u)
    obtain r2 s2 where r2: "os_Rename tmp target s1 = (r2, s2)" by (cases "os_Rename tmp target s1")
    have fin': "r = r2" "s' = snd (os_Remove tmp s2)"
      using run st Inr r2 by (simp_all add: fill_and_rename_alt deferE_def)
    show ?thesis
    proof (rule Rename_cases[OF r2 at1])
      fix e assume "r2 = Inl e" "s2 = s1"
      then show ?thesis using fin' rem by simp
    next
      assume n: "r2 = Inr ()" "loc s1 target \<noteq> []" "osat s1 (loc s1 target) \<noteq> Some IDir"
        "osat s1 (butlast (loc s1 target)) = Some IDir"
        "s2 = write_file (loc s1 target) b' m' (set_tree (graft (os_tree s1) (loc s1 tmp) None) s1)"
      note o2 = osat_rename[OF k1(1) at1 n(2) loc_plain[OF k1(1)] n(3-5)]
      have s2: "osat s2 = (osat s0)(loc s target \<mapsto> IFile content (md m))"
        using o2(1) k1(3,4) Inr l1 s0(2) p(1) by (auto simp: fun_eq_iff)
      obtain r3 s3 where r3: "os_Remove tmp s2 = (r3, s3)" by (cases "os_Remove tmp s2")
      have l2: "loc s2 tmp = loc s tmp" using o2(3) k1(2) loc_env by metis
      have gone: "osat s2 (loc s2 tmp) = None" using s2 l2 p(1) s0(2) by simp
      have "s3 = s2" by (rule Remove_cases[OF o2(2) r3]) (use gone in auto)
      then show ?thesis using fin' r3 n s2 o2 k1 l1 p(1) by simp
    qed
  qed
qed

text \<open>The whole idiom.\<close>

lemma atomic_write:
  assumes wf: "os_wf s" and fin: "sets_mode fin md"
    and pre: "slash \<notin> set pre" "2 < length pre" and dir: "dir \<noteq> ''''"
    and p: "\<And>x. loc s target \<noteq> loc s dir @ [pre @ decimal x]" "loc s target \<noteq> []"
    and run: "bindE (os_CreateTemp dir pre) (fill_and_rename fin content target) s = (r, s')"
  shows "os_wf s' \<and> os_env s' = os_env s \<and>
    (case r of Inl e \<Rightarrow> \<exists>x. but_for s (loc s dir @ [pre @ decimal x]) s'
     | Inr _ \<Rightarrow> osat s (loc s target) \<noteq> Some IDir \<and>
         osat s' = (osat s)(loc s target \<mapsto> IFile content (md (umasked s 0x180))))"
proof -
  obtain rt s1 where t: "os_CreateTemp dir pre s = (rt, s1)" by (cases "os_CreateTemp dir pre s")
  have k1: "os_wf s1 \<and> os_env s1 = os_env s" by (rule os_keepsD[OF os_keeps_CreateTemp[OF pre] wf t])
  show ?thesis
  proof (rule CreateTemp_cases[OF t])
    fix e rs assume "rt = Inl e" "s1 = s\<lparr>os_rands := rs\<rparr>"
    then show ?thesis using run t k1 by (auto simp: but_for_def)
  next
    fix x rs
    let ?t = "loc s dir @ [pre @ decimal x]"
    assume c: "rt = Inr (joinPath dir (pre @ decimal x))" "osat s (loc s dir) = Some IDir"
      "osat s ?t = None" "s1 = write_file ?t [] (umasked s 0x180) (s\<lparr>os_rands := rs\<rparr>)"
    have loc: "loc s1 q = loc s q" for q using k1 loc_env by blast
    have lt: "loc s1 (joinPath dir (pre @ decimal x)) = ?t"
      using loc_joinPath[OF wf dir plain_temp[OF pre]] loc by simp
    have s1: "osat s1 = (osat s)(?t \<mapsto> IFile [] (umasked s 0x180))"
      unfolding c(4) by (subst osat_write_file) (use c in auto)
    have "fill_and_rename fin content target (joinPath dir (pre @ decimal x)) s1 = (r, s')"
      using run t c(1) by simp
    from fill_and_rename[OF _ fin _ _ _ _ this, of s "umasked s 0x180"]
    show ?thesis using k1 lt s1 c(3) p loc by (auto split: sum.split)
  qed
qed

text \<open>When it succeeds: no failing call, a drawn name that is free, a target that is not a directory.\<close>

definition no_faults :: "os \<Rightarrow> bool" where
  "no_faults s \<longleftrightarrow> (\<forall>c q. os_fault s c q = None)"

definition temp_free :: "os \<Rightarrow> string list \<Rightarrow> string \<Rightarrow> bool" where
  "temp_free s d pre \<longleftrightarrow> (\<exists>x \<in> set (os_rands s). osat s (d @ [pre @ decimal x]) = None)"

lemma look_missing:
  assumes "osat s q = Some IDir" "osat s (q @ [c]) = None"
  shows "look (os_tree s) (q @ [c]) = Inl ENOENT"
proof -
  obtain es where es: "namei (os_tree s) q = Inr (NDir es)"
    using look_IDir assms(1) by (auto simp: osat_Some)
  from namei_append[OF es, of "[c]"] assms(2) show ?thesis
    by (auto simp: osat_None split: option.splits)
qed

lemma CreateTemp_ok:
  assumes "no_faults s" "osat s (loc s dir) = Some IDir" "temp_free s (loc s dir) pre"
  shows "\<exists>t s'. os_CreateTemp dir pre s = (Inr t, s')"
proof -
  obtain x where x: "x \<in> set (os_rands s)" "look (os_tree s) (loc s dir @ [pre @ decimal x]) = Inl ENOENT"
    using assms(3) look_missing[OF assms(2)] by (auto simp: temp_free_def)
  let ?taken = "\<lambda>r. look (os_tree s) (loc s dir @ [pre @ decimal r]) \<noteq> Inl ENOENT"
  show ?thesis
  proof (cases "dropWhile ?taken (os_rands s)")
    case Nil
    then have "\<forall>r \<in> set (os_rands s). ?taken r" by (simp only: dropWhile_eq_Nil_conv)
    then show ?thesis using x by blast
  next
    case (Cons y ys)
    have f: "os_fault s SysCreateTemp (loc s dir) = None" using assms(1) by (simp add: no_faults_def)
    have d: "look (os_tree s) (loc s dir) = Inr IDir" using assms(2) by (simp add: osat_Some)
    show ?thesis unfolding os_CreateTemp_def sys_def Let_def f d Cons by simp
  qed
qed

lemma Rename_ok:
  assumes "no_faults s" "osat s (loc s old) = Some (IFile b m)" "loc s new \<noteq> []"
    "osat s (loc s new) \<noteq> Some IDir" "osat s (butlast (loc s new)) = Some IDir"
  shows "\<exists>s'. os_Rename old new s = (Inr (), s')"
proof -
  have "namei (os_tree s) (loc s old) = Inr (NFile b m)"
    using assms(2) by (auto simp: osat_Some look_def split: sum.splits elim: info_of.elims)
  then show ?thesis using assms by (simp add: os_Rename_def sys_def no_faults_def osat_Some)
qed

lemma no_faults_env: "os_env s' = os_env s \<Longrightarrow> no_faults s' = no_faults s"
  using os_env_fault[of s' s] by (simp add: no_faults_def)

lemma atomic_write_ok:
  assumes wf: "os_wf s" and fin: "sets_mode fin md"
    and pre: "slash \<notin> set pre" "2 < length pre" and dir: "dir \<noteq> ''''"
    and p: "\<And>x. loc s target \<noteq> loc s dir @ [pre @ decimal x]" "loc s target \<noteq> []"
    and ok: "no_faults s" "osat s (loc s dir) = Some IDir" "temp_free s (loc s dir) pre"
      "osat s (loc s target) \<noteq> Some IDir" "osat s (butlast (loc s target)) = Some IDir"
      "butlast (loc s target) = loc s dir"
  shows "\<exists>s'. bindE (os_CreateTemp dir pre) (fill_and_rename fin content target) s = (Inr (), s')"
proof -
  obtain tmp s1 where t: "os_CreateTemp dir pre s = (Inr tmp, s1)" using CreateTemp_ok ok by blast
  have k1: "os_wf s1 \<and> os_env s1 = os_env s" by (rule os_keepsD[OF os_keeps_CreateTemp[OF pre] wf t])
  have loc: "loc s1 q = loc s q" for q using k1 loc_env by blast
  obtain x rs where c: "tmp = joinPath dir (pre @ decimal x)"
      "osat s (loc s dir @ [pre @ decimal x]) = None"
      "s1 = write_file (loc s dir @ [pre @ decimal x]) [] (umasked s 0x180) (s\<lparr>os_rands := rs\<rparr>)"
    by (rule CreateTemp_cases[OF t]) (auto intro: that)
  have lt: "loc s1 tmp = loc s dir @ [pre @ decimal x]"
    using loc_joinPath[OF wf dir plain_temp[OF pre]] loc c(1) by simp
  have s1: "osat s1 = (osat s)(loc s1 tmp \<mapsto> IFile [] (umasked s 0x180))"
    unfolding lt unfolding c(3) by (subst osat_write_file) (use c ok in auto)
  let ?steps = "bindE (onErrE (tmp_Write tmp content) (tmp_Close tmp)) (\<lambda>_.
          bindE (tmp_Close tmp) (\<lambda>_. fin tmp))"
  obtain r s2 where st: "?steps s1 = (r, s2)" by (cases "?steps s1")
  have "no_faults s1" using ok(1) k1 no_faults_env by blast
  then obtain b' m' where s2: "os_env s2 = os_env s1" "osat s2 = (osat s)(loc s1 tmp \<mapsto> IFile b' m')" "r = Inr ()"
    using fill_steps[OF _ fin s1 st] k1 by (auto simp: no_faults_def)
  have loc2: "loc s2 q = loc s q" for q using s2(1) k1 loc_env by metis
  have nf2: "no_faults s2" using ok(1) k1 s2(1) no_faults_env by metis
  have ne: "loc s target \<noteq> loc s1 tmp" using p(1) lt by simp
  have bl: "butlast (loc s target) \<noteq> loc s1 tmp" using lt ok(6) by simp
  have "\<exists>s3. os_Rename tmp target s2 = (Inr (), s3)"
    by (rule Rename_ok[OF nf2, of tmp b' m']) (use s2(2) loc2 loc ok ne bl p(2) in auto)
  then obtain s3 where "os_Rename tmp target s2 = (Inr (), s3)" by blast
  then show ?thesis using t st s2(3) by (simp add: fill_and_rename_alt deferE_def)
qed

section \<open>Where a program leaves the tree alone\<close>

text \<open>
  \<open>os_frame P wd m\<close>: in a process whose working directory is \<open>wd\<close>, \<open>m\<close> changes nothing at
  the paths in \<open>P\<close>, whether it returns or fails.
\<close>

definition os_frame :: "(string list \<Rightarrow> bool) \<Rightarrow> string \<Rightarrow> (os, 'a) prog \<Rightarrow> bool" where
  "os_frame P wd m \<longleftrightarrow>
     (\<forall>s. os_cwd s = wd \<longrightarrow> os_cwd (snd (m s)) = wd \<and> (\<forall>q. P q \<longrightarrow> osat (snd (m s)) q = osat s q))"

named_theorems frame_rule

lemma look_graft_frame: "\<not> prefix p q \<Longrightarrow> look (graft t p x) q = look t q"
proof (induction t p x arbitrary: q rule: graft.induct)
  case (2 es c x)
  then show ?case by (cases q) (auto split: option.splits)
next
  case (3 es c d cs x)
  show ?case
  proof (cases "map_of es c")
    case None
    then show ?thesis by simp
  next
    case (Some m)
    then show ?thesis using 3 by (cases q) auto
  qed
qed auto

lemma osat_set_graft: "\<not> prefix p q \<Longrightarrow> osat (set_tree (graft t p x) s) q = osat (set_tree t s) q"
  using look_graft_frame[of p q t x] by (simp add: osat_def set_tree_def)

lemma osat_set_tree_same [simp]: "osat (set_tree (os_tree s) s) = osat s"
  by (rule ext) (simp add: osat_def set_tree_def)

lemma frame_ret [frame_rule]: "os_frame P wd (retE a)" "os_frame P wd (throwE e)" "os_frame P wd (readE g)"
  by (simp_all add: os_frame_def)

lemma frame_bind [frame_rule]:
  "os_frame P wd m \<Longrightarrow> (\<And>a. os_frame P wd (f a)) \<Longrightarrow> os_frame P wd (bindE m f)"
  unfolding os_frame_def bindE_def by (auto split: prod.split sum.split)

lemma frame_defer [frame_rule]: "os_frame P wd m \<Longrightarrow> os_frame P wd c \<Longrightarrow> os_frame P wd (deferE m c)"
  unfolding os_frame_def deferE_def by (auto split: prod.split)

lemma frame_onErr [frame_rule]: "os_frame P wd m \<Longrightarrow> os_frame P wd c \<Longrightarrow> os_frame P wd (onErrE m c)"
  unfolding os_frame_def onErrE_def by (auto split: prod.split sum.split)

lemma frame_try [frame_rule]: "os_frame P wd m \<Longrightarrow> os_frame P wd (tryE m)"
  unfolding os_frame_def tryE_def by (auto split: prod.split)

lemma frame_sys [frame_rule]: "os_frame P wd m \<Longrightarrow> os_frame P wd (sys c p m)"
  by (auto simp: os_frame_def sys_def split: option.split)

lemma os_cwd_write_file [simp]: "os_cwd (write_file q b m s) = os_cwd s"
  by (simp add: write_file_def set_tree_def)

lemma os_cwd_set_tree [simp]: "os_cwd (set_tree t s) = os_cwd s"
  by (simp add: set_tree_def)

lemma osat_write_frame: "\<not> prefix p q \<Longrightarrow> osat (write_file p b m s) q = osat s q"
  by (simp add: write_file_def osat_set_graft)

lemma frame_tmp_Write [frame_rule]:
  "(\<And>q. P q \<Longrightarrow> \<not> prefix (locate wd p) q) \<Longrightarrow> os_frame P wd (tmp_Write p b)"
  by (auto simp: os_frame_def tmp_Write_def loc_def osat_write_frame
      split: sum.split info.split option.split)

lemma frame_Close [frame_rule]: "os_frame P wd (tmp_Close p)"
  unfolding tmp_Close_def by (intro frame_sys frame_ret)

lemma frame_Chmod [frame_rule]:
  "(\<And>q. P q \<Longrightarrow> \<not> prefix (locate wd p) q) \<Longrightarrow> os_frame P wd (os_Chmod p m)"
  unfolding os_Chmod_def
  by (rule frame_sys) (auto simp: os_frame_def loc_def osat_write_frame split: sum.split info.split)

lemma frame_Remove [frame_rule]:
  "(\<And>q. P q \<Longrightarrow> \<not> prefix (locate wd p) q) \<Longrightarrow> os_frame P wd (os_Remove p)"
  unfolding os_Remove_def
  by (rule frame_sys)
     (auto simp: os_frame_def loc_def osat_set_graft split: sum.split node.split list.split)

lemma frame_Rename [frame_rule]:
  "(\<And>q. P q \<Longrightarrow> \<not> prefix (locate wd old) q) \<Longrightarrow> (\<And>q. P q \<Longrightarrow> \<not> prefix (locate wd new) q) \<Longrightarrow>
   os_frame P wd (os_Rename old new)"
  unfolding os_Rename_def
  by (rule frame_sys) (auto simp: os_frame_def loc_def osat_set_graft split: sum.split)

lemma frame_fill_and_rename:
  assumes "\<And>q. P q \<Longrightarrow> \<not> prefix (locate wd tmp) q" "\<And>q. P q \<Longrightarrow> \<not> prefix (locate wd target) q"
    and "os_frame P wd (fin tmp)"
  shows "os_frame P wd (fill_and_rename fin content target tmp)"
  unfolding fill_and_rename_def using assms by (intro frame_rule) auto

lemma frame_atomic_write:
  assumes wf: "os_wf s" and pre: "slash \<notin> set pre" "2 < length pre" and dir: "dir \<noteq> ''''"
    and d: "\<And>q x. P q \<Longrightarrow> \<not> prefix (loc s dir @ [pre @ decimal x]) q" and t: "\<And>q. P q \<Longrightarrow> \<not> prefix (loc s target) q"
    and fin: "\<And>tmp. (\<And>q. P q \<Longrightarrow> \<not> prefix (locate (os_cwd s) tmp) q) \<Longrightarrow> os_frame P (os_cwd s) (fin tmp)"
    and run: "bindE (os_CreateTemp dir pre) (fill_and_rename fin content target) s = (r, s')"
    and q: "P q"
  shows "osat s' q = osat s q"
proof -
  obtain rt s1 where c: "os_CreateTemp dir pre s = (rt, s1)" by (cases "os_CreateTemp dir pre s")
  show ?thesis
  proof (rule CreateTemp_cases[OF c])
    fix e rs assume "rt = Inl e" "s1 = s\<lparr>os_rands := rs\<rparr>"
    then show ?thesis using run c by auto
  next
    fix x rs
    let ?t = "loc s dir @ [pre @ decimal x]"
    assume a: "rt = Inr (joinPath dir (pre @ decimal x))"
      "s1 = write_file ?t [] (umasked s 0x180) (s\<lparr>os_rands := rs\<rparr>)"
    have cwd: "os_cwd s1 = os_cwd s" by (simp add: a(2))
    have lt: "locate (os_cwd s) (joinPath dir (pre @ decimal x)) = ?t"
      using loc_joinPath[OF wf dir plain_temp[OF pre]] by (simp add: loc_def)
    have "os_frame P (os_cwd s) (fill_and_rename fin content target (joinPath dir (pre @ decimal x)))"
      by (rule frame_fill_and_rename; (rule fin)?) (use d t lt in \<open>simp_all add: loc_def\<close>)
    moreover have "fill_and_rename fin content target (joinPath dir (pre @ decimal x)) s1 = (r, s')"
      using run c a(1) by simp
    ultimately have "osat s' q = osat s1 q" using q cwd by (auto simp: os_frame_def)
    also have "\<dots> = osat s q" using d[OF q] by (simp add: a(2) osat_write_frame)
    finally show ?thesis .
  qed
qed

end
