(* ===== verification/Fsstore.thy ===== *)
theory Fsstore
  imports BlobStore AtomicWrite Fsutil
begin

text \<open>
  The server's storage, \<^verbatim>\<open>internal/adapters/workspace/fsstore\<close>: the content-addressed
  store (\<^verbatim>\<open>blobstore.go\<close>) and a session's workspace (\<^verbatim>\<open>workspace.go\<close>). The store
  implements the port \<open>blob_store\<close>; the properties describe each method on every branch,
  the exact content of a materialized workspace, and that no manifest makes it write
  elsewhere.
\<close>

section \<open>blobstore.go\<close>

record BlobStore =
  bs_dir :: string

definition NewBlobStore :: "string \<Rightarrow> (os, BlobStore) prog" where
  "NewBlobStore dir = bindE (os_MkdirAll dir) (\<lambda>_. retE \<lparr>bs_dir = dir\<rparr>)"

definition bs_path :: "BlobStore \<Rightarrow> string \<Rightarrow> string" where
  "bs_path b hash = Join [bs_dir b, hash]"

definition bs_Has :: "BlobStore \<Rightarrow> string \<Rightarrow> (os, bool) prog" where
  "bs_Has b hash =
     (if \<not> validHash hash then throwE (InvalidHash hash)
      else bindE (tryE (os_Stat (bs_path b hash))) (\<lambda>r.
        case r of
          Inr _ \<Rightarrow> retE True
        | Inl e \<Rightarrow> if IsNotExist e then retE False else throwE e))"

definition bs_Put :: "BlobStore \<Rightarrow> string \<Rightarrow> bytes \<Rightarrow> (os, unit) prog" where
  "bs_Put b hash content =
     (if \<not> validHash hash then throwE (InvalidHash hash)
      else let got = HashContent content in
      if got \<noteq> hash then throwE (HashMismatch got hash)
      else bindE (os_CreateTemp (bs_dir b) ''.tmp-'') (\<lambda>tmpName.
        deferE
          (bindE (onErrE (tmp_Write tmpName content) (tmp_Close tmpName)) (\<lambda>_.
           bindE (tmp_Close tmpName) (\<lambda>_.
           os_Rename tmpName (bs_path b hash))))
          (os_Remove tmpName)))"

definition bs_Get :: "BlobStore \<Rightarrow> string \<Rightarrow> (os, bytes) prog" where
  "bs_Get b hash =
     (if \<not> validHash hash then throwE (InvalidHash hash) else os_ReadFile (bs_path b hash))"

definition fs_port :: "BlobStore \<Rightarrow> os BlobStorePort" where
  "fs_port b = \<lparr>Has = bs_Has b, Put = bs_Put b, Get = bs_Get b\<rparr>"

subsection \<open>Paths of the store\<close>

lemma validHash_plain:
  assumes "validHash h"
  shows "plain_name h" "\<not> IsAbs h" "path_comps h = [h]" "Clean h = h" "\<not> prefix ''.'' h"
proof -
  have len: "length h = 64" and all: "\<forall>c \<in> set h. CHR ''0'' \<le> c \<and> c \<le> CHR ''9'' \<or> CHR ''a'' \<le> c \<and> c \<le> CHR ''f''"
    using assms by (auto simp: validHash_def)
  have out: "\<not> (CHR ''0'' \<le> slash \<and> slash \<le> CHR ''9'' \<or> CHR ''a'' \<le> slash \<and> slash \<le> CHR ''f'')"
    "\<not> (CHR ''0'' \<le> CHR ''.'' \<and> CHR ''.'' \<le> CHR ''9'' \<or> CHR ''a'' \<le> CHR ''.'' \<and> CHR ''.'' \<le> CHR ''f'')"
    by code_simp+
  have ns: "slash \<notin> set h" and nd: "CHR ''.'' \<notin> set h"
    using all out by blast+
  then obtain c t where h: "h = c # t" using len by (cases h) auto
  show pl: "plain_name h" using ns nd h by (auto simp: plain_name_def)
  show abs: "\<not> IsAbs h" using ns h by auto
  show "\<not> prefix ''.'' h" using nd h by auto
  show pc: "path_comps h = [h]" using pl abs ns
    by (simp add: path_comps_def split_on_id clean_step_plain)
  show "Clean h = h" using pc abs by (simp add: Clean_def)
qed

definition bs_loc :: "BlobStore \<Rightarrow> os \<Rightarrow> string \<Rightarrow> string list" where
  "bs_loc b s h = loc s (bs_dir b) @ [h]"

lemma loc_bs_path: "os_wf s \<Longrightarrow> validHash h \<Longrightarrow> loc s (bs_path b h) = bs_loc b s h"
  using locate_Join[of "os_cwd s" h "bs_dir b"] validHash_plain[of h]
  by (simp add: bs_path_def loc_def bs_loc_def os_wf_def)

lemma bs_loc_env: "os_env s' = os_env s \<Longrightarrow> bs_loc b s' = bs_loc b s"
  using loc_env[of s' s] by (simp add: bs_loc_def fun_eq_iff)

lemma bs_loc_temp: "validHash h \<Longrightarrow> bs_loc b s h \<noteq> loc s (bs_dir b) @ [''.tmp-'' @ decimal x]"
  using validHash_plain(5)[of h] by (auto simp: bs_loc_def)

subsection \<open>What the store holds\<close>

definition bs_held :: "BlobStore \<Rightarrow> os \<Rightarrow> string \<rightharpoonup> bytes" where
  "bs_held b s h =
     (if validHash h
      then (case osat s (bs_loc b s h) of Some (IFile c m) \<Rightarrow> Some c | _ \<Rightarrow> None)
      else None)"

text \<open>The store's invariant: every name that is a hash is a file with that hash.\<close>

definition bs_inv :: "BlobStore \<Rightarrow> os \<Rightarrow> bool" where
  "bs_inv b s \<longleftrightarrow> os_wf s \<and> bs_dir b \<noteq> '''' \<and>
     (\<forall>h i. validHash h \<longrightarrow> osat s (bs_loc b s h) = Some i \<longrightarrow>
        (\<exists>c m. i = IFile c m \<and> HashContent c = h))"

lemma bs_inv_held:
  "bs_inv b s \<Longrightarrow> validHash h \<Longrightarrow> osat s (bs_loc b s h) \<noteq> None \<longleftrightarrow> bs_held b s h \<noteq> None"
  by (cases "osat s (bs_loc b s h)") (fastforce simp: bs_inv_def bs_held_def)+

lemma bs_inv_hash: "bs_inv b s \<Longrightarrow> bs_held b s h = Some c \<Longrightarrow> HashContent c = h"
  by (fastforce simp: bs_inv_def bs_held_def split: if_splits option.splits info.splits)

text \<open>The store sees only its own names.\<close>

lemma bs_frame:
  assumes "bs_inv b s" "os_wf s'" "os_env s' = os_env s"
    and "\<And>h. validHash h \<Longrightarrow> osat s' (bs_loc b s h) = osat s (bs_loc b s h)"
  shows "bs_inv b s'" "bs_held b s' = bs_held b s"
  using assms bs_loc_env[OF assms(3)] by (auto simp: bs_inv_def bs_held_def fun_eq_iff)

lemma bs_Put_alt:
  "bs_Put b h c =
     (if \<not> validHash h then throwE (InvalidHash h)
      else if HashContent c \<noteq> h then throwE (HashMismatch (HashContent c) h)
      else bindE (os_CreateTemp (bs_dir b) ''.tmp-'')
             (fill_and_rename (\<lambda>_. retE ()) c (bs_path b h)))"
  by (simp add: bs_Put_def fill_and_rename_def [abs_def] Let_def)

lemma os_keeps_Put: "os_keeps (bs_Put b h c)"
  unfolding bs_Put_alt fill_and_rename_def by (auto intro!: os_keeps_rule split: if_split)

lemma Put_writes:
  assumes wf: "os_wf s" and dir: "bs_dir b \<noteq> ''''" and hash: "HashContent c = h" and run: "bs_Put b h c s = (r, s')"
  shows "os_wf s' \<and> os_env s' = os_env s \<and>
    (case r of Inl e \<Rightarrow> \<exists>x. but_for s (loc s (bs_dir b) @ [''.tmp-'' @ decimal x]) s'
     | Inr _ \<Rightarrow> osat s' = (osat s)(bs_loc b s h \<mapsto> IFile c (umasked s 0x180)))"
proof -
  have h: "validHash h" using hash validHash_HashContent[of c] by simp
  have l: "loc s (bs_path b h) = bs_loc b s h" by (rule loc_bs_path[OF wf h])
  have "bindE (os_CreateTemp (bs_dir b) ''.tmp-'') (fill_and_rename (\<lambda>_. retE ()) c (bs_path b h)) s = (r, s')"
    using run h hash by (simp add: bs_Put_alt)
  from atomic_write[OF wf sets_mode_ret _ _ dir _ _ this] show ?thesis
    using bs_loc_temp[OF h] l by (auto simp: bs_loc_def split: sum.splits)
qed

lemma Put_file:
  assumes "bs_inv b s" and "HashContent c = h" and "bs_Put b h c s = (r, s')"
  shows "os_wf s' \<and> os_env s' = os_env s \<and>
    (case r of Inl e \<Rightarrow> \<exists>x. but_for s (loc s (bs_dir b) @ [''.tmp-'' @ decimal x]) s'
     | Inr _ \<Rightarrow> osat s' = (osat s)(bs_loc b s h \<mapsto> IFile c (umasked s 0x180)))"
  using Put_writes[OF _ _ assms(2,3)] assms(1) by (simp add: bs_inv_def)

lemma but_for_temp:
  assumes "but_for s (loc s (bs_dir b) @ [''.tmp-'' @ decimal x]) s'" "validHash h"
  shows "osat s' (bs_loc b s h) = osat s (bs_loc b s h)"
  using assms bs_loc_temp[OF assms(2)] by (auto simp: but_for_def)

lemma Put_refused: "HashContent c \<noteq> h \<Longrightarrow> \<exists>e. bs_Put b h c s = (Inl e, s)"
  by (simp add: bs_Put_alt)

text \<open>Whatever the rest of the directory holds, a name that is a hash only ever gets a content with
  that hash.\<close>

lemma Put_held:
  assumes "os_wf s" "bs_dir b \<noteq> ''''" "validHash h"
  shows "osat (snd (bs_Put b k c s)) (bs_loc b s h) = osat s (bs_loc b s h) \<or>
    HashContent c = h \<and> (\<exists>m. osat (snd (bs_Put b k c s)) (bs_loc b s h) = Some (IFile c m))"
proof (cases "HashContent c = k")
  case False
  then show ?thesis using Put_refused[OF False, of b s] by auto
next
  case True
  obtain r s' where run: "bs_Put b k c s = (r, s')" by (metis prod.collapse)
  show ?thesis
  proof (cases r)
    case (Inl e)
    then show ?thesis using Put_writes[OF assms(1,2) True run] but_for_temp[OF _ assms(3)] run by auto
  next
    case (Inr u)
    then have "osat s' = (osat s)(bs_loc b s k \<mapsto> IFile c (umasked s 0x180))"
      using Put_writes[OF assms(1,2) True run] by simp
    then show ?thesis using run True by (auto simp: bs_loc_def)
  qed
qed

definition held_sound :: "BlobStore \<Rightarrow> os \<Rightarrow> string \<Rightarrow> bool" where
  "held_sound b s h \<longleftrightarrow> (\<forall>c. bs_held b s h = Some c \<longrightarrow> HashContent c = h)"

text \<open>The file of one hash, across a step that leaves it alone or is a \<open>Put\<close>.\<close>

lemma held_frame:
  assumes "osat s' (bs_loc b s h) = osat s (bs_loc b s h) \<or>
      HashContent c = h \<and> (\<exists>m. osat s' (bs_loc b s h) = Some (IFile c m))"
    and "os_env s' = os_env s" "validHash h" "held_sound b s h"
  shows "held_sound b s' h" "bs_held b s h \<noteq> None \<Longrightarrow> bs_held b s' h \<noteq> None"
  using assms bs_loc_env[OF assms(2)] by (auto simp: held_sound_def bs_held_def)

lemma held_invalid: "\<not> validHash h \<Longrightarrow> bs_held b s h = None"
  by (simp add: bs_held_def)

lemma Has_eval:
  "bs_Has b h s = (if \<not> validHash h then (Inl (InvalidHash h), s)
     else (case fst (os_Stat (bs_path b h) s) of Inr _ \<Rightarrow> (Inr True, s)
           | Inl e \<Rightarrow> if IsNotExist e then (Inr False, s) else (Inl e, s)))"
  using Stat_state[of "bs_path b h" s]
  by (cases "os_Stat (bs_path b h) s") (auto simp: bs_Has_def split: sum.split)

interpretation fs: blob_store "fs_port b" "bs_inv b" "bs_held b" for b
proof
  fix h s
  show "snd (Has (fs_port b) h s) = s"
    by (simp add: fs_port_def Has_eval split: sum.split)
  show "snd (Get (fs_port b) h s) = s"
    by (simp add: fs_port_def bs_Get_def ReadFile_state)
next
  fix s h x assume inv: "bs_inv b s" and run: "fst (Has (fs_port b) h s) = Inr x"
  then have wf: "os_wf s" and h: "validHash h"
    by (auto simp: bs_inv_def fs_port_def Has_eval split: if_splits)
  have l: "loc s (bs_path b h) = bs_loc b s h" by (rule loc_bs_path[OF wf h])
  show "x \<longleftrightarrow> bs_held b s h \<noteq> None"
    using run h Stat_Inr[of "bs_path b h" s] Stat_IsNotExist[of "bs_path b h" s] wf l
      bs_inv_held[OF inv h]
    by (cases "fst (os_Stat (bs_path b h) s)") (auto simp: fs_port_def Has_eval split: if_splits)
next
  fix s h c u s' assume inv: "bs_inv b s" and run: "Put (fs_port b) h c s = (Inr u, s')"
  then have put: "bs_Put b h c s = (Inr u, s')" by (simp add: fs_port_def)
  then have hash: "HashContent c = h" using Put_refused[of c h b s] by auto
  then have h: "validHash h" using validHash_HashContent[of c] by simp
  have r: "os_wf s'" "os_env s' = os_env s" "osat s' = (osat s)(bs_loc b s h \<mapsto> IFile c (umasked s 0x180))"
    using Put_file[OF inv hash put] by auto
  have neq: "bs_loc b s k = bs_loc b s h \<longleftrightarrow> k = h" for k by (simp add: bs_loc_def)
  show "bs_inv b s' \<and> bs_held b s' = (bs_held b s)(h \<mapsto> c) \<and> HashContent c = h"
    using inv r hash h bs_loc_env[OF r(2)] neq
    by (auto simp: bs_inv_def bs_held_def fun_eq_iff)
next
  fix s h c e s' assume inv: "bs_inv b s" and run: "Put (fs_port b) h c s = (Inl e, s')"
  then have put: "bs_Put b h c s = (Inl e, s')" by (simp add: fs_port_def)
  show "bs_inv b s' \<and> bs_held b s' = bs_held b s"
  proof (cases "HashContent c = h")
    case False
    then show ?thesis using Put_refused[OF False, of b s] put inv by simp
  next
    case True
    then have "os_wf s'" "os_env s' = os_env s"
      "\<exists>x. but_for s (loc s (bs_dir b) @ [''.tmp-'' @ decimal x]) s'"
      using Put_file[OF inv True put] by auto
    then show ?thesis using bs_frame[OF inv] but_for_temp by blast
  qed
next
  fix s h c assume inv: "bs_inv b s" and run: "fst (Get (fs_port b) h s) = Inr c"
  then have h: "validHash h" and wf: "os_wf s"
    by (auto simp: fs_port_def bs_Get_def bs_inv_def split: if_splits)
  have "fst (os_ReadFile (bs_path b h) s) = Inr c" using run h by (simp add: fs_port_def bs_Get_def)
  then show "bs_held b s h = Some c"
    using ReadFile_Inr[of "bs_path b h" s c] loc_bs_path[OF wf h] h by (auto simp: bs_held_def)
next
  fix s h c assume "bs_inv b s" "bs_held b s h = Some c"
  then show "HashContent c = h" by (rule bs_inv_hash)
qed

definition temp_loc :: "BlobStore \<Rightarrow> os \<Rightarrow> nat \<Rightarrow> string list" where
  "temp_loc b s x = loc s (bs_dir b) @ [''.tmp-'' @ decimal x]"

subsection \<open>Properties of the store\<close>

text \<open>
  C14. \<open>Put\<close> on every branch. A content that does not match its hash is refused and nothing
  changes. Otherwise \<open>Put\<close> either returns and the only change to the file system is that the
  file of that name holds exactly the content, or it fails and every file is as before, except
  that a temporary file may be left over: no reader ever sees a partial blob.
\<close>

theorem blob_put_atomic:
  assumes "bs_inv b s" and "bs_Put b h c s = (r, s')"
  shows "if HashContent c \<noteq> h then s' = s \<and> (\<exists>e. r = Inl e)
    else (case r of
        Inr _ \<Rightarrow> osat s' = (osat s)(bs_loc b s h \<mapsto> IFile c (umasked s 0x180))
      | Inl _ \<Rightarrow> osat s' = osat s \<or>
          (\<exists>x c' m. osat s (temp_loc b s x) = None \<and> osat s' = (osat s)(temp_loc b s x \<mapsto> IFile c' m)))"
proof (cases "HashContent c = h")
  case False
  then show ?thesis using Put_refused[OF False, of b s] assms(2) by auto
next
  case True
  then show ?thesis using Put_file[OF assms(1) True assms(2)]
    by (cases r) (auto simp: but_for_def temp_loc_def)
qed

text \<open>
  The store's invariant: whatever is put, and whether the put succeeds or fails, every
  file whose name is a hash has content with that hash; a content once held stays held; and
  what \<open>Get\<close> returns for a hash always has that hash.
\<close>

theorem blob_store_invariant:
  assumes "bs_inv b s"
  shows "bs_inv b (snd (bs_Put b h c s)) \<and>
    (bs_held b s k = Some d \<longrightarrow>
      (\<exists>d'. bs_held b (snd (bs_Put b h c s)) k = Some d' \<and> HashContent d' = k)) \<and>
    (fst (bs_Get b k s) = Inr d \<longrightarrow> HashContent d = k)"
  using fs.put_inv[OF assms, of h c] fs.put_keeps[OF assms, of k d h c] fs.get_ok[OF assms, of k d]
    fs.held_hash[OF assms, of k d] by (auto simp: fs_port_def)

lemma bs_Put_ok:
  assumes "bs_inv b s" "no_faults s" "osat s (loc s (bs_dir b)) = Some IDir"
    "temp_free s (loc s (bs_dir b)) ''.tmp-''" "HashContent c = h"
  shows "\<exists>s'. bs_Put b h c s = (Inr (), s')"
proof -
  have h: "validHash h" using assms(5) validHash_HashContent[of c] by simp
  have wf: "os_wf s" and dir: "bs_dir b \<noteq> ''''" using assms(1) by (auto simp: bs_inv_def)
  have l: "loc s (bs_path b h) = bs_loc b s h" by (rule loc_bs_path[OF wf h])
  have nd: "osat s (bs_loc b s h) \<noteq> Some IDir" using assms(1) h by (fastforce simp: bs_inv_def)
  have "\<exists>s'. bindE (os_CreateTemp (bs_dir b) ''.tmp-'')
      (fill_and_rename (\<lambda>_. retE ()) c (bs_path b h)) s = (Inr (), s')"
    by (rule atomic_write_ok[OF wf sets_mode_ret _ _ dir])
       (use bs_loc_temp[OF h] l nd assms in \<open>auto simp: bs_loc_def\<close>)
  then show ?thesis using h assms(5) by (simp add: bs_Put_alt)
qed

text \<open>
  Round trip. Where no call fails and a temporary name is free, storing a content under
  its hash succeeds, and afterwards \<open>Has\<close> says the hash is there and \<open>Get\<close> returns exactly
  the content.
\<close>

theorem blob_put_get_roundtrip:
  assumes "bs_inv b s" and "no_faults s" and "osat s (loc s (bs_dir b)) = Some IDir"
    and "temp_free s (loc s (bs_dir b)) ''.tmp-''"
  shows "\<exists>s'. bs_Put b (HashContent c) c s = (Inr (), s') \<and>
    bs_Has b (HashContent c) s' = (Inr True, s') \<and> bs_Get b (HashContent c) s' = (Inr c, s')"
proof -
  let ?h = "HashContent c"
  obtain s' where put: "bs_Put b ?h c s = (Inr (), s')" using bs_Put_ok[OF assms refl] by blast
  have r: "os_wf s'" "os_env s' = os_env s" "osat s' = (osat s)(bs_loc b s ?h \<mapsto> IFile c (umasked s 0x180))"
    using Put_file[OF assms(1) refl put] by auto
  have l: "loc s' (bs_path b ?h) = bs_loc b s ?h"
    using loc_bs_path[OF r(1), of ?h] bs_loc_env[OF r(2)] by simp
  have nf: "no_faults s'" using no_faults_env[OF r(2)] assms(2) by simp
  have at: "osat s' (loc s' (bs_path b ?h)) = Some (IFile c (umasked s 0x180))" using l r(3) by simp
  have "bs_Get b ?h s' = (Inr c, s')"
    using ReadFile_file[OF at] nf by (simp add: bs_Get_def no_faults_def)
  moreover have "os_Stat (bs_path b ?h) s' = (Inr (IFile c (umasked s 0x180)), s')"
    using at nf by (simp add: os_Stat_def sys_def no_faults_def osat_Some)
  then have "bs_Has b ?h s' = (Inr True, s')" by (simp add: bs_Has_def)
  ultimately show ?thesis using put by blast
qed

definition demo_store :: BlobStore where
  "demo_store = \<lparr>bs_dir = ''/o''\<rparr>"

definition demo_store_os :: os where
  "demo_store_os = demo_os (NDir [(''o'', NDir []), (''w'', NDir [])])"

lemma demo_store_facts:
  "bs_inv demo_store demo_store_os" "no_faults demo_store_os"
  "osat demo_store_os (loc demo_store_os (bs_dir demo_store)) = Some IDir"
  "temp_free demo_store_os (loc demo_store_os (bs_dir demo_store)) ''.tmp-''"
proof -
  have l: "loc demo_store_os ''/o'' = [''o'']" by code_simp
  have o: "osat demo_store_os [''o''] = Some IDir" by code_simp
  have e: "osat demo_store_os ([''o''] @ [c]) = None" for c
    by (simp add: demo_store_os_def osat_def)
  have "wf_node (os_tree demo_store_os)" by code_simp
  then have wf: "os_wf demo_store_os"
    by (simp add: os_wf_def demo_store_os_def osat_def)
  show "bs_inv demo_store demo_store_os"
    using wf e by (auto simp: bs_inv_def bs_loc_def demo_store_def l)
  show "no_faults demo_store_os" by (simp add: no_faults_def demo_store_os_def)
  show "osat demo_store_os (loc demo_store_os (bs_dir demo_store)) = Some IDir"
    using o by (simp add: demo_store_def l)
  show "temp_free demo_store_os (loc demo_store_os (bs_dir demo_store)) ''.tmp-''"
  proof -
    have "7 \<in> set (os_rands demo_store_os)" by (simp add: demo_store_os_def demo_os_def)
    then show ?thesis using e by (auto simp: temp_free_def demo_store_def l)
  qed
qed

theorem blob_put_get_roundtrip_witness:
  "\<exists>s'. bs_Put demo_store (HashContent [1]) [1] demo_store_os = (Inr (), s') \<and>
    bs_Has demo_store (HashContent [1]) s' = (Inr True, s') \<and>
    bs_Get demo_store (HashContent [1]) s' = (Inr [1], s')"
  by (rule blob_put_get_roundtrip [OF demo_store_facts])

theorem blob_store_invariant_witness:
  "bs_inv demo_store (snd (bs_Put demo_store (HashContent [1]) [1] demo_store_os))"
  using blob_store_invariant [OF demo_store_facts(1), of "HashContent [1]" "[1]"] by blast

theorem blob_put_atomic_witness:
  "\<exists>s'. bs_Put demo_store (HashContent [1]) [1] demo_store_os = (Inr (), s') \<and>
     osat s' = (osat demo_store_os)
       (bs_loc demo_store demo_store_os (HashContent [1]) \<mapsto> IFile [1] (umasked demo_store_os 0x180))"
proof -
  obtain s' where put: "bs_Put demo_store (HashContent [1]) [1] demo_store_os = (Inr (), s')"
    using bs_Put_ok[OF demo_store_facts refl] by blast
  show ?thesis using blob_put_atomic [OF demo_store_facts(1) put] put by simp
qed

section \<open>workspace.go\<close>

record Workspace =
  ws_dir :: string

definition NewWorkspace :: "string \<Rightarrow> (os, Workspace) prog" where
  "NewWorkspace dir =
     bindE (os_RemoveAll dir) (\<lambda>_.
     bindE (os_MkdirAll dir) (\<lambda>_.
     retE \<lparr>ws_dir = dir\<rparr>))"

text \<open>The body of the loop of \<^verbatim>\<open>Materialize\<close>; \<open>get\<close> is the store's \<^verbatim>\<open>Get\<close>.\<close>

definition materialize_entry ::
  "Workspace \<Rightarrow> (string \<Rightarrow> (os, bytes) prog) \<Rightarrow> FileEntry \<Rightarrow> (os, unit) prog" where
  "materialize_entry w get e =
     bindE (SafeJoin_os (ws_dir w) (fe_Path e)) (\<lambda>dst.
     bindE (os_MkdirAll (Dir dst)) (\<lambda>_.
     bindE (get (fe_Hash e)) (\<lambda>content.
     os_WriteFile dst content (file_mode (fe_Mode e)))))"

definition ws_Materialize :: "Workspace \<Rightarrow> os BlobStorePort \<Rightarrow> Manifest \<Rightarrow> (os, unit) prog" where
  "ws_Materialize w blobs manifest = forE (Entries manifest) (materialize_entry w (Get blobs))"

definition ws_Snapshot :: "Workspace \<Rightarrow> (os, Manifest) prog" where
  "ws_Snapshot w = WalkManifest (ws_dir w) no_opts"

definition ws_ReadFile :: "Workspace \<Rightarrow> string \<Rightarrow> (os, bytes) prog" where
  "ws_ReadFile w path = bindE (SafeJoin_os (ws_dir w) path) os_ReadFile"

definition ws_Remove :: "Workspace \<Rightarrow> (os, unit) prog" where
  "ws_Remove w = os_RemoveAll (ws_dir w)"

lemma ws_ReadFile_state: "snd (ws_ReadFile ws path s) = s"
  using SafeJoin_os_state[of "ws_dir ws" path s] ReadFile_state
  by (cases "SafeJoin_os (ws_dir ws) path s"; cases "fst (SafeJoin_os (ws_dir ws) path s)")
     (auto simp: ws_ReadFile_def bindE_def)

subsection \<open>One entry\<close>

text \<open>
  The two outcomes of writing one entry to a workspace at \<open>root\<close>, in terms of what is at
  each path: on success the file is there and directories above it.
\<close>

lemma materialize_entry_cases:
  assumes wf: "os_wf s" and root: "osat s (loc s (ws_dir w)) = Some IDir" "IsAbs (ws_dir w)"
    and get: "\<And>h s. snd (get h s) = s"
    and run: "materialize_entry w get e s = (r, s')"
  obtains err where "r = Inl err" "os_wf s'" "os_env s' = os_env s"
      "\<forall>q. \<not> strict_prefix (loc s (ws_dir w)) q \<longrightarrow> osat s' q = osat s q"
  | c s1 where "r = Inr ()" "os_wf s'" "os_env s' = os_env s" "path_comps (fe_Path e) \<noteq> []"
      "fst (get (fe_Hash e) s1) = Inr c" "os_wf s1" "os_env s1 = os_env s"
      "\<And>q i. strict_prefix q (loc s (ws_dir w) @ path_comps (fe_Path e)) \<Longrightarrow> osat s q = Some i \<Longrightarrow> i = IDir"
      "osat s1 = (\<lambda>q. if strict_prefix q (loc s (ws_dir w) @ path_comps (fe_Path e)) then Some IDir else osat s q)"
      "osat s' = (osat s1)(loc s (ws_dir w) @ path_comps (fe_Path e) \<mapsto>
         IFile c (case osat s (loc s (ws_dir w) @ path_comps (fe_Path e)) of Some (IFile _ m) \<Rightarrow> m
           | _ \<Rightarrow> umasked s (file_mode (fe_Mode e))))"
      "\<forall>q. \<not> strict_prefix (loc s (ws_dir w)) q \<longrightarrow> osat s1 q = osat s q \<and> osat s' q = osat s q"
proof -
  let ?R = "loc s (ws_dir w)" and ?q = "path_comps (fe_Path e)"
  show thesis
  proof (cases "fst (SafeJoin_os (ws_dir w) (fe_Path e) s)")
    case (Inl x)
    then have "r = Inl x" "s' = s" using run SafeJoin_os_state[of "ws_dir w" "fe_Path e" s]
      by (cases "SafeJoin_os (ws_dir w) (fe_Path e) s", simp add: materialize_entry_def)+
    then show ?thesis using that(1) wf by simp
  next
    case (Inr dst)
    then have sj: "SafeJoin_os (ws_dir w) (fe_Path e) s = (Inr dst, s)"
      using SafeJoin_os_state[of "ws_dir w" "fe_Path e" s] by (metis prod.collapse)
    note dst = SafeJoin_os_Inr[OF wf sj]
    obtain rm s1 where m: "os_MkdirAll (Dir dst) s = (rm, s1)" by (cases "os_MkdirAll (Dir dst) s")
    show ?thesis
    proof (cases rm)
      case (Inl x)
      then have "s1 = s" by (cases rule: MkdirAll_cases[OF m]) auto
      then have "r = Inl x" "s' = s" using run sj m Inl by (simp_all add: materialize_entry_def)
      then show ?thesis using that(1) wf by simp
    next
      case (Inr u)
      then have m: "os_MkdirAll (Dir dst) s = (Inr (), s1)" using m by simp
      note mk = MkdirAll_parent[OF wf root sj m]
      obtain rg s2 where g: "get (fe_Hash e) s1 = (rg, s2)" by (cases "get (fe_Hash e) s1")
      have s2: "s2 = s1" using get[of "fe_Hash e" s1] g by simp
      show ?thesis
      proof (cases rg)
        case (Inl x)
        then have "r = Inl x" "s' = s1" using run sj m g s2 by (simp_all add: materialize_entry_def)
        then show ?thesis using that(1) mk by simp
      next
        case (Inr c)
        have wr: "os_WriteFile dst c (file_mode (fe_Mode e)) s1 = (r, s')"
          using run sj m g s2 Inr by (simp add: materialize_entry_def)
        have k: "os_wf s' \<and> os_env s' = os_env s1" by (rule os_keepsD[OF os_keeps_WriteFile mk(3) wr])
        have l1: "loc s1 dst = ?R @ ?q" using dst(2) loc_env[OF mk(4)] by simp
        have R1: "osat s1 ?R = Some IDir" using mk(1) root(1) by simp
        show ?thesis
        proof (rule WriteFile_cases[OF mk(3) wr])
          fix x
          assume x: "r = Inl x" "osat s' = osat s1 \<or> (\<exists>b' m. osat s' = (osat s1)(loc s1 dst \<mapsto> IFile b' m) \<and>
             osat s1 (loc s1 dst) \<noteq> Some IDir)"
          have "osat s' q = osat s q" if "\<not> strict_prefix ?R q" for q
            using x(2) mk(2)[OF that] l1 R1 that by (cases "?q = []") (auto simp: strict_prefix_def)
          then show ?thesis using that(1) x(1) k mk(4) by simp
        next
          fix m
          assume x: "r = Inr ()" "osat s1 (loc s1 dst) \<noteq> Some IDir" "osat s1 (butlast (loc s1 dst)) = Some IDir"
            "m = (case osat s1 (loc s1 dst) of Some (IFile _ m0) \<Rightarrow> m0 | _ \<Rightarrow> umasked s1 (file_mode (fe_Mode e)))"
            "osat s' = (osat s1)(loc s1 dst \<mapsto> IFile c m)"
          have ne: "?q \<noteq> []" using x(2) l1 R1 by auto
          have um: "umasked s1 = umasked s" using mk(4) by (simp add: os_env_def umasked_def fun_eq_iff)
          have "osat s1 (?R @ ?q) = osat s (?R @ ?q)" using mk(1) by simp
          moreover have "q \<noteq> ?R @ ?q" if "\<not> strict_prefix ?R q" for q
            using that ne by (auto simp: strict_prefix_def)
          ultimately show ?thesis using that(2)[OF x(1) _ _ ne _ mk(3,4,5,1)] mk(2) k mk(4) g Inr x(4)[unfolded um] x(5) l1
            by simp
        qed
      qed
    qed
  qed
qed

subsection \<open>Containment\<close>

lemma Materialize_outside:
  assumes "os_wf s" and "osat s (loc s (ws_dir w)) = Some IDir" and "IsAbs (ws_dir w)"
    and "\<forall>h t. snd (Get blobs h t) = t"
    and "ws_Materialize w blobs M s = (r, s')"
  shows "os_wf s' \<and> os_env s' = os_env s \<and> (\<forall>q. \<not> strict_prefix (loc s (ws_dir w)) q \<longrightarrow> osat s' q = osat s q)"
proof -
  define I where "I t \<longleftrightarrow> os_wf t \<and> os_env t = os_env s \<and>
      (\<forall>q. \<not> strict_prefix (loc s (ws_dir w)) q \<longrightarrow> osat t q = osat s q)" for t
  have step: "I t'" if "I t" "materialize_entry w (Get blobs) e t = (x, t')" for e t x t'
  proof -
    have t: "os_wf t" "osat t (loc t (ws_dir w)) = Some IDir" "loc t (ws_dir w) = loc s (ws_dir w)"
      using that(1) assms(2) loc_env[of t s "ws_dir w"] by (auto simp: I_def strict_prefix_def)
    show ?thesis
    proof (rule materialize_entry_cases[OF t(1,2) assms(3) _ that(2)])
      show "snd (Get blobs h s) = s" for h s using assms(4) by blast
    next
      fix err assume "os_wf t'" "os_env t' = os_env t"
        "\<forall>q. \<not> strict_prefix (loc t (ws_dir w)) q \<longrightarrow> osat t' q = osat t q"
      then show "I t'" using that(1) t(3) by (simp add: I_def)
    next
      fix s1
      assume "os_wf t'" "os_env t' = os_env t"
        "\<forall>q. \<not> strict_prefix (loc t (ws_dir w)) q \<longrightarrow> osat s1 q = osat t q \<and> osat t' q = osat t q"
      then show "I t'" using that(1) t(3) by (simp add: I_def)
    qed
  qed
  have "hoareE I (materialize_entry w (Get blobs) e) (\<lambda>_. I) I" for e
    using step by (intro hoareE_I) blast+
  then have "hoareE I (forE (Entries M) (materialize_entry w (Get blobs))) (\<lambda>_. I) I"
    by (intro hoareE_for)
  then have "I s'"
    using assms(1,5) by (auto simp: hoareE_def ws_Materialize_def I_def split: sum.splits)
  then show ?thesis by (simp add: I_def)
qed

text \<open>
  A manifest comes from the client, and the workspace it is written to is the only thing
  it can change: whatever paths, hashes and modes it lists, and whether materializing it
  succeeds or fails half way, everything that is not strictly below the workspace directory
  is as before.
\<close>

theorem materialize_contained:
  assumes "os_wf s" and "osat s (loc s (ws_dir w)) = Some IDir" and "IsAbs (ws_dir w)"
    and "\<forall>h t. snd (Get blobs h t) = t"
    and "ws_Materialize w blobs M s = (r, s')"
  shows "\<forall>q. \<not> strict_prefix (loc s (ws_dir w)) q \<longrightarrow> osat s' q = osat s q"
  using Materialize_outside[OF assms] by blast

subsection \<open>The materialized tree\<close>

text \<open>
  What the loop has established after the entries in \<open>es\<close>: each is a file with the content
  that the store holds for its hash, there is no other file, and nothing changed outside.
\<close>

definition materialized :: "os \<Rightarrow> BlobStore \<Rightarrow> string list \<Rightarrow> FileEntry list \<Rightarrow> os \<Rightarrow> bool" where
  "materialized s b R es s' \<longleftrightarrow>
     (\<forall>e \<in> set es. \<exists>c. bs_held b s (fe_Hash e) = Some c \<and>
        osat s' (R @ path_comps (fe_Path e)) = Some (IFile c (umasked s (file_mode (fe_Mode e))))) \<and>
     (\<forall>q c m. osat s' (R @ q) = Some (IFile c m) \<longrightarrow> (\<exists>e \<in> set es. q = path_comps (fe_Path e))) \<and>
     (\<forall>q. \<not> strict_prefix R q \<longrightarrow> osat s' q = osat s q)"

lemma materialized_step:
  assumes inv: "bs_inv b s" and sep: "\<not> prefix (loc s (ws_dir w)) (loc s (bs_dir b))"
    and abs: "IsAbs (ws_dir w)" and root: "osat s (loc s (ws_dir w)) = Some IDir"
    and t: "os_wf t" "os_env t = os_env s" "materialized s b (loc s (ws_dir w)) es t"
    and new: "path_comps (fe_Path e) \<notin> (path_comps \<circ> fe_Path) ` set es"
    and run: "materialize_entry w (Get (fs_port b)) e t = (Inr (), t')"
  shows "os_wf t' \<and> os_env t' = os_env s \<and> materialized s b (loc s (ws_dir w)) (es @ [e]) t'"
proof -
  let ?R = "loc s (ws_dir w)" and ?q = "path_comps (fe_Path e)"
  have loc: "loc t p = loc s p" for p using t(2) loc_env by blast
  have um: "umasked t = umasked s" using t(2) by (simp add: os_env_def umasked_def fun_eq_iff)
  have tR: "osat t (loc t (ws_dir w)) = Some IDir"
    using t(3) root loc by (auto simp: materialized_def strict_prefix_def)
  show ?thesis
  proof (rule materialize_entry_cases[OF t(1) tR abs fs.get_state run])
    fix err :: error assume "Inr () = (Inl err :: error + unit)"
    then show ?thesis by simp
  next
    fix c s1
    assume a: "os_wf t'" "os_env t' = os_env t" "?q \<noteq> []" "fst (Get (fs_port b) (fe_Hash e) s1) = Inr c"
      "os_wf s1" "os_env s1 = os_env t"
      "\<And>q i. strict_prefix q (loc t (ws_dir w) @ ?q) \<Longrightarrow> osat t q = Some i \<Longrightarrow> i = IDir"
      "osat s1 = (\<lambda>q. if strict_prefix q (loc t (ws_dir w) @ ?q) then Some IDir else osat t q)"
      "osat t' = (osat s1)(loc t (ws_dir w) @ ?q \<mapsto>
         IFile c (case osat t (loc t (ws_dir w) @ ?q) of Some (IFile _ m) \<Rightarrow> m
           | _ \<Rightarrow> umasked t (file_mode (fe_Mode e))))"
      "\<forall>q. \<not> strict_prefix (loc t (ws_dir w)) q \<longrightarrow> osat s1 q = osat t q \<and> osat t' q = osat t q"
    note [simp] = loc um
    have out: "osat s1 q = osat s q \<and> osat t' q = osat s q" if "\<not> strict_prefix ?R q" for q
      using t(3) a(10) that by (simp add: materialized_def)
    have "\<not> strict_prefix ?R (bs_loc b s h)" for h
      using sep by (auto simp: bs_loc_def strict_prefix_def)
    then have same: "osat s1 (bs_loc b s h) = osat s (bs_loc b s h)" for h using out by blast
    note s1 = bs_frame[OF inv a(5) _ same]
    have held: "bs_held b s (fe_Hash e) = Some c"
      using fs.get_ok[OF s1(1) a(4)] s1(2) a(6) t(2) by simp
    have old: "osat t' (?R @ q) = osat t (?R @ q)" if "osat t (?R @ q) = Some (IFile d m)" "q \<noteq> ?q" for q d m
      using a(7)[of "?R @ q"] a(8,9) that by auto
    have fresh: "osat t (?R @ ?q) \<noteq> Some (IFile d m)" for d m
    proof
      assume "osat t (?R @ ?q) = Some (IFile d m)"
      then obtain e' where "e' \<in> set es" "?q = path_comps (fe_Path e')"
        using t(3) unfolding materialized_def by blast
      then show False using new by force
    qed
    have at: "osat t' (?R @ ?q) = Some (IFile c (umasked s (file_mode (fe_Mode e))))"
      using a(9) fresh by (simp split: option.split info.split)
    have entries: "\<exists>c. bs_held b s (fe_Hash e') = Some c \<and>
        osat t' (?R @ path_comps (fe_Path e')) = Some (IFile c (umasked s (file_mode (fe_Mode e'))))"
      if e': "e' \<in> set (es @ [e])" for e'
    proof (cases "e' = e")
      case True
      then show ?thesis using held at by simp
    next
      case False
      then have "e' \<in> set es" using e' by simp
      moreover from this obtain c' where "bs_held b s (fe_Hash e') = Some c'"
        "osat t (?R @ path_comps (fe_Path e')) = Some (IFile c' (umasked s (file_mode (fe_Mode e'))))"
        using t(3) by (auto simp: materialized_def)
      moreover have "path_comps (fe_Path e') \<noteq> ?q"
        using imageI[OF calculation(1), of "path_comps \<circ> fe_Path"] new by auto
      ultimately show ?thesis using old by auto
    qed
    have files: "\<exists>e' \<in> set (es @ [e]). q = path_comps (fe_Path e')"
      if f: "osat t' (?R @ q) = Some (IFile d m)" for q d m
    proof (cases "q = ?q")
      case False
      then have "osat t (?R @ q) = Some (IFile d m)" using f a(8,9) by (auto split: if_splits)
      then show ?thesis using t(3) by (auto simp: materialized_def)
    qed auto
    have "materialized s b ?R (es @ [e]) t'" unfolding materialized_def
      by (intro conjI ballI allI impI; (erule entries | erule files | use out in blast))
    then show ?thesis using a(1,2) t(2) by simp
  qed
qed

lemma materialized_loop:
  assumes inv: "bs_inv b s" and sep: "\<not> prefix (loc s (ws_dir w)) (loc s (bs_dir b))"
    and abs: "IsAbs (ws_dir w)" and root: "osat s (loc s (ws_dir w)) = Some IDir"
  shows "os_wf t \<Longrightarrow> os_env t = os_env s \<Longrightarrow> materialized s b (loc s (ws_dir w)) done t \<Longrightarrow>
    distinct (map (path_comps \<circ> fe_Path) (done @ es)) \<Longrightarrow>
    forE es (materialize_entry w (Get (fs_port b))) t = (Inr (), s') \<Longrightarrow>
    os_wf s' \<and> os_env s' = os_env s \<and> materialized s b (loc s (ws_dir w)) (done @ es) s'"
proof (induction es arbitrary: t "done")
  case Nil
  then show ?case by simp
next
  case (Cons e es)
  obtain t1 where e: "materialize_entry w (Get (fs_port b)) e t = (Inr (), t1)"
    and rest: "forE es (materialize_entry w (Get (fs_port b))) t1 = (Inr (), s')"
    using Cons.prems(5) by (auto simp: bindE_Inr_iff)
  have "path_comps (fe_Path e) \<notin> (path_comps \<circ> fe_Path) ` set done"
    using Cons.prems(4) by auto
  note st = materialized_step[OF assms Cons.prems(1-3) this e]
  show ?case using Cons.IH[of t1 "done @ [e]"] st Cons.prems(4) rest by simp
qed

text \<open>
  C13. The workspace is the snapshot. When a manifest whose paths name distinct files is
  materialized in an empty workspace and the call returns, the regular files of the workspace
  are exactly the manifest's: each has the content that the store holds for its hash and the
  manifest's permission bits (0644 if they are 0) under the umask; and nothing else changed.
\<close>

theorem materialize_exact:
  assumes "bs_inv b s" and "\<not> prefix (loc s (ws_dir w)) (loc s (bs_dir b))" and "IsAbs (ws_dir w)"
    and "osat s (loc s (ws_dir w)) = Some IDir"
    and "\<forall>c q. osat s (loc s (ws_dir w) @ c # q) = None"
    and "distinct (map (path_comps \<circ> fe_Path) (Entries M))"
    and "ws_Materialize w (fs_port b) M s = (Inr (), s')"
  shows "(\<forall>e \<in> set (Entries M). \<exists>c. bs_held b s (fe_Hash e) = Some c \<and> HashContent c = fe_Hash e \<and>
        osat s' (loc s (ws_dir w) @ path_comps (fe_Path e)) =
          Some (IFile c (umasked s (file_mode (fe_Mode e))))) \<and>
    (\<forall>q c m. osat s' (loc s (ws_dir w) @ q) = Some (IFile c m) \<longrightarrow>
        (\<exists>e \<in> set (Entries M). q = path_comps (fe_Path e))) \<and>
    (\<forall>q. \<not> strict_prefix (loc s (ws_dir w)) q \<longrightarrow> osat s' q = osat s q)"
proof -
  have wf: "os_wf s" using assms(1) by (simp add: bs_inv_def)
  have "osat s (loc s (ws_dir w) @ q) \<noteq> Some (IFile c m)" for q c m
    using assms(4,5) by (cases q) auto
  then have "materialized s b (loc s (ws_dir w)) [] s" by (simp add: materialized_def)
  then have "materialized s b (loc s (ws_dir w)) (Entries M) s'"
    using materialized_loop[OF assms(1-4) wf refl, of "[]" "Entries M" s'] assms(6,7)
    by (simp add: ws_Materialize_def)
  then show ?thesis using bs_inv_hash[OF assms(1)] unfolding materialized_def by blast
qed

text \<open>When it returns: no failing call, acceptable paths none of which lies below another, contents held.\<close>

definition materializable :: "BlobStore \<Rightarrow> os \<Rightarrow> FileEntry list \<Rightarrow> bool" where
  "materializable b s es \<longleftrightarrow>
     (\<forall>e \<in> set es. \<not> IsAbs (fe_Path e) \<and> \<not> escapes (fe_Path e) \<and> path_comps (fe_Path e) \<noteq> [] \<and>
        bs_held b s (fe_Hash e) \<noteq> None) \<and>
     (\<forall>e \<in> set es. \<forall>e' \<in> set es. \<not> strict_prefix (path_comps (fe_Path e)) (path_comps (fe_Path e')))"

text \<open>The inner directories of a tree being materialized all lead to an entry.\<close>

definition partial_tree :: "os \<Rightarrow> string list \<Rightarrow> FileEntry list \<Rightarrow> bool" where
  "partial_tree t R es \<longleftrightarrow>
     (\<forall>c q i. osat t (R @ c # q) = Some i \<longrightarrow>
        (\<exists>e \<in> set es. strict_prefix (c # q) (path_comps (fe_Path e)) \<and> i = IDir \<or>
           c # q = path_comps (fe_Path e) \<and> (\<exists>b m. i = IFile b m)))"

lemma partial_treeD:
  "partial_tree t R es \<Longrightarrow> osat t (R @ q) = Some i \<Longrightarrow> q \<noteq> [] \<Longrightarrow>
   \<exists>e \<in> set es. strict_prefix q (path_comps (fe_Path e)) \<and> i = IDir \<or>
     q = path_comps (fe_Path e) \<and> (\<exists>b m. i = IFile b m)"
  by (cases q) (auto simp: partial_tree_def)

lemma partial_tree_above:
  assumes tree: "partial_tree t R es" and root: "osat t R = Some IDir"
    and sep: "\<And>e. e \<in> set es \<Longrightarrow> \<not> strict_prefix (path_comps (fe_Path e)) p"
    and q: "strict_prefix q (R @ p)" "osat t q = Some i"
  shows "i = IDir"
proof (cases "strict_prefix R q")
  case False
  have "prefix q (R @ p)" using q(1) by (simp add: strict_prefix_def)
  then have "prefix q R" by (rule above_or_below[OF _ False])
  then show ?thesis using q(2) osat_above[OF root, of q] root by (cases "q = R") (auto simp: strict_prefix_def)
next
  case True
  then obtain x where x: "q = R @ x" "x \<noteq> []" by (auto simp: strict_prefix_def prefix_def)
  then have "strict_prefix x p" using q(1) by (auto simp: strict_prefix_def prefix_def)
  then show ?thesis using partial_treeD[OF tree _ x(2), of i] q(2) x sep by auto
qed

lemma materialize_entry_ok:
  assumes inv: "bs_inv b s" and sep: "\<not> prefix (loc s (ws_dir w)) (loc s (bs_dir b))"
    and abs: "IsAbs (ws_dir w)" and nf: "no_faults s" and mat: "materializable b s es"
    and e: "e \<in> set es" and sub: "set done \<subseteq> set es"
    and t: "os_wf t" "os_env t = os_env s" "osat t (loc s (ws_dir w)) = Some IDir"
      "\<And>q. \<not> strict_prefix (loc s (ws_dir w)) q \<Longrightarrow> osat t q = osat s q"
      "partial_tree t (loc s (ws_dir w)) done"
  shows "\<exists>t'. materialize_entry w (Get (fs_port b)) e t = (Inr (), t')"
proof -
  let ?R = "loc s (ws_dir w)" and ?q = "path_comps (fe_Path e)"
  have loc: "loc t p = loc s p" for p using t(2) loc_env by blast
  have nft: "no_faults t" using nf no_faults_env[OF t(2)] by simp
  have rel: "\<not> IsAbs (fe_Path e)" "\<not> escapes (fe_Path e)" "?q \<noteq> []" "bs_held b s (fe_Hash e) \<noteq> None"
    and nopre: "\<And>d. d \<in> set done \<Longrightarrow> \<not> strict_prefix (path_comps (fe_Path d)) ?q \<and>
        \<not> strict_prefix ?q (path_comps (fe_Path d))"
    using mat e sub by (auto simp: materializable_def)
  have wd: "IsAbs (os_cwd t)" using t(1) by (simp add: os_wf_def)
  have "fe_Path e \<noteq> ''''" using rel(3) by (auto simp: path_comps_def)
  moreover have "locate (os_cwd t) (ws_dir w) \<noteq> []" using sep loc[of "ws_dir w"] by (auto simp: loc_def)
  ultimately have sj: "SafeJoin_os (ws_dir w) (fe_Path e) t = (Inr (Join [ws_dir w, Clean (fe_Path e)]), t)"
    using rel by (simp add: SafeJoin_os_def SafeJoin_eval[OF wd])
  let ?dst = "Join [ws_dir w, Clean (fe_Path e)]"
  note dst = SafeJoin_os_Inr[OF t(1) sj]
  have up: "i = IDir" if "strict_prefix q (?R @ ?q)" "osat t q = Some i" for q i
    by (rule partial_tree_above[OF t(5,3) _ that]) (use nopre in blast)
  have dl: "loc t (Dir ?dst) = butlast (?R @ ?q)"
    using dst(4)[OF rel(3)] loc rel(3) by (simp add: butlast_append)
  have "\<exists>t1. os_MkdirAll (Dir ?dst) t = (Inr (), t1)"
    by (rule MkdirAll_ok)
       (use nft up rel(3) prefix_butlast[of "?R @ ?q"] in \<open>auto simp: no_faults_def dl\<close>)
  then obtain t1 where mk: "os_MkdirAll (Dir ?dst) t = (Inr (), t1)" by blast
  have tR: "osat t (loc t (ws_dir w)) = Some IDir" using t(3) loc by simp
  note m1 = MkdirAll_parent[OF t(1) tR abs sj mk]
  have e1: "os_env t1 = os_env s" using m1(4) t(2) by simp
  have nf1: "no_faults t1" using nf no_faults_env[OF e1] by simp
  have "\<not> strict_prefix ?R (bs_loc b s h)" for h
    using sep by (auto simp: bs_loc_def strict_prefix_def)
  then have "osat t1 (bs_loc b s h) = osat s (bs_loc b s h)" for h
    using m1(2) t(4) loc by simp
  note b1 = bs_frame[OF inv m1(3) e1 this]
  obtain c where c: "bs_held b t1 (fe_Hash e) = Some c" using rel(4) b1(2) by auto
  then have h: "validHash (fe_Hash e)" by (simp add: bs_held_def split: if_splits)
  obtain m where "osat t1 (loc t1 (bs_path b (fe_Hash e))) = Some (IFile c m)"
    using c h loc_bs_path[OF m1(3) h, of b] by (auto simp: bs_held_def split: option.splits info.splits)
  then have get: "Get (fs_port b) (fe_Hash e) t1 = (Inr c, t1)"
    using nf1 h by (simp add: fs_port_def bs_Get_def ReadFile_file no_faults_def)
  have l1: "loc t1 ?dst = ?R @ ?q" using dst(2) loc loc_env[OF m1(4)] by simp
  have "\<exists>t2. os_WriteFile ?dst c (file_mode (fe_Mode e)) t1 = (Inr (), t2)"
  proof (rule WriteFile_ok)
    show "os_fault t1 SysOpen (loc t1 ?dst) = None" "os_fault t1 SysWrite (loc t1 ?dst) = None"
      using nf1 by (simp_all add: no_faults_def)
    have "strict_prefix (butlast (?R @ ?q)) (?R @ ?q)"
      using rel(3) prefix_butlast[of "?R @ ?q" "butlast (?R @ ?q)"] by simp
    then show "osat t1 (butlast (loc t1 ?dst)) = Some IDir" using l1 m1(1) loc by simp
    show "osat t1 (loc t1 ?dst) = None \<or> (\<exists>b' m. osat t1 (loc t1 ?dst) = Some (IFile b' m))"
    proof (cases "osat t (?R @ ?q)")
      case (Some i)
      then show ?thesis using partial_treeD[OF t(5) Some rel(3)] nopre m1(1) l1 loc by auto
    qed (use m1(1) l1 loc in simp)
  qed
  then show ?thesis using sj mk get by (auto simp: materialize_entry_def)
qed

lemma partial_tree_step:
  assumes wf: "os_wf t" and R: "osat t (loc t (ws_dir w)) = Some IDir" "IsAbs (ws_dir w)"
    and get: "\<And>h s. snd (get h s) = s"
    and run: "materialize_entry w get e t = (Inr (), t')"
    and tree: "partial_tree t (loc t (ws_dir w)) done"
  shows "partial_tree t' (loc t (ws_dir w)) (done @ [e])"
proof (rule materialize_entry_cases[OF wf R get run])
  fix c s1
  let ?R = "loc t (ws_dir w)" and ?q = "path_comps (fe_Path e)"
  assume s1: "osat s1 = (\<lambda>q. if strict_prefix q (?R @ ?q) then Some IDir else osat t q)"
    and t': "osat t' = (osat s1)(?R @ ?q \<mapsto> IFile c (case osat t (?R @ ?q) of Some (IFile _ m) \<Rightarrow> m
           | _ \<Rightarrow> umasked t (file_mode (fe_Mode e))))"
  show ?thesis unfolding partial_tree_def
  proof (intro allI impI)
    fix d q i assume at: "osat t' (?R @ d # q) = Some i"
    show "\<exists>e' \<in> set (done @ [e]). strict_prefix (d # q) (path_comps (fe_Path e')) \<and> i = IDir \<or>
        d # q = path_comps (fe_Path e') \<and> (\<exists>b m. i = IFile b m)"
    proof (cases "d # q = ?q \<or> strict_prefix (d # q) ?q")
      case True
      then show ?thesis using at s1 t' by (auto simp: strict_prefix_def split: if_splits)
    next
      case False
      then have "osat t (?R @ d # q) = Some i" using at s1 t' by (auto simp: strict_prefix_def)
      from partial_treeD[OF tree this] show ?thesis by auto
    qed
  qed
qed simp

text \<open>
  Completeness. Where no call fails, a manifest of acceptable paths, none of which is a
  directory of another, whose contents the store holds, is materialized without error in an
  empty workspace.
\<close>

theorem materialize_succeeds:
  assumes "bs_inv b s" and "\<not> prefix (loc s (ws_dir w)) (loc s (bs_dir b))" and "IsAbs (ws_dir w)"
    and "osat s (loc s (ws_dir w)) = Some IDir"
    and "\<forall>c q. osat s (loc s (ws_dir w) @ c # q) = None"
    and "no_faults s" and "materializable b s (Entries M)"
  shows "\<exists>s'. ws_Materialize w (fs_port b) M s = (Inr (), s')"
proof -
  let ?R = "loc s (ws_dir w)" and ?step = "materialize_entry w (Get (fs_port b))"
  have "\<exists>s'. forE es ?step t = (Inr (), s')"
    if "os_wf t" "os_env t = os_env s" "osat t ?R = Some IDir"
      "\<And>q. \<not> strict_prefix ?R q \<Longrightarrow> osat t q = osat s q" "partial_tree t ?R done"
      "set done \<subseteq> set (Entries M)" "set es \<subseteq> set (Entries M)" for es t "done"
    using that
  proof (induction es arbitrary: t "done")
    case Nil
    then show ?case by simp
  next
    case (Cons e es)
    obtain t1 where t1: "?step e t = (Inr (), t1)"
      using materialize_entry_ok[OF assms(1-3,6,7) _ Cons.prems(6,1-5), of e] Cons.prems(7) by auto
    have loc: "loc t (ws_dir w) = ?R" using loc_env[OF Cons.prems(2)] by simp
    then have R: "osat t (loc t (ws_dir w)) = Some IDir" using Cons.prems(3) by simp
    have k: "os_wf t1" "os_env t1 = os_env t" "\<And>q. \<not> strict_prefix ?R q \<Longrightarrow> osat t1 q = osat t q"
      by (rule materialize_entry_cases[OF Cons.prems(1) R assms(3) fs.get_state t1]; use loc in simp)+
    have tree: "partial_tree t1 ?R (done @ [e])"
      using partial_tree_step[OF Cons.prems(1) R assms(3) fs.get_state t1] loc Cons.prems(5) by simp
    have "\<exists>s'. forE es ?step t1 = (Inr (), s')"
      by (rule Cons.IH[OF k(1) _ _ _ tree]) (use k Cons.prems in auto)
    then show ?case using t1 by auto
  qed
  from this[of s "[]" "Entries M"] show ?thesis
    using assms by (simp add: ws_Materialize_def bs_inv_def partial_tree_def)
qed

subsection \<open>The baseline of a session\<close>

lemma rel_path_comps:
  assumes "list_all plain_name q" "q \<noteq> []"
  shows "path_comps (rel_path q) = q" "\<not> IsAbs (rel_path q)"
proof -
  have el: "c \<in> set q \<Longrightarrow> c \<noteq> '''' \<and> slash \<notin> set c" for c
    using assms(1) by (auto simp: list_all_iff plain_name_def)
  show abs: "\<not> IsAbs (rel_path q)"
    unfolding rel_path_def by (rule not_IsAbs_join) (use el in auto)
  have "split_on slash (rel_path q) = q"
    unfolding rel_path_def by (rule split_join_with[OF assms(2)]) (use el in blast)
  then show "path_comps (rel_path q) = q"
    using abs clean_go_plain[OF assms(1)] by (simp add: path_comps_def)
qed

lemma Perm_Perm [simp]: "Perm (Perm m) = Perm m"
  by (simp add: Perm_def and.assoc)

text \<open>
  A manifest as the client's walk makes it, with its contents uploaded: sorted by path, each
  entry describing a file of a path the server's walk does not skip, whose mode the umask
  leaves alone.
\<close>

definition uploaded :: "BlobStore \<Rightarrow> os \<Rightarrow> Manifest \<Rightarrow> bool" where
  "uploaded b s M \<longleftrightarrow> sorted_wrt (<) (map fe_Path (Entries M)) \<and>
     (\<forall>e \<in> set (Entries M). \<exists>q c m. e = file_entry q c m \<and> list_all plain_name q \<and> visible no_opts q \<and>
        Perm m \<noteq> 0 \<and> umasked s (Perm m) = Perm m \<and> bs_held b s (HashContent c) = Some c)"

lemma uploaded_entry:
  assumes "uploaded b s M" "e \<in> set (Entries M)"
  obtains q c m where "e = file_entry q c m" "list_all plain_name q" "visible no_opts q" "q \<noteq> []"
    "path_comps (fe_Path e) = q" "bs_held b s (fe_Hash e) = Some c"
    "file_entry q c (umasked s (file_mode (fe_Mode e))) = e"
proof -
  obtain q c m where e: "e = file_entry q c m" "list_all plain_name q" "visible no_opts q"
      "Perm m \<noteq> 0" "umasked s (Perm m) = Perm m" "bs_held b s (HashContent c) = Some c"
    using assms by (auto simp: uploaded_def)
  have ne: "q \<noteq> []" using e(3) by (auto simp: visible_def)
  have "fe_Mode e = Perm m" using e(1) by (simp add: file_entry_def)
  then have "umasked s (file_mode (fe_Mode e)) = Perm m" using e(4,5) by (simp add: file_mode_def)
  then have same: "file_entry q c (umasked s (file_mode (fe_Mode e))) = e"
    by (simp add: e(1) file_entry_def)
  show ?thesis using that[OF e(1-3) ne _ _ same] e ne
    by (simp add: rel_path_comps) (simp add: file_entry_def)
qed

lemma uploaded_inj:
  "uploaded b s M \<Longrightarrow> inj_on fe_Path (set (Entries M))"
  by (simp add: uploaded_def strict_sorted_iff distinct_map)

lemma uploaded_distinct:
  assumes "uploaded b s M"
  shows "distinct (map (path_comps \<circ> fe_Path) (Entries M))"
proof -
  have "fe_Path e = rel_path (path_comps (fe_Path e))" if "e \<in> set (Entries M)" for e
    by (rule uploaded_entry[OF assms that]) (simp add: fe_Path_file_entry)
  then have "inj_on (path_comps \<circ> fe_Path) (set (Entries M))"
    using uploaded_inj[OF assms] by (metis (mono_tags, lifting) comp_apply inj_on_def)
  moreover have "distinct (Entries M)"
    using assms by (simp add: uploaded_def strict_sorted_iff distinct_map)
  ultimately show ?thesis by (simp add: distinct_map)
qed

lemma materialized_entries:
  assumes up: "uploaded b s M" and m: "materialized s b R (Entries M) s'"
  shows "(\<exists>q c m. osat s' (R @ q) = Some (IFile c m) \<and> visible no_opts q \<and> e = file_entry q c m) \<longleftrightarrow>
    e \<in> set (Entries M)"
proof
  assume "\<exists>q c m. osat s' (R @ q) = Some (IFile c m) \<and> visible no_opts q \<and> e = file_entry q c m"
  then obtain q c md where f: "osat s' (R @ q) = Some (IFile c md)" "e = file_entry q c md" by blast
  then obtain e' where e': "e' \<in> set (Entries M)" "q = path_comps (fe_Path e')"
    using m unfolding materialized_def by blast
  obtain c' where c': "bs_held b s (fe_Hash e') = Some c'"
      "osat s' (R @ q) = Some (IFile c' (umasked s (file_mode (fe_Mode e'))))"
    using m e' unfolding materialized_def by blast
  have "e = e'" by (rule uploaded_entry[OF up e'(1)]) (use c' f e' in auto)
  then show "e \<in> set (Entries M)" using e' by simp
next
  assume e: "e \<in> set (Entries M)"
  show "\<exists>q c m. osat s' (R @ q) = Some (IFile c m) \<and> visible no_opts q \<and> e = file_entry q c m"
  proof (rule uploaded_entry[OF up e])
    fix q c md
    assume a: "visible no_opts q" "path_comps (fe_Path e) = q" "bs_held b s (fe_Hash e) = Some c"
      "file_entry q c (umasked s (file_mode (fe_Mode e))) = e"
    then have "osat s' (R @ q) = Some (IFile c (umasked s (file_mode (fe_Mode e))))"
      using m e unfolding materialized_def by force
    then show ?thesis using a by metis
  qed
qed

lemma snapshot_of_materialized:
  assumes "bs_inv b s" and "\<not> prefix (loc s (ws_dir w)) (loc s (bs_dir b))" and "IsAbs (ws_dir w)"
    and "osat s (loc s (ws_dir w)) = Some IDir"
    and "\<forall>c q. osat s (loc s (ws_dir w) @ c # q) = None"
    and "uploaded b s M"
    and "ws_Materialize w (fs_port b) M s = (Inr (), s')"
    and "ws_Snapshot w s' = (Inr M', s'')"
  shows "M' = M"
proof -
  let ?R = "loc s (ws_dir w)"
  have wf: "os_wf s" using assms(1) by (simp add: bs_inv_def)
  have "osat s (?R @ q) \<noteq> Some (IFile c m)" for q c m using assms(4,5) by (cases q) auto
  then have "materialized s b ?R [] s" by (simp add: materialized_def)
  then have m: "os_wf s'" "os_env s' = os_env s" "materialized s b ?R (Entries M) s'"
    using materialized_loop[OF assms(1-4) wf refl, of "[]" "Entries M" s']
      uploaded_distinct[OF assms(6)] assms(7) by (simp_all add: ws_Materialize_def)
  have loc: "loc s' (ws_dir w) = ?R" using loc_env[OF m(2)] by simp
  have "osat s' ?R = Some IDir" using m(3) assms(4) by (simp add: materialized_def)
  then have R: "look (os_tree s') (loc s' (ws_dir w)) = Inr IDir" by (simp add: loc osat_Some)
  have "wf_node (os_tree s')" using m(1) by (simp add: os_wf_def)
  note snap = WalkManifest_facts[OF this R assms(8)[unfolded ws_Snapshot_def]]
  have "e \<in> set (Entries M') \<longleftrightarrow> e \<in> set (Entries M)" for e
  proof -
    have "e \<in> set (Entries M') \<longleftrightarrow>
        (\<exists>q c m. osat s' (?R @ q) = Some (IFile c m) \<and> visible no_opts q \<and> e = file_entry q c m)"
      unfolding snap(2) listed_def loc osat_Some by blast
    then show ?thesis using materialized_entries[OF assms(6) m(3)] by blast
  qed
  then have set: "set (Entries M') = set (Entries M)" by blast
  have "Entries M' = Entries M"
    by (rule map_sorted_distinct_set_unique[of fe_Path])
       (use snap(3) assms(6) uploaded_inj[OF assms(6)] set in
         \<open>auto simp: uploaded_def strict_sorted_iff\<close>)
  then show ?thesis by simp
qed

text \<open>
  C19. The baseline of the first turn. When the manifest of a client's project is
  materialized, a snapshot of the workspace lists exactly the client's manifest, so the
  first difference the server computes contains only what the agent did.
\<close>

theorem materialize_snapshot:
  assumes "bs_inv b s" and "\<not> prefix (loc s (ws_dir w)) (loc s (bs_dir b))" and "IsAbs (ws_dir w)"
    and "osat s (loc s (ws_dir w)) = Some IDir"
    and "\<forall>c q. osat s (loc s (ws_dir w) @ c # q) = None"
    and "uploaded b s M"
    and "ws_Materialize w (fs_port b) M s = (Inr (), s')"
    and "ws_Snapshot w s' = (Inr M', s'')"
  shows "M' = M"
  by (rule snapshot_of_materialized[OF assms])

subsection \<open>The workspace of an example\<close>

definition demo_blob_os :: os where
  "demo_blob_os = demo_os (NDir [(''o'', NDir [(HashContent [1], NFile [1] 0x180)]), (''w'', NDir [])])"

definition demo_ws :: Workspace where
  "demo_ws = \<lparr>ws_dir = ''/w''\<rparr>"

definition demo_manifest :: Manifest where
  "demo_manifest = \<lparr>Entries = [file_entry [''a'', ''b.txt''] [1] 0x1ED]\<rparr>"

lemma demo_locs [simp]:
  "loc demo_blob_os (ws_dir demo_ws) = [''w'']" "loc demo_blob_os (bs_dir demo_store) = [''o'']"
  unfolding loc_def demo_blob_os_def demo_os_simps demo_ws_def demo_store_def Workspace.select_convs
    BlobStore.select_convs by code_simp+

lemma demo_at:
  "osat demo_blob_os ([''o''] @ [h]) = (if h = HashContent [1] then Some (IFile [1] 0x180) else None)"
  "osat demo_blob_os [''w''] = Some IDir" "osat demo_blob_os ([''w''] @ c # q) = None"
  by (auto simp: demo_blob_os_def osat_def)

lemma demo_blob_facts:
  "bs_inv demo_store demo_blob_os" "IsAbs (ws_dir demo_ws)" "no_faults demo_blob_os"
  "\<not> prefix (loc demo_blob_os (ws_dir demo_ws)) (loc demo_blob_os (bs_dir demo_store))"
  "osat demo_blob_os (loc demo_blob_os (ws_dir demo_ws)) = Some IDir"
  "\<forall>c q. osat demo_blob_os (loc demo_blob_os (ws_dir demo_ws) @ c # q) = None"
proof -
  have "wf_node (os_tree demo_blob_os)"
    by (simp add: demo_blob_os_def validHash_plain plain_name_def[of "''o''"] plain_name_def[of "''w''"])
  then have "os_wf demo_blob_os" by (simp add: os_wf_def demo_blob_os_def osat_def)
  then show "bs_inv demo_store demo_blob_os"
    using demo_at(1) by (auto simp: bs_inv_def bs_loc_def split: if_splits) (simp add: demo_store_def)
  show "IsAbs (ws_dir demo_ws)" by (simp add: demo_ws_def)
  show "no_faults demo_blob_os" by (simp add: no_faults_def demo_blob_os_def)
qed (use demo_at in simp_all)

lemma demo_uploaded:
  "uploaded demo_store demo_blob_os demo_manifest"
  "materializable demo_store demo_blob_os (Entries demo_manifest)"
  "distinct (map (path_comps \<circ> fe_Path) (Entries demo_manifest))"
proof -
  have held: "bs_held demo_store demo_blob_os (HashContent [1]) = Some [1]"
    using demo_at(1) by (simp add: bs_held_def bs_loc_def)
  have pl: "list_all plain_name [''a'', ''b.txt'']" by code_simp
  have vis: "visible no_opts [''a'', ''b.txt'']" by code_simp
  have um: "umasked demo_blob_os (Perm 0x1ED) = Perm 0x1ED" "Perm 0x1ED \<noteq> 0"
    unfolding umasked_def demo_blob_os_def demo_os_def os.select_convs by code_simp+
  have pc: "path_comps (rel_path [''a'', ''b.txt'']) = [''a'', ''b.txt'']"
    "\<not> IsAbs (rel_path [''a'', ''b.txt''])"
    using rel_path_comps[OF pl] by simp_all
  show "uploaded demo_store demo_blob_os demo_manifest"
    unfolding uploaded_def demo_manifest_def Manifest.select_convs
  proof (intro conjI ballI)
    fix e assume "e \<in> set [file_entry [''a'', ''b.txt''] [1] 0x1ED]"
    then show "\<exists>q c m. e = file_entry q c m \<and> list_all plain_name q \<and> visible no_opts q \<and>
        Perm m \<noteq> 0 \<and> umasked demo_blob_os (Perm m) = Perm m \<and>
        bs_held demo_store demo_blob_os (HashContent c) = Some c"
      using held pl vis um by (intro exI[of _ "[''a'', ''b.txt'']"] exI[of _ "[1]"] exI[of _ "0x1ED"]) simp
  qed simp
  show "materializable demo_store demo_blob_os (Entries demo_manifest)"
    using held pc by (simp add: materializable_def demo_manifest_def file_entry_def escapes_def)
  show "distinct (map (path_comps \<circ> fe_Path) (Entries demo_manifest))"
    by (simp add: demo_manifest_def)
qed

theorem materialize_succeeds_witness:
  "\<exists>s'. ws_Materialize demo_ws (fs_port demo_store) demo_manifest demo_blob_os = (Inr (), s')"
  by (rule materialize_succeeds [OF demo_blob_facts(1,4,2,5,6,3) demo_uploaded(2)])

lemma demo_run:
  obtains s' where "ws_Materialize demo_ws (fs_port demo_store) demo_manifest demo_blob_os = (Inr (), s')"
proof -
  let ?R = "loc demo_blob_os (ws_dir demo_ws)"
  have tree: "partial_tree demo_blob_os ?R []"
    using demo_blob_facts(6) by (simp add: partial_tree_def)
  have wf: "os_wf demo_blob_os" using demo_blob_facts(1) by (simp add: bs_inv_def)
  have "\<exists>s'. materialize_entry demo_ws (Get (fs_port demo_store)) (hd (Entries demo_manifest)) demo_blob_os =
      (Inr (), s')"
    by (rule materialize_entry_ok[OF demo_blob_facts(1,4,2,3) demo_uploaded(2) _ _ wf refl _ _ tree])
       (use demo_blob_facts in \<open>auto simp: demo_manifest_def\<close>)
  then show ?thesis using that by (auto simp: ws_Materialize_def demo_manifest_def)
qed

theorem materialize_contained_witness:
  "\<exists>s'. ws_Materialize demo_ws (fs_port demo_store) demo_manifest demo_blob_os = (Inr (), s') \<and>
    (\<forall>q. \<not> strict_prefix [''w''] q \<longrightarrow> osat s' q = osat demo_blob_os q)"
proof -
  obtain s' where s': "ws_Materialize demo_ws (fs_port demo_store) demo_manifest demo_blob_os = (Inr (), s')"
    by (rule demo_run)
  have wf: "os_wf demo_blob_os" using demo_blob_facts(1) by (simp add: bs_inv_def)
  have get: "\<forall>h t. snd (Get (fs_port demo_store) h t) = t" using fs.get_state by blast
  show ?thesis using materialize_contained [OF wf demo_blob_facts(5,2) get s'] s' by auto
qed

theorem materialize_exact_witness:
  "\<exists>s'. \<exists>c m. osat s' [''w'', ''a'', ''b.txt''] = Some (IFile c m) \<and> HashContent c = HashContent [1]"
proof -
  obtain s' where s': "ws_Materialize demo_ws (fs_port demo_store) demo_manifest demo_blob_os = (Inr (), s')"
    by (rule demo_run)
  have "path_comps (rel_path [''a'', ''b.txt'']) = [''a'', ''b.txt'']"
    by (rule rel_path_comps(1)) code_simp+
  then show ?thesis
    using conjunct1 [OF materialize_exact [OF demo_blob_facts(1,4,2,5,6) demo_uploaded(3) s']]
    by (auto simp: demo_manifest_def file_entry_def)
qed

theorem materialize_snapshot_witness:
  "\<exists>s' M. ws_Snapshot demo_ws s' = (Inr M, s') \<and> M = demo_manifest"
proof -
  obtain s' where s': "ws_Materialize demo_ws (fs_port demo_store) demo_manifest demo_blob_os = (Inr (), s')"
    by (rule demo_run)
  have wf: "os_wf demo_blob_os" using demo_blob_facts(1) by (simp add: bs_inv_def)
  let ?R = "loc demo_blob_os (ws_dir demo_ws)"
  have "materialized demo_blob_os demo_store ?R [] demo_blob_os"
  proof -
    have "osat demo_blob_os (?R @ q) \<noteq> Some (IFile c m)" for q c m
      using demo_at(2,3) by (cases q) auto
    then show ?thesis by (simp add: materialized_def)
  qed
  then have m: "os_wf s'" "os_env s' = os_env demo_blob_os"
      "materialized demo_blob_os demo_store ?R (Entries demo_manifest) s'"
    using materialized_loop[OF demo_blob_facts(1,4,2,5) wf refl, of "[]" "Entries demo_manifest" s']
      demo_uploaded(3) s' by (simp_all add: ws_Materialize_def)
  have loc: "loc s' (ws_dir demo_ws) = ?R" using loc_env[OF m(2)] by simp
  have "osat s' ?R = Some IDir" using m(3) demo_blob_facts(5) by (simp add: materialized_def)
  then obtain es where es: "namei (os_tree s') (loc s' (ws_dir demo_ws)) = Inr (NDir es)"
    using look_IDir by (auto simp: loc osat_Some)
  have nf: "\<forall>c p. os_fault s' c p = None"
    using no_faults_env[OF m(2)] demo_blob_facts(3) by (simp add: no_faults_def)
  have "within_limits no_opts (scan_entries no_opts [] es) 0" by (simp add: within_limits_def no_opts_def)
  then obtain M where snap: "ws_Snapshot demo_ws s' = (Inr M, s')"
    using WalkManifest_eval(1)[OF nf es] unfolding ws_Snapshot_def by blast
  then show ?thesis
    using materialize_snapshot [OF demo_blob_facts(1,4,2,5,6) demo_uploaded(1) s' snap] by blast
qed

end
