(* ===== verification/SessionLaws.thy ===== *)
theory SessionLaws
  imports Session Fsstore
begin

text \<open>
  What the session service asks the client for, and that the store is complete once it was sent.
\<close>

section \<open>The upload negotiation\<close>

text \<open>The first occurrences in a list, in order.\<close>

definition firsts :: "'a list \<Rightarrow> 'a list" where
  "firsts xs = rev (remdups (rev xs))"

lemma firsts_Nil [simp]: "firsts [] = []"
  by (simp add: firsts_def)

lemma remdups_snoc: "remdups (xs @ [x]) = filter (\<lambda>y. y \<noteq> x) (remdups xs) @ [x]"
  by (induction xs) auto

lemma firsts_Cons: "firsts (x # xs) = x # filter (\<lambda>y. y \<noteq> x) (firsts xs)"
  by (simp add: firsts_def remdups_snoc rev_filter)

lemma set_firsts [simp]: "set (firsts xs) = set xs" and distinct_firsts [simp]: "distinct (firsts xs)"
  by (simp_all add: firsts_def)

context blob_store begin

lemma missing_hashes_state: "snd (missing_hashes port seen ms es s) = s"
proof (induction es arbitrary: seen ms)
  case (Cons e es)
  obtain r where r: "Has port (fe_Hash e) s = (r, s)"
    using has_state[of "fe_Hash e" s] by (cases "Has port (fe_Hash e) s") auto
  show ?case using r Cons by (cases r) (simp_all add: bindE_def)
qed simp

lemma missing_hashes_ok:
  "inv s \<Longrightarrow> missing_hashes port seen ms es s = (Inr hs, s') \<Longrightarrow>
   hs = ms @ filter (\<lambda>h. h \<notin> seen \<and> held s h = None) (firsts (map fe_Hash es))"
proof (induction es arbitrary: seen ms)
  case (Cons e es)
  show ?case
  proof (cases "fe_Hash e \<in> seen")
    case True
    have "hs = ms @ filter (\<lambda>h. h \<notin> seen \<and> held s h = None) (firsts (map fe_Hash es))"
      using Cons.IH[OF Cons.prems(1)] Cons.prems(2) True by simp
    moreover have "filter (\<lambda>h. h \<notin> seen \<and> held s h = None) (firsts (map fe_Hash es)) =
        filter (\<lambda>h. h \<notin> seen \<and> held s h = None \<and> h \<noteq> fe_Hash e) (firsts (map fe_Hash es))"
      using True by (intro filter_cong) auto
    ultimately show ?thesis using True by (simp add: firsts_Cons conj_ac)
  next
    case False
    obtain has where has: "Has port (fe_Hash e) s = (Inr has, s)"
        "missing_hashes port (insert (fe_Hash e) seen) (if has then ms else ms @ [fe_Hash e]) es s = (Inr hs, s')"
      using Cons.prems(2) False has_state[of "fe_Hash e" s] by (auto simp: bindE_Inr_iff)
    have "has \<longleftrightarrow> held s (fe_Hash e) \<noteq> None" using has_ok[OF Cons.prems(1), of "fe_Hash e" has] has(1) by simp
    then show ?thesis
      using Cons.IH[OF Cons.prems(1) has(2)] False
      by (simp add: firsts_Cons conj_ac)
  qed
qed simp

text \<open>After the contents of the missing hashes were put, every entry's content is held.\<close>

lemma negotiated:
  assumes "inv s" "missing_hashes port {} [] es s = (Inr hs, s1)" "upload xs s = (Inr (), s')"
    "set hs \<subseteq> fst ` set xs" "e \<in> set es"
  shows "\<exists>c. held s' (fe_Hash e) = Some c \<and> HashContent c = fe_Hash e"
proof -
  note up = upload_ok[OF assms(1,3)]
  have hs: "fe_Hash e \<in> set hs \<or> held s (fe_Hash e) \<noteq> None"
    using missing_hashes_ok[OF assms(1,2)] assms(5) by auto
  have "held s' (fe_Hash e) \<noteq> None"
  proof (cases "fe_Hash e \<in> fst ` set xs")
    case True
    then have "map_of (rev xs) (fe_Hash e) \<noteq> None" by (simp add: map_of_eq_None_iff)
    then show ?thesis using up by (auto simp: map_add_def split: option.splits)
  next
    case False
    then have "map_of (rev xs) (fe_Hash e) = None" by (simp add: map_of_eq_None_iff)
    then show ?thesis using up hs assms(4) False by (auto simp: map_add_def)
  qed
  then show ?thesis using held_hash up by blast
qed

end

text \<open>Where no call fails, asking the store is a total function of what it holds.\<close>

lemma bs_Has_ok:
  assumes "bs_inv b s" "no_faults s" "osat s (loc s (bs_dir b)) = Some IDir" "validHash h"
  shows "bs_Has b h s = (Inr (bs_held b s h \<noteq> None), s)"
proof -
  let ?p = "bs_path b h"
  have l: "loc s ?p = loc s (bs_dir b) @ [h]"
    using loc_bs_path[OF _ assms(4)] assms(1) by (simp add: bs_inv_def bs_loc_def)
  obtain es where es: "namei (os_tree s) (loc s (bs_dir b)) = Inr (NDir es)"
    using look_IDir assms(3) by (auto simp: osat_Some)
  have look: "look (os_tree s) (loc s ?p) = (case map_of es h of None \<Rightarrow> Inl ENOENT | Some n \<Rightarrow> Inr (info_of n))"
    using namei_append[OF es, of "[h]"] l by (cases "map_of es h") (simp_all add: look_def)
  have held: "bs_held b s h \<noteq> None \<longleftrightarrow> map_of es h \<noteq> None"
    using bs_inv_held[OF assms(1,4)] look l by (auto simp: osat_def bs_loc_def split: option.splits)
  show ?thesis
    using assms(2,4) look held
    by (cases "map_of es h")
       (simp_all add: Has_eval os_Stat_def sys_def no_faults_def IsNotExist_def)
qed

lemma missing_hashes_total:
  assumes "\<And>h. Has B h s = (if validHash h then Inr (H h \<noteq> None) else Inl (InvalidHash h), s)"
  shows "\<forall>h \<in> seen. validHash h \<Longrightarrow>
    missing_hashes B seen ms es s =
      (case find (\<lambda>h. \<not> validHash h) (map fe_Hash es) of
         Some h \<Rightarrow> Inl (InvalidHash h)
       | None \<Rightarrow> Inr (ms @ filter (\<lambda>h. h \<notin> seen \<and> H h = None) (firsts (map fe_Hash es))), s)"
proof (induction es arbitrary: seen ms)
  case (Cons e es)
  have drop: "filter (\<lambda>h. h \<notin> seen \<and> H h = None) (firsts (map fe_Hash es)) =
      filter (\<lambda>h. h \<notin> seen \<and> H h = None \<and> h \<noteq> fe_Hash e) (firsts (map fe_Hash es))" if "fe_Hash e \<in> seen"
    using that by (intro filter_cong) auto
  show ?case
    using Cons assms[of "fe_Hash e"] drop
    by (auto simp: bindE_def firsts_Cons conj_ac split: option.split)
qed simp

text \<open>
  C29. Starting a session, where the store's directory can be read, is a function of the manifest
  and of what the store holds: the first entry whose hash is malformed is an error; otherwise
  the session asks for exactly the contents the store does not hold, each hash once, in the order
  of the manifest. Nothing but the recorded manifest changes.
\<close>

theorem start_session_missing:
  assumes "bs_inv b s" and "no_faults s" and "osat s (loc s (bs_dir b)) = Some IDir" and "dp_Blobs D = fs_port b"
  shows "StartSession D name M (sv, s) =
    (case find (\<lambda>h. \<not> validHash h) (map fe_Hash (Entries M)) of
       Some h \<Rightarrow> Inl (InvalidHash h)
     | None \<Rightarrow> Inr (filter (\<lambda>h. bs_held b s h = None) (firsts (map fe_Hash (Entries M)))),
     (sv\<lparr> sv_manifest := M \<rparr>, s))"
proof -
  have "Has (fs_port b) h s = (if validHash h then Inr (bs_held b s h \<noteq> None) else Inl (InvalidHash h), s)" for h
    using bs_Has_ok[OF assms(1-3)] by (simp add: fs_port_def Has_eval)
  from missing_hashes_total[where B = "fs_port b" and H = "bs_held b s", OF this, of "{}" "[]" "Entries M"]
  show ?thesis using assms(4) by (simp add: StartSession_def outside_run cong: option.case_cong)
qed

text \<open>
  When the client then puts the contents it was asked for, and no put fails, the store
  holds content for every entry of the manifest, with the entry's hash.
\<close>

theorem missing_uploaded_complete:
  assumes "bs_inv b s" and "dp_Blobs D = fs_port b" and "StartSession D name M (sv, s) = (Inr hs, (sv1, s1))"
    and "forE (zip hs contents) (\<lambda>(h, c). PutBlob D h c) (sv1, s1) = (Inr (), (sv2, s2))"
    and "length contents = length hs" and "e \<in> set (Entries M)"
  shows "\<exists>c. bs_held b s2 (fe_Hash e) = Some c \<and> HashContent c = fe_Hash e"
proof -
  have s1: "s1 = s" "missing_hashes (fs_port b) {} [] (Entries M) s = (Inr hs, s)"
    using assms(2,3) fs.missing_hashes_state[of b "{}" "[]" "Entries M" s]
    by (auto simp: StartSession_def outside_run prod_eq_iff)
  have up: "forE xs (\<lambda>(h, c). PutBlob D h c) (sv1, t) = (Inr (), (sv2, s2)) \<Longrightarrow> fs.upload b xs t = (Inr (), s2)" for xs t
  proof (induction xs arbitrary: t)
    case Nil
    then show ?case by (simp add: fs.upload_def)
  next
    case (Cons x xs)
    obtain h c where x: "x = (h, c)" by (cases x)
    obtain t' where t': "Put (fs_port b) h c t = (Inr (), t')"
        "forE xs (\<lambda>(h, c). PutBlob D h c) (sv1, t') = (Inr (), (sv2, s2))"
      using Cons.prems x assms(2) by (auto simp: bindE_Inr_iff PutBlob_def outside_iff)
    then show ?case using Cons.IH[OF t'(2)] x by (simp add: fs.upload_def)
  qed
  have "set hs \<subseteq> fst ` set (zip hs contents)"
    using assms(5) by (metis map_fst_zip set_map order_refl)
  then show ?thesis
    using fs.negotiated[OF assms(1) s1(2) up[OF assms(4)[unfolded s1(1)]] _ assms(6)] by blast
qed

subsection \<open>Witnesses\<close>

text \<open>Collaborators that do nothing, and the example store of \<open>Fsstore\<close>.\<close>

definition quiet_notifier :: "'s ClientNotifier" where
  "quiet_notifier = \<lparr> SessionReady = \<lambda>_. retE (), SyncRequest = \<lambda>_. retE (), StreamEvent = \<lambda>_. retE (),
     FileChanged = \<lambda>_ _. retE (), TurnDone = \<lambda>_. retE (), Error = \<lambda>_. retE () \<rparr>"

definition demo_deps :: "os Deps" where
  "demo_deps = \<lparr> dp_Blobs = fs_port demo_store, dp_NewWorkspace = \<lambda>_. throwE ErrInvalid,
     dp_Agent = \<lambda>_ _. throwE ErrInvalid, dp_Notifier = quiet_notifier, dp_NewID = retE ''id'' \<rparr>"

lemma demo_store_empty: "bs_held demo_store demo_store_os h = None"
proof -
  have "loc demo_store_os ''/o'' = [''o'']" by code_simp
  then have "bs_loc demo_store demo_store_os h = [''o''] @ [h]" by (simp add: bs_loc_def demo_store_def)
  then show ?thesis by (simp add: bs_held_def demo_store_os_def osat_def)
qed

theorem start_session_missing_witness:
  "StartSession demo_deps ''p'' demo_manifest (NewService, demo_store_os) =
    (Inr [HashContent [1]], (NewService\<lparr> sv_manifest := demo_manifest \<rparr>, demo_store_os))"
  using start_session_missing [OF demo_store_facts(1-3), of demo_deps "''p''" demo_manifest NewService]
  by (simp add: demo_deps_def demo_manifest_def file_entry_def firsts_Cons demo_store_empty)

theorem missing_uploaded_complete_witness:
  "\<exists>s2 c. bs_held demo_store s2 (HashContent [1]) = Some c \<and> HashContent c = HashContent [1]"
proof -
  let ?M = demo_manifest and ?h = "HashContent [1]"
  have start: "StartSession demo_deps ''p'' ?M (NewService, demo_store_os) =
      (Inr [?h], (NewService\<lparr> sv_manifest := ?M \<rparr>, demo_store_os))"
  proof -
    have "Has (fs_port demo_store) ?h demo_store_os = (Inr False, demo_store_os)"
      using bs_Has_ok[OF demo_store_facts(1-3), of ?h] by (simp add: fs_port_def demo_store_empty)
    then show ?thesis
      by (simp add: StartSession_def outside_run bindE_def demo_deps_def demo_manifest_def file_entry_def)
  qed
  obtain s2 where put: "bs_Put demo_store ?h [1] demo_store_os = (Inr (), s2)"
    using bs_Put_ok[OF demo_store_facts refl] by blast
  then have up: "forE (zip [?h] [[1]]) (\<lambda>(h, c). PutBlob demo_deps h c)
      (NewService\<lparr> sv_manifest := ?M \<rparr>, demo_store_os) = (Inr (), (NewService\<lparr> sv_manifest := ?M \<rparr>, s2))"
    by (simp add: PutBlob_def bindE_outside demo_deps_def fs_port_def)
  have "dp_Blobs demo_deps = fs_port demo_store" by (simp add: demo_deps_def)
  then show ?thesis
    using missing_uploaded_complete [OF demo_store_facts(1) _ start up, of "hd (Entries ?M)"]
    by (auto simp: demo_manifest_def file_entry_def)
qed

end
