(* ===== verification/ClientConn.thy ===== *)
theory ClientConn
  imports Notifier
begin

text \<open>
  The client's end of the connection: the typed senders of
  \<^verbatim>\<open>internal/adapters/transport/ws/client.go\<close>, and the adapter \<^verbatim>\<open>wsTransport\<close> of
  \<^verbatim>\<open>cmd/client/main.go\<close>, which turns inbound frames into server messages.
\<close>

section \<open>Sending\<close>

definition cl_SessionStart :: "'c SecureChannel \<Rightarrow> string \<Rightarrow> FileEntryDTO list \<Rightarrow> ('c conn, unit) prog" where
  "cl_SessionStart S projectName manifest =
     send_data S TypeSessionStart (Some (marshal_SessionStartData
       \<lparr> ss_ProjectName = projectName, ss_Manifest = manifest \<rparr>))"

definition cl_UploadBlob :: "'c SecureChannel \<Rightarrow> string \<Rightarrow> bytes \<Rightarrow> ('c conn, unit) prog" where
  "cl_UploadBlob S hash content =
     bindE NewStreamID (\<lambda>sid.
     bindE (send_data S TypeBlob (Some (marshal_BlobData
       \<lparr> bd_StreamID = sid, bd_Hash = hash, bd_Size = int (length content) \<rparr>))) (\<lambda>_.
     SendContent S sid content))"

definition bare_envelope :: "string \<Rightarrow> Envelope" where
  "bare_envelope typ = \<lparr> env_Type = typ, env_ID = [], env_Data = [] \<rparr>"

definition cl_SyncDone :: "'c SecureChannel \<Rightarrow> ('c conn, unit) prog" where
  "cl_SyncDone S = SendEnvelope S (bare_envelope TypeSyncDone)"

definition cl_Prompt :: "'c SecureChannel \<Rightarrow> string \<Rightarrow> ('c conn, unit) prog" where
  "cl_Prompt S text = send_data S TypePrompt (Some (marshal_PromptData \<lparr> pd_Text = text \<rparr>))"

definition cl_Interrupt :: "'c SecureChannel \<Rightarrow> ('c conn, unit) prog" where
  "cl_Interrupt S = SendEnvelope S (bare_envelope TypeInterrupt)"

definition cl_SessionEnd :: "'c SecureChannel \<Rightarrow> ('c conn, unit) prog" where
  "cl_SessionEnd S = SendEnvelope S (bare_envelope TypeSessionEnd)"

section \<open>Receiving\<close>

text \<open>\<^verbatim>\<open>clientapp.ServerMessage\<close>: one payload is set, according to the type.\<close>

record ServerMessage =
  sm_Type :: string
  sm_SessionReady :: "SessionReadyData option"
  sm_SyncRequest :: "SyncRequestData option"
  sm_StreamEvent :: "StreamEventData option"
  sm_FileChange :: "FileChangeData option"
  sm_Content :: bytes
  sm_TurnDone :: "TurnDoneData option"
  sm_Error :: "ErrorData option"

definition empty_message :: "string \<Rightarrow> bytes \<Rightarrow> ServerMessage" where
  "empty_message typ content =
     \<lparr> sm_Type = typ, sm_SessionReady = None, sm_SyncRequest = None, sm_StreamEvent = None,
       sm_FileChange = None, sm_Content = content, sm_TurnDone = None, sm_Error = None \<rparr>"

text \<open>\<^verbatim>\<open>var d T; if err := UnmarshalData(f.Env, &d); err != nil { return m, err }; m.X = &d\<close>\<close>

definition with_payload ::
  "Envelope \<Rightarrow> 'd decoder \<Rightarrow> 'd \<Rightarrow> ('d \<Rightarrow> ServerMessage) \<Rightarrow> error + ServerMessage" where
  "with_payload env dec zero f =
     (case UnmarshalData env dec zero of (Inl e, _) \<Rightarrow> Inl e | (Inr _, d) \<Rightarrow> Inr (f d))"

definition server_message :: "float_ops \<Rightarrow> Framed \<Rightarrow> error + ServerMessage" where
  "server_message fl f =
     (let env = fr_Env f; m = empty_message (env_Type env) (fr_Content f) in
      if env_Type env = TypeSessionReady then
        with_payload env dec_SessionReadyData \<lparr> rd_SessionID = [] \<rparr> (\<lambda>d. m\<lparr> sm_SessionReady := Some d \<rparr>)
      else if env_Type env = TypeSyncRequest then
        with_payload env dec_SyncRequestData \<lparr> sr_Missing = [] \<rparr> (\<lambda>d. m\<lparr> sm_SyncRequest := Some d \<rparr>)
      else if env_Type env = TypeStreamEvent then
        with_payload env dec_StreamEventData zero_StreamEventData (\<lambda>d. m\<lparr> sm_StreamEvent := Some d \<rparr>)
      else if env_Type env = TypeFileChange then
        with_payload env dec_FileChangeData zero_FileChangeData (\<lambda>d. m\<lparr> sm_FileChange := Some d \<rparr>)
      else if env_Type env = TypeTurnDone then
        with_payload env (dec_TurnDoneData fl) zero_TurnDoneData (\<lambda>d. m\<lparr> sm_TurnDone := Some d \<rparr>)
      else if env_Type env = TypeError then
        with_payload env dec_ErrorData \<lparr> er_Message = [] \<rparr> (\<lambda>d. m\<lparr> sm_Error := Some d \<rparr>)
      else Inr m)"

definition ReadServerMessage :: "float_ops \<Rightarrow> 'c SecureChannel \<Rightarrow> ('c conn, ServerMessage) prog" where
  "ReadServerMessage fl S =
     bindE (ReadMessage S) (\<lambda>f. case server_message fl f of Inl e \<Rightarrow> throwE e | Inr m \<Rightarrow> retE m)"

section \<open>Delivery of typed messages\<close>

lemma send_data_delivers:
  assumes "secure_channel S R" "R (cn_ch c) (cn_ch r)" "cn_pending r 0 = None"
    "encoded 2000 t" "fix_utf8 typ = typ" "typ \<noteq> TypeBlob" "typ \<noteq> TypeFileChange"
    "send_data S typ (Some t) c = (Inr u, c')"
  shows "delivers S R \<lparr> fr_Env = \<lparr> env_Type = typ, env_ID = [], env_Data = t \<rparr>, fr_Content = [],
    fr_HasContent = False \<rparr> c c' r"
proof (rule SendEnvelope_delivers[OF assms(1-3)])
  show "plain_envelope \<lparr> env_Type = typ, env_ID = [], env_Data = t \<rparr>"
    using assms(4,5) by (simp add: plain_envelope_def fix_Envelope_def)
  show "streamIDOf \<lparr> env_Type = typ, env_ID = [], env_Data = t \<rparr> = Inr 0"
    using assms(6,7) by (rule streamIDOf_other)
  show "SendEnvelope S \<lparr> env_Type = typ, env_ID = [], env_Data = t \<rparr> c = (Inr u, c')"
    using assms(8) by (simp add: send_data_def marshalData_def)
qed

text \<open>What the client then reads.\<close>

definition receives ::
  "float_ops \<Rightarrow> 'c SecureChannel \<Rightarrow> ('c \<Rightarrow> 'c \<Rightarrow> bool) \<Rightarrow> ServerMessage \<Rightarrow> 'c conn \<Rightarrow> 'c conn \<Rightarrow> 'c conn \<Rightarrow> bool" where
  "receives fl S R m c c' r \<longleftrightarrow>
     (\<exists>fs r'. cn_wire c' = cn_wire c @ fs \<and> fs \<noteq> [] \<and> R (cn_ch c') (cn_ch r') \<and> pending_ok (cn_pending r') \<and>
        (\<forall>rest. ReadServerMessage fl S (r\<lparr> cn_inbox := fs @ rest \<rparr>) = (Inr m, r'\<lparr> cn_inbox := rest \<rparr>)))"

lemma delivers_receives:
  assumes "delivers S R f c c' r" "server_message fl f = Inr m" "pending_ok (cn_pending r)"
  shows "receives fl S R m c c' r"
proof -
  obtain fs ch where fs: "cn_wire c' = cn_wire c @ fs" "fs \<noteq> []" "R (cn_ch c') ch"
      "\<And>rest. ReadMessage S (r\<lparr> cn_inbox := fs @ rest \<rparr>) =
         (Inr f, r\<lparr> cn_ch := ch, cn_inbox := rest, cn_pending := (cn_pending r)(fr_stream f := None) \<rparr>)"
    using assms(1) unfolding delivers_def by blast
  have "pending_ok ((cn_pending r)(fr_stream f := None))" using assms(3) by (simp add: pending_ok_def)
  then show ?thesis
    unfolding receives_def using fs
    by (intro exI[of _ fs] exI[of _ "r\<lparr> cn_ch := ch, cn_pending := (cn_pending r)(fr_stream f := None) \<rparr>"])
       (simp add: ReadServerMessage_def assms(2) del: fun_upd_apply)
qed

lemma fix_utf8_types [simp]:
  "fix_utf8 TypeSessionReady = TypeSessionReady" "fix_utf8 TypeSyncRequest = TypeSyncRequest"
  "fix_utf8 TypeStreamEvent = TypeStreamEvent" "fix_utf8 TypeFileChange = TypeFileChange"
  "fix_utf8 TypeTurnDone = TypeTurnDone" "fix_utf8 TypeError = TypeError"
  "fix_utf8 TypeBlob = TypeBlob" "fix_utf8 TypePrompt = TypePrompt" "fix_utf8 TypeSyncDone = TypeSyncDone"
  "fix_utf8 TypeSessionStart = TypeSessionStart" "fix_utf8 TypeSessionEnd = TypeSessionEnd"
  "fix_utf8 TypeInterrupt = TypeInterrupt"
  by (simp_all add: type_defs fix_utf8_ascii code_def)

lemma with_payload_text:
  "UnmarshalData env dec zero = (Inr (), d) \<Longrightarrow> with_payload env dec zero f = Inr (f d)"
  by (simp add: with_payload_def)

lemma int64_length: "length xs < 2 ^ 63 \<Longrightarrow> int64_range (int (length xs))"
  by (simp add: int64_range_def)

text \<open>A change whose strings survive the wire.\<close>

definition clean_change :: "FileChange \<Rightarrow> bool" where
  "clean_change ch \<longleftrightarrow> valid_utf8 (op_string (fc_Op ch)) \<and> valid_utf8 (fc_Path ch) \<and> valid_utf8 (fc_Hash ch)"

definition change_message :: "FileChange \<Rightarrow> 64 word \<Rightarrow> bytes \<Rightarrow> ServerMessage" where
  "change_message ch sid content = (empty_message TypeFileChange content)
     \<lparr> sm_FileChange := Some (change_data ch sid (int (length content))) \<rparr>"

lemma server_message_change:
  assumes "clean_change ch" "int64_range sz"
  shows "server_message fl \<lparr> fr_Env = \<lparr> env_Type = TypeFileChange, env_ID = [],
      env_Data = marshal_FileChangeData (change_data ch sid sz) \<rparr>, fr_Content = content, fr_HasContent = b \<rparr> =
    Inr ((empty_message TypeFileChange content) \<lparr> sm_FileChange := Some (change_data ch sid sz) \<rparr>)"
proof -
  have "fix_FileChangeData (change_data ch sid sz) = change_data ch sid sz"
    using assms(1) by (simp add: fix_FileChangeData_def change_data_def clean_change_def valid_utf8_def)
  then have "with_payload \<lparr> env_Type = TypeFileChange, env_ID = [], env_Data = marshal_FileChangeData (change_data ch sid sz) \<rparr>
      dec_FileChangeData zero_FileChangeData g = Inr (g (change_data ch sid sz))" for g
    using unmarshal_FileChangeData[of "change_data ch sid sz" TypeFileChange "[]"] assms(2)
    by (intro with_payload_text) (simp add: change_data_def)
  then show ?thesis
    by (simp add: server_message_def Let_def)
qed

lemma delivers_from: "delivers S R m c1 c' r \<Longrightarrow> cn_wire c1 = cn_wire c \<Longrightarrow> delivers S R m c c' r"
  by (simp add: delivers_def)

lemma pending_ok_0: "pending_ok P \<Longrightarrow> P 0 = None"
  by (simp add: pending_ok_def)

lemma plain_text_envelope: "encoded dep t \<Longrightarrow> dep \<le> 2000 \<Longrightarrow> fix_utf8 typ = typ \<Longrightarrow>
  plain_envelope \<lparr> env_Type = typ, env_ID = [], env_Data = t \<rparr>"
  by (auto simp: plain_envelope_def fix_Envelope_def intro: encoded_mono)

text \<open>A content that follows its envelope.\<close>

lemma send_data_content_delivers:
  assumes "secure_channel S R" "R (cn_ch c) (cn_ch r)" "encoded 1 t" "fix_utf8 typ = typ"
    "streamIDOf \<lparr> env_Type = typ, env_ID = [], env_Data = t \<rparr> = Inr sid" "sid \<noteq> 0"
    "send_data S typ (Some t) c = (Inr u, c1)" "SendContent S sid content c1 = (Inr u', c')"
  shows "delivers S R \<lparr> fr_Env = \<lparr> env_Type = typ, env_ID = [], env_Data = t \<rparr>, fr_Content = content,
    fr_HasContent = True \<rparr> c c' r"
  by (rule SendContent_delivers[OF assms(1,2) _ assms(5,6) _ assms(8)])
     (use assms(7) plain_text_envelope[OF assms(3) _ assms(4)] in \<open>simp_all add: send_data_def marshalData_def\<close>)

lemma FileChange_receives:
  assumes "secure_channel S R" "R (cn_ch c) (cn_ch r)" "pending_ok (cn_pending r)"
    "clean_change ch" "length content < 2 ^ 63" "cn_outSeq c + 1 \<noteq> 0"
    "fc_Op ch = ChangeDelete \<Longrightarrow> content = []" "nt_FileChange S ch content c = (Inr u, c')"
  shows "\<exists>sid. receives fl S R (change_message ch sid content) c c' r \<and>
    (fc_Op ch = ChangeDelete \<longleftrightarrow> sid = 0)"
proof (cases "fc_Op ch = ChangeDelete")
  case True
  let ?t = "marshal_FileChangeData (change_data ch 0 0)"
  let ?e = "\<lparr> env_Type = TypeFileChange, env_ID = [], env_Data = ?t \<rparr>"
  have "send_data S TypeFileChange (Some ?t) c = (Inr (), c')"
    using assms(8) True by (simp add: nt_FileChange_def bindE_Inr_iff change_data_def)
  then have s: "SendEnvelope S ?e c = (Inr (), c')" by (simp add: send_data_def marshalData_def)
  have "streamIDOf ?e = Inr 0"
    using streamIDOf_change[of "change_data ch 0 0"] by (simp add: change_data_def int64_range_def)
  then have "delivers S R \<lparr> fr_Env = ?e, fr_Content = [], fr_HasContent = False \<rparr> c c' r"
    by (intro SendEnvelope_delivers[OF assms(1,2) pending_ok_0[OF assms(3)] _ _ s] plain_text_envelope[of 1])
       (simp_all add: encoded_FileChangeData[unfolded One_nat_def])
  from delivers_receives[OF this _ assms(3), of fl "change_message ch 0 []"] show ?thesis
    using server_message_change[OF assms(4), of 0 fl 0 "[]" False] True assms(7)
    by (auto simp: change_message_def int64_range_def)
next
  case False
  let ?sid = "cn_outSeq c + 1"
  let ?sz = "int (length content)"
  let ?d = "change_data ch ?sid ?sz"
  let ?c = "c\<lparr> cn_outSeq := ?sid \<rparr>"
  have r: "int64_range ?sz" using assms(5) by (rule int64_length)
  have sid: "fd_StreamID ?d = ?sid" "fd_Size ?d = ?sz" by (simp_all add: change_data_def)
  obtain c1 where c1: "send_data S TypeFileChange (Some (marshal_FileChangeData ?d)) ?c = (Inr (), c1)"
      "SendContent S ?sid content c1 = (Inr (), c')"
    using assms(6,8) False sid by (auto simp: nt_FileChange_def bindE_Inr_iff NewStreamID_def)
  have "streamIDOf \<lparr> env_Type = TypeFileChange, env_ID = [], env_Data = marshal_FileChangeData ?d \<rparr> = Inr ?sid"
    using streamIDOf_change[of ?d] sid r by simp
  then have "delivers S R \<lparr> fr_Env = \<lparr> env_Type = TypeFileChange, env_ID = [],
      env_Data = marshal_FileChangeData ?d \<rparr>, fr_Content = content, fr_HasContent = True \<rparr> ?c c' r"
    by (intro send_data_content_delivers[OF assms(1) _ encoded_FileChangeData _ _ assms(6) c1]) (use assms(2) in simp_all)
  then have "delivers S R \<lparr> fr_Env = \<lparr> env_Type = TypeFileChange, env_ID = [],
      env_Data = marshal_FileChangeData ?d \<rparr>, fr_Content = content, fr_HasContent = True \<rparr> c c' r"
    by (rule delivers_from) simp
  from delivers_receives[OF this server_message_change[OF assms(4) r] assms(3)] show ?thesis
    using False assms(6) by (auto simp: change_message_def)
qed

text \<open>C20. File changes reach the client unharmed. When the server's \<^verbatim>\<open>FileChange\<close> returns
  without error, the client's next \<^verbatim>\<open>ReadServerMessage\<close> returns that change, with its
  operation, path, hash, mode and the whole content, whatever its length; deletes carry stream 0
  and no content. The two stay synchronized for the next message.\<close>

theorem file_change_delivered:
  assumes "secure_channel S R" "R (cn_ch c) (cn_ch r)" "pending_ok (cn_pending r)"
    "clean_change ch" "length content < 2 ^ 63" "cn_outSeq c + 1 \<noteq> 0"
    "fc_Op ch = ChangeDelete \<Longrightarrow> content = []" "nt_FileChange S ch content c = (Inr u, c')"
  shows "\<exists>sid. receives fl S R (change_message ch sid content) c c' r \<and>
    (fc_Op ch = ChangeDelete \<longleftrightarrow> sid = 0)"
  by (rule FileChange_receives[OF assms])

definition demo_file_change :: FileChange where
  "demo_file_change = \<lparr> fc_Op = ChangeModify, fc_Path = ''a.txt'', fc_Hash = ''00'', fc_Mode = 420 \<rparr>"

definition demo_conn :: "bytes list \<Rightarrow> unit conn" where
  "demo_conn inbox = newConn () (\<lambda>_. None) inbox Canceled"

text \<open>On the demonstration connection every record that encodes is written.\<close>

lemma demo_write: "writeRecord id_channel b (demo_conn i\<lparr> cn_wire := w, cn_outSeq := q \<rparr>) =
  (Inr (), demo_conn i\<lparr> cn_wire := w @ [b], cn_outSeq := q \<rparr>)"
  by (simp add: writeRecord_def id_channel_def demo_conn_def newConn_def)

lemma demo_envelope:
  assumes "env_Data e = [] \<or> encoded dep (env_Data e)" "dep \<le> max_depth"
    "length (obj_text ([(''type'', quote (env_Type e))] @ omitempty (env_ID e = []) ''id'' (quote (env_ID e)) @
       omitempty (env_Data e = []) ''data'' (env_Data e))) < MaxRecordPlaintext"
  shows "\<exists>b. SendEnvelope id_channel e (demo_conn i\<lparr> cn_wire := w, cn_outSeq := q \<rparr>) =
    (Inr (), demo_conn i\<lparr> cn_wire := w @ [b], cn_outSeq := q \<rparr>)"
  using marshal_Envelope_eq[OF assms(1,2)] assms(3)
  by (auto simp: SendEnvelope_def EncodeEnvelope_def demo_write)

theorem file_change_delivered_witness:
  "\<exists>c' sid. nt_FileChange id_channel demo_file_change [1, 2] (demo_conn []) = (Inr (), c') \<and>
     receives demo_floats id_channel (\<lambda>_ _. True) (change_message demo_file_change sid [1, 2]) (demo_conn []) c' (demo_conn [])"
proof -
  let ?d = "change_data demo_file_change 1 2"
  let ?e = "\<lparr> env_Type = TypeFileChange, env_ID = [], env_Data = marshal_FileChangeData ?d \<rparr>"
  have "length (obj_text ([(''type'', quote (env_Type ?e))] @ omitempty (env_ID ?e = []) ''id'' (quote (env_ID ?e)) @
       omitempty (env_Data ?e = []) ''data'' (env_Data ?e))) < 200" by code_simp
  then have len: "length (obj_text ([(''type'', quote (env_Type ?e))] @ omitempty (env_ID ?e = []) ''id'' (quote (env_ID ?e)) @
       omitempty (env_Data ?e = []) ''data'' (env_Data ?e))) < MaxRecordPlaintext"
    unfolding MaxRecordPlaintext_def by (rule less_trans) simp
  have enc: "encoded 1 (env_Data ?e)" by (simp only: Envelope.select_convs encoded_FileChangeData)
  obtain b where b: "SendEnvelope id_channel ?e (demo_conn []\<lparr> cn_wire := [], cn_outSeq := 1 \<rparr>) =
      (Inr (), demo_conn []\<lparr> cn_wire := [] @ [b], cn_outSeq := 1 \<rparr>)"
    using demo_envelope[OF disjI2[OF enc] _ len, where i = "[]" and w = "[]" and q = 1] by auto
  have p: "pieces [1, 2] = [[1, 2]]"
    by (subst pieces.simps) (simp add: ChunkPayloadSize_def MaxRecordPlaintext_def)
  have "\<exists>c'. nt_FileChange id_channel demo_file_change [1, 2] (demo_conn []) = (Inr (), c')"
    using b demo_write[where i = "[]" and w = "[b]" and q = 1]
    by (auto simp: nt_FileChange_def bindE_Inr_iff NewStreamID_def demo_file_change_def send_data_def
        marshalData_def SendContent_pieces chunk_records_def p change_data_def demo_conn_def newConn_def)
  then obtain c' where c': "nt_FileChange id_channel demo_file_change [1, 2] (demo_conn []) = (Inr (), c')" by blast
  have "clean_change demo_file_change"
    by (simp add: clean_change_def demo_file_change_def valid_utf8_def fix_utf8_ascii code_def)
  moreover have "pending_ok (cn_pending (demo_conn []))" "cn_outSeq (demo_conn []) + 1 \<noteq> 0"
    by (simp_all add: demo_conn_def newConn_def pending_ok_def)
  ultimately show ?thesis
    using file_change_delivered[OF id_channel_secure _ _ _ _ _ _ c', of "demo_conn []" demo_floats] c'
    by (auto simp: demo_file_change_def)
qed

section \<open>The other messages\<close>

lemma notify_receives:
  assumes "secure_channel S R" "R (cn_ch c) (cn_ch r)" "pending_ok (cn_pending r)"
    "encoded dep t" "dep \<le> 2000" "fix_utf8 typ = typ" "typ \<noteq> TypeBlob" "typ \<noteq> TypeFileChange"
    "send_data S typ (Some t) c = (Inr u, c')"
    "server_message fl \<lparr> fr_Env = \<lparr> env_Type = typ, env_ID = [], env_Data = t \<rparr>, fr_Content = [],
       fr_HasContent = False \<rparr> = Inr m"
  shows "receives fl S R m c c' r"
  by (rule delivers_receives[OF send_data_delivers[OF assms(1,2) pending_ok_0[OF assms(3)]
        encoded_mono[OF assms(4,5)] assms(6-9)] assms(10,3)])

lemma SessionReady_receives:
  assumes "secure_channel S R" "R (cn_ch c) (cn_ch r)" "pending_ok (cn_pending r)"
    "nt_SessionReady S sid c = (Inr u, c')"
  shows "receives fl S R ((empty_message TypeSessionReady [])
    \<lparr> sm_SessionReady := Some \<lparr> rd_SessionID = fix_utf8 sid \<rparr> \<rparr>) c c' r"
  by (rule notify_receives[OF assms(1-3) encoded_SessionReadyData _ _ _ _ assms(4)[unfolded nt_SessionReady_def]])
     (simp_all add: server_message_def with_payload_text[OF unmarshal_SessionReadyData])

lemma SyncRequest_receives:
  assumes "secure_channel S R" "R (cn_ch c) (cn_ch r)" "pending_ok (cn_pending r)"
    "nt_SyncRequest S missing c = (Inr u, c')"
  shows "receives fl S R ((empty_message TypeSyncRequest [])
    \<lparr> sm_SyncRequest := Some \<lparr> sr_Missing = map fix_utf8 missing \<rparr> \<rparr>) c c' r"
  by (rule notify_receives[OF assms(1-3) encoded_SyncRequestData _ _ _ _ assms(4)[unfolded nt_SyncRequest_def]])
     (simp_all add: server_message_def with_payload_text[OF unmarshal_SyncRequestData])

lemma Error_receives:
  assumes "secure_channel S R" "R (cn_ch c) (cn_ch r)" "pending_ok (cn_pending r)"
    "nt_Error S msg c = (Inr u, c')"
  shows "receives fl S R ((empty_message TypeError []) \<lparr> sm_Error := Some \<lparr> er_Message = fix_utf8 msg \<rparr> \<rparr>) c c' r"
  by (rule notify_receives[OF assms(1-3) encoded_ErrorData _ _ _ _ assms(4)[unfolded nt_Error_def]])
     (simp_all add: server_message_def with_payload_text[OF unmarshal_ErrorData])

lemma StreamEvent_receives:
  assumes "secure_channel S R" "R (cn_ch c) (cn_ch r)" "pending_ok (cn_pending r)"
    and raw: "raw_ok (string_of_bytes (ev_Raw ev)) raw" and run: "nt_StreamEvent S ev c = (Inr u, c')"
  shows "receives fl S R ((empty_message TypeStreamEvent []) \<lparr> sm_StreamEvent := Some
    \<lparr> se_Kind = fix_utf8 (kind_string (ev_Kind ev)), se_Text = fix_utf8 (ev_Text ev), se_Raw = raw \<rparr> \<rparr>) c c' r"
proof -
  let ?d = "\<lparr> se_Kind = kind_string (ev_Kind ev), se_Text = ev_Text ev, se_Raw = string_of_bytes (ev_Raw ev) \<rparr>"
  obtain t where t: "marshal_StreamEventData ?d = Some t" "send_data S TypeStreamEvent (Some t) c = (Inr u, c')"
    using run by (cases "marshal_StreamEventData ?d") (auto simp: nt_StreamEvent_def send_data_def marshalData_def)
  have "encoded (Suc 1000) t"
    by (rule encoded_StreamEventData[OF _ t(1)]) (use raw in \<open>auto simp: raw_ok_def split: if_splits\<close>)
  then show ?thesis
    by (rule notify_receives[OF assms(1-3) _ _ _ _ _ t(2)])
       (use with_payload_text[OF unmarshal_StreamEventData[OF _ t(1), of raw]] raw in \<open>simp_all add: server_message_def\<close>)
qed

lemma TurnDone_receives:
  assumes "secure_channel S R" "R (cn_ch c) (cn_ch r)" "pending_ok (cn_pending r)"
    and fl: "float_laws fl" and n: "int64_range (tr_NumTurns res)" and run: "nt_TurnDone fl S res c = (Inr u, c')"
  shows "receives fl S R ((empty_message TypeTurnDone []) \<lparr> sm_TurnDone := Some (fix_TurnDoneData
    \<lparr> td_IsError = tr_IsError res, td_CostUSD = tr_CostUSD res, td_Text = tr_Text res,
      td_NumTurns = tr_NumTurns res \<rparr>) \<rparr>) c c' r"
proof -
  let ?d = "\<lparr> td_IsError = tr_IsError res, td_CostUSD = tr_CostUSD res, td_Text = tr_Text res,
    td_NumTurns = tr_NumTurns res \<rparr>"
  obtain t where t: "marshal_TurnDoneData fl ?d = Some t" "send_data S TypeTurnDone (Some t) c = (Inr u, c')"
    using run by (cases "marshal_TurnDoneData fl ?d") (auto simp: nt_TurnDone_def send_data_def marshalData_def)
  show ?thesis
    by (rule notify_receives[OF assms(1-3) encoded_TurnDoneData[OF fl t(1)] _ _ _ _ t(2)])
       (use with_payload_text[OF unmarshal_TurnDoneData[OF fl _ t(1)]] n in \<open>simp_all add: server_message_def\<close>)
qed

text \<open>C22. Every other notification reaches the client too: after the server's call returns
  without error the client's next \<^verbatim>\<open>ReadServerMessage\<close> returns exactly what was sent, with
  invalid UTF-8 replaced in its strings, and the two stay synchronized.\<close>

theorem notifications_delivered:
  assumes "secure_channel S R" "R (cn_ch c) (cn_ch r)" "pending_ok (cn_pending r)" "float_laws fl"
  shows "(nt_SessionReady S sid c = (Inr u, c') \<longrightarrow> receives fl S R ((empty_message TypeSessionReady [])
        \<lparr> sm_SessionReady := Some \<lparr> rd_SessionID = fix_utf8 sid \<rparr> \<rparr>) c c' r) \<and>
    (nt_SyncRequest S missing c = (Inr u, c') \<longrightarrow> receives fl S R ((empty_message TypeSyncRequest [])
        \<lparr> sm_SyncRequest := Some \<lparr> sr_Missing = map fix_utf8 missing \<rparr> \<rparr>) c c' r) \<and>
    (raw_ok (string_of_bytes (ev_Raw ev)) raw \<and> nt_StreamEvent S ev c = (Inr u, c') \<longrightarrow>
      receives fl S R ((empty_message TypeStreamEvent []) \<lparr> sm_StreamEvent := Some
        \<lparr> se_Kind = fix_utf8 (kind_string (ev_Kind ev)), se_Text = fix_utf8 (ev_Text ev), se_Raw = raw \<rparr> \<rparr>) c c' r) \<and>
    (int64_range (tr_NumTurns res) \<and> nt_TurnDone fl S res c = (Inr u, c') \<longrightarrow>
      receives fl S R ((empty_message TypeTurnDone []) \<lparr> sm_TurnDone := Some (fix_TurnDoneData
        \<lparr> td_IsError = tr_IsError res, td_CostUSD = tr_CostUSD res, td_Text = tr_Text res,
          td_NumTurns = tr_NumTurns res \<rparr>) \<rparr>) c c' r) \<and>
    (nt_Error S msg c = (Inr u, c') \<longrightarrow> receives fl S R ((empty_message TypeError [])
        \<lparr> sm_Error := Some \<lparr> er_Message = fix_utf8 msg \<rparr> \<rparr>) c c' r)"
  using SessionReady_receives[OF assms(1-3)] SyncRequest_receives[OF assms(1-3)] Error_receives[OF assms(1-3)]
    StreamEvent_receives[OF assms(1-3)] TurnDone_receives[OF assms]
  by blast

theorem notifications_delivered_witness:
  "\<exists>c'. nt_SyncRequest id_channel [''ab''] (demo_conn []) = (Inr (), c') \<and>
     receives demo_floats id_channel (\<lambda>_ _. True) ((empty_message TypeSyncRequest [])
       \<lparr> sm_SyncRequest := Some \<lparr> sr_Missing = [''ab''] \<rparr> \<rparr>) (demo_conn []) c' (demo_conn [])"
proof -
  let ?e = "\<lparr> env_Type = TypeSyncRequest, env_ID = [], env_Data = marshal_SyncRequestData \<lparr> sr_Missing = [''ab''] \<rparr> \<rparr>"
  have "length (obj_text ([(''type'', quote (env_Type ?e))] @ omitempty (env_ID ?e = []) ''id'' (quote (env_ID ?e)) @
       omitempty (env_Data ?e = []) ''data'' (env_Data ?e))) < 200" by code_simp
  then have len: "length (obj_text ([(''type'', quote (env_Type ?e))] @ omitempty (env_ID ?e = []) ''id'' (quote (env_ID ?e)) @
       omitempty (env_Data ?e = []) ''data'' (env_Data ?e))) < MaxRecordPlaintext"
    unfolding MaxRecordPlaintext_def by (rule less_trans) simp
  have enc: "encoded 2 (env_Data ?e)" by (simp only: Envelope.select_convs encoded_SyncRequestData)
  have id: "demo_conn []\<lparr> cn_wire := [], cn_outSeq := 0 \<rparr> = demo_conn []" by (simp add: demo_conn_def newConn_def)
  obtain c' where c': "nt_SyncRequest id_channel [''ab''] (demo_conn []) = (Inr (), c')"
    using demo_envelope[OF disjI2[OF enc] _ len, where i = "[]" and w = "[]" and q = 0] unfolding id
    by (auto simp: nt_SyncRequest_def send_data_def marshalData_def)
  have pend: "pending_ok (cn_pending (demo_conn []))" by (simp add: demo_conn_def newConn_def pending_ok_def)
  have "map fix_utf8 [''ab''] = [''ab'']" by (simp add: fix_utf8_ascii code_def)
  then show ?thesis
    using notifications_delivered[OF id_channel_secure TrueI pend demo_floats_laws, where c = "demo_conn []" and
        missing = "[''ab'']" and c' = c' and u = "()"] c' by auto
qed

section \<open>Uploads\<close>

text \<open>An upload reaches the server unharmed: after the client's \<^verbatim>\<open>UploadBlob\<close> returns
  without error, the server's next \<^verbatim>\<open>ReadMessage\<close> returns one message with the whole
  content, whose payload decodes to the hash it was sent for.\<close>

theorem upload_delivered:
  assumes "secure_channel S R" "R (cn_ch c) (cn_ch r)" "length content < 2 ^ 63" "cn_outSeq c + 1 \<noteq> 0"
    "cl_UploadBlob S hash content c = (Inr u, c')"
  shows "\<exists>f d. delivers S R f c c' r \<and> env_Type (fr_Env f) = TypeBlob \<and> fr_Content f = content \<and> fr_HasContent f \<and>
    UnmarshalData (fr_Env f) dec_BlobData zero_BlobData = (Inr (), d) \<and> bd_Hash d = fix_utf8 hash \<and>
    bd_Size d = int (length content)"
proof -
  let ?d = "\<lparr> bd_StreamID = cn_outSeq c + 1, bd_Hash = hash, bd_Size = int (length content) \<rparr>"
  let ?c = "c\<lparr> cn_outSeq := cn_outSeq c + 1 \<rparr>"
  let ?e = "\<lparr> env_Type = TypeBlob, env_ID = [], env_Data = marshal_BlobData ?d \<rparr>"
  have r: "int64_range (bd_Size ?d)" using int64_length[OF assms(3)] by simp
  obtain c1 where c1: "send_data S TypeBlob (Some (marshal_BlobData ?d)) ?c = (Inr (), c1)"
      "SendContent S (cn_outSeq c + 1) content c1 = (Inr u, c')"
    using assms(5) by (auto simp: cl_UploadBlob_def bindE_Inr_iff NewStreamID_def)
  have "delivers S R \<lparr> fr_Env = ?e, fr_Content = content, fr_HasContent = True \<rparr> ?c c' r"
    by (rule send_data_content_delivers[OF assms(1) _ encoded_BlobData _ _ assms(4) c1])
       (use streamIDOf_blob[OF r] assms(2) in simp_all)
  then have "delivers S R \<lparr> fr_Env = ?e, fr_Content = content, fr_HasContent = True \<rparr> c c' r"
    by (rule delivers_from) simp
  then show ?thesis
    using unmarshal_BlobData[OF r, of TypeBlob "[]"]
    by (intro exI[of _ "\<lparr> fr_Env = ?e, fr_Content = content, fr_HasContent = True \<rparr>"]) simp
qed

theorem upload_delivered_witness:
  "\<exists>c' f d. cl_UploadBlob id_channel ''h'' [1, 2] (demo_conn []) = (Inr (), c') \<and>
     delivers id_channel (\<lambda>_ _. True) f (demo_conn []) c' (demo_conn []) \<and> fr_Content f = [1, 2] \<and>
     UnmarshalData (fr_Env f) dec_BlobData zero_BlobData = (Inr (), d) \<and> bd_Hash d = ''h''"
proof -
  let ?d = "\<lparr> bd_StreamID = 1, bd_Hash = ''h'', bd_Size = 2 \<rparr>"
  let ?e = "\<lparr> env_Type = TypeBlob, env_ID = [], env_Data = marshal_BlobData ?d \<rparr>"
  have "length (obj_text ([(''type'', quote (env_Type ?e))] @ omitempty (env_ID ?e = []) ''id'' (quote (env_ID ?e)) @
       omitempty (env_Data ?e = []) ''data'' (env_Data ?e))) < 200" by code_simp
  then have len: "length (obj_text ([(''type'', quote (env_Type ?e))] @ omitempty (env_ID ?e = []) ''id'' (quote (env_ID ?e)) @
       omitempty (env_Data ?e = []) ''data'' (env_Data ?e))) < MaxRecordPlaintext"
    unfolding MaxRecordPlaintext_def by (rule less_trans) simp
  have enc: "encoded 1 (env_Data ?e)" by (simp only: Envelope.select_convs encoded_BlobData)
  obtain b where b: "SendEnvelope id_channel ?e (demo_conn []\<lparr> cn_wire := [], cn_outSeq := 1 \<rparr>) =
      (Inr (), demo_conn []\<lparr> cn_wire := [] @ [b], cn_outSeq := 1 \<rparr>)"
    using demo_envelope[OF disjI2[OF enc] _ len, where i = "[]" and w = "[]" and q = 1] by auto
  have p: "pieces [1, 2] = [[1, 2]]"
    by (subst pieces.simps) (simp add: ChunkPayloadSize_def MaxRecordPlaintext_def)
  have "\<exists>c'. cl_UploadBlob id_channel ''h'' [1, 2] (demo_conn []) = (Inr (), c')"
    using b demo_write[where i = "[]" and w = "[b]" and q = 1]
    by (auto simp: cl_UploadBlob_def bindE_Inr_iff NewStreamID_def send_data_def
        marshalData_def SendContent_pieces chunk_records_def p demo_conn_def newConn_def)
  then obtain c' where c': "cl_UploadBlob id_channel ''h'' [1, 2] (demo_conn []) = (Inr (), c')" by blast
  have "cn_outSeq (demo_conn []) + 1 \<noteq> 0" by (simp add: demo_conn_def newConn_def)
  moreover have "fix_utf8 ''h'' = ''h''" by (simp add: fix_utf8_ascii code_def)
  ultimately show ?thesis
    using upload_delivered[OF id_channel_secure TrueI _ _ c', of "demo_conn []"] c' by fastforce
qed

section \<open>The size of a project\<close>

lemma length_esc_ascii: "Suc 0 \<le> length (esc_ascii c)"
  by (simp add: esc_ascii_def u00_def)

lemma length_quote_body: "length s \<le> length (quote_body s)"
proof (induction s rule: quote_body.induct)
  case 1
  then show ?case by simp
next
  case (2 c s)
  show ?case
  proof (cases "code c < 0x80")
    case True
    then show ?thesis using 2(1)[OF True] length_esc_ascii[of c]
      by (simp only: quote_body.simps(2) if_True length_append list.size)
  next
    case ge: False
    show ?thesis
    proof (cases "utf8_len (c # s) = 0 \<or> line_sep (c # s)")
      case True
      then show ?thesis using ge 2(2,3) by (auto simp: quote_body.simps(2))
    next
      case False
      then have "utf8_len (c # s) \<le> length (c # s)" using utf8_len_facts(2)[OF ge, of s] by simp
      then show ?thesis using ge False 2(4) by (simp add: quote_body.simps(2) min_def) linarith
    qed
  qed
qed

lemma length_quote: "length s + 2 \<le> length (quote s)"
  using length_quote_body[of s] by (simp add: quote_def)

lemma length_int_text: "1 \<le> length (int_text i)"
  using int_text_not_Nil[of i] by (cases "int_text i") auto

lemma length_FileEntryDTO: "length (dto_Hash d) + 39 \<le> length (marshal_FileEntryDTO d)"
  using length_quote[of "''path''"] length_quote[of "''hash''"] length_quote[of "''size''"]
    length_quote[of "''mode''"] length_quote[of "dto_Path d"] length_quote[of "dto_Hash d"]
    length_int_text[of "dto_Size d"] length_int_text[of "uint (dto_Mode d)"]
  by (simp add: marshal_FileEntryDTO_def obj_text_def)

lemma length_join_with: "\<forall>x \<in> set xs. k \<le> length x \<Longrightarrow> length xs * Suc k \<le> Suc (length (join_with c xs))"
  by (induction c xs rule: join_with.induct) auto

text \<open>C25. The whole manifest travels in one envelope, so the size of a project is bounded by the
  number of its files: with 64-digit hashes, a project of 630 files or more is refused by the
  client's own encoder, before anything is sent.\<close>

theorem large_project_refused:
  assumes "\<forall>e \<in> set manifest. length (dto_Hash e) = 64" "630 \<le> length manifest"
  shows "cl_SessionStart S name manifest c = (Inl (ErrMsg ''protocol: envelope exceeds max record size''), c)"
proof -
  let ?d = "\<lparr> ss_ProjectName = name, ss_Manifest = manifest \<rparr>"
  let ?e = "\<lparr> env_Type = TypeSessionStart, env_ID = [], env_Data = marshal_SessionStartData ?d \<rparr>"
  have "\<forall>x \<in> set (map marshal_FileEntryDTO manifest). 103 \<le> length x"
  proof
    fix x assume "x \<in> set (map marshal_FileEntryDTO manifest)"
    then obtain e where "e \<in> set manifest" "x = marshal_FileEntryDTO e" by auto
    then show "103 \<le> length x" using assms(1) length_FileEntryDTO[of e] by simp
  qed
  from length_join_with[OF this, of comma]
  have "length manifest * 104 \<le> Suc (length (join_with comma (map marshal_FileEntryDTO manifest)))" by simp
  then have "65519 \<le> length (join_with comma (map marshal_FileEntryDTO manifest))" using assms(2) by linarith
  then have data: "65519 \<le> length (marshal_SessionStartData ?d)"
    by (simp add: marshal_SessionStartData_def obj_text_def arr_text_def)
  then have ne: "marshal_SessionStartData ?d \<noteq> []" by auto
  have enc: "encoded 3 (env_Data ?e)" by (simp only: Envelope.select_convs encoded_SessionStartData)
  have m: "marshal_Envelope ?e = Some (obj_text [(''type'', quote TypeSessionStart), (''data'', marshal_SessionStartData ?d)])"
    using marshal_Envelope_eq[OF disjI2[OF enc]] ne by (simp add: omitempty_def)
  have "65519 \<le> length (obj_text [(''type'', quote TypeSessionStart), (''data'', marshal_SessionStartData ?d)])"
    using data by (simp add: obj_text_def)
  then have "EncodeEnvelope ?e = Inl (ErrMsg ''protocol: envelope exceeds max record size'')"
    using m by (simp add: EncodeEnvelope_def MaxRecordPlaintext_def)
  then show ?thesis
    by (simp add: cl_SessionStart_def send_data_def marshalData_def SendEnvelope_def)
qed

theorem large_project_refused_witness:
  "cl_SessionStart id_channel ''big'' (replicate 630 \<lparr> dto_Path = ''f'', dto_Hash = replicate 64 CHR ''0'',
     dto_Size = 0, dto_Mode = 420 \<rparr>) (demo_conn []) =
   (Inl (ErrMsg ''protocol: envelope exceeds max record size''), demo_conn [])"
  by (rule large_project_refused) simp_all

end
