(* ===== verification/WireContract.thy ===== *)
theory WireContract
  imports Ports ClientConn
begin

text \<open>
  The WebSocket notifier keeps the notifier's contract: what the client reads is what was
  notified. The client is the reader of \<open>ClientConn\<close>, at the other end of a secure channel.
\<close>

definition news_of :: "ServerMessage \<Rightarrow> news option" where
  "news_of m =
     (case sm_SessionReady m of Some d \<Rightarrow> Some (NReady (rd_SessionID d)) | None \<Rightarrow>
     (case sm_SyncRequest m of Some d \<Rightarrow> Some (NMissing (sr_Missing d)) | None \<Rightarrow>
     (case sm_StreamEvent m of Some d \<Rightarrow> Some (NEvent (se_Kind d) (se_Text d)) | None \<Rightarrow>
     (case sm_FileChange m of
        Some d \<Rightarrow> Some (NChange \<lparr> fc_Op = op_of_string (fd_Op d), fc_Path = fd_Path d, fc_Hash = fd_Hash d,
          fc_Mode = fd_Mode d \<rparr> (sm_Content m)) | None \<Rightarrow>
     (case sm_TurnDone m of Some d \<Rightarrow> Some (NDone (td_IsError d) (td_CostUSD d) (td_Text d) (td_NumTurns d)) | None \<Rightarrow>
     (case sm_Error m of Some d \<Rightarrow> Some (NError (er_Message d)) | None \<Rightarrow> None))))))"

text \<open>\<open>transcript fl S r0 fs ns r\<close>: a client that starts as \<open>r0\<close> reads the news \<open>ns\<close> from the
  frames \<open>fs\<close>, one message after the other, and is then \<open>r\<close>.\<close>

inductive transcript ::
  "float_ops \<Rightarrow> 'c SecureChannel \<Rightarrow> 'c conn \<Rightarrow> bytes list \<Rightarrow> news list \<Rightarrow> 'c conn \<Rightarrow> bool"
  for fl S r0 where
  nothing: "transcript fl S r0 [] [] r0"
| another: "transcript fl S r0 fs ns r \<Longrightarrow>
    (\<And>rest. ReadServerMessage fl S (r\<lparr> cn_inbox := gs @ rest \<rparr>) = (Inr m, r'\<lparr> cn_inbox := rest \<rparr>)) \<Longrightarrow>
    news_of m = Some n \<Longrightarrow> transcript fl S r0 (fs @ gs) (ns @ [n]) r'"

definition wire_reads ::
  "float_ops \<Rightarrow> 'c SecureChannel \<Rightarrow> ('c \<Rightarrow> 'c \<Rightarrow> bool) \<Rightarrow> 'c conn \<Rightarrow> 'c conn \<Rightarrow> news list \<Rightarrow> bool" where
  "wire_reads fl S R r0 c ns \<longleftrightarrow> secure_channel S R \<and> float_laws fl \<and>
     (\<exists>r. transcript fl S r0 (cn_wire c) ns r \<and> R (cn_ch c) (cn_ch r) \<and> pending_ok (cn_pending r))"

definition stream_room :: "'c conn \<Rightarrow> nat" where
  "stream_room c = 2 ^ 64 - 1 - unat (cn_outSeq c)"

text \<open>The client's loop of reads.\<close>

fun read_news :: "nat \<Rightarrow> float_ops \<Rightarrow> 'c SecureChannel \<Rightarrow> ('c conn, news list) prog" where
  "read_news 0 fl S = retE []"
| "read_news (Suc k) fl S =
     bindE (ReadServerMessage fl S) (\<lambda>m. bindE (read_news k fl S) (\<lambda>ns.
       retE ((case news_of m of None \<Rightarrow> [] | Some n \<Rightarrow> [n]) @ ns)))"

lemma read_news_snoc:
  assumes "read_news k fl S c = (Inr ns, c1)" "ReadServerMessage fl S c1 = (Inr m, c2)" "news_of m = Some n"
  shows "read_news (Suc k) fl S c = (Inr (ns @ [n]), c2)"
  using assms
proof (induction k arbitrary: c ns)
  case 0
  then show ?case by simp
next
  case (Suc k)
  obtain m0 t ns0 where m0: "ReadServerMessage fl S c = (Inr m0, t)" "read_news k fl S t = (Inr ns0, c1)"
      "ns = (case news_of m0 of None \<Rightarrow> [] | Some n \<Rightarrow> [n]) @ ns0"
    using Suc.prems(1) by (auto simp: bindE_Inr_iff)
  have "read_news (Suc k) fl S t = (Inr (ns0 @ [n]), c2)" by (rule Suc.IH[OF m0(2) Suc.prems(2,3)])
  then show ?case using m0 by (subst read_news.simps) simp
qed

lemma transcript_read:
  "transcript fl S r0 fs ns r \<Longrightarrow>
   read_news (length ns) fl S (r0\<lparr> cn_inbox := fs @ rest \<rparr>) = (Inr ns, r\<lparr> cn_inbox := rest \<rparr>)"
proof (induction arbitrary: rest rule: transcript.induct)
  case nothing
  then show ?case by simp
next
  case (another fs ns r gs m r' n)
  show ?case
    using read_news_snoc[OF another.IH[of "gs @ rest"] another.hyps(2)[of rest] another.hyps(3)] by simp
qed

lemma receives_reads_ex:
  assumes "wire_reads fl S R r0 c ns"
    "\<And>r. R (cn_ch c) (cn_ch r) \<Longrightarrow> pending_ok (cn_pending r) \<Longrightarrow> \<exists>m. receives fl S R m c c' r \<and> news_of m = Some n"
  shows "wire_reads fl S R r0 c' (ns @ [n])"
proof -
  obtain r where r: "transcript fl S r0 (cn_wire c) ns r" "R (cn_ch c) (cn_ch r)" "pending_ok (cn_pending r)"
    using assms(1) by (auto simp: wire_reads_def)
  obtain m where m: "receives fl S R m c c' r" "news_of m = Some n" using assms(2)[OF r(2,3)] by blast
  obtain gs r' where gs: "cn_wire c' = cn_wire c @ gs" "R (cn_ch c') (cn_ch r')" "pending_ok (cn_pending r')"
      "\<And>rest. ReadServerMessage fl S (r\<lparr> cn_inbox := gs @ rest \<rparr>) = (Inr m, r'\<lparr> cn_inbox := rest \<rparr>)"
    using m(1) unfolding receives_def by blast
  show ?thesis
    using transcript.another[OF r(1) gs(4) m(2)] gs assms(1) by (auto simp: wire_reads_def)
qed

lemma receives_reads:
  assumes "wire_reads fl S R r0 c ns" "news_of m = Some n"
    "\<And>r. R (cn_ch c) (cn_ch r) \<Longrightarrow> pending_ok (cn_pending r) \<Longrightarrow> receives fl S R m c c' r"
  shows "wire_reads fl S R r0 c' (ns @ [n])"
  by (rule receives_reads_ex[OF assms(1)]) (use assms(2,3) in blast)

section \<open>Stream ids used\<close>

lemma writeRecord_outSeq: "cn_outSeq (snd (writeRecord S rec c)) = cn_outSeq c"
  by (auto simp: writeRecord_def split: prod.splits sum.splits option.splits)

lemma SendEnvelope_outSeq: "SendEnvelope S e c = (x, c') \<Longrightarrow> cn_outSeq c' = cn_outSeq c"
  using writeRecord_outSeq[of S _ c] by (auto simp: SendEnvelope_def split: sum.splits)
     (metis snd_conv)

lemma send_data_outSeq: "send_data S ty p c = (x, c') \<Longrightarrow> cn_outSeq c' = cn_outSeq c"
  using SendEnvelope_outSeq by (auto simp: send_data_def split: sum.splits)

lemma SendContent_outSeq: "SendContent S sid content c = (x, c') \<Longrightarrow> cn_outSeq c' = cn_outSeq c"
proof -
  have "forE recs (writeRecord S) c = (x, c') \<Longrightarrow> cn_outSeq c' = cn_outSeq c" for recs c
  proof (induction recs arbitrary: c)
    case (Cons rec recs)
    then show ?case using writeRecord_outSeq[of S rec c]
      by (auto simp: bindE_def split: prod.splits sum.splits)
  qed simp
  then show "SendContent S sid content c = (x, c') \<Longrightarrow> ?thesis" by (simp add: SendContent_pieces)
qed

lemma nt_FileChange_outSeq:
  "nt_FileChange S ch content c = (Inr u, c') \<Longrightarrow>
   cn_outSeq c' = (if fc_Op ch = ChangeDelete then cn_outSeq c else cn_outSeq c + 1)"
  by (auto simp: nt_FileChange_def bindE_Inr_iff NewStreamID_def split: if_splits
      dest!: SendContent_outSeq send_data_outSeq)

section \<open>The contract\<close>

lemma send_data_room: "send_data S ty p c = (x, c') \<Longrightarrow> stream_room c' = stream_room c"
  by (simp add: stream_room_def send_data_outSeq)

lemma news_of_change:
  "op_of_string (op_string (fc_Op ch)) = fc_Op ch \<Longrightarrow> news_of (change_message ch sid content) = Some (NChange ch content)"
  by (simp add: news_of_def change_message_def empty_message_def change_data_def)

lemma room_change:
  "0 < stream_room c \<Longrightarrow> nt_FileChange S ch content c = (Inr u, c') \<Longrightarrow>
   cn_outSeq c + 1 \<noteq> 0 \<and> stream_room c \<le> Suc (stream_room c')"
proof -
  assume room: "0 < stream_room c" and run: "nt_FileChange S ch content c = (Inr u, c')"
  have lt: "unat (cn_outSeq c) < 2 ^ 64 - 1" using room by (simp add: stream_room_def)
  then have u: "unat (cn_outSeq c + 1) = Suc (unat (cn_outSeq c))"
    by (simp add: unat_word_ariths)
  then have "cn_outSeq c + 1 \<noteq> 0" by (metis nat.distinct(1) unat_0)
  then show ?thesis using nt_FileChange_outSeq[OF run] u by (auto simp: stream_room_def)
qed

interpretation wire: client_notifier "ws_notifier fl S" "wire_reads fl S R r0" stream_room for fl S R r0
proof (unfold_locales, goal_cases)
  case (1 s ns i u s')
  then have run: "nt_SessionReady S i s = (Inr u, s')" by (simp add: ws_notifier_def)
  have "stream_room s' = stream_room s"
    by (rule send_data_room[OF run[unfolded nt_SessionReady_def]])
  moreover have "wire_reads fl S R r0 s' (ns @ [NReady (fix_utf8 i)])"
    by (rule receives_reads[OF 1(1)])
       (use 1(1) SessionReady_receives[OF _ _ _ run] in
         \<open>auto simp: wire_reads_def news_of_def empty_message_def\<close>)
  ultimately show ?case by simp
next
  case (2 s ns hs u s')
  then have run: "nt_SyncRequest S hs s = (Inr u, s')" by (simp add: ws_notifier_def)
  have "stream_room s' = stream_room s"
    by (rule send_data_room[OF run[unfolded nt_SyncRequest_def]])
  moreover have "wire_reads fl S R r0 s' (ns @ [NMissing (map fix_utf8 hs)])"
    by (rule receives_reads[OF 2(1)])
       (use 2(1) SyncRequest_receives[OF _ _ _ run] in
         \<open>auto simp: wire_reads_def news_of_def empty_message_def\<close>)
  ultimately show ?case by simp
next
  case (3 s ns ev u s')
  then have run: "nt_StreamEvent S ev s = (Inr u, s')" by (simp add: ws_notifier_def)
  obtain t where t: "raw_ok (string_of_bytes (ev_Raw ev)) t" using 3(2) by (auto simp: event_ok_def)
  have "stream_room s' = stream_room s"
    by (rule send_data_room[OF run[unfolded nt_StreamEvent_def]])
  moreover have "wire_reads fl S R r0 s' (ns @ [NEvent (fix_utf8 (kind_string (ev_Kind ev))) (fix_utf8 (ev_Text ev))])"
    by (rule receives_reads[OF 3(1)])
       (use 3(1) StreamEvent_receives[OF _ _ _ t run] in
         \<open>auto simp: wire_reads_def news_of_def empty_message_def\<close>)
  ultimately show ?case by simp
next
  case (4 s ns ch content u s')
  then have run: "nt_FileChange S ch content s = (Inr u, s')" by (simp add: ws_notifier_def)
  note room = room_change[OF 4(3) run]
  have ok: "clean_change ch" "length content < 2 ^ 63" "op_of_string (op_string (fc_Op ch)) = fc_Op ch"
      "fc_Op ch = ChangeDelete \<Longrightarrow> content = []"
    using 4(2) by (auto simp: change_ok_def clean_change_def)
  have sec: "secure_channel S R" using 4(1) by (simp add: wire_reads_def)
  have "wire_reads fl S R r0 s' (ns @ [NChange ch content])"
  proof (rule receives_reads_ex[OF 4(1)])
    fix r :: "'a conn" assume r: "R (cn_ch s) (cn_ch r)" "pending_ok (cn_pending r)"
    show "\<exists>m. receives fl S R m s s' r \<and> news_of m = Some (NChange ch content)"
      using FileChange_receives[OF sec r ok(1,2) conjunct1[OF room] ok(4) run] news_of_change[OF ok(3)] by blast
  qed
  then show ?case using room by simp
next
  case (5 s ns res u s')
  then have run: "nt_TurnDone fl S res s = (Inr u, s')" by (simp add: ws_notifier_def)
  have "stream_room s' = stream_room s"
    by (rule send_data_room[OF run[unfolded nt_TurnDone_def]])
  moreover have "wire_reads fl S R r0 s'
      (ns @ [NDone (tr_IsError res) (sent_cost (tr_CostUSD res)) (fix_utf8 (tr_Text res)) (tr_NumTurns res)])"
    by (rule receives_reads[OF 5(1)])
       (use 5(1,2) TurnDone_receives[OF _ _ _ _ _ run] in
         \<open>auto simp: wire_reads_def news_of_def empty_message_def fix_TurnDoneData_def sent_cost_def\<close>)
  ultimately show ?case by simp
next
  case (6 s ns msg u s')
  then have run: "nt_Error S msg s = (Inr u, s')" by (simp add: ws_notifier_def)
  have "stream_room s' = stream_room s"
    by (rule send_data_room[OF run[unfolded nt_Error_def]])
  moreover have "wire_reads fl S R r0 s' (ns @ [NError (fix_utf8 msg)])"
    by (rule receives_reads[OF 6(1)])
       (use 6(1) Error_receives[OF _ _ _ run] in
         \<open>auto simp: wire_reads_def news_of_def empty_message_def\<close>)
  ultimately show ?case by simp
qed

end
