(* ===== verification/SessionRuns.thy ===== *)
theory SessionRuns
  imports SessionLaws WireContract
begin

text \<open>
  What holds in every run of the session's concurrent system: the accounting of completed turns,
  that only a closing session can crash, and when a prompt returns and when it never does.
\<close>

section \<open>The invariant\<close>

fun began_at :: "'s prompt_state \<Rightarrow> nat" where
  "began_at (PromptSnaps agent ws text) = 0"
| "began_at (PromptSends k agent text) = k"
| "began_at (PromptWaits k) = k"

definition waits :: "'s prompt_state \<Rightarrow> bool" where
  "waits p \<longleftrightarrow> (\<exists>k. p = PromptWaits k)"

text \<open>The accounting of the completion channel.\<close>

definition signalled :: "'s Service \<Rightarrow> nat" where
  "signalled sv = (if sv_turnDone sv = None then 0 else 1)"

definition accounted :: "'s run \<Rightarrow> bool" where
  "accounted x \<longleftrightarrow>
     rn_completed x + signalled (rn_sv x) \<le> rn_finished x \<and>
     (\<forall>p \<in> set (rn_prompts x). began_at p + signalled (rn_sv x) \<le> rn_finished x)"

text \<open>What the fields of the service say of each other.\<close>

definition equipped :: "'s run \<Rightarrow> bool" where
  "equipped x \<longleftrightarrow>
     (rn_pump x \<noteq> PumpWaits \<longrightarrow> sv_pump_started (rn_sv x)) \<and>
     (\<not> rn_closed x \<longrightarrow>
        (sv_pump_started (rn_sv x) \<longleftrightarrow> sv_agent (rn_sv x) \<noteq> None) \<and>
        (sv_agent (rn_sv x) \<noteq> None \<longrightarrow> sv_ws (rn_sv x) \<noteq> None)) \<and>
     (rn_panicked x \<longrightarrow> rn_closed x) \<and>
     length (rn_events x) \<le> event_capacity"


lemma signal_done_turnDone [simp]: "sv_turnDone (signal_done e sv) \<noteq> None"
  by (simp add: signal_done_def)

lemma signal_done_fields [simp]:
  "sv_ws (signal_done e sv) = sv_ws sv" "sv_agent (signal_done e sv) = sv_agent sv"
  "sv_pump_started (signal_done e sv) = sv_pump_started sv"
  by (simp_all add: signal_done_def)

lemma drain_done_fields [simp]:
  "sv_ws (drain_done sv) = sv_ws sv" "sv_agent (drain_done sv) = sv_agent sv"
  "sv_pump_started (drain_done sv) = sv_pump_started sv" "sv_turnDone (drain_done sv) = None"
  by (simp_all add: drain_done_def)

lemma prompt_snap_fields:
  assumes "prompt_snap ws (sv, w) = (r, (sv', w'))"
  shows "sv_ws sv' = sv_ws sv" "sv_agent sv' = sv_agent sv" "sv_pump_started sv' = sv_pump_started sv"
    "(case r of Inl e \<Rightarrow> sv_turnDone sv' = sv_turnDone sv | Inr a \<Rightarrow> sv_turnDone sv' = None)"
  using assms by (auto elim!: prompt_snap_cases)

lemma accounted_mono:
  "accounted x \<Longrightarrow> sv_turnDone (rn_sv y) = sv_turnDone (rn_sv x) \<Longrightarrow> rn_completed y = rn_completed x \<Longrightarrow>
   rn_finished y = rn_finished x \<Longrightarrow> began_at ` set (rn_prompts y) \<subseteq> began_at ` set (rn_prompts x) \<Longrightarrow> accounted y"
  by (fastforce simp: accounted_def signalled_def)

lemma accounted_bstep:
  assumes "bstep D A x y" "accounted x"
  shows "accounted y"
  using assms
proof (cases rule: bstep.cases)
  case (pump_snaps res ws r sv w)
  then show ?thesis using turn_changes_keeps[OF pump_snaps(4)] assms(2) by (auto simp: accounted_def)
next
  case (pump_ends_turn res after r sv w)
  then show ?thesis using turn_end_keeps[OF pump_ends_turn(3)] assms(2)
    by (auto simp: accounted_def signalled_def)
next
  case (pump_signals e)
  then show ?thesis using assms(2) by (auto simp: accounted_def signalled_def split: if_splits)
next
  case (prompt_snaps ps agent ws msg qs u sv w)
  then show ?thesis using prompt_snap_fields(4)[OF prompt_snaps(3)] assms(2)
    by (auto simp: accounted_def signalled_def split: if_splits dest: bspec)
next
  case (prompt_snap_fails ps agent ws msg qs e sv w)
  then show ?thesis using prompt_snap_fields(4)[OF prompt_snap_fails(3)] assms(2)
    by (auto simp: accounted_def signalled_def)
next
  case (prompt_returns ps k qs e)
  then show ?thesis using assms(2) by (auto simp: accounted_def signalled_def intro: Suc_leD)
qed (use assms(2) in \<open>auto simp: accounted_def signalled_def\<close>)

lemma accounted_step:
  assumes "sstep D A x y" "accounted x"
  shows "accounted y"
  using assms
proof (cases rule: sstep.cases)
  case background
  then show ?thesis using accounted_bstep assms(2) by blast
next
  case (prompt_begins msg)
  then show ?thesis using begin_prompt_prompts[of msg x] assms(2) by (auto simp: accounted_def signalled_def)
next
  case (called c r sv w)
  then show ?thesis using run_call_turnDone[OF called(3)] assms(2)
    by (auto simp: accounted_def signalled_def)
qed

lemma run_call_equipped:
  assumes "run_call D c (sv, w) = (r, (sv', w'))"
    "sv_pump_started sv \<longleftrightarrow> sv_agent sv \<noteq> None" "sv_agent sv \<noteq> None \<longrightarrow> sv_ws sv \<noteq> None" "c \<noteq> CClose"
  shows "(sv_pump_started sv' \<longleftrightarrow> sv_agent sv' \<noteq> None) \<and> (sv_agent sv' \<noteq> None \<longrightarrow> sv_ws sv' \<noteq> None) \<and>
    (sv_pump_started sv \<longrightarrow> sv_pump_started sv')"
proof (cases c)
  case CSyncDone
  then obtain r' where r': "svc_SyncDone D (sv, w) = (r', (sv', w'))"
    using assms(1) by (auto simp: run_call_def bindE_def split: prod.splits sum.splits)
  show ?thesis using svc_SyncDone_keeps(2,3)[OF r'] assms(2,3) by (cases "sv_agent sv = None") auto
qed (use assms in \<open>auto simp: run_call_def StartSession_def PutBlob_def svc_Interrupt_def outside_run bindE_def
      split: prod.splits sum.splits option.splits\<close>)

lemma svc_Close_pump: "svc_Close D (sv, w) = (r, (sv', w')) \<Longrightarrow> sv_pump_started sv' = sv_pump_started sv"
  by (auto dest: svc_Close_keeps)

lemma equipped_bstep:
  assumes "bstep D A x y" "equipped x"
  shows "equipped y"
  using assms
proof (cases rule: bstep.cases)
  case (pump_snaps res ws r sv w)
  then show ?thesis using turn_changes_keeps[OF pump_snaps(4)] assms(2) by (auto simp: equipped_def)
next
  case (pump_ends_turn res after r sv w)
  then show ?thesis using turn_end_keeps[OF pump_ends_turn(3)] assms(2) by (auto simp: equipped_def)
next
  case pump_panics
  then show ?thesis using assms(2) by (cases "rn_pump x") (auto simp: equipped_def)
next
  case (prompt_snaps ps agent ws msg qs u sv w)
  then show ?thesis using prompt_snap_fields[OF prompt_snaps(3)] assms(2) by (auto simp: equipped_def)
next
  case (prompt_snap_fails ps agent ws msg qs e sv w)
  then show ?thesis using prompt_snap_fields[OF prompt_snap_fails(3)] assms(2) by (auto simp: equipped_def)
qed (auto simp: equipped_def split: if_splits)

lemma equipped_step:
  assumes "sstep D A x y" "equipped x"
  shows "equipped y"
  using assms
proof (cases rule: sstep.cases)
  case background
  then show ?thesis using equipped_bstep assms(2) by blast
next
  case (prompt_begins msg)
  then show ?thesis using begin_prompt_prompts[of msg x] assms(2) by (auto simp: equipped_def)
next
  case (called c r sv w)
  have e: "sv_pump_started (rn_sv x) \<longleftrightarrow> sv_agent (rn_sv x) \<noteq> None" "sv_agent (rn_sv x) \<noteq> None \<longrightarrow> sv_ws (rn_sv x) \<noteq> None"
      "\<not> rn_panicked x" "rn_pump x \<noteq> PumpWaits \<longrightarrow> sv_pump_started (rn_sv x)"
    using assms(2) called(2) by (auto simp: equipped_def)
  show ?thesis
  proof (cases "c = CClose")
    case True
    then have "sv_pump_started sv = sv_pump_started (rn_sv x)" using called(3) by (simp add: run_call_def svc_Close_pump)
    then show ?thesis using called(1) e assms(2) True by (auto simp: equipped_def)
  next
    case False
    then show ?thesis using run_call_equipped[OF called(3) e(1,2) False] called(1) e assms(2)
      by (auto simp: equipped_def)
  qed
qed

lemma reach_invariant:
  assumes "reach D A x y" "P x" "\<And>x y. sstep D A x y \<Longrightarrow> P x \<Longrightarrow> P y"
  shows "P y"
  using assms(1,2) by (induction rule: rtranclp_induct) (auto simp: live_step_def intro: assms(3))

lemma start_accounted: "accounted (start_run w)" and start_equipped: "equipped (start_run w)"
  by (simp_all add: accounted_def equipped_def start_run_def NewService_def signalled_def)

lemma reach_accounted: "reach D A (start_run w) x \<Longrightarrow> accounted x"
  by (erule reach_invariant[where P = accounted]) (rule start_accounted, rule accounted_step)

lemma reach_equipped: "reach D A (start_run w) x \<Longrightarrow> equipped x"
  by (erule reach_invariant[where P = equipped]) (rule start_equipped, rule equipped_step)

text \<open>
  C7. The accounting of turns. In every reachable state at most one completion is pending, and no
  more prompts have returned on a completion than turns were finished; a prompt returns on a
  completion only after a turn was finished since it began, never on a stale one; the agent's
  channel never holds more than its capacity.
\<close>

theorem turns_accounted:
  assumes "reach D A (start_run w) x"
  shows "rn_completed x + signalled (rn_sv x) \<le> rn_finished x \<and>
    (\<forall>k \<in> began_at ` set (rn_prompts x). k + signalled (rn_sv x) \<le> rn_finished x) \<and>
    length (rn_events x) \<le> event_capacity"
  using reach_accounted[OF assms] reach_equipped[OF assms] by (auto simp: accounted_def equipped_def)

text \<open>
  C26. While the session is not closed it cannot crash: whoever finishes a turn finds a workspace;
  a pump has been started exactly if there is an agent, and before that it waits. A pump
  that was started need not be running: it returns when an event cannot be sent.
\<close>

theorem open_session_safe:
  assumes "reach D A (start_run w) x" and "\<not> rn_closed x"
  shows "\<not> rn_panicked x \<and> (sv_pump_started (rn_sv x) \<longleftrightarrow> sv_agent (rn_sv x) \<noteq> None) \<and>
    (\<not> sv_pump_started (rn_sv x) \<longrightarrow> rn_pump x = PumpWaits) \<and> (rn_pump x \<noteq> PumpWaits \<longrightarrow> sv_ws (rn_sv x) \<noteq> None)"
  using reach_equipped[OF assms(1)] assms(2) by (auto simp: equipped_def)

text \<open>
  Closing the session while the pump is still going to use the workspace, that is when it has
  forwarded a result, or has the content of a change left to read, crashes: two steps lead from any
  such state to a panic.
\<close>

theorem close_during_turn_panics:
  assumes "needs_ws (rn_pump x)" and "\<not> rn_closed x" and "\<not> rn_panicked x"
  shows "\<exists>y z. live_step D A x y \<and> live_step D A y z \<and> rn_panicked z"
proof -
  obtain r sv w where c: "run_call D CClose (rn_sv x, rn_world x) = (r, (sv, w))"
    by (metis prod.collapse)
  let ?y = "x\<lparr> rn_sv := sv, rn_world := w, rn_closed := (CClose = CClose) \<rparr>"
  have "live_step D A x ?y" using sstep.called[OF assms(2) c] assms(3) by (simp add: live_step_def)
  moreover have "sv_ws sv = None" using svc_Close_keeps c by (fastforce simp: run_call_def)
  then have "live_step D A ?y (?y\<lparr> rn_panicked := True \<rparr>)"
    using pump_panics_step[of ?y D A] assms(1,3) by (simp add: live_step_def)
  ultimately show ?thesis
    by (intro exI[of _ ?y] exI[of _ "?y\<lparr> rn_panicked := True \<rparr>"]) simp
qed

section \<open>Prompts that return, and prompts that never do\<close>



lemma waits_simps [simp]: "waits (PromptWaits k)" "\<not> waits (PromptSends k agent text)" "\<not> waits (PromptSnaps agent ws text)"
  by (simp_all add: waits_def)




lemma long_event_error:
  assumes "event_ok ev" and "65519 \<le> length (ev_Text ev)"
  shows "StreamEvent (ws_notifier fl S) ev c = (Inl (ErrMsg ''protocol: envelope exceeds max record size''), c)"
proof -
  let ?d = "\<lparr> se_Kind = kind_string (ev_Kind ev), se_Text = ev_Text ev, se_Raw = string_of_bytes (ev_Raw ev) \<rparr>"
  obtain raw where "raw_ok (string_of_bytes (ev_Raw ev)) raw" using assms(1) by (auto simp: event_ok_def)
  then have raw: "se_Raw ?d = [] \<or> compact (se_Raw ?d) = Some raw \<and> encoded 1000 raw"
    by (auto simp: raw_ok_def split: if_splits)
  then have "omit_raw ''raw'' (se_Raw ?d) \<noteq> None" by (auto simp: omit_raw_def)
  then obtain t where t: "marshal_StreamEventData ?d = Some t"
    by (auto simp: marshal_StreamEventData_def)
  let ?e = "\<lparr> env_Type = TypeStreamEvent, env_ID = [], env_Data = t \<rparr>"
  have enc: "encoded 1001 (env_Data ?e)" using encoded_StreamEventData[OF raw t] by simp
  have ne: "ev_Text ev \<noteq> []" using assms(2) by auto
  obtain more where "t = obj_text ([(''kind'', quote (kind_string (ev_Kind ev))), (''text'', quote (ev_Text ev))] @ more)"
    using t ne by (auto simp: marshal_StreamEventData_def omitempty_def)
  then have "length (quote (ev_Text ev)) \<le> length t" by (cases more) (simp_all add: obj_text_def)
  then have len: "65519 \<le> length t" using length_quote[of "ev_Text ev"] assms(2) by simp
  then have ne: "t \<noteq> []" by auto
  have "marshal_Envelope ?e = Some (obj_text [(''type'', quote TypeStreamEvent), (''data'', t)])"
    using marshal_Envelope_eq[OF disjI2[OF enc]] ne by (simp add: omitempty_def max_depth_def)
  moreover have "65519 \<le> length (obj_text [(''type'', quote TypeStreamEvent), (''data'', t)])"
    using len by (simp add: obj_text_def)
  ultimately have "EncodeEnvelope ?e = Inl (ErrMsg ''protocol: envelope exceeds max record size'')"
    by (simp add: EncodeEnvelope_def MaxRecordPlaintext_def)
  then show ?thesis
    using t by (simp add: ws_notifier_def nt_StreamEvent_def send_data_def marshalData_def SendEnvelope_def)
qed

text \<open>
  An event with a long text is such an error: over the WebSocket notifier, whatever its
  connection, an event whose text has 65519 bytes or more cannot be sent, although the client is
  still there.
\<close>

theorem long_event_refused:
  assumes "event_ok ev" and "65519 \<le> length (ev_Text ev)"
  shows "StreamEvent (ws_notifier fl S) ev c = (Inl (ErrMsg ''protocol: envelope exceeds max record size''), c)"
  by (rule long_event_error[OF assms])

text \<open>Left alone, the steps of the pump compose to \<open>finishTurn\<close>.\<close>

lemma live_intro: "sstep D A x y \<Longrightarrow> \<not> rn_panicked x \<Longrightarrow> reach D A y z \<Longrightarrow> reach D A x z"
  by (rule converse_rtranclp_into_rtranclp) (simp_all add: live_step_def)

lemma pump_pushes_all:
  "rn_pump x = PumpPushes res after chs \<Longrightarrow> sv_ws (rn_sv x) = Some ws \<Longrightarrow>
   forE chs (push_change D ws) (rn_world x) = (r, w) \<Longrightarrow> \<not> rn_panicked x \<Longrightarrow>
   reach D A x (x\<lparr> rn_world := w,
     rn_pump := (case r of Inl e \<Rightarrow> PumpSignals (Some e) | Inr _ \<Rightarrow> PumpPushes res after []) \<rparr>)"
proof (induction chs arbitrary: x)
  case Nil
  then have "x\<lparr> rn_world := w, rn_pump := (case r of Inl e \<Rightarrow> PumpSignals (Some e) | Inr _ \<Rightarrow> PumpPushes res after []) \<rparr> = x"
    by (cases x) auto
  then show ?case by simp
next
  case (Cons ch chs)
  obtain r1 w1 where p: "push_change D ws ch (rn_world x) = (r1, w1)" by (metis prod.collapse)
  let ?x1 = "x\<lparr> rn_world := w1,
      rn_pump := (case r1 of Inl e \<Rightarrow> PumpSignals (Some e) | Inr _ \<Rightarrow> PumpPushes res after chs) \<rparr>"
  have st: "sstep D A x ?x1" using pump_pushes_step[OF Cons.prems(1) _ p] Cons.prems(2) by blast
  show ?case
  proof (cases r1)
    case (Inl e)
    then show ?thesis using Cons.prems(3) p live_intro[OF st Cons.prems(4)] by auto
  next
    case (Inr u)
    then have "reach D A ?x1 (?x1\<lparr> rn_world := w,
        rn_pump := (case r of Inl e \<Rightarrow> PumpSignals (Some e) | Inr _ \<Rightarrow> PumpPushes res after []) \<rparr>)"
      using Cons.prems p by (intro Cons.IH) simp_all
    then show ?thesis using live_intro[OF st Cons.prems(4)] by simp
  qed
qed

lemma pump_finishes_turn:
  assumes "rn_pump x = PumpFinishes res" "sv_ws (rn_sv x) = Some ws"
    "finishTurn D ws res (rn_sv x, rn_world x) = (r, (sv, w))" "\<not> rn_panicked x"
  shows "reach D A x (x\<lparr> rn_sv := sv, rn_world := w, rn_pump := PumpSignals (err_of r) \<rparr>)"
proof -
  obtain r1 sv1 w1 where c: "turn_changes ws (rn_sv x, rn_world x) = (r1, (sv1, w1))" by (metis prod.collapse)
  have sv1: "sv1 = rn_sv x" by (rule turn_changes_keeps[OF c])
  let ?x1 = "x\<lparr> rn_sv := sv1, rn_world := w1,
      rn_pump := (case r1 of Inl e \<Rightarrow> PumpSignals (Some e) | Inr (after, chs) \<Rightarrow> PumpPushes res after chs) \<rparr>"
  have 1: "sstep D A x ?x1" by (rule pump_snaps_step[OF assms(1,2) c])
  show ?thesis
  proof (cases r1)
    case (Inl e)
    then show ?thesis using assms(3) c live_intro[OF 1 assms(4)] by (auto simp: finishTurn_def err_of_def)
  next
    case (Inr ac)
    then obtain after chs where ac: "r1 = Inr (after, chs)" by (cases ac) simp
    obtain r2 w2 where f: "forE chs (push_change D ws) w1 = (r2, w2)" by (metis prod.collapse)
    let ?x2 = "?x1\<lparr> rn_world := w2,
        rn_pump := (case r2 of Inl e \<Rightarrow> PumpSignals (Some e) | Inr _ \<Rightarrow> PumpPushes res after []) \<rparr>"
    have 2: "reach D A ?x1 ?x2" using ac sv1 f assms(2,4) by (intro pump_pushes_all) simp_all
    show ?thesis
    proof (cases r2)
      case (Inl e)
      then show ?thesis using assms(3) c ac f live_intro[OF 1 assms(4) 2]
        by (auto simp: finishTurn_def err_of_def bindE_outside)
    next
      case (Inr u)
      then have e: "turn_end D res after (sv1, w2) = (r, (sv, w))"
        using assms(3) c ac f by (simp add: finishTurn_def bindE_outside)
      have "sstep D A ?x2 (?x2\<lparr> rn_sv := sv, rn_world := w, rn_pump := PumpSignals (err_of r) \<rparr>)"
        using e Inr by (intro pump_ends_turn_step) simp_all
      then have "reach D A ?x2 (x\<lparr> rn_sv := sv, rn_world := w, rn_pump := PumpSignals (err_of r) \<rparr>)"
        using live_intro[of D A ?x2] assms(4) by simp
      then show ?thesis using live_intro[OF 1 assms(4)] 2 by (meson rtranclp_trans)
    qed
  qed
qed

text \<open>
  C27. A turn completes. When the agent's result is next in the channel, and forwarding it and
  finishing the turn return without error, a waiting prompt can return without error, with the
  world as \<open>finishTurn\<close> leaves it and the pump ready for the next turn, whatever else is going on.
\<close>

theorem turn_completes:
  assumes "sv_pump_started (rn_sv x)" and "rn_pump x = PumpWaits" and "rn_events x = ev # evs"
    and "ev_Kind ev = AgentResult" and "StreamEvent (dp_Notifier D) ev (rn_world x) = (Inr (), w1)"
    and "sv_ws (rn_sv x) = Some ws" and "finishTurn D ws (ev_Result ev) (rn_sv x, w1) = (Inr (), (sv, w2))"
    and "rn_prompts x = ps @ PromptWaits k # qs" and "sv_turnDone sv = None" and "\<not> rn_panicked x"
  shows "\<exists>z. reach D A x z \<and> rn_returned z = rn_returned x @ [None] \<and> rn_prompts z = ps @ qs \<and>
    rn_world z = w2 \<and> rn_pump z = PumpWaits"
proof -
  let ?x1 = "x\<lparr> rn_events := evs, rn_world := w1, rn_pump := PumpFinishes (ev_Result ev) \<rparr>"
  let ?x2 = "?x1\<lparr> rn_sv := sv, rn_world := w2, rn_pump := PumpSignals (err_of (Inr ())) \<rparr>"
  let ?x3 = "?x2\<lparr> rn_sv := signal_done None sv, rn_pump := PumpWaits, rn_finished := Suc (rn_finished x) \<rparr>"
  let ?x4 = "?x3\<lparr> rn_sv := drain_done (signal_done None sv), rn_prompts := ps @ qs,
      rn_returned := rn_returned x @ [None], rn_completed := Suc (rn_completed x) \<rparr>"
  have 1: "sstep D A x ?x1" using pump_forwards_step[OF assms(1-3,5)] assms(4) by simp
  have 2: "reach D A ?x1 ?x2" by (rule pump_finishes_turn[of _ _ ws]) (use assms(6,7,10) in simp_all)
  have 3: "sstep D A ?x2 ?x3" using pump_signals_step[of ?x2 None D A] by (simp add: err_of_def)
  have 4: "sstep D A ?x3 ?x4"
    using prompt_returns_step[of ?x3 ps k qs None D A] assms(8,9) by (simp add: signal_done_def)
  have "reach D A ?x2 ?x4"
    by (rule live_intro[OF 3 _ live_intro[OF 4]]) (use assms(10) in simp_all)
  then have "reach D A x ?x4" using live_intro[OF 1 assms(10)] 2 by (meson rtranclp_trans)
  then show ?thesis by (intro exI[of _ ?x4]) simp
qed

section \<open>Witnesses\<close>

text \<open>
  A session over a world of nothing: the workspace has no files, the agent does what it is told,
  and its notifier is a parameter.
\<close>

definition idle_ws :: "'s WorkspacePort" where
  "idle_ws = \<lparr> wk_Dir = ''/w'', wk_Materialize = \<lambda>_ _. retE (), wk_Snapshot = retE \<lparr>Entries = []\<rparr>,
     wk_ReadFile = \<lambda>_. retE [], wk_Remove = retE () \<rparr>"

definition idle_agent :: "'s AgentSession" where
  "idle_agent = \<lparr> ag_Send = \<lambda>_. retE (), ag_Interrupt = retE (), ag_Close = retE () \<rparr>"

definition idle_deps :: "'s ClientNotifier \<Rightarrow> 's Deps" where
  "idle_deps N = \<lparr> dp_Blobs = \<lparr> Has = \<lambda>_. retE True, Put = \<lambda>_ _. retE (), Get = \<lambda>_. retE [] \<rparr>,
     dp_NewWorkspace = \<lambda>_. retE idle_ws, dp_Agent = \<lambda>_ _. retE idle_agent, dp_Notifier = N,
     dp_NewID = retE ''id'' \<rparr>"

definition result_event :: AgentEvent where
  "result_event = \<lparr> ev_Kind = AgentResult, ev_Text = [], ev_Raw = [], ev_Result = None \<rparr>"

text \<open>The session is synced, a prompt has been sent, and the agent has answered with \<open>ev\<close>.\<close>

definition ready_sv :: "'s Service" where
  "ready_sv = NewService\<lparr> sv_sessionID := ''id'', sv_ws := Some idle_ws, sv_agent := Some idle_agent, sv_pump_started := True \<rparr>"

definition answered :: "AgentEvent \<Rightarrow> 's \<Rightarrow> 's run" where
  "answered ev w = (start_run w)\<lparr> rn_sv := ready_sv, rn_prompts := [PromptWaits 0], rn_events := [ev] \<rparr>"

lemma ready_sv_fields [simp]:
  "sv_ws ready_sv = Some idle_ws" "sv_agent ready_sv = Some idle_agent" "sv_pump_started ready_sv" "sv_turnDone ready_sv = None"
  "sv_preTurn ready_sv = \<lparr>Entries = []\<rparr>"
  by (simp_all add: ready_sv_def NewService_def)

lemma answered_reach: "reach (idle_deps N) A (start_run w) (answered ev w)"
proof -
  let ?D = "idle_deps N"
  let ?x1 = "(start_run w)\<lparr> rn_sv := ready_sv \<rparr>"
  have "run_call ?D CSyncDone (NewService, w) = (Inr (), (ready_sv, w))"
    by (simp add: run_call_def svc_SyncDone_def bindE_def idle_deps_def idle_ws_def outside_run NewService_def ready_sv_def)
  from sstep.called[of "start_run w" ?D CSyncDone "Inr ()" ready_sv w A] this
  have 1: "live_step ?D A (start_run w) ?x1" by (simp add: live_step_def start_run_def)
  let ?x2 = "?x1\<lparr> rn_prompts := [PromptSnaps idle_agent idle_ws ''hi''] \<rparr>"
  have 2: "live_step ?D A ?x1 ?x2"
    using sstep.prompt_begins[of ?D A ?x1 "''hi''"]
    by (simp add: live_step_def start_run_def begin_prompt_def prompt_ready_def)
  let ?x3 = "?x2\<lparr> rn_prompts := [PromptSends 0 idle_agent ''hi''] \<rparr>"
  have "prompt_snap idle_ws (ready_sv, w) = (Inr (), (ready_sv, w))"
    by (simp add: prompt_snap_def bindE_def outside_run idle_ws_def ready_sv_def drain_done_def NewService_def)
  from prompt_snaps_step[of ?x2 "[]" idle_agent idle_ws "''hi''" "[]" "()" ready_sv w ?D A] this
  have 3: "live_step ?D A ?x2 ?x3" by (simp add: live_step_def start_run_def)
  let ?x4 = "?x3\<lparr> rn_prompts := [PromptWaits 0] \<rparr>"
  have 4: "live_step ?D A ?x3 ?x4"
    using prompt_sends_step[of ?x3 "[]" 0 idle_agent "''hi''" "[]" "()" w ?D A]
    by (simp add: live_step_def start_run_def idle_agent_def)
  have 5: "live_step ?D A ?x4 (answered ev w)"
    using emit_step[of ?x4 ?D A ev] by (simp add: live_step_def start_run_def event_capacity_def answered_def)
  from 1 2 3 4 5 show ?thesis by (meson rtranclp.rtrancl_into_rtrancl rtranclp.rtrancl_refl)
qed

theorem turns_accounted_witness:
  "length (rn_events (answered result_event ())) \<le> event_capacity"
  using turns_accounted [OF answered_reach[of _ "\<lambda>_ _. True" "()" result_event]] by blast

theorem open_session_safe_witness:
  "\<not> rn_panicked (answered result_event ())"
  using open_session_safe [OF answered_reach[of _ "\<lambda>_ _. True" "()" result_event]]
  by (simp add: answered_def start_run_def)

theorem turn_completes_witness:
  "\<exists>z. reach (idle_deps quiet_notifier) (\<lambda>_ _. False) (answered result_event ()) z \<and>
     rn_returned z = [None]"
proof -
  have f: "finishTurn (idle_deps quiet_notifier) idle_ws None (ready_sv, ()) = (Inr (), (ready_sv, ()))"
    by (simp add: finishTurn_def turn_changes_def turn_end_def bindE_def outside_run idle_deps_def quiet_notifier_def idle_ws_def Diff_def
        ByPath_def ready_sv_def NewService_def)
  show ?thesis
    using turn_completes [of "answered result_event ()" result_event "[]" "idle_deps quiet_notifier" "()" idle_ws
        ready_sv "()" "[]" 0 "[]" "\<lambda>_ _. False"] f
    by (auto simp: answered_def start_run_def result_event_def idle_deps_def quiet_notifier_def)
qed

definition long_event :: AgentEvent where
  "long_event = \<lparr> ev_Kind = AgentMessage, ev_Text = replicate 65519 CHR ''x'', ev_Raw = [], ev_Result = None \<rparr>"

lemma long_event_facts: "event_ok long_event" "65519 \<le> length (ev_Text long_event)"
  by (simp_all add: event_ok_def raw_ok_def long_event_def string_of_bytes_def)

theorem long_event_refused_witness:
  "StreamEvent (ws_notifier demo_floats id_channel) long_event (demo_conn []) =
    (Inl (ErrMsg ''protocol: envelope exceeds max record size''), demo_conn [])"
  by (rule long_event_refused [OF long_event_facts])


theorem close_during_turn_panics_witness:
  "\<exists>x. reach (idle_deps quiet_notifier) (\<lambda>_ _. False) (start_run ()) x \<and> rn_panicked x"
proof -
  let ?D = "idle_deps quiet_notifier" and ?A = "\<lambda>_ _. False"
  let ?x = "answered result_event ()"
  let ?y = "?x\<lparr> rn_events := [], rn_world := (), rn_pump := PumpFinishes None \<rparr>"
  have "sstep ?D ?A ?x ?y"
    using pump_forwards_step[of ?x result_event "[]" ?D "()" "()" ?A]
    by (simp add: answered_def start_run_def result_event_def idle_deps_def quiet_notifier_def)
  then have xy: "live_step ?D ?A ?x ?y" by (simp add: live_step_def answered_def start_run_def)
  have "\<exists>z u. live_step ?D ?A ?y z \<and> live_step ?D ?A z u \<and> rn_panicked u"
    by (rule close_during_turn_panics) (simp_all add: answered_def start_run_def)
  then obtain z u where u: "live_step ?D ?A ?y z" "live_step ?D ?A z u" "rn_panicked u" by blast
  have "reach ?D ?A (start_run ()) u"
    using answered_reach xy u(1,2) by (meson rtranclp.rtrancl_into_rtrancl)
  then show ?thesis using u(3) by blast
qed


end
