(* ===== verification/Server.thy ===== *)
theory Server
  imports SessionRuns
begin

text \<open>
  The server's end of the connection, \<^verbatim>\<open>internal/adapters/transport/ws/server.go\<close>: the
  dispatcher that turns the client's messages into calls of the session service, the check of the
  listen address, and the limit on concurrent sessions.
\<close>

section \<open>The dispatcher\<close>

definition entry_of :: "FileEntryDTO \<Rightarrow> FileEntry" where
  "entry_of e = \<lparr> fe_Path = dto_Path e, fe_Hash = dto_Hash e, fe_Size = dto_Size e, fe_Mode = dto_Mode e \<rparr>"

definition toManifest :: "FileEntryDTO list \<Rightarrow> Manifest" where
  "toManifest dto = \<lparr> Entries = map entry_of dto \<rparr>"

text \<open>What the loop does after a message: go on, go on with a prompt started beside it, or return.\<close>

datatype outcome = Continue | Started string | Ended

text \<open>\<^verbatim>\<open>if err := unmarshal(msg, &d); err != nil { return err }\<close>\<close>

definition payload :: "Framed \<Rightarrow> 'd decoder \<Rightarrow> 'd \<Rightarrow> ('s, 'd) prog" where
  "payload msg dec zero =
     (case UnmarshalData (fr_Env msg) dec zero of (Inl e, _) \<Rightarrow> throwE e | (Inr _, d) \<Rightarrow> retE d)"

text \<open>\<^verbatim>\<open>if err != nil { _ = notify.Error(err.Error()); return err }\<close>; \<open>say\<close> is
  \<^verbatim>\<open>err.Error()\<close>.\<close>

definition reported :: "(error \<Rightarrow> string) \<Rightarrow> 's Deps \<Rightarrow> ('s, 'a) sprog \<Rightarrow> ('s, 'a) sprog" where
  "reported say D m x =
     (case m x of
        (Inl e, y) \<Rightarrow> (Inl e, snd (outside (Error (dp_Notifier D) (say e)) y))
      | (Inr a, y) \<Rightarrow> (Inr a, y))"

definition handle_message :: "(error \<Rightarrow> string) \<Rightarrow> 's Deps \<Rightarrow> Framed \<Rightarrow> ('s, outcome) sprog" where
  "handle_message say D msg =
     (let ty = env_Type (fr_Env msg); N = dp_Notifier D in
      if ty = TypeSessionStart then
        bindE (payload msg dec_SessionStartData \<lparr> ss_ProjectName = [], ss_Manifest = [] \<rparr>) (\<lambda>d.
        bindE (reported say D (StartSession D (ss_ProjectName d) (toManifest (ss_Manifest d)))) (\<lambda>missing.
        bindE (outside (SyncRequest N missing)) (\<lambda>_. retE Continue)))
      else if ty = TypeBlob then
        bindE (payload msg dec_BlobData \<lparr> bd_StreamID = 0, bd_Hash = [], bd_Size = 0 \<rparr>) (\<lambda>d.
        bindE (reported say D (PutBlob D (bd_Hash d) (fr_Content msg))) (\<lambda>_. retE Continue))
      else if ty = TypeSyncDone then
        bindE (reported say D (svc_SyncDone D)) (\<lambda>sid.
        bindE (outside (SessionReady N sid)) (\<lambda>_. retE Continue))
      else if ty = TypePrompt then
        bindE (payload msg dec_PromptData \<lparr> pd_Text = [] \<rparr>) (\<lambda>d. retE (Started (pd_Text d)))
      else if ty = TypeInterrupt then
        bindE (tryE (reported say D (svc_Interrupt D))) (\<lambda>_. retE Continue)
      else if ty = TypeSessionEnd then retE Ended
      else retE Continue)"

section \<open>The listen address\<close>

text \<open>\<^verbatim>\<open>net.SplitHostPort\<close>, of which only the host is used.\<close>

definition SplitHostPort :: "string \<Rightarrow> error + string" where
  "SplitHostPort hp =
     (let bad = Inl (ErrMsg ''address''); parts = split_on colon hp in
      if length parts = 1 then bad
      else if hd hp = lbrack then
        (let inner = takeWhile (\<lambda>c. c \<noteq> rbrack) (tl hp); rest = drop (Suc (length inner)) (tl hp) in
         if rbrack \<notin> set hp then bad
         else if rest = [] \<or> hd rest \<noteq> colon \<or> colon \<in> set (tl rest) then bad
         else if lbrack \<in> set (tl hp) \<or> rbrack \<in> set rest then bad
         else Inr inner)
      else if length parts \<noteq> 2 then bad
      else if lbrack \<in> set hp \<or> rbrack \<in> set hp then bad
      else Inr (hd parts))"

text \<open>\<^verbatim>\<open>net.ParseIP\<close>: four decimal fields without leading zeros, as the address mapped into
  16 bytes; or groups of at most four hexadecimal digits with at most one ellipsis.\<close>

definition digit :: "char \<Rightarrow> nat option" where
  "digit c = (if CHR ''0'' \<le> c \<and> c \<le> CHR ''9'' then Some (of_char c - 48) else None)"

definition hex_digit :: "char \<Rightarrow> nat option" where
  "hex_digit c =
     (if CHR ''0'' \<le> c \<and> c \<le> CHR ''9'' then Some (of_char c - 48)
      else if CHR ''a'' \<le> c \<and> c \<le> CHR ''f'' then Some (of_char c - 87)
      else if CHR ''A'' \<le> c \<and> c \<le> CHR ''F'' then Some (of_char c - 55) else None)"

fun parse_digits :: "nat \<Rightarrow> (char \<Rightarrow> nat option) \<Rightarrow> nat \<Rightarrow> string \<Rightarrow> nat option" where
  "parse_digits base dig n [] = Some n"
| "parse_digits base dig n (c # cs) = (case dig c of None \<Rightarrow> None | Some d \<Rightarrow> parse_digits base dig (base * n + d) cs)"

definition parse_octet :: "string \<Rightarrow> nat option" where
  "parse_octet s =
     (if s = [] \<or> (2 \<le> length s \<and> hd s = CHR ''0'') then None
      else case parse_digits 10 digit 0 s of Some n \<Rightarrow> (if n \<le> 255 then Some n else None) | None \<Rightarrow> None)"

definition parseIPv4 :: "string \<Rightarrow> nat list option" where
  "parseIPv4 s =
     (let parts = split_on (CHR ''.'') s in
      if length parts = 4 \<and> (\<forall>p \<in> set parts. parse_octet p \<noteq> None) then Some (map (\<lambda>p. the (parse_octet p)) parts)
      else None)"

text \<open>
  The loop of \<^verbatim>\<open>netip.parseIPv6\<close> over the groups: \<open>ip\<close> is what was read, \<open>ell\<close> the
  position of the ellipsis; \<open>fuel\<close> is the number of groups there is room for.
\<close>

fun ipv6_groups :: "nat \<Rightarrow> nat list \<Rightarrow> nat option \<Rightarrow> string \<Rightarrow> (nat list \<times> nat option) option" where
  "ipv6_groups 0 ip ell s = (if s = [] then Some (ip, ell) else None)"
| "ipv6_groups (Suc fuel) ip ell s =
     (let g = takeWhile (\<lambda>c. hex_digit c \<noteq> None) s; rest = drop (length g) s in
      if g = [] \<or> 4 < length g then None
      else if rest \<noteq> [] \<and> hd rest = CHR ''.'' then
        (if ell = None \<and> length ip \<noteq> 12 \<or> 16 < length ip + 4 then None
         else map_option (\<lambda>v4. (ip @ v4, ell)) (parseIPv4 s))
      else
        (let n = the (parse_digits 16 hex_digit 0 g); ip' = ip @ [n div 256, n mod 256] in
         if rest = [] then Some (ip', ell)
         else if hd rest \<noteq> colon \<or> tl rest = [] then None
         else if hd (tl rest) = colon then
           (if ell \<noteq> None then None
            else if tl (tl rest) = [] then Some (ip', Some (length ip'))
            else ipv6_groups fuel ip' (Some (length ip')) (tl (tl rest)))
         else ipv6_groups fuel ip' ell (tl rest)))"

definition parseIPv6 :: "string \<Rightarrow> nat list option" where
  "parseIPv6 s =
     (if CHR ''%'' \<in> set s then None
      else if s = [colon, colon] then Some (replicate 16 0)
      else case (if prefix [colon, colon] s then ipv6_groups 8 [] (Some 0) (drop 2 s) else ipv6_groups 8 [] None s) of
        None \<Rightarrow> None
      | Some (ip, None) \<Rightarrow> if length ip = 16 then Some ip else None
      | Some (ip, Some k) \<Rightarrow>
          if length ip < 16 then Some (take k ip @ replicate (16 - length ip) 0 @ drop k ip) else None)"

definition ParseIP :: "string \<Rightarrow> nat list option" where
  "ParseIP s =
     (case find (\<lambda>c. c = CHR ''.'' \<or> c = colon \<or> c = CHR ''%'') s of
        None \<Rightarrow> None
      | Some c \<Rightarrow>
          if c = CHR ''.'' then map_option (\<lambda>v4. replicate 10 0 @ [255, 255] @ v4) (parseIPv4 s)
          else if c = colon then parseIPv6 s else None)"

definition IsLoopback :: "nat list \<Rightarrow> bool" where
  "IsLoopback ip =
     (if take 12 ip = replicate 10 0 @ [255, 255] then ip ! 12 = 127 else ip = replicate 15 0 @ [1])"

definition checkBind :: "string \<Rightarrow> bool \<Rightarrow> error + unit" where
  "checkBind addr allowPublic =
     (if allowPublic then Inr ()
      else case SplitHostPort addr of
        Inl e \<Rightarrow> Inl (Wrapped (''ws: invalid addr '' @ addr) e)
      | Inr host \<Rightarrow>
          if host = [] \<or> host = ''0.0.0.0'' \<or> host = ''::'' then
            Inl (ErrMsg (''ws: refusing to bind wildcard address '' @ addr))
          else case ParseIP host of
            Some ip \<Rightarrow>
              if \<not> IsLoopback ip then Inl (ErrMsg (''ws: refusing to bind non-loopback address '' @ addr)) else Inr ()
          | None \<Rightarrow> Inr ())"

section \<open>Which addresses are refused\<close>

lemma digit_decimal_char: "k < 10 \<Longrightarrow> digit (char_of (48 + k)) = Some k"
  by (simp add: digit_def less_eq_char_def)

lemma char_of_digit_0: "(k::nat) < 10 \<Longrightarrow> char_of (48 + k) = CHR ''0'' \<longleftrightarrow> k = 0"
proof
  assume "k < 10" "char_of (48 + k) = CHR ''0''"
  then have "(of_char (char_of (48 + k) :: char) :: nat) = of_char CHR ''0''" by simp
  then show "k = 0" using \<open>k < 10\<close> by simp
qed (simp add: char_of_def bit_nat_def)

lemma parse_digits_append:
  "parse_digits b dig n (xs @ ys) = (case parse_digits b dig n xs of None \<Rightarrow> None | Some m \<Rightarrow> parse_digits b dig m ys)"
  by (induction b dig n xs rule: parse_digits.induct) (auto split: option.splits)

lemma octet_digits_decimal: "parse_digits 10 digit 0 (decimal n) = Some n"
proof (induction n rule: decimal.induct)
  case (1 n)
  show ?case
  proof (cases "n < 10")
    case True
    then show ?thesis using digit_decimal_char[OF True] by (simp add: decimal_simps)
  next
    case False
    have d: "digit (char_of (48 + n mod 10)) = Some (n mod 10)" by (rule digit_decimal_char) simp
    show ?thesis using 1[OF False] d by (simp only: decimal_simps(2)[OF False] parse_digits_append) simp
  qed
qed

lemma decimal_lead: "0 < n \<Longrightarrow> hd (decimal n) \<noteq> CHR ''0''"
proof (induction n rule: decimal.induct)
  case (1 n)
  show ?case
  proof (cases "n < 10")
    case True
    then show ?thesis using 1(2) char_of_digit_0[OF True] by (simp add: decimal_simps)
  next
    case False
    then have "hd (decimal n) = hd (decimal (n div 10))" by (simp add: decimal_simps)
    then show ?thesis using 1(1)[OF False] False by simp
  qed
qed

lemma parse_octet_decimal: "n \<le> 255 \<Longrightarrow> parse_octet (decimal n) = Some n"
proof (cases "n = 0")
  case True
  then show ?thesis using digit_decimal_char[of 0] by (simp add: parse_octet_def decimal_simps)
next
  case False
  assume "n \<le> 255"
  then show ?thesis using decimal_lead[of n] False by (simp add: parse_octet_def octet_digits_decimal)
qed

definition dotted :: "nat \<Rightarrow> nat \<Rightarrow> nat \<Rightarrow> nat \<Rightarrow> string" where
  "dotted a b c d = join_with (CHR ''.'') [decimal a, decimal b, decimal c, decimal d]"

lemma decimal_no: "c \<notin> set ''0123456789'' \<Longrightarrow> c \<notin> set (decimal n)"
  using decimal_digits[of n] by blast

lemma split_dotted: "split_on (CHR ''.'') (dotted a b c d) = [decimal a, decimal b, decimal c, decimal d]"
  unfolding dotted_def by (rule split_join_with) (use decimal_no[of "CHR ''.''"] in auto)

lemma parseIPv4_dotted:
  "a \<le> 255 \<Longrightarrow> b \<le> 255 \<Longrightarrow> c \<le> 255 \<Longrightarrow> d \<le> 255 \<Longrightarrow> parseIPv4 (dotted a b c d) = Some [a, b, c, d]"
  by (simp add: parseIPv4_def split_dotted parse_octet_decimal)

lemma set_dotted: "set (dotted a b c d) \<subseteq> insert (CHR ''.'') (set ''0123456789'')"
proof -
  have "set (decimal n) \<subseteq> insert (CHR ''.'') (set ''0123456789'')" for n using decimal_digits[of n] by blast
  then show ?thesis unfolding dotted_def join_with.simps set_append set_simps Un_subset_iff insert_subset by simp
qed

lemma ParseIP_dotted:
  assumes "a \<le> 255" "b \<le> 255" "c \<le> 255" "d \<le> 255"
  shows "ParseIP (dotted a b c d) = Some (replicate 10 0 @ [255, 255] @ [a, b, c, d])"
proof -
  let ?P = "\<lambda>x. x = CHR ''.'' \<or> x = colon \<or> x = CHR ''%''"
  have "CHR ''.'' \<in> set (dotted a b c d)" by (simp add: dotted_def)
  then obtain x where x: "find ?P (dotted a b c d) = Some x" using find_exists[of _ _ ?P] by blast
  then have "x = CHR ''.''" using set_dotted[of a b c d] by (auto dest!: find_SomeD)
  then show ?thesis using x parseIPv4_dotted[OF assms] by (simp add: ParseIP_def)
qed

definition plain_port :: "string \<Rightarrow> bool" where
  "plain_port p \<longleftrightarrow> colon \<notin> set p \<and> lbrack \<notin> set p \<and> rbrack \<notin> set p"

lemma SplitHostPort_plain:
  assumes "plain_port host" "plain_port port"
  shows "SplitHostPort (host @ colon # port) = Inr host"
proof -
  have "split_on colon (host @ colon # port) = [host, port]"
    using assms by (simp add: plain_port_def split_on_sep split_on_id)
  moreover have "hd (host @ colon # port) \<noteq> lbrack"
    using assms(1) by (cases host) (auto simp: plain_port_def )
  ultimately show ?thesis
    using assms by (simp add: SplitHostPort_def Let_def plain_port_def )
qed

lemma plain_dotted: "plain_port (dotted a b c d)"
  using set_dotted[of a b c d] by (auto simp: plain_port_def )

lemma checkBind_dotted:
  assumes "a \<le> 255" and "b \<le> 255" and "c \<le> 255" and "d \<le> 255" and "plain_port port"
  shows "checkBind (dotted a b c d @ '':'' @ port) False = Inr () \<longleftrightarrow> a = 127"
proof -
  have ne: "dotted a b c d \<noteq> []" by (simp add: dotted_def)
  have colons: "dotted a b c d \<noteq> ''::''" using set_dotted[of a b c d] by (auto simp: dotted_def)
  have zero: "dotted a b c d = ''0.0.0.0'' \<Longrightarrow> a = 0"
  proof -
    assume "dotted a b c d = ''0.0.0.0''"
    then have "split_on (CHR ''.'') (dotted a b c d) = [''0'', ''0'', ''0'', ''0'']" by simp
    then have "decimal a = ''0''" by (simp add: split_dotted)
    then show "a = 0" using decimal_lead[of a] by (cases "a = 0") auto
  qed
  have "SplitHostPort (dotted a b c d @ '':'' @ port) = Inr (dotted a b c d)"
    using SplitHostPort_plain[OF plain_dotted assms(5)] by simp
  moreover have "IsLoopback (replicate 10 0 @ [255, 255] @ [a, b, c, d]) \<longleftrightarrow> a = 127"
    by (simp add: IsLoopback_def eval_nat_numeral)
  ultimately show ?thesis
    using ne colons zero ParseIP_dotted[OF assms(1-4)] by (auto simp: checkBind_def)
qed

text \<open>
  Without \<^verbatim>\<open>--allow-public\<close>, a numeric IPv4 address is accepted exactly if it is in
  127.0.0.0/8, whatever the port; so neither the wildcard address nor an address of the network can
  be bound by its number.
\<close>

theorem numeric_bind_loopback:
  assumes "a \<le> 255" and "b \<le> 255" and "c \<le> 255" and "d \<le> 255" and "plain_port port"
  shows "checkBind (dotted a b c d @ '':'' @ port) False = Inr () \<longleftrightarrow> a = 127"
  by (rule checkBind_dotted[OF assms])

text \<open>Only digits and dots make an address of four fields.\<close>

lemma parse_digits_char: "parse_digits b dig n s = Some m \<Longrightarrow> c \<in> set s \<Longrightarrow> dig c \<noteq> None"
  by (induction b dig n s rule: parse_digits.induct) (auto split: option.splits)

lemma set_join_with: "set (join_with c xs) \<subseteq> insert c (\<Union>x \<in> set xs. set x)"
  by (induction c xs rule: join_with.induct) auto

lemma split_on_parts: "c \<in> set s \<Longrightarrow> length (split_on c s) \<noteq> 1"
proof
  assume "c \<in> set s" "length (split_on c s) = 1"
  then obtain x where x: "split_on c s = [x]" by (auto simp: length_Suc_conv)
  then have "s = x" using join_split_on[of c s] by simp
  then show False using split_on_no_sep[of x c s] x \<open>c \<in> set s\<close> by simp
qed

lemma parseIPv4_chars: "parseIPv4 s = Some ip \<Longrightarrow> c \<in> set s \<Longrightarrow> c = CHR ''.'' \<or> digit c \<noteq> None"
proof -
  assume p: "parseIPv4 s = Some ip" and c: "c \<in> set s"
  have "c = CHR ''.'' \<or> (\<exists>p \<in> set (split_on (CHR ''.'') s). c \<in> set p)"
    using c set_join_with[of "CHR ''.''" "split_on (CHR ''.'') s"] by auto
  moreover have "digit c \<noteq> None" if "p \<in> set (split_on (CHR ''.'') s)" "c \<in> set p" for p
  proof -
    have "parse_octet p \<noteq> None" using \<open>parseIPv4 s = Some ip\<close> that(1) by (auto simp: parseIPv4_def Let_def split: if_splits)
    then obtain n where "parse_digits 10 digit 0 p = Some n" by (auto simp: parse_octet_def split: if_splits option.splits)
    then show ?thesis using parse_digits_char that(2) by metis
  qed
  ultimately show ?thesis by blast
qed

lemma parseIPv4_dots: "parseIPv4 s = Some ip \<Longrightarrow> CHR ''.'' \<in> set s"
  using split_on_id[of "CHR ''.''" s] by (cases "CHR ''.'' \<in> set s") (auto simp: parseIPv4_def Let_def split: if_splits)

lemma digit_percent [simp]: "digit CHR ''%'' = None"
  by code_simp

text \<open>A host without a colon is an address for the check exactly if it is four decimal fields.\<close>

lemma ParseIP_plain:
  assumes "colon \<notin> set host"
  shows "ParseIP host = map_option (\<lambda>v4. replicate 10 0 @ [255, 255] @ v4) (parseIPv4 host)"
proof (cases "find (\<lambda>c. c = CHR ''.'' \<or> c = colon \<or> c = CHR ''%'') host")
  case None
  then have "CHR ''.'' \<notin> set host" by (auto simp: find_None_iff)
  then have "parseIPv4 host = None" using parseIPv4_dots by (cases "parseIPv4 host") auto
  then show ?thesis using None by (simp add: ParseIP_def)
next
  case (Some c)
  then have c: "c \<in> set host" "c = CHR ''.'' \<or> c = CHR ''%''" using assms by (auto dest!: find_SomeD)
  show ?thesis
  proof (cases "c = CHR ''.''")
    case False
    then have "parseIPv4 host = None" using parseIPv4_chars[of host _ c] c by (cases "parseIPv4 host") auto
    then show ?thesis using Some False c(2) by (simp add: ParseIP_def)
  qed (use Some in \<open>simp add: ParseIP_def\<close>)
qed

text \<open>An address with a zone is none for the check, with or without brackets.\<close>

lemma ParseIP_zone: "CHR ''%'' \<in> set host \<Longrightarrow> ParseIP host = None"
  using parseIPv4_chars[of host _ "CHR ''%''"]
  by (cases "parseIPv4 host") (auto simp: ParseIP_def parseIPv6_def split: option.split dest!: find_SomeD)

lemma SplitHostPort_bracket:
  assumes "lbrack \<notin> set host" "rbrack \<notin> set host" "plain_port port"
  shows "SplitHostPort (lbrack # host @ rbrack # colon # port) = Inr host"
proof -
  have "takeWhile (\<lambda>c. c \<noteq> rbrack) (host @ rbrack # colon # port) = host"
    using assms(2) takeWhile_append2[of host "\<lambda>c. c \<noteq> rbrack" "rbrack # colon # port"] by fastforce
  moreover have "length (split_on colon (lbrack # host @ rbrack # colon # port)) \<noteq> 1"
    by (rule split_on_parts) simp
  ultimately show ?thesis using assms by (simp add: SplitHostPort_def Let_def plain_port_def)
qed

text \<open>
  C32. What the check lets through. A host written without brackets is accepted exactly if it is not
  empty and, if it is a dotted IPv4 address, one of 127.0.0.0/8; so every host name is, with a dot or
  without, to whatever address it resolves, since any character but digits and dots is enough. And
  an address in brackets is accepted whenever it has a zone, whatever the address is.
\<close>

theorem host_name_accepted:
  assumes "plain_port host" and "plain_port port"
  shows "(checkBind (host @ '':'' @ port) False = Inr () \<longleftrightarrow>
      host \<noteq> [] \<and> (\<forall>ip. parseIPv4 host = Some ip \<longrightarrow> hd ip = 127)) \<and>
    ((\<exists>c \<in> set host. c \<noteq> CHR ''.'' \<and> digit c = None) \<longrightarrow> checkBind (host @ '':'' @ port) False = Inr ()) \<and>
    (lbrack \<notin> set addr \<longrightarrow> rbrack \<notin> set addr \<longrightarrow>
      checkBind (''['' @ addr @ ''%'' @ host @ '']:'' @ port) False = Inr ())"
proof -
  have four: "\<exists>a b c d. ip = [a, b, c, d]" if "parseIPv4 host = Some ip" for ip
  proof -
    have "length ip = 4" using that by (auto simp: parseIPv4_def Let_def split: if_splits)
    then show ?thesis by (auto simp: eval_nat_numeral length_Suc_conv)
  qed
  have loop: "IsLoopback (replicate 10 0 @ [255, 255] @ ip) \<longleftrightarrow> hd ip = 127" if "parseIPv4 host = Some ip" for ip
    using four[OF that] by (auto simp: IsLoopback_def eval_nat_numeral)
  have zero: "parseIPv4 ''0.0.0.0'' = Some [0, 0, 0, 0]" by code_simp
  have noc: "colon \<notin> set host" "host \<noteq> ''::''" using assms(1) by (auto simp: plain_port_def)
  have 1: "checkBind (host @ '':'' @ port) False = Inr () \<longleftrightarrow>
      host \<noteq> [] \<and> (\<forall>ip. parseIPv4 host = Some ip \<longrightarrow> hd ip = 127)"
    using SplitHostPort_plain[OF assms] noc zero loop
    by (auto simp: checkBind_def ParseIP_plain split: option.split)
  have 2: "checkBind (host @ '':'' @ port) False = Inr ()" if c: "\<exists>c \<in> set host. c \<noteq> CHR ''.'' \<and> digit c = None"
  proof -
    have "parseIPv4 host = None" using c parseIPv4_chars[of host] by (cases "parseIPv4 host") blast+
    then show ?thesis using 1 c by auto
  qed
  have 3: "checkBind (''['' @ addr @ ''%'' @ host @ '']:'' @ port) False = Inr ()"
    if "lbrack \<notin> set addr" "rbrack \<notin> set addr"
  proof -
    let ?h = "addr @ ''%'' @ host"
    have "SplitHostPort (lbrack # ?h @ rbrack # colon # port) = Inr ?h"
      by (rule SplitHostPort_bracket[OF _ _ assms(2)]) (use that assms(1) in \<open>auto simp: plain_port_def\<close>)
    moreover have "ParseIP ?h = None" by (rule ParseIP_zone) simp
    moreover have "s \<noteq> [] \<and> s \<noteq> ''0.0.0.0'' \<and> s \<noteq> ''::''" if "CHR ''%'' \<in> set s" for s :: string
      using that by auto
    from this[of ?h] have "?h \<noteq> []" "?h \<noteq> ''0.0.0.0''" "?h \<noteq> ''::''" by simp_all
    ultimately show ?thesis by (simp add: checkBind_def)
  qed
  show ?thesis using 1 2 3 by blast
qed

theorem numeric_bind_loopback_witness:
  "checkBind ''127.0.0.1:8443'' False = Inr () \<and> checkBind ''192.168.1.7:8443'' False \<noteq> Inr ()"
proof -
  have d: "dotted 127 0 0 1 = ''127.0.0.1''" "dotted 192 168 1 7 = ''192.168.1.7''" by code_simp+
  have p: "plain_port ''8443''" by code_simp
  show ?thesis
    using numeric_bind_loopback [of 127 0 0 1 "''8443''"] numeric_bind_loopback [of 192 168 1 7 "''8443''"] d p by simp
qed

theorem host_name_accepted_witness:
  "checkBind ''example.com:80'' False = Inr () \<and> checkBind ''[fe80::1%eth0]:80'' False = Inr () \<and>
   checkBind ''10.0.0.1:80'' False \<noteq> Inr ()"
proof -
  have p: "plain_port ''example.com''" "plain_port ''80''" "plain_port ''eth0''" "plain_port ''10.0.0.1''" by code_simp+
  have a: "parseIPv4 ''10.0.0.1'' = Some [10, 0, 0, 1]" by code_simp
  have n: "\<exists>c \<in> set ''example.com''. c \<noteq> CHR ''.'' \<and> digit c = None" by code_simp
  have 1: "checkBind (''example.com'' @ '':'' @ ''80'') False = Inr ()"
    using host_name_accepted [OF p(1,2)] n by blast
  have b: "lbrack \<notin> set ''fe80::1''" "rbrack \<notin> set ''fe80::1''" by simp_all
  have 2: "checkBind (''['' @ ''fe80::1'' @ ''%'' @ ''eth0'' @ '']:'' @ ''80'') False = Inr ()"
    using host_name_accepted [OF p(3,2), of "''fe80::1''"] b by blast
  have "\<not> (\<forall>ip. parseIPv4 ''10.0.0.1'' = Some ip \<longrightarrow> hd ip = 127)" using a by simp
  then have 3: "checkBind (''10.0.0.1'' @ '':'' @ ''80'') False \<noteq> Inr ()"
    using host_name_accepted [OF p(4,2)] by blast
  show ?thesis using 1 2 3 by simp
qed

section \<open>The dispatcher uses up its input\<close>

text \<open>
  The interface the dispatcher's loop needs to come to an end: reading a message consumes some of
  what is \<open>left\<close> to read, and none of the collaborators adds to it.
\<close>

locale message_source =
  fixes recv :: "('s, Framed) prog" and D :: "'s Deps" and left :: "'s \<Rightarrow> nat"
  assumes recv_less: "recv s = (Inr m, s') \<Longrightarrow> left s' < left s"
    and has_left: "left (snd (Has (dp_Blobs D) h s)) \<le> left s"
    and put_left: "left (snd (Put (dp_Blobs D) h b s)) \<le> left s"
    and id_left: "left (snd (dp_NewID D s)) \<le> left s"
    and ready_left: "left (snd (SessionReady (dp_Notifier D) i s)) \<le> left s"
    and request_left: "left (snd (SyncRequest (dp_Notifier D) hs s)) \<le> left s"
    and error_left: "left (snd (Error (dp_Notifier D) msg s)) \<le> left s"
    and workspace_left: "dp_NewWorkspace D i s = (r, s') \<Longrightarrow> left s' \<le> left s \<and>
      (\<forall>ws. r = Inr ws \<longrightarrow> (\<forall>m t. left (snd (wk_Materialize ws (dp_Blobs D) m t)) \<le> left t))"
    and agent_left: "dp_Agent D i dir s = (ra, s') \<Longrightarrow> left s' \<le> left s \<and>
      (\<forall>ag. ra = Inr ag \<longrightarrow> (\<forall>t. left (snd (ag_Interrupt ag t)) \<le> left t))"
begin

text \<open>What a program over the service keeps: the agent it has, if any, leaves the input alone, and
  so does the program.\<close>

definition sound :: "'s Service \<Rightarrow> bool" where
  "sound sv \<longleftrightarrow> (\<forall>ag t. sv_agent sv = Some ag \<longrightarrow> left (snd (ag_Interrupt ag t)) \<le> left t)"

definition keeps :: "('s, 'a) sprog \<Rightarrow> bool" where
  "keeps m \<longleftrightarrow> (\<forall>sv w r sv' w'. sound sv \<longrightarrow> m (sv, w) = (r, (sv', w')) \<longrightarrow> sound sv' \<and> left w' \<le> left w)"

lemma keepsI: "(\<And>sv w r sv' w'. sound sv \<Longrightarrow> m (sv, w) = (r, (sv', w')) \<Longrightarrow> sound sv' \<and> left w' \<le> left w) \<Longrightarrow> keeps m"
  by (simp add: keeps_def)

lemma keepsD: "keeps m \<Longrightarrow> sound sv \<Longrightarrow> m (sv, w) = (r, (sv', w')) \<Longrightarrow> sound sv' \<and> left w' \<le> left w"
  by (simp add: keeps_def)

lemma keeps_ret: "keeps (retE a)" "keeps (throwE e)" "keeps (look_sv f)"
  by (simp_all add: keeps_def retE_def throwE_def look_sv_def)

lemma keeps_set: "(\<And>sv. sv_agent (f sv) = sv_agent sv) \<Longrightarrow> keeps (set_sv f)"
  by (simp add: keeps_def set_sv_def sound_def)

lemma keeps_outside:
  assumes "\<And>s. left (snd (p s)) \<le> left s"
  shows "keeps (outside p)"
proof (rule keepsI)
  fix sv w r sv' w' assume "sound sv" "outside p (sv, w) = (r, (sv', w'))"
  then show "sound sv' \<and> left w' \<le> left w" using assms[of w] by (simp add: outside_iff)
qed

lemma keeps_bind:
  assumes "keeps m" "\<And>a. keeps (f a)"
  shows "keeps (bindE m f)"
proof (rule keepsI)
  fix sv w r sv' w' assume s: "sound sv" and run: "bindE m f (sv, w) = (r, (sv', w'))"
  obtain r1 sv1 w1 where 1: "m (sv, w) = (r1, (sv1, w1))" by (metis prod.collapse)
  note k = keepsD[OF assms(1) s 1]
  show "sound sv' \<and> left w' \<le> left w"
  proof (cases r1)
    case (Inl e)
    then show ?thesis using run 1 k by simp
  next
    case (Inr a)
    then have "f a (sv1, w1) = (r, (sv', w'))" using run 1 by simp
    then show ?thesis using keepsD[OF assms(2)[of a]] k by fastforce
  qed
qed

lemma keeps_reported:
  assumes "keeps m"
  shows "keeps (reported say D m)"
proof (rule keepsI)
  fix sv w r sv' w' assume s: "sound sv" and run: "reported say D m (sv, w) = (r, (sv', w'))"
  obtain r1 sv1 w1 where 1: "m (sv, w) = (r1, (sv1, w1))" by (metis prod.collapse)
  show "sound sv' \<and> left w' \<le> left w"
    using run 1 keepsD[OF assms s 1] error_left[of "say (projl r1)" w1]
    by (cases r1) (auto simp: reported_def outside_run)
qed

lemma keeps_try:
  assumes "keeps m"
  shows "keeps (tryE m)"
proof (rule keepsI)
  fix sv w r sv' w' assume s: "sound sv" and run: "tryE m (sv, w) = (r, (sv', w'))"
  obtain r1 sv1 w1 where 1: "m (sv, w) = (r1, (sv1, w1))" by (metis prod.collapse)
  show "sound sv' \<and> left w' \<le> left w" using run keepsD[OF assms s 1] tryE_run[of m, OF 1] by simp
qed

lemma missing_left: "left (snd (missing_hashes (dp_Blobs D) seen ms es s)) \<le> left s"
proof (induction es arbitrary: seen ms s)
  case (Cons e es)
  show ?case
  proof (cases "fe_Hash e \<in> seen")
    case False
    obtain r s1 where r: "Has (dp_Blobs D) (fe_Hash e) s = (r, s1)" by (metis prod.collapse)
    then have l: "left s1 \<le> left s" using has_left[of "fe_Hash e" s] by simp
    show ?thesis
    proof (cases r)
      case (Inr has)
      have "left (snd (missing_hashes (dp_Blobs D) (insert (fe_Hash e) seen) (if has then ms else ms @ [fe_Hash e]) es s1)) \<le> left s"
        using Cons[of "insert (fe_Hash e) seen" "if has then ms else ms @ [fe_Hash e]" s1] l by (rule order_trans)
      then show ?thesis using r Inr False by simp
    qed (use r l False in simp)
  qed (simp add: Cons)
qed simp

lemma keeps_SyncDone: "keeps (svc_SyncDone D)"
proof (rule keepsI)
  fix sv w r sv' w' assume s: "sound sv" and run: "svc_SyncDone D (sv, w) = (r, (sv', w'))"
  show "sound sv' \<and> left w' \<le> left w"
  proof (cases "sv_agent sv")
    case (Some ag)
    then show ?thesis using run s by (simp add: svc_SyncDone_def)
  next
    case None
    obtain r1 w1 where 1: "dp_NewID D w = (r1, w1)" by (metis prod.collapse)
    have l1: "left w1 \<le> left w" using id_left[of w] 1 by simp
    show ?thesis
    proof (cases r1)
      case (Inr sid)
      obtain r2 w2 where 2: "dp_NewWorkspace D sid w1 = (r2, w2)" by (metis prod.collapse)
      note ws = workspace_left[OF 2]
      show ?thesis
      proof (cases r2)
        case (Inr ws')
        obtain r3 w3 where 3: "wk_Materialize ws' (dp_Blobs D) (sv_manifest sv) w2 = (r3, w3)" by (metis prod.collapse)
        have l3: "left w3 \<le> left w2" using ws Inr 3 by (metis snd_conv)
        obtain r4 w4 where 4: "dp_Agent D sid (wk_Dir ws') w3 = (r4, w4)" by (metis prod.collapse)
        show ?thesis
          using run None \<open>r1 = Inr sid\<close> Inr 1 2 3 4 l1 l3 ws agent_left[OF 4]
          by (cases r3; cases r4) (auto simp: svc_SyncDone_def bindE_outside sound_def)
      qed (use run None \<open>r1 = Inr sid\<close> 1 2 l1 ws in \<open>auto simp: svc_SyncDone_def bindE_outside sound_def\<close>)
    qed (use run None 1 l1 in \<open>auto simp: svc_SyncDone_def bindE_outside sound_def\<close>)
  qed
qed

lemma keeps_payload: "keeps (payload msg dec zero)"
  by (auto simp: payload_def keeps_ret split: prod.split sum.split)

lemma keeps_Interrupt: "keeps (svc_Interrupt D)"
proof (rule keepsI)
  fix sv w r sv' w' assume s: "sound sv" and run: "svc_Interrupt D (sv, w) = (r, (sv', w'))"
  show "sound sv' \<and> left w' \<le> left w"
  proof (cases "sv_agent sv")
    case (Some ag)
    then have "left (snd (ag_Interrupt ag w)) \<le> left w" using s unfolding sound_def by blast
    then show ?thesis using run s Some by (simp add: svc_Interrupt_def outside_iff)
  qed (use run s in \<open>simp add: svc_Interrupt_def\<close>)
qed

lemma keeps_if: "keeps m \<Longrightarrow> keeps m' \<Longrightarrow> keeps (if b then m else m')"
  by simp

lemma keeps_handle: "keeps (handle_message say D msg)"
  unfolding handle_message_def Let_def StartSession_def PutBlob_def
  by (intro keeps_if keeps_bind keeps_payload keeps_reported keeps_outside keeps_ret keeps_set keeps_SyncDone
      keeps_Interrupt keeps_try missing_left put_left ready_left request_left) simp_all

text \<open>A round of the loop that does not fail leaves less to read.\<close>

lemma round_left:
  assumes "sound sv" "bindE (outside recv) (handle_message say D) (sv, w) = (Inr out, (sv', w'))"
  shows "left w' < left w"
proof -
  obtain r w1 where r: "recv w = (r, w1)" by (metis prod.collapse)
  then obtain m where m: "r = Inr m" "handle_message say D m (sv, w1) = (Inr out, (sv', w'))"
    using assms(2) by (cases r) (simp_all add: bindE_outside)
  have "left w1 < left w" using recv_less r m(1) by blast
  then show ?thesis using keepsD[OF keeps_handle assms(1) m(2)] by simp
qed

end

section \<open>The configuration and the limit on sessions\<close>

record ServerConfig =
  sc_Addr :: string
  sc_PSK :: bytes
  sc_AllowPublic :: bool
  sc_MaxSessions :: int

text \<open>The new server: its configuration, and the capacity of \<open>slots\<close>, none if it is nil.\<close>

definition NewServer :: "ServerConfig \<Rightarrow> error + ServerConfig \<times> nat option" where
  "NewServer cfg =
     (if length (sc_PSK cfg) \<noteq> 32 then Inl (ErrMsg ''ws: server PSK must be 32 bytes'')
      else case checkBind (sc_Addr cfg) (sc_AllowPublic cfg) of
        Inl e \<Rightarrow> Inl e
      | Inr _ \<Rightarrow> Inr (cfg, if 0 < sc_MaxSessions cfg then Some (nat (sc_MaxSessions cfg)) else None))"

text \<open>
  The connections: the capacity of the channel \<^verbatim>\<open>slots\<close> and the tokens in it, how many
  handlers are past the \<^verbatim>\<open>select\<close>, and how many connections were turned away.
\<close>

record pool =
  po_cap :: "nat option"
  po_tokens :: nat
  po_running :: nat
  po_rejected :: nat

inductive pool_step :: "pool \<Rightarrow> pool \<Rightarrow> bool" where
  admit: "po_cap p = Some n \<Longrightarrow> po_tokens p < n \<Longrightarrow>
    pool_step p (p\<lparr> po_tokens := Suc (po_tokens p), po_running := Suc (po_running p) \<rparr>)"
| admit_any: "po_cap p = None \<Longrightarrow> pool_step p (p\<lparr> po_running := Suc (po_running p) \<rparr>)"
| turn_away: "po_cap p = Some n \<Longrightarrow> po_tokens p = n \<Longrightarrow> pool_step p (p\<lparr> po_rejected := Suc (po_rejected p) \<rparr>)"
| finish: "po_running p = Suc k \<Longrightarrow>
    pool_step p (p\<lparr> po_tokens := (if po_cap p = None then po_tokens p else po_tokens p - 1), po_running := k \<rparr>)"

definition new_pool :: "nat option \<Rightarrow> pool" where
  "new_pool cap = \<lparr> po_cap = cap, po_tokens = 0, po_running = 0, po_rejected = 0 \<rparr>"

definition pool_ok :: "nat option \<Rightarrow> pool \<Rightarrow> bool" where
  "pool_ok cap p \<longleftrightarrow> po_cap p = cap \<and>
     (case cap of None \<Rightarrow> po_rejected p = 0 | Some n \<Rightarrow> po_tokens p = po_running p \<and> po_running p \<le> n)"

lemma pool_ok_step: "pool_step p q \<Longrightarrow> pool_ok cap p \<Longrightarrow> pool_ok cap q"
  by (induction rule: pool_step.induct) (auto simp: pool_ok_def split: option.splits)

lemma pool_ok_reach: "pool_step\<^sup>*\<^sup>* (new_pool cap) p \<Longrightarrow> pool_ok cap p"
proof (induction rule: rtranclp_induct)
  case base
  show ?case by (simp add: new_pool_def pool_ok_def split: option.split)
qed (rule pool_ok_step)

text \<open>
  At no time do more sessions run than the configuration allows, where it sets a limit; a
  connection is turned away only when that many are running; and without a limit none is.
\<close>

theorem sessions_limited:
  assumes "NewServer cfg = Inr (cfg', cap)" and "pool_step\<^sup>*\<^sup>* (new_pool cap) p"
  shows "(0 < sc_MaxSessions cfg \<longrightarrow> int (po_running p) \<le> sc_MaxSessions cfg) \<and>
    (pool_step p q \<and> po_rejected q \<noteq> po_rejected p \<longrightarrow>
       0 < sc_MaxSessions cfg \<and> int (po_running p) = sc_MaxSessions cfg)"
proof -
  have cap: "cap = (if 0 < sc_MaxSessions cfg then Some (nat (sc_MaxSessions cfg)) else None)"
    using assms(1) by (auto simp: NewServer_def split: if_splits sum.splits)
  note ok = pool_ok_reach[OF assms(2)]
  have full: "po_cap p = Some (po_tokens p)" if "pool_step p q" "po_rejected q \<noteq> po_rejected p"
    using that by (auto elim!: pool_step.cases)
  show ?thesis
  proof (intro conjI impI)
    show "int (po_running p) \<le> sc_MaxSessions cfg" if "0 < sc_MaxSessions cfg"
      using ok cap that by (simp add: pool_ok_def) linarith
  next
    assume "pool_step p q \<and> po_rejected q \<noteq> po_rejected p"
    then have "po_cap p = Some (po_tokens p)" using full by blast
    then show "0 < sc_MaxSessions cfg" "int (po_running p) = sc_MaxSessions cfg"
      using ok cap by (auto simp: pool_ok_def split: if_splits)
  qed
qed

theorem sessions_limited_witness:
  "\<exists>p. pool_step\<^sup>*\<^sup>* (new_pool (Some 1)) p \<and> po_running p = 1 \<and> int (po_running p) \<le> 1"
proof -
  let ?cfg = "\<lparr> sc_Addr = ''127.0.0.1:1'', sc_PSK = replicate 32 0, sc_AllowPublic = True, sc_MaxSessions = 1 \<rparr>"
  let ?p = "(new_pool (Some 1))\<lparr> po_tokens := Suc (po_tokens (new_pool (Some 1))), po_running := Suc (po_running (new_pool (Some 1))) \<rparr>"
  have new: "NewServer ?cfg = Inr (?cfg, Some 1)" by (simp add: NewServer_def checkBind_def)
  have "pool_step (new_pool (Some 1)) ?p" by (rule pool_step.admit) (auto simp: new_pool_def)
  then have "pool_step\<^sup>*\<^sup>* (new_pool (Some 1)) ?p" by (rule r_into_rtranclp)
  then show ?thesis using sessions_limited [OF new, of ?p ?p] by (intro exI[of _ ?p]) (auto simp: new_pool_def)
qed

end
