(* ===== verification/Noise.thy ===== *)
theory Noise
  imports Codec
begin

text \<open>
  The secure channel, \<^verbatim>\<open>internal/adapters/crypto/noise/noise.go\<close>: the key derived from the
  token, the handshake in both roles, and the channel over the two cipher states it yields. The
  Noise library and the key derivation function are parameters; \<open>noise_laws\<close> states what the
  package relies on of the protocol that the library implements.
\<close>

section \<open>The library\<close>

text \<open>
  A handshake state \<open>'h\<close> is made from a source of randomness, the role and the pre-shared key.
  Writing or reading a message yields the two cipher states \<open>'k\<close> once the pattern is complete. A
  cipher state changes with every record, and not when a record is refused.
\<close>

record ('r, 'h, 'k) noise_lib =
  nl_new :: "'r \<Rightarrow> bool \<Rightarrow> bytes \<Rightarrow> error + 'h"
  nl_WriteMessage :: "'h \<Rightarrow> error + bytes \<times> 'k option \<times> 'k option \<times> 'h"
  nl_ReadMessage :: "bytes \<Rightarrow> 'h \<Rightarrow> error + 'k option \<times> 'k option \<times> 'h"
  nl_Encrypt :: "bytes \<Rightarrow> ('k, bytes) prog"
  nl_Decrypt :: "bytes \<Rightarrow> ('k, bytes) prog"

section \<open>The key\<close>

definition PSKLen :: nat where
  "PSKLen = 32"

definition hkdfInfo :: bytes where
  "hkdfInfo = bytes_of_string ''claude-share/psk/v1''"

text \<open>\<open>hkdf secret info n\<close> are the first \<open>n\<close> bytes that HKDF yields for an absent salt, or the
  error of reading them.\<close>

definition DerivePSK :: "(bytes \<Rightarrow> bytes \<Rightarrow> nat \<Rightarrow> error + bytes) \<Rightarrow> string \<Rightarrow> error + bytes" where
  "DerivePSK hkdf token =
     (if token = [] then Inl (ErrMsg ''noise: empty token'')
      else hkdf (bytes_of_string token) hkdfInfo PSKLen)"

section \<open>The channel\<close>

record 'k Channel =
  ch_send :: 'k
  ch_recv :: 'k

definition chan_Seal :: "('r, 'h, 'k) noise_lib \<Rightarrow> bytes \<Rightarrow> ('k Channel, bytes) prog" where
  "chan_Seal N plaintext c =
     (case nl_Encrypt N plaintext (ch_send c) of (r, k) \<Rightarrow> (r, c\<lparr> ch_send := k \<rparr>))"

definition chan_Open :: "('r, 'h, 'k) noise_lib \<Rightarrow> bytes \<Rightarrow> ('k Channel, bytes) prog" where
  "chan_Open N ciphertext c =
     (case nl_Decrypt N ciphertext (ch_recv c) of (r, k) \<Rightarrow> (r, c\<lparr> ch_recv := k \<rparr>))"

definition noise_channel :: "('r, 'h, 'k) noise_lib \<Rightarrow> 'k Channel SecureChannel" where
  "noise_channel N = \<lparr> Seal = chan_Seal N, Open = chan_Open N \<rparr>"

section \<open>The handshake\<close>

record Config =
  cf_PSK :: bytes
  cf_Initiator :: bool

text \<open>A result of the library as a step of the handshake, which changes nothing outside.\<close>

definition liftE :: "error + 'a \<Rightarrow> ('s, 'a) prog" where
  "liftE r s = (r, s)"

definition Handshake ::
  "('r, 'h, 'k) noise_lib \<Rightarrow> 'r \<Rightarrow> Config \<Rightarrow> (bytes \<Rightarrow> ('s, unit) prog) \<Rightarrow> ('s, bytes) prog \<Rightarrow> ('s, 'k Channel) prog" where
  "Handshake N rnd cfg send recv =
     (if length (cf_PSK cfg) \<noteq> PSKLen then throwE (ErrMsg ''noise: PSK must be 32 bytes'')
      else
        bindE (liftE (nl_new N rnd (cf_Initiator cfg) (cf_PSK cfg))) (\<lambda>hs.
        bindE
          (if cf_Initiator cfg then
             bindE (liftE (nl_WriteMessage N hs)) (\<lambda>(msg, _, _, hs1).
             bindE (send msg) (\<lambda>_.
             bindE recv (\<lambda>inp.
             bindE (liftE (nl_ReadMessage N inp hs1)) (\<lambda>(cs0, cs1, _). retE (cs0, cs1)))))
           else
             bindE recv (\<lambda>inp.
             bindE (liftE (nl_ReadMessage N inp hs)) (\<lambda>(_, _, hs1).
             bindE (liftE (nl_WriteMessage N hs1)) (\<lambda>(msg, cs0, cs1, _).
             bindE (send msg) (\<lambda>_. retE (cs1, cs0))))))
          (\<lambda>(csEnc, csDec).
             case (csEnc, csDec) of
               (Some e, Some d) \<Rightarrow> retE \<lparr> ch_send = e, ch_recv = d \<rparr>
             | _ \<Rightarrow> throwE (ErrMsg ''noise: handshake did not yield cipher states''))))"

section \<open>What is relied on\<close>

text \<open>
  \<open>Sync a b\<close> says that the cipher states \<open>a\<close> and \<open>b\<close> have the same key and nonce. What one of
  them encrypts the other decrypts, 16 bytes longer, and they stay in step. The handshake of two
  parties with the same key yields two pairs of such states; the first message is refused by a
  party with another key, because it is sealed under the key.
\<close>

definition noise_laws :: "('r, 'h, 'k) noise_lib \<Rightarrow> ('k \<Rightarrow> 'k \<Rightarrow> bool) \<Rightarrow> bool" where
  "noise_laws N Sync \<longleftrightarrow>
     (\<forall>a b p c a'. Sync a b \<longrightarrow> nl_Encrypt N p a = (Inr c, a') \<longrightarrow>
        length c \<le> length p + 16 \<and> (\<exists>b'. nl_Decrypt N c b = (Inr p, b') \<and> Sync a' b')) \<and>
     (\<forall>r1 r2 psk. length psk = PSKLen \<longrightarrow>
        (\<exists>hi hr m1 hi1 hr1 m2 hr2 hi2 c0 c1 d0 d1.
           nl_new N r1 True psk = Inr hi \<and> nl_new N r2 False psk = Inr hr \<and>
           nl_WriteMessage N hi = Inr (m1, None, None, hi1) \<and> nl_ReadMessage N m1 hr = Inr (None, None, hr1) \<and>
           nl_WriteMessage N hr1 = Inr (m2, Some d0, Some d1, hr2) \<and>
           nl_ReadMessage N m2 hi1 = Inr (Some c0, Some c1, hi2) \<and>
           length m1 \<le> 48 \<and> length m2 \<le> 48 \<and> Sync c0 d0 \<and> Sync d1 c1)) \<and>
     (\<forall>r1 r2 psk psk' hi hr m1 x. psk \<noteq> psk' \<longrightarrow>
        nl_new N r1 True psk = Inr hi \<longrightarrow> nl_new N r2 False psk' = Inr hr \<longrightarrow>
        nl_WriteMessage N hi = Inr (m1, x) \<longrightarrow> (\<exists>e. nl_ReadMessage N m1 hr = Inl e))"

definition chan_sync :: "('k \<Rightarrow> 'k \<Rightarrow> bool) \<Rightarrow> 'k Channel \<Rightarrow> 'k Channel \<Rightarrow> bool" where
  "chan_sync Sync s r \<longleftrightarrow> Sync (ch_send s) (ch_recv r)"

lemma noise_channel_secure:
  assumes "noise_laws N Sync"
  shows "secure_channel (noise_channel N) (chan_sync Sync)"
proof -
  have enc: "nl_Encrypt N p a = (Inr c, a') \<Longrightarrow> Sync a b \<Longrightarrow>
      length c \<le> length p + 16 \<and> (\<exists>b'. nl_Decrypt N c b = (Inr p, b') \<and> Sync a' b')" for a b p c a'
    using assms unfolding noise_laws_def by blast
  show ?thesis unfolding secure_channel_def
  proof (intro conjI allI impI)
    fix s r p c s' assume R: "chan_sync Sync s r" and seal: "Seal (noise_channel N) p s = (Inr c, s')"
    then have e: "nl_Encrypt N p (ch_send s) = (Inr c, ch_send s')"
      by (auto simp: noise_channel_def chan_Seal_def split: prod.splits)
    from enc[OF e] R obtain b' where b': "length c \<le> length p + 16" "nl_Decrypt N c (ch_recv r) = (Inr p, b')"
      "Sync (ch_send s') b'" by (auto simp: chan_sync_def)
    show "length c \<le> length p + 16" by (rule b')
    have "Open (noise_channel N) c r = (Inr p, r\<lparr> ch_recv := b' \<rparr>)"
      using b' by (simp add: noise_channel_def chan_Open_def)
    then show "\<exists>r'. Open (noise_channel N) c r = (Inr p, r') \<and> chan_sync Sync s' r'"
      using b' by (simp add: chan_sync_def)
  qed (auto simp: noise_channel_def chan_Seal_def chan_Open_def chan_sync_def split: prod.splits)
qed

end
