(* ===== verification/Connect.thy ===== *)
theory Connect
  imports Noise
begin

text \<open>
  How a connection is established: \<^verbatim>\<open>Dial\<close> of
  \<^verbatim>\<open>internal/adapters/transport/ws/client.go\<close> and the first half of \<^verbatim>\<open>handle\<close> of
  \<^verbatim>\<open>server.go\<close> run the handshake over the raw frames of the WebSocket and make of the rest of
  the link a connection over the channel.
\<close>

section \<open>Before the channel\<close>

text \<open>A WebSocket: what was written, the outcome of the next write, what will arrive and the error
  that ends it. Until a connection raises it, the library's limit for a frame is 32768 bytes.\<close>

record link =
  lk_wire :: "bytes list"
  lk_fault :: "bytes list \<Rightarrow> error option"
  lk_inbox :: "bytes list"
  lk_end :: error

definition defaultReadLimit :: nat where
  "defaultReadLimit = 32768"

definition lk_Write :: "bytes \<Rightarrow> (link, unit) prog" where
  "lk_Write b lk =
     (case lk_fault lk (lk_wire lk) of Some e \<Rightarrow> (Inl e, lk) | None \<Rightarrow> (Inr (), lk\<lparr> lk_wire := lk_wire lk @ [b] \<rparr>))"

definition lk_Read :: "(link, bytes) prog" where
  "lk_Read lk =
     (case lk_inbox lk of
        [] \<Rightarrow> (Inl (lk_end lk), lk)
      | f # fs \<Rightarrow>
          (if defaultReadLimit < length f then Inl (ErrMsg ''read limited'') else Inr f, lk\<lparr> lk_inbox := fs \<rparr>))"

text \<open>The connection takes the rest of the link.\<close>

definition conn_on :: "'k Channel \<Rightarrow> (link, 'k Channel conn) prog" where
  "conn_on ch lk = (Inr (newConn ch (\<lambda>w. lk_fault lk (lk_wire lk @ w)) (lk_inbox lk) (lk_end lk)), lk)"

section \<open>The two ends\<close>

definition PSKFromToken :: "(bytes \<Rightarrow> bytes \<Rightarrow> nat \<Rightarrow> error + bytes) \<Rightarrow> string \<Rightarrow> error + bytes" where
  "PSKFromToken hkdf token = DerivePSK hkdf token"

text \<open>The client, once the WebSocket library has dialled.\<close>

definition Dial :: "('r, 'h, 'k) noise_lib \<Rightarrow> 'r \<Rightarrow> bytes \<Rightarrow> (link, 'k Channel conn) prog" where
  "Dial N rnd psk = bindE (Handshake N rnd \<lparr> cf_PSK = psk, cf_Initiator = True \<rparr> lk_Write lk_Read) conn_on"

text \<open>The server, once the WebSocket library has accepted.\<close>

definition accept_conn :: "('r, 'h, 'k) noise_lib \<Rightarrow> 'r \<Rightarrow> bytes \<Rightarrow> (link, 'k Channel conn) prog" where
  "accept_conn N rnd psk = bindE (Handshake N rnd \<lparr> cf_PSK = psk, cf_Initiator = False \<rparr> lk_Write lk_Read) conn_on"

section \<open>A common token\<close>

text \<open>HKDF reads as many bytes as it is asked for.\<close>

definition hkdf_laws :: "(bytes \<Rightarrow> bytes \<Rightarrow> nat \<Rightarrow> error + bytes) \<Rightarrow> bool" where
  "hkdf_laws hkdf \<longleftrightarrow> (\<forall>secret inform n. n \<le> 255 * 32 \<longrightarrow> (\<exists>k. hkdf secret inform n = Inr k \<and> length k = n))"

lemma DerivePSK_length: "hkdf_laws hkdf \<Longrightarrow> DerivePSK hkdf token = Inr psk \<Longrightarrow> length psk = PSKLen"
proof -
  assume h: "hkdf_laws hkdf" and d: "DerivePSK hkdf token = Inr psk"
  have "(PSKLen :: nat) \<le> 255 * 32" by (simp add: PSKLen_def)
  then obtain k where "hkdf (bytes_of_string token) hkdfInfo PSKLen = Inr k" "length k = PSKLen"
    using h unfolding hkdf_laws_def by blast
  then show ?thesis using d by (auto simp: DerivePSK_def split: if_splits)
qed

lemma lk_Read_ok: "length f \<le> defaultReadLimit \<Longrightarrow> lk_inbox lk = f # fs \<Longrightarrow> lk_Read lk = (Inr f, lk\<lparr> lk_inbox := fs \<rparr>)"
  by (simp add: lk_Read_def)

lemma lk_Write_ok: "lk_fault lk (lk_wire lk) = None \<Longrightarrow> lk_Write b lk = (Inr (), lk\<lparr> lk_wire := lk_wire lk @ [b] \<rparr>)"
  by (simp add: lk_Write_def)

text \<open>\<open>open_link\<close>: a link on which the next write succeeds and \<open>fs\<close> arrives.\<close>

definition fresh_link :: "(bytes list \<Rightarrow> error option) \<Rightarrow> bytes list \<Rightarrow> error \<Rightarrow> link" where
  "fresh_link fault fs e = \<lparr> lk_wire = [], lk_fault = fault, lk_inbox = fs, lk_end = e \<rparr>"

text \<open>
  C8. Two parties that know the same token get a connection. There is one message from each to
  the other such that, when these arrive first, \<^verbatim>\<open>Dial\<close> and the server's handshake both return
  a connection with nothing in flight, having written just that message; and the two channels are
  in step in both directions, so that what either end seals next the other opens.
\<close>

theorem common_token_connects:
  assumes "noise_laws N Sync" and "hkdf_laws hkdf" and "PSKFromToken hkdf token = Inr psk"
    and "fault [] = None" and "fault' [] = None"
  shows "\<exists>m1 m2 cc cs.
    Dial N r1 psk (fresh_link fault (m2 # later) e) =
      (Inr (newConn cc (\<lambda>w. fault (m1 # w)) later e), (fresh_link fault later e)\<lparr> lk_wire := [m1] \<rparr>) \<and>
    accept_conn N r2 psk (fresh_link fault' (m1 # later') e') =
      (Inr (newConn cs (\<lambda>w. fault' (m2 # w)) later' e'), (fresh_link fault' later' e')\<lparr> lk_wire := [m2] \<rparr>) \<and>
    secure_channel (noise_channel N) (chan_sync Sync) \<and> chan_sync Sync cc cs \<and> chan_sync Sync cs cc"
proof -
  have len: "length psk = PSKLen" using DerivePSK_length[OF assms(2)] assms(3) by (simp add: PSKFromToken_def)
  obtain hi hr m1 hi1 hr1 m2 hr2 hi2 c0 c1 d0 d1 where
    h: "nl_new N r1 True psk = Inr hi" "nl_new N r2 False psk = Inr hr"
      "nl_WriteMessage N hi = Inr (m1, None, None, hi1)" "nl_ReadMessage N m1 hr = Inr (None, None, hr1)"
      "nl_WriteMessage N hr1 = Inr (m2, Some d0, Some d1, hr2)" "nl_ReadMessage N m2 hi1 = Inr (Some c0, Some c1, hi2)"
      "length m1 \<le> 48" "length m2 \<le> 48" "Sync c0 d0" "Sync d1 c1"
    using assms(1) len unfolding noise_laws_def by meson
  let ?cc = "\<lparr> ch_send = c0, ch_recv = c1 \<rparr>" and ?cs = "\<lparr> ch_send = d1, ch_recv = d0 \<rparr>"
  have small: "length m1 \<le> defaultReadLimit" "length m2 \<le> defaultReadLimit" using h(7,8) by (simp_all add: defaultReadLimit_def)
  have "Dial N r1 psk (fresh_link fault (m2 # later) e) =
      (Inr (newConn ?cc (\<lambda>w. fault (m1 # w)) later e), (fresh_link fault later e)\<lparr> lk_wire := [m1] \<rparr>)"
    using len h small assms(4)
    by (simp add: Dial_def Handshake_def bindE_def liftE_def lk_Write_def lk_Read_def fresh_link_def conn_on_def)
  moreover have "accept_conn N r2 psk (fresh_link fault' (m1 # later') e') =
      (Inr (newConn ?cs (\<lambda>w. fault' (m2 # w)) later' e'), (fresh_link fault' later' e')\<lparr> lk_wire := [m2] \<rparr>)"
    using len h small assms(5)
    by (simp add: accept_conn_def Handshake_def bindE_def liftE_def lk_Write_def lk_Read_def fresh_link_def conn_on_def)
  moreover have "chan_sync Sync ?cc ?cs" "chan_sync Sync ?cs ?cc" using h(9,10) by (simp_all add: chan_sync_def)
  ultimately show ?thesis using noise_channel_secure[OF assms(1)] by blast
qed

section \<open>Another token\<close>

lemma lk_Read_wire: "lk_wire (snd (lk_Read lk)) = lk_wire lk"
  by (simp add: lk_Read_def split: list.split)

lemma Dial_writes:
  assumes "length psk = PSKLen" "nl_new N r1 True psk = Inr hi" "nl_WriteMessage N hi = Inr (m, y)"
    and "Dial N r1 psk lk = (x, lk')"
  shows "lk_wire lk' = lk_wire lk \<or> lk_wire lk' = lk_wire lk @ [m]"
proof (cases "lk_fault lk (lk_wire lk)")
  case (Some e)
  then show ?thesis using assms
    by (cases y) (auto simp: Dial_def Handshake_def bindE_def liftE_def lk_Write_def split: prod.splits)
next
  case None
  let ?lk = "lk\<lparr> lk_wire := lk_wire lk @ [m] \<rparr>"
  obtain r lk1 where rd: "lk_Read ?lk = (r, lk1)" by (metis prod.collapse)
  have "lk_wire lk1 = lk_wire lk @ [m]" using lk_Read_wire[of ?lk] rd by simp
  moreover have "lk' = lk1"
    using assms None rd
    by (cases y) (auto simp: Dial_def Handshake_def bindE_def liftE_def lk_Write_def conn_on_def
        split: prod.splits sum.splits option.splits)
  ultimately show ?thesis by simp
qed

text \<open>
  C36. A client with another key gets no session. When what arrives first is the message that a
  client with a different key wrote, the server's handshake returns an error without having
  written anything: no connection is made, so no service either. A key of a wrong length is refused
  before anything is written or read.
\<close>

theorem other_key_refused:
  assumes "noise_laws N Sync" and "psk \<noteq> psk'"
    and "Dial N r1 psk lk = (x, lk')" and "lk_wire lk' = lk_wire lk @ [m1]"
  shows "\<exists>err lk2. accept_conn N r2 psk' (fresh_link fault (m1 # later) e) = (Inl err, lk2) \<and> lk_wire lk2 = [] \<and>
    (length psk' \<noteq> PSKLen \<longrightarrow> lk2 = fresh_link fault (m1 # later) e)"
proof (cases "length psk' = PSKLen")
  case False
  then show ?thesis by (simp add: accept_conn_def Handshake_def bindE_def fresh_link_def)
next
  case True
  have len: "length psk = PSKLen"
    using assms(3,4) by (auto simp: Dial_def Handshake_def bindE_def split: if_splits)
  obtain hi where hi: "nl_new N r1 True psk = Inr hi"
    using assms(3,4) len by (cases "nl_new N r1 True psk") (auto simp: Dial_def Handshake_def bindE_def liftE_def)
  obtain m y where m: "nl_WriteMessage N hi = Inr (m, y)"
    using assms(3,4) len hi by (cases "nl_WriteMessage N hi") (auto simp: Dial_def Handshake_def bindE_def liftE_def)
  have "m = m1" using Dial_writes[OF len hi m assms(3)] assms(4) by auto
  then have w: "nl_WriteMessage N hi = Inr (m1, y)" using m by simp
  show ?thesis
  proof (cases "nl_new N r2 False psk'")
    case (Inl err)
    then show ?thesis using True
      by (simp add: accept_conn_def Handshake_def bindE_def liftE_def fresh_link_def)
  next
    case (Inr hr)
    obtain err where "nl_ReadMessage N m1 hr = Inl err"
      using assms(1,2) hi Inr w unfolding noise_laws_def by blast
    then show ?thesis using True Inr
      by (auto simp: accept_conn_def Handshake_def bindE_def liftE_def lk_Read_def fresh_link_def)
  qed
qed

section \<open>Witnesses\<close>

text \<open>An instance of the library without secrecy: a key is sent in the clear and compared, and a
  record is numbered.\<close>

datatype demo_phase = DemoInit bytes | DemoResp bytes | DemoWrote | DemoHeard

definition demo_noise :: "(unit, demo_phase, nat) noise_lib" where
  "demo_noise =
     \<lparr> nl_new = \<lambda>_ initiator psk. Inr (if initiator then DemoInit psk else DemoResp psk),
       nl_WriteMessage = \<lambda>h. (case h of DemoInit psk \<Rightarrow> Inr (psk, None, None, DemoWrote)
         | DemoHeard \<Rightarrow> Inr ([1], Some 0, Some 0, DemoHeard) | _ \<Rightarrow> Inl (ErrMsg ''order'')),
       nl_ReadMessage = \<lambda>m h. (case h of DemoResp psk \<Rightarrow> if m = psk then Inr (None, None, DemoHeard) else Inl (ErrMsg ''key'')
         | DemoWrote \<Rightarrow> Inr (Some 0, Some 0, DemoWrote) | _ \<Rightarrow> Inl (ErrMsg ''order'')),
       nl_Encrypt = \<lambda>p k. (Inr (of_nat k # p), Suc k),
       nl_Decrypt = \<lambda>c k. if c \<noteq> [] \<and> hd c = of_nat k then (Inr (tl c), Suc k) else (Inl (ErrMsg ''nonce''), k) \<rparr>"

lemma demo_noise_laws: "noise_laws demo_noise (=)"
  unfolding noise_laws_def
proof (intro conjI allI impI)
  fix r1 r2 :: unit and psk :: bytes assume l: "length psk = PSKLen"
  show "\<exists>hi hr m1 hi1 hr1 m2 hr2 hi2 c0 c1 d0 d1.
      nl_new demo_noise r1 True psk = Inr hi \<and> nl_new demo_noise r2 False psk = Inr hr \<and>
      nl_WriteMessage demo_noise hi = Inr (m1, None, None, hi1) \<and> nl_ReadMessage demo_noise m1 hr = Inr (None, None, hr1) \<and>
      nl_WriteMessage demo_noise hr1 = Inr (m2, Some d0, Some d1, hr2) \<and>
      nl_ReadMessage demo_noise m2 hi1 = Inr (Some c0, Some c1, hi2) \<and>
      length m1 \<le> 48 \<and> length m2 \<le> 48 \<and> c0 = d0 \<and> d1 = c1"
    using l by (simp add: demo_noise_def PSKLen_def)
next
  fix a b :: nat and p c a' assume "a = b" "nl_Encrypt demo_noise p a = (Inr c, a')"
  then show "length c \<le> length p + 16" "\<exists>b'. nl_Decrypt demo_noise c b = (Inr p, b') \<and> a' = b'"
    by (auto simp: demo_noise_def)
next
  fix r1 r2 :: unit and psk psk' hi hr m1 x
  assume "psk \<noteq> psk'" "nl_new demo_noise r1 True psk = Inr hi" "nl_new demo_noise r2 False psk' = Inr hr"
    "nl_WriteMessage demo_noise hi = Inr (m1, x)"
  then show "\<exists>e. nl_ReadMessage demo_noise m1 hr = Inl e" by (auto simp: demo_noise_def)
qed

definition demo_hkdf :: "bytes \<Rightarrow> bytes \<Rightarrow> nat \<Rightarrow> error + bytes" where
  "demo_hkdf secret inform n = Inr (take n (secret @ replicate n 0))"

lemma demo_hkdf_laws: "hkdf_laws demo_hkdf"
  by (auto simp: hkdf_laws_def demo_hkdf_def min_def)

theorem common_token_connects_witness:
  "\<exists>psk m1 m2 cc cs. PSKFromToken demo_hkdf ''token'' = Inr psk \<and>
     fst (Dial demo_noise () psk (fresh_link (\<lambda>_. None) [m2] Canceled)) = Inr cc \<and>
     fst (accept_conn demo_noise () psk (fresh_link (\<lambda>_. None) [m1] Canceled)) = Inr cs \<and>
     chan_sync (=) (cn_ch cc) (cn_ch cs)"
proof -
  obtain psk where psk: "PSKFromToken demo_hkdf ''token'' = Inr psk"
    by (auto simp: PSKFromToken_def DerivePSK_def demo_hkdf_def)
  have ok: "(\<lambda>_ :: bytes list. None :: error option) [] = None" by simp
  obtain m1 m2 cc cs where
    d: "Dial demo_noise () psk (fresh_link (\<lambda>_. None) [m2] Canceled) =
      (Inr (newConn cc (\<lambda>w. None) [] Canceled), (fresh_link (\<lambda>_. None) [] Canceled)\<lparr> lk_wire := [m1] \<rparr>)"
    and a: "accept_conn demo_noise () psk (fresh_link (\<lambda>_. None) [m1] Canceled) =
      (Inr (newConn cs (\<lambda>w. None) [] Canceled), (fresh_link (\<lambda>_. None) [] Canceled)\<lparr> lk_wire := [m2] \<rparr>)"
    and "chan_sync (=) cc cs"
    using common_token_connects [OF demo_noise_laws demo_hkdf_laws psk ok ok, of "()" "[]" Canceled "()" "[]" Canceled]
    by blast
  then show ?thesis using psk
    by (intro exI[of _ psk] exI[of _ m1] exI[of _ m2] exI[of _ "newConn cc (\<lambda>w. None) [] Canceled"]
        exI[of _ "newConn cs (\<lambda>w. None) [] Canceled"]) (simp add: d a, simp add: newConn_def)
qed

theorem other_key_refused_witness:
  "\<exists>err lk2. accept_conn demo_noise () (replicate 32 2) (fresh_link (\<lambda>_. None) [replicate 32 1] Canceled) = (Inl err, lk2) \<and>
     lk_wire lk2 = []"
proof -
  let ?lk = "fresh_link (\<lambda>_. None) [[1]] Canceled"
  have neq: "(replicate 32 1 :: bytes) \<noteq> replicate 32 2" by (simp add: eval_nat_numeral)
  have d: "lk_wire (snd (Dial demo_noise () (replicate 32 1) ?lk)) = lk_wire ?lk @ [replicate 32 1]"
    by (simp add: Dial_def Handshake_def PSKLen_def bindE_def liftE_def lk_Write_def lk_Read_def fresh_link_def
        conn_on_def demo_noise_def defaultReadLimit_def)
  show ?thesis
    using other_key_refused [OF demo_noise_laws neq surjective_pairing d, of "()" "\<lambda>_. None" "[]" Canceled] by blast
qed

end
