(* ===== verification/Text.thy ===== *)
theory Text
  imports Prelude "HOL-Library.Sublist"
begin

text \<open>
  The functions of the package \<^verbatim>\<open>strings\<close> that the client and the agent runner use.
\<close>

section \<open>White space\<close>

text \<open>
  \<^verbatim>\<open>strings.TrimSpace\<close> on the bytes of a line: the ASCII white space, and the encodings of the
  white space beyond it, that is U+0085, U+00A0, U+1680, U+2000 to U+200A, U+2028, U+2029, U+202F,
  U+205F and U+3000.
\<close>

definition spaces :: "string list" where
  "spaces =
     map (\<lambda>c. [c]) [CHR 0x09, CHR 0x0A, CHR 0x0B, CHR 0x0C, CHR 0x0D, CHR '' ''] @
     [[CHR 0xC2, CHR 0x85], [CHR 0xC2, CHR 0xA0], [CHR 0xE1, CHR 0x9A, CHR 0x80]] @
     map (\<lambda>c. [CHR 0xE2, CHR 0x80, c])
       [CHR 0x80, CHR 0x81, CHR 0x82, CHR 0x83, CHR 0x84, CHR 0x85, CHR 0x86, CHR 0x87, CHR 0x88, CHR 0x89,
        CHR 0x8A, CHR 0xA8, CHR 0xA9, CHR 0xAF] @
     [[CHR 0xE2, CHR 0x81, CHR 0x9F], [CHR 0xE3, CHR 0x80, CHR 0x80]]"

text \<open>One character of white space that \<open>s\<close> starts with, out of the given spellings.\<close>

definition starts_with :: "string list \<Rightarrow> string \<Rightarrow> string option" where
  "starts_with sps s = find (\<lambda>p. prefix p s) sps"

fun trim_left :: "nat \<Rightarrow> string list \<Rightarrow> string \<Rightarrow> string" where
  "trim_left 0 sps s = s"
| "trim_left (Suc n) sps s =
     (case starts_with sps s of None \<Rightarrow> s | Some p \<Rightarrow> trim_left n sps (drop (length p) s))"

definition TrimSpace :: "string \<Rightarrow> string" where
  "TrimSpace s =
     (let t = trim_left (length s) spaces s in rev (trim_left (length t) (map rev spaces) (rev t)))"

definition blank :: "string \<Rightarrow> bool" where
  "blank s \<longleftrightarrow> (\<exists>ps. set ps \<subseteq> set spaces \<and> s = concat ps)"

lemma starts_with_SomeD: "starts_with sps s = Some p \<Longrightarrow> p \<in> set sps \<and> s = p @ drop (length p) s"
  by (auto simp: starts_with_def dest!: find_SomeD) (metis append_eq_conv_conj prefixE)

lemma starts_with_None: "starts_with sps s = None \<longleftrightarrow> (\<forall>p \<in> set sps. \<not> prefix p s)"
  by (auto simp: starts_with_def find_None_iff)

lemma trim_left_spec:
  assumes "\<forall>p \<in> set sps. p \<noteq> []"
  shows "length s \<le> n \<Longrightarrow> \<exists>ps. set ps \<subseteq> set sps \<and> s = concat ps @ trim_left n sps s \<and>
    starts_with sps (trim_left n sps s) = None"
proof (induction n arbitrary: s)
  case 0
  then show ?case using assms by (intro exI[of _ "[]"]) (auto simp: starts_with_None)
next
  case (Suc n)
  show ?case
  proof (cases "starts_with sps s")
    case None
    then show ?thesis by (intro exI[of _ "[]"]) simp
  next
    case (Some p)
    then have p: "p \<in> set sps" "s = p @ drop (length p) s" "p \<noteq> []" using assms by (auto dest: starts_with_SomeD)
    have "1 \<le> length p" using p(3) by (cases p) simp_all
    then have "length (drop (length p) s) \<le> n" using Suc.prems unfolding length_drop by linarith
    from Suc.IH[OF this] obtain ps where
      "set ps \<subseteq> set sps" "drop (length p) s = concat ps @ trim_left n sps (drop (length p) s)"
      "starts_with sps (trim_left n sps (drop (length p) s)) = None" by blast
    then show ?thesis using p Some by (intro exI[of _ "p # ps"]) simp
  qed
qed

lemma spaces_nonempty: "\<forall>p \<in> set spaces. p \<noteq> []" "\<forall>p \<in> set (map rev spaces). p \<noteq> []"
  by (auto simp: spaces_def)

lemma TrimSpace_spec:
  "(\<exists>a b. line = a @ TrimSpace line @ b \<and> blank a \<and> blank b) \<and>
   (\<forall>p \<in> set spaces. \<not> prefix p (TrimSpace line) \<and> \<not> suffix p (TrimSpace line))"
proof -
  let ?t = "trim_left (length line) spaces line"
  let ?u = "trim_left (length ?t) (map rev spaces) (rev ?t)"
  obtain ps where ps: "set ps \<subseteq> set spaces" "line = concat ps @ ?t" "starts_with spaces ?t = None"
    using trim_left_spec[OF spaces_nonempty(1), of line "length line"] by blast
  obtain qs where qs: "set qs \<subseteq> set (map rev spaces)" "rev ?t = concat qs @ ?u" "starts_with (map rev spaces) ?u = None"
    using trim_left_spec[OF spaces_nonempty(2), of "rev ?t" "length ?t"] by auto
  have res: "TrimSpace line = rev ?u" by (simp add: TrimSpace_def Let_def)
  have "rev (rev ?t) = rev ?u @ concat (rev (map rev qs))" by (subst qs(2)) (simp add: rev_concat rev_map)
  then have t: "?t = rev ?u @ concat (rev (map rev qs))" by simp
  have "set (rev (map rev qs)) \<subseteq> set spaces" using qs(1) by auto
  then have "blank (concat ps) \<and> blank (concat (rev (map rev qs)))" using ps(1) unfolding blank_def by blast
  moreover have "\<not> prefix p (rev ?u) \<and> \<not> suffix p (rev ?u)" if p: "p \<in> set spaces" for p
  proof -
    have "prefix p (rev ?u) \<Longrightarrow> prefix p ?t" by (subst t) (rule prefix_prefix)
    moreover have "\<not> prefix p ?t" using ps(3) p by (simp add: starts_with_None)
    moreover have "\<not> prefix (rev p) ?u" using qs(3) p by (simp add: starts_with_None)
    ultimately show ?thesis by (metis rev_rev_ident suffix_to_prefix)
  qed
  ultimately show ?thesis using ps(2) t res by (metis append.assoc)
qed

end
