(* ===== verification/ClaudeCli.thy ===== *)
theory ClaudeCli
  imports Ports Text
begin

text \<open>
  The agent runner, \<^verbatim>\<open>internal/adapters/agent/claudecli/claudecli.go\<close>: how the process is
  started, what is written to it for a prompt, how its output becomes events, and the buffer that
  keeps the end of its error output. The process itself is what the operating system starts: a
  record of what was written to it, and of how it ends.
\<close>

section \<open>The tail of the error output\<close>

record ringBuffer =
  rb_buf :: bytes
  rb_max :: nat

definition rb_Write :: "bytes \<Rightarrow> ringBuffer \<Rightarrow> ringBuffer" where
  "rb_Write p r =
     (let buf = rb_buf r @ p in
      r\<lparr> rb_buf := (if rb_max r < length buf then drop (length buf - rb_max r) buf else buf) \<rparr>)"

definition rb_String :: "ringBuffer \<Rightarrow> string" where
  "rb_String r = string_of_bytes (rb_buf r)"

section \<open>Starting the process\<close>

record Runner =
  rn_Bin :: string
  rn_PermissionMode :: string
  rn_ExtraArgs :: "string list"

definition NewRunner :: Runner where
  "NewRunner = \<lparr> rn_Bin = ''claude'', rn_PermissionMode = ''acceptEdits'', rn_ExtraArgs = [] \<rparr>"

record command =
  cmd_Path :: string
  cmd_Args :: "string list"
  cmd_Dir :: string

definition start_command :: "Runner \<Rightarrow> string \<Rightarrow> string \<Rightarrow> command" where
  "start_command r sessionID workspaceDir =
     (let bin = (if rn_Bin r = [] then ''claude'' else rn_Bin r);
          perm = (if rn_PermissionMode r = [] then ''acceptEdits'' else rn_PermissionMode r)
      in \<lparr> cmd_Path = bin,
           cmd_Args = [''-p'', ''--input-format'', ''stream-json'', ''--output-format'', ''stream-json'', ''--verbose'',
             ''--include-partial-messages'', ''--permission-mode'', perm, ''--session-id'', sessionID] @ rn_ExtraArgs r,
           cmd_Dir = workspaceDir \<rparr>)"

text \<open>
  A process: what was written to its input, whether the input is still open, when a write to it
  fails and after how many bytes, whether it exits once its input is closed and how, the end of
  its error output, and whether it was waited for.
\<close>

record process =
  pr_cmd :: command
  pr_stdin :: bytes
  pr_in_open :: bool
  pr_fault :: "bytes \<Rightarrow> (nat \<times> error) option"
  pr_exits :: bool
  pr_exit :: "error option"
  pr_stderr :: ringBuffer
  pr_waited :: bool

section \<open>Prompts\<close>

definition userMessage :: "string \<Rightarrow> string" where
  "userMessage prompt = obj_text
     [(''type'', quote ''user''),
      (''message'', obj_text
        [(''role'', quote ''user''),
         (''content'', arr_text [obj_text [(''type'', quote ''text''), (''text'', quote prompt)]])])]"

text \<open>The line that \<^verbatim>\<open>Send\<close> writes.\<close>

definition prompt_line :: "string \<Rightarrow> bytes" where
  "prompt_line prompt = bytes_of_string (userMessage prompt) @ [10]"

text \<open>The session's methods, over the process once there is one.\<close>

definition on_process :: "(process, 'a) prog \<Rightarrow> (process option, 'a) prog" where
  "on_process p s =
     (case s of None \<Rightarrow> (Inl ErrInvalid, None) | Some pr \<Rightarrow> (case p pr of (r, pr') \<Rightarrow> (r, Some pr')))"

text \<open>A write that fails may have written the beginning of the line.\<close>

definition cs_Send :: "string \<Rightarrow> (process, unit) prog" where
  "cs_Send prompt pr =
     (case (if pr_in_open pr then pr_fault pr (pr_stdin pr) else Some (0, ErrInvalid)) of
        Some (k, e) \<Rightarrow>
          (Inl (Wrapped ''claudecli: write prompt'' e), pr\<lparr> pr_stdin := pr_stdin pr @ take k (prompt_line prompt) \<rparr>)
      | None \<Rightarrow> (Inr (), pr\<lparr> pr_stdin := pr_stdin pr @ prompt_line prompt \<rparr>))"

definition cs_Interrupt :: "(process, unit) prog" where
  "cs_Interrupt = throwE (ErrMsg ''claudecli: mid-turn interrupt not supported'')"

text \<open>\<^verbatim>\<open>cmd.Wait\<close>, when it returns: with a process that does not exit (\<open>pr_exits\<close>) it never
  does, so whoever runs this on a process has to say that it exits.\<close>

definition cs_Wait :: "(process, unit) prog" where
  "cs_Wait pr =
     (if pr_waited pr then (Inl (ErrMsg ''exec: Wait was already called''), pr)
      else (case pr_exit pr of None \<Rightarrow> Inr () | Some e \<Rightarrow> Inl e, pr\<lparr> pr_waited := True \<rparr>))"

text \<open>The tail is attached to the error of the process.\<close>

definition cs_Close :: "(process, unit) prog" where
  "cs_Close pr =
     (case cs_Wait (pr\<lparr> pr_in_open := False \<rparr>) of
        (Inl e, pr') \<Rightarrow>
          (let tail = TrimSpace (rb_String (pr_stderr pr')) in
           (Inl (if tail \<noteq> [] then Wrapped ''claudecli'' (Joined [e, ErrMsg tail]) else e), pr'))
      | (Inr _, pr') \<Rightarrow> (Inr (), pr'))"

definition cli_session :: "process option AgentSession" where
  "cli_session =
     \<lparr> ag_Send = \<lambda>prompt. on_process (cs_Send prompt), ag_Interrupt = on_process cs_Interrupt,
       ag_Close = on_process cs_Close \<rparr>"

text \<open>\<open>spawn\<close> is the operating system's start of a command, given the buffer for the errors.\<close>

definition cli_Start :: "(command \<Rightarrow> ringBuffer \<Rightarrow> error + process) \<Rightarrow> Runner \<Rightarrow> process option AgentRunner" where
  "cli_Start spawn r sessionID workspaceDir s =
     (case spawn (start_command r sessionID workspaceDir) \<lparr> rb_buf = [], rb_max = 8 * 1024 \<rparr> of
        Inl e \<Rightarrow> (Inl e, s)
      | Inr pr \<Rightarrow> (Inr cli_session, Some pr))"

section \<open>Events\<close>

record streamLine =
  sl_Type :: string
  sl_Subtype :: string
  sl_Message :: string
  sl_IsError :: bool
  sl_Result :: string
  sl_NumTurns :: int
  sl_TotalCostUSD :: float64

definition zero_streamLine :: streamLine where
  "zero_streamLine = \<lparr> sl_Type = [], sl_Subtype = [], sl_Message = [], sl_IsError = False, sl_Result = [],
     sl_NumTurns = 0, sl_TotalCostUSD = 0 \<rparr>"

definition dec_streamLine :: "float_ops \<Rightarrow> streamLine decoder" where
  "dec_streamLine fl = dec_struct
     [field ''type'' sl_Type sl_Type_update dec_string,
      field ''subtype'' sl_Subtype sl_Subtype_update dec_string,
      field ''message'' sl_Message sl_Message_update dec_raw,
      field ''is_error'' sl_IsError sl_IsError_update dec_bool,
      field ''result'' sl_Result sl_Result_update dec_string,
      field ''num_turns'' sl_NumTurns sl_NumTurns_update dec_int64,
      field ''total_cost_usd'' sl_TotalCostUSD sl_TotalCostUSD_update (dec_float (prs_float fl))]"

record content_block =
  cb_Type :: string
  cb_Text :: string

record assistantMessage =
  am_Content :: "content_block list"

definition dec_content_block :: "content_block decoder" where
  "dec_content_block = dec_struct
     [field ''type'' cb_Type cb_Type_update dec_string, field ''text'' cb_Text cb_Text_update dec_string]"

definition dec_assistantMessage :: "assistantMessage decoder" where
  "dec_assistantMessage = dec_struct
     [field ''content'' am_Content am_Content_update (dec_slice dec_content_block \<lparr> cb_Type = [], cb_Text = [] \<rparr>)]"

definition trimNewline :: "bytes \<Rightarrow> bytes" where
  "trimNewline b = rev (dropWhile (\<lambda>x. x = 10 \<or> x = 13) (rev b))"

text \<open>The loop over the content blocks: the text, and whether there is a tool call.\<close>

fun blocks_text :: "content_block list \<Rightarrow> string \<times> bool" where
  "blocks_text [] = ([], False)"
| "blocks_text (c # cs) =
     (let (sb, hasTool) = blocks_text cs in
      if cb_Type c = ''text'' then (cb_Text c @ sb, hasTool)
      else if cb_Type c = ''tool_use'' then (sb, True)
      else (sb, hasTool))"

definition event :: "AgentEventKind \<Rightarrow> string \<Rightarrow> bytes \<Rightarrow> TurnResult option \<Rightarrow> AgentEvent" where
  "event k t raw res = \<lparr> ev_Kind = k, ev_Text = t, ev_Raw = raw, ev_Result = res \<rparr>"

definition parseLine :: "float_ops \<Rightarrow> bytes \<Rightarrow> AgentEvent option" where
  "parseLine fl line =
     (case json_Unmarshal (dec_streamLine fl) (string_of_bytes line) zero_streamLine of
        (Inl e, sl) \<Rightarrow> None
      | (Inr _, sl) \<Rightarrow>
          let trimmed = trimNewline line; ty = sl_Type sl in
          if ty = ''system'' then
            (if sl_Subtype sl = ''init'' then Some (event AgentInit [] [] None) else None)
          else if ty = ''assistant'' then
            (let am = snd (json_Unmarshal dec_assistantMessage (sl_Message sl) \<lparr> am_Content = [] \<rparr>);
                 (sb, hasTool) = blocks_text (am_Content am)
             in if hasTool \<and> sb = [] then Some (event AgentToolUse [] trimmed None)
                else Some (event AgentMessage sb trimmed None))
          else if ty = ''user'' then Some (event AgentToolResult [] trimmed None)
          else if ty = ''result'' then
            Some (event AgentResult [] trimmed (Some \<lparr> tr_IsError = sl_IsError sl, tr_CostUSD = sl_TotalCostUSD sl,
              tr_Text = sl_Result sl, tr_NumTurns = sl_NumTurns sl \<rparr>))
          else None)"

text \<open>\<^verbatim>\<open>ReadBytes('\n')\<close> until the end of the output: the lines with their newlines, the last one
  perhaps without.\<close>

fun read_lines :: "bytes \<Rightarrow> bytes \<Rightarrow> bytes list" where
  "read_lines line [] = (if line = [] then [] else [line])"
| "read_lines line (b # bs) = (if b = 10 then (line @ [b]) # read_lines [] bs else read_lines (line @ [b]) bs)"

text \<open>What \<^verbatim>\<open>readLoop\<close> sends over the channel for the whole output.\<close>

definition readLoop :: "float_ops \<Rightarrow> bytes \<Rightarrow> AgentEvent list" where
  "readLoop fl output = List.map_filter (parseLine fl) (read_lines [] output)"

section \<open>The buffer keeps the last bytes\<close>

definition last_bytes :: "nat \<Rightarrow> bytes \<Rightarrow> bytes" where
  "last_bytes n bs = drop (length bs - n) bs"

lemma last_bytes_append: "last_bytes n (last_bytes n a @ b) = last_bytes n (a @ b)"
  by (cases "length a \<le> n") (simp_all add: last_bytes_def add.commute)

lemma rb_Write_last: "rb_buf (rb_Write p r) = last_bytes (rb_max r) (rb_buf r @ p)" "rb_max (rb_Write p r) = rb_max r"
  by (auto simp: rb_Write_def last_bytes_def Let_def)

text \<open>
  C34. The error output that is kept: after any sequence of writes the buffer is exactly the last
  \<open>max\<close> bytes of everything written, so the limit is never exceeded and nothing of the end is lost.
\<close>

theorem ring_buffer_tail:
  "rb_buf (fold rb_Write ps \<lparr> rb_buf = [], rb_max = n \<rparr>) = last_bytes n (concat ps) \<and>
   length (rb_buf (fold rb_Write ps \<lparr> rb_buf = [], rb_max = n \<rparr>)) \<le> n"
proof -
  have *: "rb_max (fold rb_Write ps r) = rb_max r \<and>
      rb_buf (fold rb_Write ps r) = (if ps = [] then rb_buf r else last_bytes (rb_max r) (rb_buf r @ concat ps))" for r
  proof (induction ps arbitrary: r)
    case (Cons p ps)
    show ?case using Cons[of "rb_Write p r"] by (simp add: rb_Write_last last_bytes_append)
  qed simp
  show ?thesis using *[of "\<lparr> rb_buf = [], rb_max = n \<rparr>"] by (auto simp: last_bytes_def)
qed

section \<open>One line for every prompt\<close>

lemma hex_digit_printable: "n < 16 \<Longrightarrow> 32 \<le> code (hex_digit n)"
  by (auto simp: hex_digit_def)

lemma esc_ascii_printable:
  assumes "code c < 0x80"
  shows "\<forall>x \<in> set (esc_ascii c). 32 \<le> code x"
proof (cases "c \<in> {bslash, quoteC, CHR 0x08, CHR 0x0C, CHR 0x0A, CHR 0x0D, CHR 0x09}")
  case True
  then show ?thesis by (elim insertE emptyE) (simp_all add: esc_ascii_def code_def)
next
  case False
  have "code c div 16 < 16" "code c mod 16 < 16" using assms by auto
  note h = this[THEN hex_digit_printable]
  have "esc_ascii c = (if code c < 32 \<or> html_char c then u00 c else [c])" using False by (simp add: esc_ascii_def)
  moreover have "\<forall>x \<in> set (u00 c). 32 \<le> code x" using h by (simp add: u00_def) (simp add: code_def)
  ultimately show ?thesis by simp
qed

text \<open>An encoded string has no control characters, so no newline.\<close>

lemma quote_body_printable: "\<forall>x \<in> set (quote_body s). 32 \<le> code x"
proof (induction s rule: quote_body.induct)
  case 1
  then show ?case by simp
next
  case (2 c s)
  show ?case
  proof (cases "code c < 0x80")
    case True
    then show ?thesis using 2(1) esc_ascii_printable[OF True] by (auto simp: quote_body.simps(2))
  next
    case ge: False
    show ?thesis
    proof (cases "utf8_len (c # s) = 0 \<or> line_sep (c # s)")
      case True
      have "code (s ! 1) mod 16 < 16" by simp
      note h = hex_digit_printable[OF this]
      from True show ?thesis using ge 2(2,3) h by (auto simp: quote_body.simps(2)) (auto simp: code_def)
    next
      case False
      let ?n = "utf8_len (c # s)"
      have "\<forall>x \<in> set (take (?n - 1) s). 32 \<le> code x"
        using utf8_len_conts[OF ge, of s] False by (auto simp: cont_def)
      moreover have "take ?n (c # s) = c # take (?n - 1) s" using False by (cases ?n) auto
      ultimately have "\<forall>x \<in> set (take ?n (c # s)). 32 \<le> code x" using ge by auto
      then show ?thesis using ge False 2(4) by (simp add: quote_body.simps(2) ball_Un)
    qed
  qed
qed

lemma quote_printable: "\<forall>x \<in> set (quote s). 32 \<le> code x"
  using quote_body_printable[of s] by (auto simp: quote_def) (auto simp: code_def)

lemma userMessage_no_newline: "CHR 0x0A \<notin> set (userMessage p)"
proof -
  have "CHR 0x0A \<notin> set (quote s)" for s using quote_printable[of s] by (auto simp: code_def)
  then show ?thesis by (simp add: userMessage_def obj_text_def arr_text_def)
qed

lemma read_lines_line: "10 \<notin> set line' \<Longrightarrow> read_lines line (line' @ 10 # bs) = (line @ line' @ [10]) # read_lines [] bs"
  by (induction line' arbitrary: line) auto

lemma bytes_newline: "10 \<in> set (bytes_of_string s) \<longleftrightarrow> CHR 0x0A \<in> set s"
proof -
  have "(of_char c :: byte) = 10 \<longleftrightarrow> c = CHR 0x0A" for c
  proof
    assume "(of_char c :: byte) = 10"
    then have "unat (of_char c :: byte) = 10" by simp
    then have "(of_char c :: nat) = of_char (CHR 0x0A)" by (simp add: unat_of_char_byte)
    then show "c = CHR 0x0A" by (simp only: of_char_eq_iff)
  qed simp
  then show ?thesis by (auto simp: bytes_of_string_def image_iff)
qed

lemma json_Unmarshal_line:
  assumes "encoded dep v" "dep \<le> max_depth" "is_ws c"
  shows "json_Unmarshal d (v @ [c]) r = (let (r', ok) = d v r in (if ok then Inr () else Inl JsonError, r'))"
proof -
  have v: "is_value dep v" and dl: "delim [c]" using assms by (auto simp: encoded_def delim_def)
  have "skip_ws [c] = []" using assms(3) by (simp add: skip_ws_def)
  then show ?thesis
    using skip_one_value[OF v assms(2) dl] take_value_text[OF v assms(2) dl]
    by (simp add: json_Unmarshal_def json_valid_def)
qed

lemma encoded_userMessage: "encoded (Suc (Suc (Suc (Suc 0)))) (userMessage p)"
proof -
  have "encoded (Suc 0) (obj_text [(''type'', quote ''text''), (''text'', quote p)])" by (rule encoded_obj) simp
  then have "encoded (Suc (Suc 0)) (arr_text [obj_text [(''type'', quote ''text''), (''text'', quote p)]])"
    by (intro encoded_arr) simp
  then have "encoded (Suc (Suc (Suc 0))) (obj_text [(''role'', quote ''user''),
      (''content'', arr_text [obj_text [(''type'', quote ''text''), (''text'', quote p)]])])"
    by (intro encoded_obj) simp
  then show ?thesis unfolding userMessage_def by (intro encoded_obj) simp
qed

text \<open>What a reader of such lines, with the runner's own decoders, finds as the prompt.\<close>

definition read_prompt :: "float_ops \<Rightarrow> bytes \<Rightarrow> string option" where
  "read_prompt fl line =
     (case json_Unmarshal (dec_streamLine fl) (string_of_bytes line) zero_streamLine of
        (Inl e, sl) \<Rightarrow> None
      | (Inr _, sl) \<Rightarrow>
          if sl_Type sl = ''user'' then
            Some (fst (blocks_text (am_Content (snd (json_Unmarshal dec_assistantMessage (sl_Message sl) \<lparr> am_Content = [] \<rparr>)))))
          else None)"

lemma read_prompt_line: "read_prompt fl (prompt_line p) = Some (fix_utf8 p)"
proof -
  let ?block = "obj_text [(''type'', quote ''text''), (''text'', quote p)]"
  let ?msg = "obj_text [(''role'', quote ''user''), (''content'', arr_text [?block])]"
  have eb: "encoded (Suc 0) ?block" by (rule encoded_obj) simp
  then have ea: "encoded (Suc (Suc 0)) (arr_text [?block])" by (intro encoded_arr) simp
  then have em: "encoded (Suc (Suc (Suc 0))) ?msg" by (intro encoded_obj) simp
  have ascii: "fix_utf8 ''text'' = ''text''" "fix_utf8 ''user'' = ''user''" "fix_utf8 ''role'' = ''role''"
    "fix_utf8 ''content'' = ''content''" "fix_utf8 ''type'' = ''type''" "fix_utf8 ''message'' = ''message''"
    by (simp_all add: fix_utf8_ascii code_def)
  have keys: "fold_key ''type'' = ''TYPE''" "fold_key ''text'' = ''TEXT''" "fold_key ''message'' = ''MESSAGE''"
    "fold_key ''role'' = ''ROLE''" "fold_key ''content'' = ''CONTENT''" "fold_key ''subtype'' = ''SUBTYPE''"
    "fold_key ''is_error'' = ''IS_ERROR''" "fold_key ''result'' = ''RESULT''" "fold_key ''num_turns'' = ''NUM_TURNS''"
    "fold_key ''total_cost_usd'' = ''TOTAL_COST_USD''"
    by code_simp+
  have block: "dec_content_block ?block \<lparr> cb_Type = [], cb_Text = [] \<rparr> = (\<lparr> cb_Type = ''text'', cb_Text = fix_utf8 p \<rparr>, True)"
    unfolding dec_content_block_def by (subst dec_struct_text[of _ 0]) (simp_all add: keys ascii)
  have "dec_slice dec_content_block \<lparr> cb_Type = [], cb_Text = [] \<rparr> (arr_text (map (\<lambda>_. ?block) [()])) [] =
      (map (\<lambda>_. \<lparr> cb_Type = ''text'', cb_Text = fix_utf8 p \<rparr>) [()], True)"
    by (rule dec_slice_map[of _ _ _ _ _ "Suc 0"]) (use block eb in auto)
  then have slice: "dec_slice dec_content_block \<lparr> cb_Type = [], cb_Text = [] \<rparr> (arr_text [?block]) [] =
      ([\<lparr> cb_Type = ''text'', cb_Text = fix_utf8 p \<rparr>], True)" by simp
  have "dec_assistantMessage ?msg \<lparr> am_Content = [] \<rparr> =
      (\<lparr> am_Content = [\<lparr> cb_Type = ''text'', cb_Text = fix_utf8 p \<rparr>] \<rparr>, True)"
    unfolding dec_assistantMessage_def
    by (subst dec_struct_text[of _ "Suc (Suc 0)"]) (use ea in \<open>simp_all add: keys ascii slice\<close>)
  then have am: "json_Unmarshal dec_assistantMessage ?msg \<lparr> am_Content = [] \<rparr> =
      (Inr (), \<lparr> am_Content = [\<lparr> cb_Type = ''text'', cb_Text = fix_utf8 p \<rparr>] \<rparr>)"
    by (subst json_Unmarshal_text[OF em]) simp_all
  have "dec_streamLine fl (userMessage p) zero_streamLine =
      (zero_streamLine\<lparr> sl_Type := ''user'', sl_Message := ?msg \<rparr>, True)"
    unfolding dec_streamLine_def userMessage_def
    by (subst dec_struct_text[of _ "Suc (Suc (Suc 0))"]) (use em in \<open>simp_all add: keys ascii zero_streamLine_def\<close>)
  moreover have "is_ws CHR 0x0A" by (simp add: is_ws_def)
  ultimately have "json_Unmarshal (dec_streamLine fl) (userMessage p @ [CHR 0x0A]) zero_streamLine =
      (Inr (), zero_streamLine\<lparr> sl_Type := ''user'', sl_Message := ?msg \<rparr>)"
    by (subst json_Unmarshal_line[OF encoded_userMessage]) simp_all
  moreover have "string_of_bytes (prompt_line p) = userMessage p @ [CHR 0x0A]"
  proof -
    have "prompt_line p = bytes_of_string (userMessage p @ [CHR 0x0A])" by (simp add: prompt_line_def bytes_of_string_def)
    then show ?thesis by simp
  qed
  ultimately show ?thesis using am by (simp add: read_prompt_def)
qed

lemma sent_lines: "read_lines [] (concat (map prompt_line ps)) = map prompt_line ps"
proof (induction ps)
  case (Cons p ps)
  have "10 \<notin> set (bytes_of_string (userMessage p))" by (simp add: bytes_newline userMessage_no_newline)
  from read_lines_line[OF this, of "[]"] Cons show ?case by (simp add: prompt_line_def)
qed simp

lemma sent_bytes: "forE ps cs_Send pr = (Inr (), pr') \<Longrightarrow> pr_stdin pr' = pr_stdin pr @ concat (map prompt_line ps)"
proof (induction ps arbitrary: pr)
  case (Cons p ps)
  then show ?case by (auto simp: bindE_Inr_iff cs_Send_def split: option.splits if_splits)
qed simp

text \<open>
  C33. Prompts cannot run into each other. Whatever text was sent, the input of the process is one
  line for each prompt, in order, and each line decodes to its prompt; newlines and quotes in a
  prompt are escaped, and invalid UTF-8 is replaced.
\<close>

theorem prompts_framed:
  assumes "pr_stdin pr = []" and "forE ps cs_Send pr = (Inr (), pr')"
  shows "map (read_prompt fl) (read_lines [] (pr_stdin pr')) = map (\<lambda>p. Some (fix_utf8 p)) ps"
  using sent_bytes[OF assms(2)] assms(1) by (simp add: sent_lines read_prompt_line)

section \<open>Reading the output\<close>

lemma concat_read_lines: "concat (read_lines line bs) = line @ bs"
  by (induction line bs rule: read_lines.induct) auto

lemma read_lines_ends: "l \<in> set (read_lines line bs) \<Longrightarrow> 10 \<notin> set line \<Longrightarrow> l \<noteq> [] \<and> 10 \<notin> set (butlast l)"
proof (induction line bs rule: read_lines.induct)
  case (1 line)
  then show ?case by (auto split: if_splits dest: in_set_butlastD)
next
  case (2 line b bs)
  then show ?case by (auto split: if_splits)
qed

lemma read_lines_split: "read_lines line (a @ 10 # b) = read_lines line (a @ [10]) @ read_lines [] b"
  by (induction line a rule: read_lines.induct) auto

text \<open>
  The reader's events do not depend on how the output arrives: the lines are a partition of the
  output at its newlines, and the events of an output up to a newline followed by the events of
  the rest are the events of the whole, in order.
\<close>

theorem read_loop_streams:
  "concat (read_lines [] out) = out \<and>
   readLoop fl (a @ [10] @ b) = readLoop fl (a @ [10]) @ readLoop fl b"
  using concat_read_lines[of "[]" out] read_lines_split[of "[]" a b]
  by (simp add: readLoop_def map_filter_def)

text \<open>
  C35. What an event can be. A line that becomes an event becomes one of five kinds, never the kind
  for events that are passed through uninterpreted; it carries the line without its line end,
  except the initial one, which carries nothing; and it has a result exactly if it ends a turn.
\<close>

theorem parse_line_events:
  assumes "parseLine fl line = Some ev"
  shows "ev_Kind ev \<in> {AgentInit, AgentMessage, AgentToolUse, AgentToolResult, AgentResult} \<and>
    ev_Raw ev = (if ev_Kind ev = AgentInit then [] else trimNewline line) \<and>
    (ev_Result ev \<noteq> None \<longleftrightarrow> ev_Kind ev = AgentResult)"
  using assms
  by (auto simp: parseLine_def event_def Let_def split: sum.splits prod.splits if_splits)

section \<open>Witnesses\<close>

definition demo_process :: process where
  "demo_process = \<lparr> pr_cmd = start_command NewRunner ''id'' ''/w'', pr_stdin = [], pr_in_open = True, pr_fault = \<lambda>_. None, pr_exits = True,
     pr_exit = None, pr_stderr = \<lparr> rb_buf = [], rb_max = 8192 \<rparr>, pr_waited = False \<rparr>"

theorem prompts_framed_witness:
  "\<exists>pr'. forE [[CHR ''a'', CHR 0x0A, CHR ''b''], ''c''] cs_Send demo_process = (Inr (), pr') \<and>
     map (read_prompt demo_floats) (read_lines [] (pr_stdin pr')) = [Some [CHR ''a'', CHR 0x0A, CHR ''b''], Some ''c'']"
proof -
  let ?ps = "[[CHR ''a'', CHR 0x0A, CHR ''b''], ''c'']"
  obtain pr' where run: "forE ?ps cs_Send demo_process = (Inr (), pr')"
    by (auto simp: bindE_def cs_Send_def demo_process_def)
  have "pr_stdin demo_process = []" by (simp add: demo_process_def)
  from prompts_framed [OF this run, of demo_floats] run show ?thesis by (simp add: fix_utf8_ascii code_def)
qed

definition demo_line :: bytes where
  "demo_line = bytes_of_string (obj_text [(''type'', quote ''user'')]) @ [13, 10]"

lemma demo_line_event: "parseLine demo_floats demo_line = Some (event AgentToolResult [] (butlast (butlast demo_line)) None)"
  by code_simp

theorem parse_line_events_witness:
  "\<exists>ev. parseLine demo_floats demo_line = Some ev \<and> ev_Raw ev = trimNewline demo_line"
  using parse_line_events [OF demo_line_event] demo_line_event by (auto simp: event_def)

end
