(* ===== verification/Wiring.thy ===== *)
theory Wiring
  imports Server Connect ClaudeCli Fsstore WireContract
begin

text \<open>
  How \<^verbatim>\<open>cmd/server/main.go\<close> puts the server together: the world that the session
  service works on has the file system, the connection of one client and the agent's process; each
  port is the implementation of its component on its part of the world. The laws that the parts
  rely on are discharged here.
\<close>

section \<open>The world\<close>

text \<open>\<open>w_ids\<close> counts the session ids that were made.\<close>

record 'c world =
  w_os :: os
  w_conn :: "'c conn"
  w_agent :: "process option"
  w_ids :: nat

definition on_os :: "(os, 'a) prog \<Rightarrow> ('c world, 'a) prog" where
  "on_os p w = (case p (w_os w) of (r, s) \<Rightarrow> (r, w\<lparr> w_os := s \<rparr>))"

definition on_conn :: "('c conn, 'a) prog \<Rightarrow> ('c world, 'a) prog" where
  "on_conn p w = (case p (w_conn w) of (r, c) \<Rightarrow> (r, w\<lparr> w_conn := c \<rparr>))"

definition on_agent :: "(process option, 'a) prog \<Rightarrow> ('c world, 'a) prog" where
  "on_agent p w = (case p (w_agent w) of (r, a) \<Rightarrow> (r, w\<lparr> w_agent := a \<rparr>))"

section \<open>The ports on it\<close>

definition blobs_on :: "os BlobStorePort \<Rightarrow> 'c world BlobStorePort" where
  "blobs_on B = \<lparr> Has = \<lambda>h. on_os (Has B h), Put = \<lambda>h c. on_os (Put B h c), Get = \<lambda>h. on_os (Get B h) \<rparr>"

text \<open>The other way: a port of the world as one of the file system, the rest of the world as it is.\<close>

definition blobs_at :: "'c world \<Rightarrow> 'c world BlobStorePort \<Rightarrow> os BlobStorePort" where
  "blobs_at w B =
     \<lparr> Has = \<lambda>h s. case Has B h (w\<lparr> w_os := s \<rparr>) of (r, w') \<Rightarrow> (r, w_os w'),
       Put = \<lambda>h c s. case Put B h c (w\<lparr> w_os := s \<rparr>) of (r, w') \<Rightarrow> (r, w_os w'),
       Get = \<lambda>h s. case Get B h (w\<lparr> w_os := s \<rparr>) of (r, w') \<Rightarrow> (r, w_os w') \<rparr>"

definition workspace_on :: "Workspace \<Rightarrow> 'c world WorkspacePort" where
  "workspace_on ws =
     \<lparr> wk_Dir = ws_dir ws,
       wk_Materialize = \<lambda>B m w. on_os (ws_Materialize ws (blobs_at w B) m) w,
       wk_Snapshot = on_os (ws_Snapshot ws),
       wk_ReadFile = \<lambda>path. on_os (ws_ReadFile ws path),
       wk_Remove = on_os (ws_Remove ws) \<rparr>"

definition session_on :: "process option AgentSession \<Rightarrow> 'c world AgentSession" where
  "session_on ag =
     \<lparr> ag_Send = \<lambda>t. on_agent (ag_Send ag t), ag_Interrupt = on_agent (ag_Interrupt ag), ag_Close = on_agent (ag_Close ag) \<rparr>"

definition runner_on :: "process option AgentRunner \<Rightarrow> 'c world AgentRunner" where
  "runner_on R sessionID dir = bindE (on_agent (R sessionID dir)) (\<lambda>ag. retE (session_on ag))"

definition notifier_on :: "'c conn ClientNotifier \<Rightarrow> 'c world ClientNotifier" where
  "notifier_on N =
     \<lparr> SessionReady = \<lambda>i. on_conn (SessionReady N i), SyncRequest = \<lambda>hs. on_conn (SyncRequest N hs),
       StreamEvent = \<lambda>ev. on_conn (StreamEvent N ev), FileChanged = \<lambda>ch c. on_conn (FileChanged N ch c),
       TurnDone = \<lambda>res. on_conn (TurnDone N res), Error = \<lambda>msg. on_conn (Error N msg) \<rparr>"

definition new_id :: "(nat \<Rightarrow> string) \<Rightarrow> ('c world, string) prog" where
  "new_id uuid w = (Inr (uuid (w_ids w)), w\<lparr> w_ids := Suc (w_ids w) \<rparr>)"

text \<open>The directories below the data directory.\<close>

definition blob_dir :: "string \<Rightarrow> string" where
  "blob_dir dataDir = Join [dataDir, ''objects'']"

definition session_dir :: "string \<Rightarrow> string \<Rightarrow> string" where
  "session_dir dataDir sessionID = Join [dataDir, ''sessions'', sessionID, ''workspace'']"

text \<open>\<^verbatim>\<open>factory\<close>: the dependencies of the service of one connection.\<close>

definition service_deps ::
  "BlobStore \<Rightarrow> string \<Rightarrow> (nat \<Rightarrow> string) \<Rightarrow> (command \<Rightarrow> ringBuffer \<Rightarrow> error + process) \<Rightarrow> Runner \<Rightarrow>
   float_ops \<Rightarrow> 'c SecureChannel \<Rightarrow> 'c world Deps" where
  "service_deps b dataDir uuid spawn rn fl S =
     \<lparr> dp_Blobs = blobs_on (fs_port b),
       dp_NewWorkspace = \<lambda>sessionID. bindE (on_os (NewWorkspace (session_dir dataDir sessionID))) (\<lambda>ws. retE (workspace_on ws)),
       dp_Agent = runner_on (cli_Start spawn rn),
       dp_Notifier = notifier_on (ws_notifier fl S),
       dp_NewID = new_id uuid \<rparr>"

section \<open>What a part leaves alone\<close>

lemma on_os_conn [simp]: "w_conn (snd (on_os p w)) = w_conn w"
  by (simp add: on_os_def split: prod.split)

lemma on_agent_conn [simp]: "w_conn (snd (on_agent p w)) = w_conn w"
  by (simp add: on_agent_def split: prod.split)

lemma on_os_iff: "on_os p w = (r, w') \<longleftrightarrow> p (w_os w) = (r, w_os w') \<and> w' = w\<lparr> w_os := w_os w' \<rparr>"
  by (auto simp: on_os_def split: prod.splits)

lemma on_conn_iff: "on_conn p w = (r, w') \<longleftrightarrow> p (w_conn w) = (r, w_conn w') \<and> w' = w\<lparr> w_conn := w_conn w' \<rparr>"
  by (auto simp: on_conn_def split: prod.splits)

lemma blobs_at_on [simp]: "blobs_at w (blobs_on B) = B"
  by (rule BlobStorePort.equality) (simp_all add: blobs_at_def blobs_on_def on_os_def fun_eq_iff split: prod.split)

lemma deps_simps [simp]:
  "dp_Blobs (service_deps b dataDir uuid spawn rn fl S) = blobs_on (fs_port b)"
  "dp_Notifier (service_deps b dataDir uuid spawn rn fl S) = notifier_on (ws_notifier fl S)"
  "dp_NewID (service_deps b dataDir uuid spawn rn fl S) = new_id uuid"
  by (simp_all add: service_deps_def)

text \<open>Sending leaves the frames alone that are to be read.\<close>

definition only_sends :: "('c conn, 'a) prog \<Rightarrow> bool" where
  "only_sends m \<longleftrightarrow> (\<forall>c. cn_inbox (snd (m c)) = cn_inbox c)"

lemma only_sends_ret: "only_sends (retE a)" "only_sends (throwE e)"
  by (simp_all add: only_sends_def)

lemma only_sends_bind:
  assumes "only_sends m" "\<And>a. only_sends (f a)"
  shows "only_sends (bindE m f)"
  unfolding only_sends_def
proof
  fix c
  obtain r c' where m: "m c = (r, c')" by (metis prod.collapse)
  then have "cn_inbox c' = cn_inbox c" using assms(1) unfolding only_sends_def by (metis snd_conv)
  then show "cn_inbox (snd (bindE m f c)) = cn_inbox c"
    using m assms(2) by (cases r) (simp_all add: bindE_def only_sends_def)
qed

lemma only_sends_for: "(\<And>x. only_sends (f x)) \<Longrightarrow> only_sends (forE xs f)"
  by (induction xs) (simp_all add: only_sends_ret only_sends_bind)

lemma only_sends_record: "only_sends (writeRecord S rec)"
  by (simp add: only_sends_def writeRecord_def split: prod.split sum.split option.split)

lemma only_sends_data: "only_sends (send_data S ty p)"
  by (simp add: send_data_def SendEnvelope_def only_sends_record only_sends_ret split: sum.split)

lemma only_sends_notifier:
  "only_sends (SessionReady (ws_notifier fl S) i)" "only_sends (SyncRequest (ws_notifier fl S) hs)"
  "only_sends (StreamEvent (ws_notifier fl S) ev)" "only_sends (FileChanged (ws_notifier fl S) ch content)"
  "only_sends (TurnDone (ws_notifier fl S) res)" "only_sends (Error (ws_notifier fl S) msg)"
proof -
  have "only_sends NewStreamID" by (simp add: only_sends_def NewStreamID_def)
  then show "only_sends (FileChanged (ws_notifier fl S) ch content)"
    unfolding ws_notifier_def nt_FileChange_def ClientNotifier.simps
    by (auto intro!: only_sends_bind only_sends_ret only_sends_data only_sends_for only_sends_record simp: SendContent_pieces)
qed (simp_all add: ws_notifier_def nt_SessionReady_def nt_SyncRequest_def nt_StreamEvent_def nt_TurnDone_def nt_Error_def
    only_sends_data)

text \<open>What is left to read: the frames that have not arrived yet.\<close>

definition input_left :: "'c world \<Rightarrow> nat" where
  "input_left w = length (cn_inbox (w_conn w))"

lemma read_frames_shorter: "length (cn_inbox (snd (read_frames S fs c))) \<le> length fs - 1"
proof (induction fs arbitrary: c)
  case (Cons f fs)
  have le: "length (cn_inbox (snd (read_frames S fs c'))) \<le> length fs" for c' using Cons[of c'] by simp
  show ?case by (auto simp: le read_frames.simps(2) split: prod.split sum.split option.split)
qed simp

lemma ReadMessage_left:
  assumes "on_conn (ReadMessage S) w = (Inr m, w')"
  shows "input_left w' < input_left w"
proof -
  have run: "read_frames S (cn_inbox (w_conn w)) (w_conn w) = (Inr m, w_conn w')"
    using assms by (simp add: on_conn_iff ReadMessage_def)
  then have "cn_inbox (w_conn w) \<noteq> []" by auto
  then show ?thesis using read_frames_shorter[of S "cn_inbox (w_conn w)" "w_conn w"] run
    by (cases "cn_inbox (w_conn w)") (simp_all add: input_left_def)
qed

lemma left_on_conn: "only_sends p \<Longrightarrow> input_left (snd (on_conn p w)) = input_left w"
  by (simp add: only_sends_def on_conn_def input_left_def split: prod.split) (metis snd_conv)

lemma left_on_os [simp]: "input_left (snd (on_os p w)) = input_left w" "input_left (snd (on_agent q w)) = input_left w"
  by (simp_all add: input_left_def)

interpretation main: message_source "on_conn (ReadMessage S)" "service_deps b dataDir uuid spawn rn fl S" input_left
  for S b dataDir uuid spawn rn fl
proof (unfold_locales, goal_cases)
  case (1 s m s')
  then show ?case by (rule ReadMessage_left)
next
  case (7 msg s)
  show ?case by (simp add: notifier_on_def left_on_conn[OF only_sends_notifier(6)])
next
  case (8 i s r s')
  then show ?case
    by (auto simp: service_deps_def bindE_def workspace_on_def input_left_def on_os_def split: prod.splits sum.splits)
next
  case (9 i dir s ra s')
  then show ?case
    by (auto simp: service_deps_def runner_on_def session_on_def bindE_def input_left_def on_agent_def split: prod.splits sum.splits)
qed (simp_all add: blobs_on_def new_id_def input_left_def notifier_on_def
    left_on_conn[OF only_sends_notifier(1), unfolded input_left_def] left_on_conn[OF only_sends_notifier(2), unfolded input_left_def])

section \<open>What a session leaves to clean up\<close>

text \<open>Of the session, what is to be cleaned up: the agent, the workspace, the process, the ids.\<close>

definition to_clean :: "'c world Service \<times> 'c world \<Rightarrow>
    'c world AgentSession option \<times> 'c world WorkspacePort option \<times> process option \<times> nat \<times> string" where
  "to_clean x = (sv_agent (fst x), sv_ws (fst x), w_agent (snd x), w_ids (snd x), sv_sessionID (fst x))"

definition leaves :: "('c world, 'a) sprog \<Rightarrow> bool" where
  "leaves m \<longleftrightarrow> (\<forall>x. to_clean (snd (m x)) = to_clean x)"

lemma leaves_ret: "leaves (retE a)" "leaves (throwE e)" "leaves (look_sv f)"
  by (simp_all add: leaves_def look_sv_def)

lemma leaves_bind: "leaves m \<Longrightarrow> (\<And>a. leaves (f a)) \<Longrightarrow> leaves (bindE m f)"
  by (simp add: leaves_def bindE_def split: prod.split sum.split) (metis snd_conv)

lemma leaves_conn: "leaves (outside (on_conn p))"
  by (simp add: leaves_def outside_def on_conn_def to_clean_def split: prod.split)

lemma leaves_os: "leaves (outside (on_os p))"
  by (simp add: leaves_def outside_def on_os_def to_clean_def split: prod.split)

lemma leaves_payload: "leaves (payload msg dec zero)"
  by (auto simp: payload_def leaves_ret split: prod.split sum.split)

lemma on_os_bind: "bindE (on_os p) (\<lambda>a. on_os (f a)) = on_os (bindE p f)"
  by (rule ext) (simp add: on_os_def bindE_def split: prod.split sum.split)

lemma on_os_ret: "retE a = on_os (retE a)" "throwE e = on_os (throwE e)"
  by (simp_all add: on_os_def fun_eq_iff)

lemma missing_hashes_on:
  "missing_hashes (blobs_on B) seen ms es = on_os (missing_hashes B seen ms es)"
proof (induction es arbitrary: seen ms)
  case (Cons e es)
  then show ?case by (simp add: blobs_on_def on_os_bind)
qed (simp add: on_os_ret(1))

lemma leaves_StartSession: "dp_Blobs D = blobs_on B \<Longrightarrow> leaves (StartSession D n m)"
  unfolding StartSession_def
  by (intro leaves_bind) (auto simp: missing_hashes_on leaves_os, simp add: leaves_def set_sv_def to_clean_def)

text \<open>
  The states of the dispatcher: no session yet, or the one session of the connection with its agent
  and its workspace. After an error there may also be a workspace without an agent.
\<close>

definition session_ws :: "string \<Rightarrow> (nat \<Rightarrow> string) \<Rightarrow> nat \<Rightarrow> 'c world WorkspacePort" where
  "session_ws dataDir uuid n = workspace_on \<lparr> ws_dir = session_dir dataDir (uuid n) \<rparr>"

definition unclean :: "string \<Rightarrow> (nat \<Rightarrow> string) \<Rightarrow> nat \<Rightarrow> 'c world Service \<times> 'c world \<Rightarrow> bool" where
  "unclean dataDir uuid n x \<longleftrightarrow> (case to_clean x of (ag, ws, pr, k, sid) \<Rightarrow>
     ag = None \<and> ws = None \<and> pr = None \<and> k = n \<and> sid = [] \<or>
     ag = Some (session_on cli_session) \<and> ws = Some (session_ws dataDir uuid n) \<and>
       (\<exists>p. pr = Some p \<and> \<not> pr_waited p \<and> cmd_Dir (pr_cmd p) = session_dir dataDir (uuid n)) \<and>
       k = Suc n \<and> sid = uuid n)"

text \<open>\<open>t\<close> is the file system from which the workspace's directory could not be made.\<close>

definition broken :: "string \<Rightarrow> (nat \<Rightarrow> string) \<Rightarrow> nat \<Rightarrow> 'c world Service \<times> 'c world \<Rightarrow> bool" where
  "broken dataDir uuid n x \<longleftrightarrow> unclean dataDir uuid n x \<or>
     (case to_clean x of (ag, ws, pr, k, sid) \<Rightarrow> ag = None \<and> pr = None \<and> k = Suc n \<and> sid = uuid n \<and>
       (ws = Some (session_ws dataDir uuid n) \<or>
        ws = None \<and> (\<exists>t e. NewWorkspace (session_dir dataDir (uuid n)) t = (Inl e, w_os (snd x)))))"

lemma leaves_hoare:
  assumes "leaves m"
  shows "hoareE (unclean dd u n) m (\<lambda>_. unclean dd u n) (broken dd u n)"
proof -
  have k: "unclean dd u n s'" if "unclean dd u n s" "m s = (r, s')" for s r s'
  proof -
    have "to_clean (snd (m s)) = to_clean s" using assms unfolding leaves_def by blast
    then show ?thesis using that by (simp add: unclean_def)
  qed
  then show ?thesis by (intro hoareE_I) (auto simp: broken_def simp del: split_paired_All)
qed

text \<open>A report to the client touches neither the file system nor what is to be cleaned up.\<close>

lemma reported_hoare:
  assumes "hoareE P m (\<lambda>_. P) (broken dd u n)" "dp_Notifier D = notifier_on N"
  shows "hoareE P (reported say D m) (\<lambda>_. P) (broken dd u n)"
proof (rule hoareE_I)
  fix s a s' assume "P s" "reported say D m s = (Inr a, s')"
  then have "m s = (Inr a, s')" by (auto simp: reported_def split: prod.splits sum.splits)
  then show "P s'" by (rule hoareE_D1[OF assms(1) \<open>P s\<close>])
next
  fix s e s' assume P: "P s" and run: "reported say D m s = (Inl e, s')"
  then obtain y where y: "m s = (Inl e, y)" "s' = snd (outside (Error (dp_Notifier D) (say e)) y)"
    by (auto simp: reported_def split: prod.splits sum.splits)
  have "broken dd u n y" by (rule hoareE_D2[OF assms(1) P y(1)])
  moreover have "to_clean s' = to_clean y" "w_os (snd s') = w_os (snd y)"
    using y(2) assms(2) by (simp_all add: notifier_on_def to_clean_def outside_def on_conn_def split: prod.split)
  ultimately show "broken dd u n s'" by (simp add: broken_def unclean_def)
qed

lemma new_workspace_run:
  "dp_NewWorkspace (service_deps b dd u spawn rn fl S) i w =
     (case NewWorkspace (session_dir dd i) (w_os w) of
        (Inl e, s) \<Rightarrow> (Inl e, w\<lparr> w_os := s \<rparr>) | (Inr ws, s) \<Rightarrow> (Inr (workspace_on ws), w\<lparr> w_os := s \<rparr>))"
  by (auto simp: service_deps_def bindE_def on_os_def split: prod.split sum.split)

lemma agent_run:
  "dp_Agent (service_deps b dd u spawn rn fl S) i dir w =
     (case spawn (start_command rn i dir) \<lparr> rb_buf = [], rb_max = 8 * 1024 \<rparr> of
        Inl e \<Rightarrow> (Inl e, w) | Inr pr \<Rightarrow> (Inr (session_on cli_session), w\<lparr> w_agent := Some pr \<rparr>))"
  by (auto simp: service_deps_def runner_on_def cli_Start_def bindE_def on_agent_def split: sum.split)

lemma materialize_on: "wk_Materialize (workspace_on ws) (blobs_on B) m = on_os (ws_Materialize ws B m)"
  by (simp add: workspace_on_def fun_eq_iff)

text \<open>What is started is the command that was asked for, and nobody has waited for it.\<close>

definition spawns_running :: "(command \<Rightarrow> ringBuffer \<Rightarrow> error + process) \<Rightarrow> bool" where
  "spawns_running spawn \<longleftrightarrow> (\<forall>c b pr. spawn c b = Inr pr \<longrightarrow> \<not> pr_waited pr \<and> pr_cmd pr = c)"

lemma SyncDone_hoare:
  assumes "spawns_running spawn"
  shows "hoareE (unclean dd u n) (svc_SyncDone (service_deps b dd u spawn rn fl S)) (\<lambda>_. unclean dd u n) (broken dd u n)"
proof -
  let ?D = "service_deps b dd u spawn rn fl S"
  have one: "unclean dd u n y \<and> (\<exists>sid. r = Inr sid) \<or> broken dd u n y \<and> (\<exists>e. r = Inl e)"
    if un: "unclean dd u n (sv, w)" and run: "svc_SyncDone ?D (sv, w) = (r, y)" for sv w r y
  proof (cases "sv_agent sv")
    case (Some ag)
    then show ?thesis using un run by (auto simp: svc_SyncDone_def)
  next
    case None
    then have st: "sv_ws sv = None" "w_agent w = None" "w_ids w = n"
      using un by (auto simp: unclean_def to_clean_def)
    let ?w = "w\<lparr> w_ids := Suc n \<rparr>" and ?dir = "session_dir dd (u n)"
    obtain r1 s1 where nw: "NewWorkspace ?dir (w_os w) = (r1, s1)" by (metis prod.collapse)
    show ?thesis
    proof (cases r1)
      case (Inl e)
      then have "r = Inl e" "y = (sv\<lparr> sv_sessionID := u n \<rparr>, ?w\<lparr> w_os := s1 \<rparr>)"
        using run None st nw by (auto simp: svc_SyncDone_def bindE_outside new_id_def new_workspace_run)
      then show ?thesis using nw Inl None st by (auto simp: broken_def to_clean_def)
    next
      case (Inr ws)
      then have ws: "ws = \<lparr> ws_dir = ?dir \<rparr>" using nw by (auto simp: NewWorkspace_def bindE_Inr_iff)
      let ?sv = "sv\<lparr> sv_sessionID := u n, sv_ws := Some (workspace_on ws) \<rparr>"
      obtain r2 s2 where m: "ws_Materialize ws (fs_port b) (sv_manifest sv) s1 = (r2, s2)" by (metis prod.collapse)
      have run2: "bindE (outside (on_os (ws_Materialize ws (fs_port b) (sv_manifest sv)))) (\<lambda>_.
          bindE (outside (dp_Agent ?D (u n) (ws_dir ws))) (\<lambda>agent.
          bindE (set_sv (\<lambda>sv. sv\<lparr> sv_agent := Some agent, sv_pump_started := True \<rparr>)) (\<lambda>_. retE (u n))))
          (?sv, ?w\<lparr> w_os := s1 \<rparr>) = (r, y)"
        using run None st nw Inr by (simp add: svc_SyncDone_def bindE_outside new_id_def new_workspace_run materialize_on workspace_on_def)
      show ?thesis
      proof (cases r2)
        case (Inl e)
        then have "r = Inl e" "y = (?sv, ?w\<lparr> w_os := s2 \<rparr>)" using run2 m by (auto simp: bindE_outside on_os_def)
        then show ?thesis using None st ws by (auto simp: broken_def to_clean_def session_ws_def)
      next
        case (Inr u2)
        let ?sp = "spawn (start_command rn (u n) (ws_dir ws)) \<lparr> rb_buf = [], rb_max = 8 * 1024 \<rparr>"
        show ?thesis
        proof (cases ?sp)
          case (Inl e)
          then have "r = Inl e" "y = (?sv, ?w\<lparr> w_os := s2 \<rparr>)"
            using run2 m Inr by (simp_all add: bindE_outside on_os_def agent_run)
          then show ?thesis using None st ws by (simp add: broken_def to_clean_def session_ws_def)
        next
          case (Inr pr)
          then have "r = Inr (u n)"
            "y = (?sv\<lparr> sv_agent := Some (session_on cli_session), sv_pump_started := True \<rparr>, ?w\<lparr> w_os := s2, w_agent := Some pr \<rparr>)"
            using run2 m \<open>r2 = Inr u2\<close> by (simp_all add: bindE_outside on_os_def agent_run)
          moreover have "\<not> pr_waited pr" "cmd_Dir (pr_cmd pr) = ?dir"
            using assms Inr ws unfolding spawns_running_def by (metis, metis command.simps(3) start_command_def Workspace.simps(1))
          ultimately show ?thesis using ws by (simp add: unclean_def to_clean_def session_ws_def)
        qed
      qed
    qed
  qed
  show ?thesis
  proof (rule hoareE_I)
    fix x sid y assume "unclean dd u n x" "svc_SyncDone ?D x = (Inr sid, y)"
    then show "unclean dd u n y" using one[of "fst x" "snd x" "Inr sid" y] by simp
  next
    fix x e y assume "unclean dd u n x" "svc_SyncDone ?D x = (Inl e, y)"
    then show "broken dd u n y" using one[of "fst x" "snd x" "Inl e" y] by simp
  qed
qed

lemma Interrupt_hoare:
  "hoareE (unclean dd u n) (tryE (reported say (service_deps b dd u spawn rn fl S) (svc_Interrupt (service_deps b dd u spawn rn fl S))))
     (\<lambda>_. unclean dd u n) E"
proof (rule hoareE_I)
  let ?D = "service_deps b dd u spawn rn fl S"
  fix x a y assume un: "unclean dd u n x" and run: "tryE (reported say ?D (svc_Interrupt ?D)) x = (Inr a, y)"
  obtain sv w where x: "x = (sv, w)" by (cases x)
  obtain r z where z: "svc_Interrupt ?D x = (r, z)" by (metis prod.collapse)
  have "z = x"
  proof (cases "sv_agent sv")
    case (Some ag)
    then obtain p where "ag = session_on cli_session" "w_agent w = Some p"
      using un x by (auto simp: unclean_def to_clean_def)
    then show ?thesis using z x Some
      by (auto simp: svc_Interrupt_def session_on_def cli_session_def outside_def on_agent_def on_process_def cs_Interrupt_def)
  qed (use z x in \<open>simp add: svc_Interrupt_def\<close>)
  moreover have "y = (case r of Inl e \<Rightarrow> snd (outside (Error (dp_Notifier ?D) (say e)) z) | Inr _ \<Rightarrow> z)"
    using run z by (auto simp: tryE_def reported_def split: sum.splits prod.splits)
  moreover have "to_clean (snd (outside (Error (dp_Notifier ?D) msg) x)) = to_clean x" for msg
    by (simp add: notifier_on_def to_clean_def outside_def on_conn_def split: prod.split)
  ultimately have "to_clean y = to_clean x" by (simp split: sum.split)
  then show "unclean dd u n y" using un by (simp add: unclean_def)
qed (auto simp: tryE_def split: prod.splits)

lemma leaves_notify:
  "leaves (outside (SessionReady (notifier_on N) i))" "leaves (outside (SyncRequest (notifier_on N) hs))"
  by (simp_all add: notifier_on_def leaves_conn)

section \<open>The end of a session\<close>

lemma closed_waited: "snd (cs_Close pr) = pr\<lparr> pr_in_open := False, pr_waited := True \<rparr>"
  by (simp add: cs_Close_def cs_Wait_def Let_def split: option.split)

lemma close_session: "snd (on_agent (ag_Close cli_session) w) = w\<lparr> w_agent := map_option (\<lambda>pr. snd (cs_Close pr)) (w_agent w) \<rparr>"
  by (cases "w_agent w") (auto simp: cli_session_def on_agent_def on_process_def split: prod.split)

lemma try_outside: "snd (try_opt (Some y) f wrap (sv, w)) = (sv, snd (f y w))" "try_opt None f wrap x = (Inr [], x)"
  by (simp_all add: try_opt_def tryE_def bindE_def outside_def split: prod.split)

section \<open>A process to start, and ids\<close>

definition demo_spawn :: "command \<Rightarrow> ringBuffer \<Rightarrow> error + process" where
  "demo_spawn cmd rb = Inr \<lparr> pr_cmd = cmd, pr_stdin = [], pr_in_open = True, pr_fault = \<lambda>_. None, pr_exits = True, pr_exit = None,
     pr_stderr = rb, pr_waited = False \<rparr>"

definition demo_uuid :: "nat \<Rightarrow> string" where
  "demo_uuid n = ''id'' @ decimal n"

end
