(* ===== verification/Localfs.thy ===== *)
theory Localfs
  imports AtomicWrite Fsutil
begin

text \<open>
  \<^verbatim>\<open>internal/adapters/localfs/localfs.go\<close>: the client's project directory. The
  properties: how the ignore files are split into lines, that a change from the server is
  applied atomically and never outside the project, that it succeeds when nothing is in the
  way, and that applying the server's difference in order brings the client's files to the
  server's state. The matcher that the third-party \<^verbatim>\<open>go-gitignore\<close> compiles is a
  parameter.
\<close>

section \<open>Definitions\<close>

record Project =
  pj_root :: string
  pj_ig :: "(string \<Rightarrow> bool) option"
  pj_maxFileSize :: int
  pj_maxTotal :: int

text \<open>
  The loop of \<^verbatim>\<open>splitLines\<close>: \<open>line\<close> is \<^verbatim>\<open>b[start:i]\<close>. A carriage return is
  dropped before a newline, and only there.
\<close>

definition drop_cr :: "bytes \<Rightarrow> bytes" where
  "drop_cr line = (if line \<noteq> [] \<and> last line = 13 then butlast line else line)"

fun split_lines_from :: "bytes \<Rightarrow> bytes \<Rightarrow> bytes list" where
  "split_lines_from line [] = (if line \<noteq> [] then [line] else [])"
| "split_lines_from line (b # bs) =
     (if b = 10 then drop_cr line # split_lines_from [] bs else split_lines_from (line @ [b]) bs)"

definition splitLines :: "bytes \<Rightarrow> string list" where
  "splitLines b = map string_of_bytes (split_lines_from [] b)"

text \<open>The loop over the two ignore files, then the compilation of the collected lines.\<close>

fun read_ignore_files :: "string \<Rightarrow> string list \<Rightarrow> string list \<Rightarrow> (os, string list) prog" where
  "read_ignore_files root [] lines = retE lines"
| "read_ignore_files root (name # names) lines =
     bindE (tryE (os_ReadFile (Join [root, name]))) (\<lambda>r.
       case r of
         Inr b \<Rightarrow> read_ignore_files root names (lines @ splitLines b)
       | Inl _ \<Rightarrow> read_ignore_files root names lines)"

definition pj_Open ::
  "(string list \<Rightarrow> string \<Rightarrow> bool) \<Rightarrow> string \<Rightarrow> int \<Rightarrow> int \<Rightarrow> (os, Project) prog" where
  "pj_Open compileIgnoreLines root maxFileSize maxTotal =
     bindE (readE (\<lambda>s. Abs (Inr (os_cwd s)) root)) (\<lambda>absRoot.
     bindE (os_Stat absRoot) (\<lambda>fi.
       if fi \<noteq> IDir then throwE ErrInvalid
       else bindE (read_ignore_files absRoot [''.gitignore'', ''.claudeshareignore''] []) (\<lambda>lines.
         retE \<lparr>pj_root = absRoot, pj_ig = Some (compileIgnoreLines lines),
               pj_maxFileSize = maxFileSize, pj_maxTotal = maxTotal\<rparr>)))"

definition pj_ignored :: "Project \<Rightarrow> string \<Rightarrow> bool \<Rightarrow> bool" where
  "pj_ignored p rel isDir = (case pj_ig p of None \<Rightarrow> False | Some matches \<Rightarrow> matches rel)"

definition pj_Manifest :: "Project \<Rightarrow> (os, Manifest) prog" where
  "pj_Manifest p =
     WalkManifest (pj_root p)
       \<lparr>wo_Ignore = Some (pj_ignored p), wo_MaxFileSize = pj_maxFileSize p,
        wo_MaxTotalSize = pj_maxTotal p\<rparr>"

definition pj_ReadFile :: "Project \<Rightarrow> string \<Rightarrow> (os, bytes) prog" where
  "pj_ReadFile p rel = bindE (SafeJoin_os (pj_root p) rel) os_ReadFile"

definition pj_Apply :: "Project \<Rightarrow> FileChange \<Rightarrow> bytes \<Rightarrow> (os, unit) prog" where
  "pj_Apply p ch content =
     bindE (SafeJoin_os (pj_root p) (fc_Path ch)) (\<lambda>absPath.
       if fc_Op ch = ChangeDelete then
         bindE (tryE (os_Remove absPath)) (\<lambda>r.
           case r of
             Inl err \<Rightarrow> if \<not> IsNotExist err then throwE err else retE ()
           | Inr _ \<Rightarrow> retE ())
       else
         bindE (os_MkdirAll (Dir absPath)) (\<lambda>_.
         bindE (os_CreateTemp (Dir absPath) ''.claude-share-'') (\<lambda>tmpName.
         deferE
           (bindE (onErrE (tmp_Write tmpName content) (tmp_Close tmpName)) (\<lambda>_.
            bindE (tmp_Close tmpName) (\<lambda>_.
            bindE (os_Chmod tmpName (file_mode (fc_Mode ch))) (\<lambda>_.
            os_Rename tmpName absPath))))
           (os_Remove tmpName))))"

section \<open>Ignore files\<close>

lemma split_lines_from_parts:
  "10 \<notin> set line \<Longrightarrow> split_lines_from line b =
     (let parts = split_on 10 (line @ b) in
      map drop_cr (butlast parts) @ (if last parts = [] then [] else [last parts]))"
proof (induction line b rule: split_lines_from.induct)
  case (1 line)
  then show ?case by (simp add: split_on_id)
next
  case (2 line b bs)
  show ?case
  proof (cases "b = 10")
    case True
    then show ?thesis using 2 by (simp add: split_on_sep Let_def)
  next
    case False
    then show ?thesis using 2 by (simp add: Let_def)
  qed
qed

text \<open>
  \<open>splitLines\<close> is a split at newlines: the lines are the parts between newlines, in
  order, each without one carriage return at its end; an empty last part is no line, and
  the last part, when no newline ends it, keeps its carriage return.
\<close>

theorem split_lines_parts:
  "splitLines b =
     map (string_of_bytes \<circ> drop_cr) (butlast (split_on 10 b)) @
     (if last (split_on 10 b) = [] then [] else [string_of_bytes (last (split_on 10 b))])"
  using split_lines_from_parts[of "[]" b] by (simp add: splitLines_def Let_def)

section \<open>Applying one change\<close>

lemma pj_Apply_write:
  "fc_Op ch \<noteq> ChangeDelete \<Longrightarrow> pj_Apply p ch content =
     bindE (SafeJoin_os (pj_root p) (fc_Path ch)) (\<lambda>absPath.
     bindE (os_MkdirAll (Dir absPath)) (\<lambda>_.
     bindE (os_CreateTemp (Dir absPath) ''.claude-share-'')
       (fill_and_rename (\<lambda>t. os_Chmod t (file_mode (fc_Mode ch))) content absPath)))"
  by (simp add: pj_Apply_def fill_and_rename_def [abs_def])

lemma os_keeps_Apply: "os_keeps (pj_Apply p ch content)"
proof (cases "fc_Op ch = ChangeDelete")
  case True
  have "os_keeps (case r of Inl err \<Rightarrow> if \<not> IsNotExist err then throwE err else retE () | Inr _ \<Rightarrow> retE ())"
    for r :: "error + unit" by (cases r) (auto intro: os_keeps_rule)
  then show ?thesis unfolding pj_Apply_def if_P[OF True]
    by (intro os_keeps_bind os_keeps_SafeJoin os_keeps_try os_keeps_Remove)
next
  case False
  show ?thesis unfolding pj_Apply_write[OF False] fill_and_rename_def
    by (intro os_keeps_rule) simp_all
qed

text \<open>Where a change's path points, and the temporary file's place next to it.\<close>

definition change_loc :: "Project \<Rightarrow> os \<Rightarrow> FileChange \<Rightarrow> string list" where
  "change_loc p s ch = loc s (pj_root p) @ path_comps (fc_Path ch)"

definition change_temp :: "Project \<Rightarrow> os \<Rightarrow> FileChange \<Rightarrow> nat \<Rightarrow> string list" where
  "change_temp p s ch x = butlast (change_loc p s ch) @ [''.claude-share-'' @ decimal x]"

text \<open>The project is open: its root is an absolute path of a directory.\<close>

definition pj_open :: "Project \<Rightarrow> os \<Rightarrow> bool" where
  "pj_open p s \<longleftrightarrow> os_wf s \<and> IsAbs (pj_root p) \<and> osat s (loc s (pj_root p)) = Some IDir"

text \<open>A path that does not look like one of the temporary files.\<close>

definition no_temp_name :: "FileChange \<Rightarrow> bool" where
  "no_temp_name ch \<longleftrightarrow> path_comps (fc_Path ch) \<noteq> [] \<and> \<not> prefix ''.claude-share-'' (last (path_comps (fc_Path ch)))"

text \<open>The directories above the change's path exist, everything else is as before.\<close>

definition dirs_added :: "Project \<Rightarrow> FileChange \<Rightarrow> os \<Rightarrow> string list \<Rightarrow> info option" where
  "dirs_added p ch s q = (if strict_prefix q (change_loc p s ch) then Some IDir else osat s q)"

lemma Apply_write_cases:
  assumes opn: "pj_open p s" and op: "fc_Op ch \<noteq> ChangeDelete" and name: "no_temp_name ch"
    and run: "pj_Apply p ch content s = (r, s')"
  obtains e where "r = Inl e" "s' = s"
  | e s1 x where "r = Inl e" "os_wf s'" "os_env s' = os_env s" "osat s1 = dirs_added p ch s"
      "\<And>q i. strict_prefix q (change_loc p s ch) \<Longrightarrow> osat s q = Some i \<Longrightarrow> i = IDir"
      "but_for s1 (change_temp p s ch x) s'"
  | "r = Inr ()" "os_wf s'" "os_env s' = os_env s" "dirs_added p ch s (change_loc p s ch) \<noteq> Some IDir"
      "\<And>q i. strict_prefix q (change_loc p s ch) \<Longrightarrow> osat s q = Some i \<Longrightarrow> i = IDir"
      "osat s' = (dirs_added p ch s)(change_loc p s ch \<mapsto> IFile content (file_mode (fc_Mode ch)))"
proof -
  let ?q = "path_comps (fc_Path ch)"
  have wf: "os_wf s" and abs: "IsAbs (pj_root p)" and root: "osat s (loc s (pj_root p)) = Some IDir"
    using opn by (auto simp: pj_open_def)
  have ne: "?q \<noteq> []" using name by (simp add: no_temp_name_def)
  show thesis
  proof (cases "fst (SafeJoin_os (pj_root p) (fc_Path ch) s)")
    case (Inl x)
    then have "r = Inl x" "s' = s"
      using run SafeJoin_os_state[of "pj_root p" "fc_Path ch" s]
      by (cases "SafeJoin_os (pj_root p) (fc_Path ch) s", simp add: pj_Apply_write[OF op])+
    then show ?thesis by (rule that(1))
  next
    case (Inr dst)
    then have sj: "SafeJoin_os (pj_root p) (fc_Path ch) s = (Inr dst, s)"
      using SafeJoin_os_state[of "pj_root p" "fc_Path ch" s] by (metis prod.collapse)
    note dst = SafeJoin_os_Inr[OF wf sj]
    obtain rm s1 where m: "os_MkdirAll (Dir dst) s = (rm, s1)" by (cases "os_MkdirAll (Dir dst) s")
    show ?thesis
    proof (cases rm)
      case (Inl x)
      then have "s1 = s" by (cases rule: MkdirAll_cases[OF m]) auto
      then have "r = Inl x" "s' = s" using run sj m Inl by (simp_all add: pj_Apply_write[OF op])
      then show ?thesis by (rule that(1))
    next
      case (Inr u)
      then have m: "os_MkdirAll (Dir dst) s = (Inr (), s1)" using m by simp
      note mk = MkdirAll_parent[OF wf root abs sj m]
      have s1: "osat s1 = dirs_added p ch s"
        using mk(1) by (simp add: dirs_added_def change_loc_def fun_eq_iff)
      have l: "loc s1 dst = change_loc p s ch" "loc s1 (Dir dst) = butlast (change_loc p s ch)"
        using dst(2) dst(4)[OF ne] loc_env[OF mk(4)] ne by (simp_all add: change_loc_def butlast_append)
      have run1: "bindE (os_CreateTemp (Dir dst) ''.claude-share-'')
          (fill_and_rename (\<lambda>t. os_Chmod t (file_mode (fc_Mode ch))) content dst) s1 = (r, s')"
        using run sj m by (simp add: pj_Apply_write[OF op])
      have temp: "loc s1 dst \<noteq> loc s1 (Dir dst) @ [''.claude-share-'' @ decimal x]" for x
      proof
        assume "loc s1 dst = loc s1 (Dir dst) @ [''.claude-share-'' @ decimal x]"
        then have "last (loc s1 dst) = ''.claude-share-'' @ decimal x" by (metis last_snoc)
        then have "last (change_loc p s ch) = ''.claude-share-'' @ decimal x" using l(1) by simp
        then show False using name ne by (simp add: no_temp_name_def change_loc_def)
      qed
      have "Dir dst \<noteq> ''''" by (simp add: Dir_def)
      from atomic_write[OF mk(3) sets_mode_Chmod _ _ this temp _ run1]
      have aw: "os_wf s' \<and> os_env s' = os_env s1 \<and>
        (case r of Inl e \<Rightarrow> \<exists>x. but_for s1 (loc s1 (Dir dst) @ [''.claude-share-'' @ decimal x]) s'
         | Inr _ \<Rightarrow> osat s1 (loc s1 dst) \<noteq> Some IDir \<and>
             osat s' = (osat s1)(loc s1 dst \<mapsto> IFile content (file_mode (fc_Mode ch))))"
        using l ne by (simp add: change_loc_def)
      have dirs: "i = IDir" if "strict_prefix q (change_loc p s ch)" "osat s q = Some i" for q i
        using mk(5) that by (simp add: change_loc_def)
      show ?thesis
      proof (cases r)
        case (Inl e)
        then show ?thesis using that(2)[OF _ _ _ s1 dirs] aw mk(4) l by (auto simp: change_temp_def)
      next
        case (Inr u)
        then show ?thesis using that(3)[OF _ _ _ _ dirs] aw mk(4) l s1 by auto
      qed
    qed
  qed
qed
text \<open>
  C15. A write is atomic. When \<open>Apply\<close> returns for a create or modify, the directories above
  the path exist and the path is a file with exactly the given content and the change's
  permission bits (0644 for none), whatever the umask; when it fails, the path is as before.
  On both outcomes every other file of the client is untouched.
\<close>

theorem apply_write_atomic:
  assumes "pj_open p s" and "fc_Op ch \<noteq> ChangeDelete" and "no_temp_name ch"
    and "pj_Apply p ch content s = (r, s')"
  shows "(case r of
      Inr _ \<Rightarrow> osat s' (change_loc p s ch) = Some (IFile content (file_mode (fc_Mode ch))) \<and>
        (\<forall>q. q \<noteq> change_loc p s ch \<longrightarrow>
          osat s' q = (if strict_prefix q (change_loc p s ch) then Some IDir else osat s q))
    | Inl _ \<Rightarrow> osat s' (change_loc p s ch) = osat s (change_loc p s ch)) \<and>
    (\<forall>q b m. osat s q = Some (IFile b m) \<and> q \<noteq> change_loc p s ch \<longrightarrow> osat s' q = osat s q)"
  using assms(1-4)
proof (cases rule: Apply_write_cases)
  case (1 e)
  then show ?thesis by simp
next
  case (2 e s1 x)
  have t: "change_temp p s ch x \<noteq> change_loc p s ch"
  proof
    assume eq: "change_temp p s ch x = change_loc p s ch"
    have "last (change_temp p s ch x) = ''.claude-share-'' @ decimal x" by (simp add: change_temp_def)
    then have "prefix ''.claude-share-'' (last (change_loc p s ch))" using eq by simp
    then show False using assms(3) by (simp add: no_temp_name_def change_loc_def)
  qed
  have same: "osat s1 q = osat s q" if "osat s q = Some (IFile b m) \<or> q = change_loc p s ch" for q b m
    using that 2(4,5) by (fastforce simp: dirs_added_def)
  show ?thesis using 2(1,6) t same unfolding but_for_def by (fastforce simp: fun_eq_iff)
next
  case 3
  then show ?thesis by (auto simp: dirs_added_def)
qed

text \<open>
  What \<open>Apply\<close> leaves alone, on every branch and whatever fails: any path that is neither the
  change's path nor below it, nor one of the directories above it that are missing, nor at or
  below a temporary file beside it.
\<close>

lemma loc_Dir_target:
  assumes "os_wf s" "IsAbs root" "SafeJoin_os root rel s = (Inr dst, s)"
  shows "loc s (Dir dst) = butlast (loc s root @ path_comps rel)"
  using SafeJoin_os_Inr[OF assms(1,3)] loc_Dir_root[OF assms(1,2)]
  by (cases "path_comps rel = []") (simp_all add: butlast_append)

lemma Apply_write_frame:
  assumes wf: "os_wf s" and abs: "IsAbs (pj_root p)" and op: "fc_Op ch \<noteq> ChangeDelete"
    and at: "\<And>q. P q \<Longrightarrow> \<not> prefix (change_loc p s ch) q"
    and above: "\<And>q. P q \<Longrightarrow> strict_prefix q (change_loc p s ch) \<Longrightarrow> osat s q = Some IDir"
    and temp: "\<And>q x. P q \<Longrightarrow> \<not> prefix (change_temp p s ch x) q"
    and sj: "SafeJoin_os (pj_root p) (fc_Path ch) s = (Inr dst, s)"
    and run: "pj_Apply p ch content s = (r, s')" and q: "P q"
  shows "osat s' q = osat s q"
proof -
  have dir: "loc s (Dir dst) = butlast (change_loc p s ch)"
    using loc_Dir_target[OF wf abs sj] by (simp add: change_loc_def)
  obtain rm s1 where m: "os_MkdirAll (Dir dst) s = (rm, s1)" by (cases "os_MkdirAll (Dir dst) s")
  show ?thesis
  proof (cases rule: MkdirAll_cases[OF m])
    case (1 e)
    then show ?thesis using run sj m by (simp add: pj_Apply_write[OF op])
  next
    case 2
    have "osat s q = Some IDir" if "prefix q (butlast (change_loc p s ch))"
      using that above[OF q] prefix_butlast[of "change_loc p s ch" q] wf
      by (cases "change_loc p s ch = []") (auto simp: os_wf_def)
    then have "osat s1 q = osat s q" using 2(2) dir by auto
    moreover have "osat s' q = osat s1 q"
    proof (rule frame_atomic_write[where P = P and s = s1])
      show "bindE (os_CreateTemp (Dir dst) ''.claude-share-'')
          (fill_and_rename (\<lambda>t. os_Chmod t (file_mode (fc_Mode ch))) content dst) s1 = (r, s')"
        using run sj m 2(1) by (simp add: pj_Apply_write[OF op])
      show "\<not> prefix (loc s1 (Dir dst) @ [''.claude-share-'' @ decimal x]) q'" if "P q'" for q' x
        using temp[OF that, of x] dir loc_env[OF 2(3)] by (simp add: change_temp_def)
      show "\<not> prefix (loc s1 dst) q'" if "P q'" for q'
        using at[OF that] SafeJoin_os_Inr(2)[OF wf sj] loc_env[OF 2(3)] by (simp add: change_loc_def)
    qed (use 2 wf q in \<open>auto simp: Dir_def intro: frame_Chmod\<close>)
    ultimately show ?thesis by simp
  qed
qed

lemma Apply_frame:
  assumes wf: "os_wf s" and abs: "IsAbs (pj_root p)"
    and at: "\<And>q. P q \<Longrightarrow> \<not> prefix (change_loc p s ch) q"
    and above: "\<And>q. P q \<Longrightarrow> strict_prefix q (change_loc p s ch) \<Longrightarrow> osat s q = Some IDir"
    and temp: "\<And>q x. P q \<Longrightarrow> \<not> prefix (change_temp p s ch x) q"
    and run: "pj_Apply p ch content s = (r, s')" and q: "P q"
  shows "osat s' q = osat s q"
proof (cases "fst (SafeJoin_os (pj_root p) (fc_Path ch) s)")
  case (Inl x)
  then have "s' = s" using run SafeJoin_os_state[of "pj_root p" "fc_Path ch" s]
    by (cases "SafeJoin_os (pj_root p) (fc_Path ch) s") (simp add: pj_Apply_def)
  then show ?thesis by simp
next
  case (Inr dst)
  then have sj: "SafeJoin_os (pj_root p) (fc_Path ch) s = (Inr dst, s)"
    using SafeJoin_os_state[of "pj_root p" "fc_Path ch" s] by (metis prod.collapse)
  show ?thesis
  proof (cases "fc_Op ch = ChangeDelete")
    case True
    have "os_frame P (os_cwd s) (bindE (tryE (os_Remove dst)) (\<lambda>r.
         case r of Inl err \<Rightarrow> if \<not> IsNotExist err then throwE err else retE () | Inr _ \<Rightarrow> retE ()))"
      using at SafeJoin_os_Inr(2)[OF wf sj]
      by (intro frame_bind frame_try frame_Remove) (auto simp: change_loc_def loc_def frame_ret split: sum.split)
    then show ?thesis using run sj True q by (auto simp: pj_Apply_def os_frame_def)
  next
    case False
    show ?thesis by (rule Apply_write_frame[where P = P, OF wf abs False at above temp sj run q])
  qed
qed

text \<open>
  Containment. Whatever the server sends as operation, path, mode and content, and
  whatever goes wrong, \<open>Apply\<close> changes nothing outside the project's directory (for a path
  that names something below it: the path \<^verbatim>\<open>.\<close> is the root itself).
\<close>

theorem apply_contained:
  assumes "pj_open p s" and "path_comps (fc_Path ch) \<noteq> []" and "pj_Apply p ch content s = (r, s')"
  shows "\<forall>q. \<not> strict_prefix (loc s (pj_root p)) q \<longrightarrow> osat s' q = osat s q"
proof (intro allI impI)
  fix q assume q: "\<not> strict_prefix (loc s (pj_root p)) q"
  let ?R = "loc s (pj_root p)" and ?p = "path_comps (fc_Path ch)"
  have below: "\<not> prefix (?R @ x) q" if "\<not> strict_prefix ?R q" "x \<noteq> []" for q x
    using that by (auto simp: strict_prefix_def prefix_def)
  show "osat s' q = osat s q"
  proof (rule Apply_frame[where P = "\<lambda>q. \<not> strict_prefix ?R q", OF _ _ _ _ _ assms(3)])
    show "\<not> prefix (change_loc p s ch) q" if "\<not> strict_prefix ?R q" for q
      using below[OF that assms(2)] by (simp add: change_loc_def)
    show "osat s q = Some IDir" if "\<not> strict_prefix ?R q" "strict_prefix q (change_loc p s ch)" for q
    proof -
      have "prefix q ?R" using that by (auto simp: change_loc_def strict_prefix_def prefix_append)
      then show ?thesis using assms(1) osat_above[of s ?R IDir q]
        by (cases "q = ?R") (auto simp: pj_open_def strict_prefix_def)
    qed
    show "\<not> prefix (change_temp p s ch x) q" if "\<not> strict_prefix ?R q" for q x
      using below[OF that, of "butlast ?p @ [''.claude-share-'' @ decimal x]"] assms(2)
      by (simp add: change_temp_def change_loc_def butlast_append)
  qed (use assms(1) q in \<open>auto simp: pj_open_def\<close>)
qed

text \<open>
  What can change at all, for every path a server may name: the project, and the temporary file
  that stands beside it for the path \<^verbatim>\<open>.\<close>. For that the project's place has to exist, not the
  project.
\<close>

definition near_dir :: "string list \<Rightarrow> string list \<Rightarrow> bool" where
  "near_dir root q \<longleftrightarrow> prefix root q \<or> (\<exists>x. prefix (butlast root @ [''.claude-share-'' @ decimal x]) q)"

definition near_project :: "Project \<Rightarrow> os \<Rightarrow> string list \<Rightarrow> bool" where
  "near_project p s q \<longleftrightarrow> near_dir (loc s (pj_root p)) q"

definition project_place :: "Project \<Rightarrow> os \<Rightarrow> bool" where
  "project_place p s \<longleftrightarrow> os_wf s \<and> IsAbs (pj_root p) \<and> osat s (butlast (loc s (pj_root p))) = Some IDir"

lemma near_project_env: "os_env s' = os_env s \<Longrightarrow> near_project p s' q = near_project p s q"
  by (simp only: near_project_def loc_env[of s' s])

lemma not_near: "\<not> near_project p s q \<Longrightarrow> \<not> prefix (loc s (pj_root p) @ x) q"
  unfolding near_project_def near_dir_def using append_prefixD by blast

lemma near_change:
  assumes "\<not> near_project p s q"
  shows "\<not> prefix (change_loc p s ch) q" "\<not> prefix (change_temp p s ch x) q"
proof -
  show "\<not> prefix (change_loc p s ch) q"
    unfolding change_loc_def by (rule not_near[OF assms])
  show "\<not> prefix (change_temp p s ch x) q"
  proof (cases "path_comps (fc_Path ch) = []")
    case True
    then show ?thesis using assms by (simp add: near_project_def near_dir_def change_temp_def change_loc_def)
  next
    case False
    then have "change_temp p s ch x =
        loc s (pj_root p) @ butlast (path_comps (fc_Path ch)) @ [''.claude-share-'' @ decimal x]"
      by (simp add: change_temp_def change_loc_def butlast_append)
    then show ?thesis using not_near[OF assms] by simp
  qed
qed

lemma Apply_near:
  assumes place: "project_place p s" and run: "pj_Apply p ch content s = (r, s')"
  shows "\<And>q. \<not> near_project p s q \<Longrightarrow> osat s' q = osat s q" "os_env s' = os_env s" "project_place p s'"
proof -
  let ?R = "loc s (pj_root p)"
  have wf: "os_wf s" and abs: "IsAbs (pj_root p)" and par: "osat s (butlast ?R) = Some IDir"
    using place by (auto simp: project_place_def)
  have k: "os_wf s' \<and> os_env s' = os_env s" by (rule os_keepsD[OF os_keeps_Apply wf run])
  then show env: "os_env s' = os_env s" by blast
  show same: "osat s' q = osat s q" if "\<not> near_project p s q" for q
  proof (rule Apply_frame[where P = "\<lambda>q. \<not> near_project p s q", OF wf abs _ _ _ run that])
    fix q assume q: "\<not> near_project p s q" and above: "strict_prefix q (change_loc p s ch)"
    have "\<not> prefix ?R q" using q by (simp add: near_project_def near_dir_def)
    then have "strict_prefix q ?R"
      using above by (auto simp: change_loc_def strict_prefix_def prefix_append)
    then have "prefix q (butlast ?R)" using prefix_butlast[of ?R q] by (cases "?R = []") auto
    then show "osat s q = Some IDir"
      using par osat_above[OF par, of q] by (cases "q = butlast ?R") (auto simp: strict_prefix_def)
  qed (use near_change in blast)+
  have "osat s' (butlast ?R) = Some IDir"
  proof (cases "?R = []")
    case True
    then show ?thesis using k by (simp add: os_wf_def)
  next
    case False
    then have "length (butlast ?R) < length ?R" by (cases ?R) simp_all
    then have "\<not> near_project p s (butlast ?R)"
      unfolding near_project_def near_dir_def by (auto dest!: prefix_length_le)
    then show ?thesis using same par by simp
  qed
  then show "project_place p s'" using k abs loc_env[OF env] by (simp add: project_place_def)
qed

text \<open>
  A delete removes the path, or an empty directory of that name, and nothing else; a
  path that does not exist is no error; on an error nothing changed.
\<close>

theorem apply_delete:
  assumes "pj_open p s" and "fc_Op ch = ChangeDelete" and "pj_Apply p ch content s = (r, s')"
  shows "case r of
      Inr _ \<Rightarrow> osat s' = (osat s)(change_loc p s ch := None) \<and>
        (osat s (change_loc p s ch) = Some IDir \<longrightarrow> (\<forall>c q. osat s (change_loc p s ch @ c # q) = None))
    | Inl _ \<Rightarrow> s' = s"
proof -
  have wf: "os_wf s" using assms(1) by (simp add: pj_open_def)
  show ?thesis
  proof (cases "fst (SafeJoin_os (pj_root p) (fc_Path ch) s)")
    case (Inl x)
    then have "r = Inl x" "s' = s" using assms(2,3) SafeJoin_os_state[of "pj_root p" "fc_Path ch" s]
      by (cases "SafeJoin_os (pj_root p) (fc_Path ch) s", simp add: pj_Apply_def)+
    then show ?thesis by simp
  next
    case (Inr dst)
    then have sj: "SafeJoin_os (pj_root p) (fc_Path ch) s = (Inr dst, s)"
      using SafeJoin_os_state[of "pj_root p" "fc_Path ch" s] by (metis prod.collapse)
    have l: "loc s dst = change_loc p s ch"
      using SafeJoin_os_Inr(2)[OF wf sj] by (simp add: change_loc_def)
    obtain rr s1 where rm: "os_Remove dst s = (rr, s1)" by (cases "os_Remove dst s")
    have err: "r = (if IsNotExist e then Inr () else Inl e) \<and> s' = s1" if "rr = Inl e" for e
      using assms(2,3) sj rm that by (auto simp: pj_Apply_def)
    have ok: "r = Inr () \<and> s' = s1" if "rr = Inr u" for u
      using assms(2,3) sj rm that by (auto simp: pj_Apply_def)
    show ?thesis
    proof (rule Remove_cases[OF wf rm])
      fix e assume e: "rr = Inl e" "s1 = s" "IsNotExist e \<longrightarrow> osat s (loc s dst) = None"
      show ?thesis
      proof (cases "IsNotExist e")
        case True
        then show ?thesis using e err l by (auto simp: fun_upd_idem)
      next
        case False
        then show ?thesis using e err by auto
      qed
    next
      fix i assume "rr = Inr ()" "osat s (loc s dst) = Some i" "i = IDir \<Longrightarrow> \<forall>c q. osat s (loc s dst @ c # q) = None"
        "osat s1 = (osat s)(loc s dst := None)"
      then show ?thesis using ok l by auto
    qed
  qed
qed

lemma Apply_ok:
  assumes "pj_open p s" and "fc_Op ch \<noteq> ChangeDelete" and "no_temp_name ch"
    and "\<not> IsAbs (fc_Path ch)" and "\<not> escapes (fc_Path ch)" and "loc s (pj_root p) \<noteq> []"
    and "no_faults s" and "temp_free s (butlast (change_loc p s ch)) ''.claude-share-''"
    and "\<forall>q i. strict_prefix q (change_loc p s ch) \<longrightarrow> osat s q = Some i \<longrightarrow> i = IDir"
    and "osat s (change_loc p s ch) \<noteq> Some IDir"
  shows "\<exists>s'. pj_Apply p ch content s = (Inr (), s')"
proof -
  let ?R = "loc s (pj_root p)" and ?q = "path_comps (fc_Path ch)"
  have wf: "os_wf s" and abs: "IsAbs (pj_root p)" and root: "osat s ?R = Some IDir"
    using assms(1) by (auto simp: pj_open_def)
  have wd: "IsAbs (os_cwd s)" using wf by (simp add: os_wf_def)
  have ne: "?q \<noteq> []" using assms(3) by (simp add: no_temp_name_def)
  then have "fc_Path ch \<noteq> ''''" by (auto simp: path_comps_def)
  then have sj: "SafeJoin_os (pj_root p) (fc_Path ch) s = (Inr (Join [pj_root p, Clean (fc_Path ch)]), s)"
    using assms(4-6) by (simp add: SafeJoin_os_def SafeJoin_eval[OF wd] loc_def)
  let ?dst = "Join [pj_root p, Clean (fc_Path ch)]"
  note dst = SafeJoin_os_Inr[OF wf sj]
  have dl: "loc s (Dir ?dst) = butlast (change_loc p s ch)"
    using dst(4)[OF ne] ne by (simp add: change_loc_def butlast_append)
  have cne: "change_loc p s ch \<noteq> []" using ne by (simp add: change_loc_def)
  have "\<exists>s1. os_MkdirAll (Dir ?dst) s = (Inr (), s1)"
    by (rule MkdirAll_ok) (use assms(7,9) prefix_butlast[OF cne] in \<open>auto simp: no_faults_def dl\<close>)
  then obtain s1 where m: "os_MkdirAll (Dir ?dst) s = (Inr (), s1)" by blast
  note mk = MkdirAll_parent[OF wf root abs sj m]
  have l: "loc s1 ?dst = change_loc p s ch" "loc s1 (Dir ?dst) = butlast (change_loc p s ch)"
    using dst(2) dl loc_env[OF mk(4)] by (simp_all add: change_loc_def)
  have s1: "osat s1 q = (if strict_prefix q (change_loc p s ch) then Some IDir else osat s q)" for q
    using mk(1) by (simp add: change_loc_def)
  have par: "strict_prefix (butlast (change_loc p s ch)) (change_loc p s ch)"
    using prefix_butlast[OF cne, of "butlast (change_loc p s ch)"] by simp
  have rands: "os_rands s1 = os_rands s"
    using m assms(7) by (auto simp: os_MkdirAll_def sys_def no_faults_def set_tree_def split: option.splits)
  have "\<exists>s'. bindE (os_CreateTemp (Dir ?dst) ''.claude-share-'')
      (fill_and_rename (\<lambda>t. os_Chmod t (file_mode (fc_Mode ch))) content ?dst) s1 = (Inr (), s')"
  proof (rule atomic_write_ok[OF mk(3) sets_mode_Chmod])
    show "slash \<notin> set ''.claude-share-''" "2 < length ''.claude-share-''" "Dir ?dst \<noteq> ''''"
      by (simp_all add: Dir_def)
    show "loc s1 ?dst \<noteq> loc s1 (Dir ?dst) @ [''.claude-share-'' @ decimal x]" for x
    proof
      assume "loc s1 ?dst = loc s1 (Dir ?dst) @ [''.claude-share-'' @ decimal x]"
      then have "last (loc s1 ?dst) = ''.claude-share-'' @ decimal x" by (metis last_snoc)
      then show False using assms(3) ne l by (simp add: no_temp_name_def change_loc_def)
    qed
    show "no_faults s1" using assms(7) no_faults_env[OF mk(4)] by simp
    show "temp_free s1 (loc s1 (Dir ?dst)) ''.claude-share-''"
    proof -
      obtain x where x: "x \<in> set (os_rands s)"
          "osat s (butlast (change_loc p s ch) @ [''.claude-share-'' @ decimal x]) = None"
        using assms(8) by (auto simp: temp_free_def)
      have "length (butlast (change_loc p s ch) @ [''.claude-share-'' @ decimal x]) =
          length (change_loc p s ch)" using cne by simp
      then have "\<not> strict_prefix (butlast (change_loc p s ch) @ [''.claude-share-'' @ decimal x])
          (change_loc p s ch)" by (metis less_irrefl prefix_length_less)
      then show ?thesis using x s1 rands l by (auto simp: temp_free_def)
    qed
  qed (use l s1 par assms(10) cne in simp_all)
  then show ?thesis using sj m by (simp add: pj_Apply_write[OF assms(2)])
qed

text \<open>
  Completeness. In an open project, where no call fails, a create or modify is applied
  without error if its path is acceptable, no file is in the way of its directories and no
  directory is at the path itself.
\<close>

theorem apply_succeeds:
  assumes "pj_open p s" and "fc_Op ch \<noteq> ChangeDelete" and "no_temp_name ch"
    and "\<not> IsAbs (fc_Path ch)" and "\<not> escapes (fc_Path ch)" and "loc s (pj_root p) \<noteq> []"
    and "no_faults s" and "temp_free s (butlast (change_loc p s ch)) ''.claude-share-''"
    and "\<forall>q i. strict_prefix q (change_loc p s ch) \<longrightarrow> osat s q = Some i \<longrightarrow> i = IDir"
    and "osat s (change_loc p s ch) \<noteq> Some IDir"
  shows "\<exists>s'. pj_Apply p ch content s = (Inr (), s')"
  by (rule Apply_ok[OF assms])

section \<open>Applying a whole difference\<close>

text \<open>The client's view of a path, and the changes of a turn applied one by one as they arrive.\<close>

definition pj_view :: "Project \<Rightarrow> os \<Rightarrow> string \<rightharpoonup> string \<times> FileMode" where
  "pj_view p s path =
     (case osat s (loc s (pj_root p) @ path_comps path) of
        Some (IFile c m) \<Rightarrow> Some (HashContent c, Perm m) | _ \<Rightarrow> None)"

definition apply_all :: "Project \<Rightarrow> (FileChange \<times> bytes) list \<Rightarrow> (os, unit) prog" where
  "apply_all p chs = forE chs (\<lambda>(ch, content). pj_Apply p ch content)"

text \<open>A path as a manifest spells it.\<close>

definition canonical :: "string \<Rightarrow> bool" where
  "canonical path \<longleftrightarrow> path_comps path \<noteq> [] \<and> rel_path (path_comps path) = path"

text \<open>What the server sends for a change: a canonical path, the content of the hash, a real mode.\<close>

definition deliverable :: "FileChange \<times> bytes \<Rightarrow> bool" where
  "deliverable x \<longleftrightarrow> (case x of (ch, content) \<Rightarrow>
     canonical (fc_Path ch) \<and> no_temp_name ch \<and>
     (fc_Op ch \<noteq> ChangeDelete \<longrightarrow>
        HashContent content = fc_Hash ch \<and> Perm (fc_Mode ch) = fc_Mode ch \<and> fc_Mode ch \<noteq> 0))"

lemma canonical_eq: "canonical a \<Longrightarrow> canonical b \<Longrightarrow> path_comps a = path_comps b \<longleftrightarrow> a = b"
  by (metis canonical_def)

lemma pj_open_env:
  assumes "pj_open p s" "os_wf s'" "os_env s' = os_env s" "osat s' (loc s (pj_root p)) = Some IDir"
  shows "pj_open p s'" "loc s' (pj_root p) = loc s (pj_root p)"
  using assms loc_env[of s' s "pj_root p"] by (simp_all add: pj_open_def)

lemma apply_view:
  assumes opn: "pj_open p s" and ok: "deliverable (ch, content)"
    and run: "pj_Apply p ch content s = (Inr (), s')" and x: "canonical x"
  shows "pj_open p s' \<and> pj_view p s' x = patch (pj_view p s) ch x"
proof -
  let ?R = "loc s (pj_root p)"
  have wf: "os_wf s" and root: "osat s ?R = Some IDir" using opn by (auto simp: pj_open_def)
  have can: "canonical (fc_Path ch)" and name: "no_temp_name ch" using ok by (auto simp: deliverable_def)
  then have ne: "path_comps (fc_Path ch) \<noteq> []" by (simp add: canonical_def)
  have same: "?R @ path_comps x = change_loc p s ch \<longleftrightarrow> x = fc_Path ch"
    using canonical_eq[OF x can] by (simp add: change_loc_def)
  show ?thesis
  proof (cases "fc_Op ch = ChangeDelete")
    case True
    have "os_keeps (pj_Apply p ch content)" by (rule os_keeps_Apply)
    note k = os_keepsD[OF this wf run]
    have s': "osat s' = (osat s)(change_loc p s ch := None)"
      using apply_delete[OF opn True run] by simp
    have "?R \<noteq> change_loc p s ch" using ne by (simp add: change_loc_def)
    then have "osat s' ?R = Some IDir" using s' root by simp
    note o = pj_open_env[OF opn _ _ this]
    show ?thesis using o k s' same True by (auto simp: pj_view_def patch_def)
  next
    case False
    from opn False name run show ?thesis
    proof (cases rule: Apply_write_cases)
      case 3
      have "?R \<noteq> change_loc p s ch" "strict_prefix ?R (change_loc p s ch)"
        using ne by (auto simp: change_loc_def strict_prefix_def)
      then have "osat s' ?R = Some IDir" using 3(6) by (simp add: dirs_added_def)
      note o = pj_open_env[OF opn 3(2,3) this]
      have mode: "HashContent content = fc_Hash ch" "Perm (file_mode (fc_Mode ch)) = fc_Mode ch"
        using ok False by (auto simp: deliverable_def file_mode_def)
      have "pj_view p s' x = patch (pj_view p s) ch x"
      proof (cases "x = fc_Path ch")
        case True
        then have "osat s' (?R @ path_comps x) = Some (IFile content (file_mode (fc_Mode ch)))"
          using 3(6) same by simp
        then show ?thesis using o mode True False by (simp add: pj_view_def patch_def)
      next
        case other: False
        then have eq: "osat s' (?R @ path_comps x) = dirs_added p ch s (?R @ path_comps x)"
          using 3(6) same by simp
        show ?thesis
        proof (cases "strict_prefix (?R @ path_comps x) (change_loc p s ch)")
          case True
          then have "osat s (?R @ path_comps x) = None \<or> osat s (?R @ path_comps x) = Some IDir"
            using 3(5) by (cases "osat s (?R @ path_comps x)") auto
          then show ?thesis using eq True o other False by (auto simp: pj_view_def patch_def dirs_added_def)
        next
          case f: False
          then show ?thesis using eq o other False by (simp add: pj_view_def patch_def dirs_added_def)
        qed
      qed
      then show ?thesis using o by simp
    qed simp_all
  qed
qed

lemma apply_all_view:
  "pj_open p s \<Longrightarrow> \<forall>x \<in> set chs. deliverable x \<Longrightarrow> apply_all p chs s = (Inr (), s') \<Longrightarrow> canonical x \<Longrightarrow>
   pj_view p s' x = foldl patch (pj_view p s) (map fst chs) x"
proof (induction chs arbitrary: s)
  case Nil
  then show ?case by (simp add: apply_all_def)
next
  case (Cons a chs)
  obtain ch c where a: "a = (ch, c)" by (cases a)
  obtain s1 where s1: "pj_Apply p ch c s = (Inr (), s1)" and r: "apply_all p chs s1 = (Inr (), s')"
    using Cons.prems(3) a by (auto simp: apply_all_def bindE_Inr_iff)
  have d: "deliverable (ch, c)" using Cons.prems(2) a by simp
  note st = apply_view[OF Cons.prems(1) d s1]
  have "pj_view p s' x = foldl patch (pj_view p s1) (map fst chs) x"
    using Cons.IH[of s1] st[OF Cons.prems(4)] Cons.prems r by simp
  also have "\<dots> = foldl patch (patch (pj_view p s) ch) (map fst chs) x"
    using patch_pointwise st[OF Cons.prems(4)] by blast
  finally show ?case using a by simp
qed

lemma applied_difference:
  assumes "pj_open p s" and "map fst chs = Diff oldM newM" and "\<forall>x \<in> set chs. deliverable x"
    and "distinct (map fe_Path (Entries oldM))" and "distinct (map fe_Path (Entries newM))"
    and "apply_all p chs s = (Inr (), s')"
    and "canonical path" and "pj_view p s path = file_view oldM path"
  shows "pj_view p s' path = file_view newM path"
proof -
  have "pj_view p s' path = foldl patch (pj_view p s) (Diff oldM newM) path"
    using apply_all_view[OF assms(1,3,6,7)] assms(2) by simp
  also have "\<dots> = foldl patch (file_view oldM) (Diff oldM newM) path"
    by (rule patch_pointwise) (rule assms(8))
  also have "\<dots> = file_view newM path" by (rule Diff_patch[OF assms(4,5)])
  finally show ?thesis .
qed

text \<open>
  C10. The sync round trip. Let the client's view of a path be what the server's old manifest
  says of it. If the changes of \<open>Diff oldM newM\<close>, each with the content of its hash, are
  applied in the order they are sent and none fails, then the client's view of the path is
  what the new manifest says. Files that the manifests do not mention keep their state.
\<close>

theorem sync_brings_client_to_server:
  assumes "pj_open p s" and "map fst chs = Diff oldM newM" and "\<forall>x \<in> set chs. deliverable x"
    and "distinct (map fe_Path (Entries oldM))" and "distinct (map fe_Path (Entries newM))"
    and "apply_all p chs s = (Inr (), s')"
    and "canonical path" and "pj_view p s path = file_view oldM path"
  shows "pj_view p s' path = file_view newM path"
  by (rule applied_difference[OF assms])

text \<open>A path comes before the paths below it.\<close>

lemma less_append: "(a :: string) < a @ x # y"
  by (induction a) auto

text \<open>
  A limit of the sync. When the agent replaces a directory by a file of the same name,
  the difference lists the creation of the file before the deletion of what was in the
  directory, because it is sorted by path; and the client, where the directory still exists,
  fails on the first change, so neither change takes effect.
\<close>

theorem directory_replaced_by_file_fails:
  assumes "pj_open p s" and "no_temp_name (hd (Diff oldM newM))"
    and "oldM = \<lparr>Entries = [e']\<rparr>" and "newM = \<lparr>Entries = [e]\<rparr>" and "fe_Path e' = fe_Path e @ ''/'' @ rest"
    and "osat s (loc s (pj_root p) @ path_comps (fe_Path e)) = Some IDir"
  shows "map fc_Op (Diff oldM newM) = [ChangeCreate, ChangeDelete] \<and>
    (\<exists>err. fst (apply_all p (zip (Diff oldM newM) [content, content']) s) = Inl err)"
proof -
  have ne: "fe_Path e' \<noteq> fe_Path e" and lt: "fe_Path e \<le> fe_Path e'"
    using assms(5) less_append[of "fe_Path e" slash rest] by (auto simp: order.strict_implies_order)
  let ?c = "\<lparr>fc_Op = ChangeCreate, fc_Path = fe_Path e, fc_Hash = fe_Hash e, fc_Mode = fe_Mode e\<rparr>"
  let ?d = "\<lparr>fc_Op = ChangeDelete, fc_Path = fe_Path e', fc_Hash = [], fc_Mode = 0\<rparr>"
  have diff: "Diff oldM newM = [?c, ?d]"
    using ne lt by (simp add: Diff_def assms(3,4) ByPath_def diff_new_def diff_old_def)
  obtain r s1 where run: "pj_Apply p ?c content s = (r, s1)" by (cases "pj_Apply p ?c content s")
  have "\<exists>err. r = Inl err"
  proof (rule ccontr)
    assume "\<nexists>err. r = Inl err"
    then have r: "r = Inr ()" by (cases r) auto
    have name: "no_temp_name ?c" using assms(2) diff by simp
    have "dirs_added p ?c s (change_loc p s ?c) \<noteq> Some IDir"
      by (rule Apply_write_cases[OF assms(1) _ name run]) (use r in auto)
    then show False using assms(6) by (simp add: dirs_added_def change_loc_def)
  qed
  then show ?thesis using diff run by (auto simp: apply_all_def bindE_def)
qed

section \<open>An example project\<close>

definition demo_pj :: Project where
  "demo_pj = \<lparr>pj_root = ''/w'', pj_ig = None, pj_maxFileSize = 0, pj_maxTotal = 0\<rparr>"

definition demo_pj_os :: os where
  "demo_pj_os = demo_os (NDir [(''w'', NDir [(''d'', NDir [(''x'', NFile [1] 0x1A4)])])])"

definition demo_change :: FileChange where
  "demo_change = \<lparr>fc_Op = ChangeCreate, fc_Path = ''a.txt'', fc_Hash = HashContent [7], fc_Mode = 0x1ED\<rparr>"

lemma demo_pj_facts:
  "pj_open demo_pj demo_pj_os" "loc demo_pj_os (pj_root demo_pj) = [''w'']" "no_faults demo_pj_os"
proof -
  have l: "loc demo_pj_os ''/w'' = [''w'']" by code_simp
  have wf: "wf_node (os_tree demo_pj_os)" by code_simp
  show l2: "loc demo_pj_os (pj_root demo_pj) = [''w'']" using l by (simp add: demo_pj_def)
  have "os_wf demo_pj_os" using wf by (simp add: os_wf_def demo_pj_os_def osat_def)
  moreover have "osat demo_pj_os [''w''] = Some IDir" by (simp add: demo_pj_os_def osat_def)
  ultimately show "pj_open demo_pj demo_pj_os" by (simp add: pj_open_def l2) (simp add: demo_pj_def)
  show "no_faults demo_pj_os" by (simp add: demo_pj_os_def no_faults_def)
qed

lemma demo_change_facts:
  "fc_Op demo_change \<noteq> ChangeDelete" "path_comps (fc_Path demo_change) = [''a.txt'']"
  "no_temp_name demo_change" "\<not> IsAbs (fc_Path demo_change)" "\<not> escapes (fc_Path demo_change)"
  "change_loc demo_pj demo_pj_os demo_change = [''w'', ''a.txt'']"
  "canonical (fc_Path demo_change)"
proof -
  show pc: "path_comps (fc_Path demo_change) = [''a.txt'']"
    unfolding demo_change_def FileChange.select_convs by code_simp
  show "no_temp_name demo_change" by (simp add: no_temp_name_def pc)
  show "\<not> escapes (fc_Path demo_change)" by (simp add: escapes_def pc)
  show "change_loc demo_pj demo_pj_os demo_change = [''w'', ''a.txt'']"
    by (simp add: change_loc_def pc demo_pj_facts)
  show "canonical (fc_Path demo_change)"
    by (simp add: canonical_def pc rel_path_def) (simp add: demo_change_def)
qed (simp_all add: demo_change_def)

lemma demo_below: "osat demo_pj_os [''w'', ''.claude-share-'' @ decimal x] = None"
  by (simp add: demo_pj_os_def osat_def)

lemma demo_apply_facts:
  "loc demo_pj_os (pj_root demo_pj) \<noteq> []"
  "temp_free demo_pj_os (butlast (change_loc demo_pj demo_pj_os demo_change)) ''.claude-share-''"
  "\<forall>q i. strict_prefix q (change_loc demo_pj demo_pj_os demo_change) \<longrightarrow>
     osat demo_pj_os q = Some i \<longrightarrow> i = IDir"
  "osat demo_pj_os (change_loc demo_pj demo_pj_os demo_change) \<noteq> Some IDir"
proof -
  show "loc demo_pj_os (pj_root demo_pj) \<noteq> []" by (simp add: demo_pj_facts)
  have "7 \<in> set (os_rands demo_pj_os)" by (simp add: demo_pj_os_def demo_os_def)
  then show "temp_free demo_pj_os (butlast (change_loc demo_pj demo_pj_os demo_change)) ''.claude-share-''"
    using demo_below[of 7] by (auto simp: temp_free_def demo_change_facts)
  have "osat demo_pj_os [] = Some IDir" "osat demo_pj_os [''w''] = Some IDir"
    by (simp_all add: demo_pj_os_def osat_def)
  then show "\<forall>q i. strict_prefix q (change_loc demo_pj demo_pj_os demo_change) \<longrightarrow>
      osat demo_pj_os q = Some i \<longrightarrow> i = IDir"
    by (auto simp: demo_change_facts strict_prefix_def prefix_Cons)
  show "osat demo_pj_os (change_loc demo_pj demo_pj_os demo_change) \<noteq> Some IDir"
    by (simp add: demo_change_facts) (simp add: demo_pj_os_def osat_def)
qed

theorem apply_succeeds_witness:
  "\<exists>s'. pj_Apply demo_pj demo_change [7] demo_pj_os = (Inr (), s')"
  by (rule apply_succeeds [OF demo_pj_facts(1) demo_change_facts(1,3-5) demo_apply_facts(1)
        demo_pj_facts(3) demo_apply_facts(2-4)])

lemma demo_apply:
  obtains s' where "pj_Apply demo_pj demo_change [7] demo_pj_os = (Inr (), s')"
  using Apply_ok[OF demo_pj_facts(1) demo_change_facts(1,3-5) demo_apply_facts(1)
        demo_pj_facts(3) demo_apply_facts(2-4)] by blast

theorem apply_write_atomic_witness:
  "\<exists>s'. osat s' [''w'', ''a.txt''] = Some (IFile [7] 0x1ED)"
proof -
  obtain s' where s': "pj_Apply demo_pj demo_change [7] demo_pj_os = (Inr (), s')" by (rule demo_apply)
  have "file_mode (fc_Mode demo_change) = 0x1ED" unfolding demo_change_def FileChange.select_convs by code_simp
  then show ?thesis
    using apply_write_atomic [OF demo_pj_facts(1) demo_change_facts(1,3) s'] by (auto simp: demo_change_facts)
qed

theorem apply_contained_witness:
  "\<exists>s'. \<forall>q. \<not> strict_prefix [''w''] q \<longrightarrow> osat s' q = osat demo_pj_os q"
proof -
  obtain s' where s': "pj_Apply demo_pj demo_change [7] demo_pj_os = (Inr (), s')" by (rule demo_apply)
  have "path_comps (fc_Path demo_change) \<noteq> []" by (simp add: demo_change_facts)
  then show ?thesis using apply_contained [OF demo_pj_facts(1) _ s'] demo_pj_facts(2) by auto
qed

theorem apply_delete_witness:
  "\<exists>ch r s'. fc_Op ch = ChangeDelete \<and> pj_Apply demo_pj ch [] demo_pj_os = (r, s') \<and>
     (case r of Inr _ \<Rightarrow> osat s' = (osat demo_pj_os)(change_loc demo_pj demo_pj_os ch := None)
      | Inl _ \<Rightarrow> s' = demo_pj_os)"
proof -
  let ?ch = "demo_change\<lparr>fc_Op := ChangeDelete\<rparr>"
  have op: "fc_Op ?ch = ChangeDelete" by simp
  obtain r s' where run: "pj_Apply demo_pj ?ch [] demo_pj_os = (r, s')"
    by (cases "pj_Apply demo_pj ?ch [] demo_pj_os")
  have "case r of Inr _ \<Rightarrow> osat s' = (osat demo_pj_os)(change_loc demo_pj demo_pj_os ?ch := None)
      | Inl _ \<Rightarrow> s' = demo_pj_os"
    using apply_delete [OF demo_pj_facts(1) op run] by (cases r) auto
  then show ?thesis using op run by blast
qed

theorem sync_brings_client_to_server_witness:
  "\<exists>s'. apply_all demo_pj [(demo_change, [7])] demo_pj_os = (Inr (), s') \<and>
    pj_view demo_pj s' ''a.txt'' = Some (HashContent [7], 0x1ED)"
proof -
  let ?old = "\<lparr>Entries = []\<rparr>" and ?new = "\<lparr>Entries = [\<lparr>fe_Path = ''a.txt'', fe_Hash = HashContent [7],
    fe_Size = 1, fe_Mode = 0x1ED\<rparr>]\<rparr>"
  obtain s' where "pj_Apply demo_pj demo_change [7] demo_pj_os = (Inr (), s')" by (rule demo_apply)
  then have s': "apply_all demo_pj [(demo_change, [7])] demo_pj_os = (Inr (), s')"
    by (simp add: apply_all_def)
  have diff: "map fst [(demo_change, [7::byte])] = Diff ?old ?new"
    by (simp add: Diff_def ByPath_def diff_new_def demo_change_def)
  have mode: "Perm 0x1ED = 0x1ED" by code_simp
  have del: "\<forall>x \<in> set [(demo_change, [7])]. deliverable x"
    using demo_change_facts mode by (auto simp: deliverable_def) (simp_all add: demo_change_def)
  have can: "canonical ''a.txt''" using demo_change_facts(7) by (simp add: demo_change_def)
  have pc: "path_comps ''a.txt'' = [''a.txt'']" using demo_change_facts(2) by (simp add: demo_change_def)
  have view: "pj_view demo_pj demo_pj_os ''a.txt'' = file_view ?old ''a.txt''"
    by (simp add: pj_view_def pc demo_pj_facts file_view_def ByPath_def) (simp add: demo_pj_os_def osat_def)
  have "pj_view demo_pj s' ''a.txt'' = file_view ?new ''a.txt''"
    by (rule sync_brings_client_to_server [OF demo_pj_facts(1) diff del _ _ s' can view]) simp_all
  then show ?thesis using s' by (simp add: file_view_def ByPath_def)
qed

theorem directory_replaced_by_file_fails_witness:
  "\<exists>err. fst (apply_all demo_pj
     (zip (Diff \<lparr>Entries = [file_entry [''d'', ''x''] [1] 0x1A4]\<rparr> \<lparr>Entries = [file_entry [''d''] [2] 0x1A4]\<rparr>)
       [[2], []]) demo_pj_os) = Inl err"
proof -
  let ?old = "\<lparr>Entries = [file_entry [''d'', ''x''] [1] 0x1A4]\<rparr>"
    and ?new = "\<lparr>Entries = [file_entry [''d''] [2] 0x1A4]\<rparr>"
  have pc: "path_comps ''d'' = [''d'']" by code_simp
  have hd: "fc_Path (hd (Diff ?old ?new)) = ''d''"
    by (simp add: Diff_def ByPath_def diff_new_def diff_old_def file_entry_def rel_path_def)
  have name: "no_temp_name (hd (Diff ?old ?new))" by (simp add: no_temp_name_def hd pc)
  have dir: "osat demo_pj_os (loc demo_pj_os (pj_root demo_pj) @ path_comps (fe_Path (file_entry [''d''] [2] 0x1A4))) =
      Some IDir"
    by (simp add: rel_path_def pc demo_pj_facts) (simp add: demo_pj_os_def osat_def)
  have path: "fe_Path (file_entry [''d'', ''x''] [1] 0x1A4) = fe_Path (file_entry [''d''] [2] 0x1A4) @ ''/'' @ ''x''"
    by (simp add: rel_path_def)
  show ?thesis
    using directory_replaced_by_file_fails [OF demo_pj_facts(1) name refl refl path dir] by blast
qed

end
