(* ===== verification/ClientApp.thy ===== *)
theory ClientApp
  imports ClientConn Fsutil Text
begin

text \<open>
  The client application, \<^verbatim>\<open>internal/core/clientapp/clientapp.go\<close>: the handshake and the
  prompt loop on one side, the reader of the server's messages on the other, with four channels of
  capacity one between them. Both run at once; the step relation \<open>cstep\<close> interleaves them.
\<close>

section \<open>Ports\<close>

record 's Transport =
  tp_SessionStart :: "string \<Rightarrow> FileEntryDTO list \<Rightarrow> ('s, unit) prog"
  tp_UploadBlob :: "string \<Rightarrow> bytes \<Rightarrow> ('s, unit) prog"
  tp_SyncDone :: "('s, unit) prog"
  tp_Prompt :: "string \<Rightarrow> ('s, unit) prog"
  tp_SessionEnd :: "('s, unit) prog"
  tp_ReadServerMessage :: "('s, ServerMessage) prog"

record 's ProjectPort =
  pp_Manifest :: "('s, Manifest) prog"
  pp_ReadFile :: "string \<Rightarrow> ('s, bytes) prog"
  pp_Apply :: "FileChange \<Rightarrow> bytes \<Rightarrow> ('s, unit) prog"

text \<open>\<^verbatim>\<open>Info\<close> takes the formatted line.\<close>

record 's Renderer =
  rr_Info :: "string \<Rightarrow> 's \<Rightarrow> 's"
  rr_StreamEvent :: "StreamEventData \<Rightarrow> 's \<Rightarrow> 's"
  rr_FileChanged :: "string \<Rightarrow> string \<Rightarrow> 's \<Rightarrow> 's"
  rr_TurnDone :: "TurnDoneData \<Rightarrow> 's \<Rightarrow> 's"
  rr_ServerError :: "string \<Rightarrow> 's \<Rightarrow> 's"

text \<open>\<open>ap_say\<close> is what \<^verbatim>\<open>%v\<close> prints for an error.\<close>

record 's App =
  ap_Project :: "'s ProjectPort"
  ap_Transport :: "'s Transport"
  ap_Renderer :: "'s Renderer"
  ap_ProjectName :: string
  ap_say :: "error \<Rightarrow> string"

section \<open>Manifests on the wire\<close>

definition dto_of :: "FileEntry \<Rightarrow> FileEntryDTO" where
  "dto_of e = \<lparr> dto_Path = fe_Path e, dto_Hash = fe_Hash e, dto_Size = fe_Size e, dto_Mode = fe_Mode e \<rparr>"

fun toDTO_from :: "FileEntry list \<Rightarrow> (string \<rightharpoonup> string) \<Rightarrow> FileEntryDTO list \<times> (string \<rightharpoonup> string)" where
  "toDTO_from [] byHash = ([], byHash)"
| "toDTO_from (e # es) byHash =
     (case toDTO_from es (if byHash (fe_Hash e) = None then byHash(fe_Hash e \<mapsto> fe_Path e) else byHash) of
        (dto, idx) \<Rightarrow> (dto_of e # dto, idx))"

definition toDTO :: "Manifest \<Rightarrow> FileEntryDTO list \<times> (string \<rightharpoonup> string)" where
  "toDTO m = toDTO_from (Entries m) Map.empty"

section \<open>State\<close>

datatype main_state =
    MStart
  | MSends "FileEntryDTO list" "string \<rightharpoonup> string"
  | MAwaitsSync "string \<rightharpoonup> string"
  | MUploads "string \<rightharpoonup> string" "string list" nat
  | MSyncs
  | MAwaitsReady
  | MReadsPrompt
  | MAwaitsTurn
  | MReturned "error option"

datatype reader_state = RReads | RSendsSync SyncRequestData | RSendsReady string | RStopped

text \<open>
  The lines \<open>cl_input\<close> that the scanner will still return; the four channels; and, of which the
  code knows nothing, how many \<^verbatim>\<open>turn.done\<close> messages were read and how many prompts were
  given back.
\<close>

record 's client_run =
  cl_main :: main_state
  cl_reader :: reader_state
  cl_world :: 's
  cl_input :: "string list"
  cl_syncReq :: "SyncRequestData option"
  cl_ready :: "string option"
  cl_turnDone :: bool
  cl_readErr :: "error option"
  cl_cancelled :: bool
  cl_turns :: nat
  cl_answered :: nat

section \<open>The reader\<close>

definition applyChange :: "'s App \<Rightarrow> FileChangeData \<Rightarrow> bytes \<Rightarrow> 's \<Rightarrow> 's" where
  "applyChange A fc content s =
     (let ch = \<lparr> fc_Op = op_of_string (fd_Op fc), fc_Path = fd_Path fc, fc_Hash = fd_Hash fc, fc_Mode = fd_Mode fc \<rparr> in
      case pp_Apply (ap_Project A) ch content s of
        (Inl e, s') \<Rightarrow> rr_ServerError (ap_Renderer A) (''apply '' @ fd_Path fc @ '': '' @ ap_say A e) s'
      | (Inr _, s') \<Rightarrow> rr_FileChanged (ap_Renderer A) (fd_Op fc) (fd_Path fc) s')"

text \<open>The \<^verbatim>\<open>switch\<close> of \<^verbatim>\<open>readLoop\<close>, up to a send that may block.\<close>

definition react :: "'s App \<Rightarrow> ServerMessage \<Rightarrow> 's client_run \<Rightarrow> 's client_run" where
  "react A msg x =
     (let R = ap_Renderer A; ty = sm_Type msg in
      if ty = TypeSyncRequest then x\<lparr> cl_reader := RSendsSync (the (sm_SyncRequest msg)) \<rparr>
      else if ty = TypeSessionReady then x\<lparr> cl_reader := RSendsReady (rd_SessionID (the (sm_SessionReady msg))) \<rparr>
      else if ty = TypeStreamEvent then x\<lparr> cl_world := rr_StreamEvent R (the (sm_StreamEvent msg)) (cl_world x) \<rparr>
      else if ty = TypeFileChange then
        x\<lparr> cl_world := applyChange A (the (sm_FileChange msg)) (sm_Content msg) (cl_world x) \<rparr>
      else if ty = TypeTurnDone then
        x\<lparr> cl_world := rr_TurnDone R (the (sm_TurnDone msg)) (cl_world x), cl_turnDone := True,
          cl_turns := Suc (cl_turns x) \<rparr>
      else if ty = TypeError then x\<lparr> cl_world := rr_ServerError R (er_Message (the (sm_Error msg))) (cl_world x) \<rparr>
      else x)"

section \<open>One step\<close>

text \<open>What the user sees on the way.\<close>

definition info :: "'s App \<Rightarrow> string \<Rightarrow> 's client_run \<Rightarrow> 's client_run" where
  "info A line x = x\<lparr> cl_world := rr_Info (ap_Renderer A) line (cl_world x) \<rparr>"

definition run_start :: "'s App \<Rightarrow> ('s, Manifest) prog" where
  "run_start A s =
     (case pp_Manifest (ap_Project A) s of
        (Inl e, s') \<Rightarrow> (Inl (Wrapped ''build manifest'' e), s')
      | (Inr m, s') \<Rightarrow> (Inr m, s'))"

text \<open>One missing content, of the loop in \<^verbatim>\<open>Run\<close>.\<close>

definition upload_one :: "'s App \<Rightarrow> (string \<rightharpoonup> string) \<Rightarrow> string \<Rightarrow> ('s, unit) prog" where
  "upload_one A byHash hash =
     (case byHash hash of
        None \<Rightarrow> throwE (ErrMsg (''server requested unknown hash '' @ hash))
      | Some path \<Rightarrow> bindE (pp_ReadFile (ap_Project A) path) (tp_UploadBlob (ap_Transport A) hash))"

text \<open>The step a call of the main goroutine takes: on to \<open>next\<close>, or \<^verbatim>\<open>Run\<close> returns the error.\<close>

definition proceed :: "(error + 'a) \<times> 's \<Rightarrow> ('a \<Rightarrow> main_state) \<Rightarrow> 's client_run \<Rightarrow> 's client_run" where
  "proceed rs nxt x =
     (case rs of
        (Inl e, s) \<Rightarrow> x\<lparr> cl_world := s, cl_main := MReturned (Some e) \<rparr>
      | (Inr a, s) \<Rightarrow> x\<lparr> cl_world := s, cl_main := nxt a \<rparr>)"

definition awaits :: "main_state \<Rightarrow> bool" where
  "awaits m \<longleftrightarrow> (\<exists>idx. m = MAwaitsSync idx) \<or> m = MAwaitsReady \<or> m = MAwaitsTurn"

text \<open>\<open>W\<close> is what the server and the user may do to the world meanwhile.\<close>

inductive cstep :: "'s App \<Rightarrow> ('s \<Rightarrow> 's \<Rightarrow> bool) \<Rightarrow> 's client_run \<Rightarrow> 's client_run \<Rightarrow> bool" for A W where
  others: "W (cl_world x) s \<Longrightarrow> cstep A W x (x\<lparr> cl_world := s \<rparr>)"
| cancelled: "cstep A W x (x\<lparr> cl_cancelled := True \<rparr>)"
| reader_reads: "cl_main x \<noteq> MStart \<Longrightarrow> cl_reader x = RReads \<Longrightarrow>
    tp_ReadServerMessage (ap_Transport A) (cl_world x) = (Inr msg, s) \<Longrightarrow>
    cstep A W x (react A msg (x\<lparr> cl_world := s \<rparr>))"
| reader_stops: "cl_main x \<noteq> MStart \<Longrightarrow> cl_reader x = RReads \<Longrightarrow>
    tp_ReadServerMessage (ap_Transport A) (cl_world x) = (Inl e, s) \<Longrightarrow>
    cstep A W x (x\<lparr> cl_world := s, cl_reader := RStopped,
      cl_readErr := (if cl_readErr x = None then Some e else cl_readErr x) \<rparr>)"
| reader_syncs: "cl_reader x = RSendsSync d \<Longrightarrow> cl_syncReq x = None \<Longrightarrow>
    cstep A W x (x\<lparr> cl_reader := RReads, cl_syncReq := Some d \<rparr>)"
| reader_ready: "cl_reader x = RSendsReady i \<Longrightarrow> cl_ready x = None \<Longrightarrow>
    cstep A W x (x\<lparr> cl_reader := RReads, cl_ready := Some i \<rparr>)"
| main_starts: "cl_main x = MStart \<Longrightarrow>
    cstep A W x (proceed (run_start A (cl_world x)) (\<lambda>m. case toDTO m of (dto, idx) \<Rightarrow> MSends dto idx) x)"
| main_sends: "cl_main x = MSends dto idx \<Longrightarrow>
    y = info A (''Uploading project ('' @ int_text (int (length dto)) @ '' files)...'') x \<Longrightarrow>
    cstep A W x (proceed (tp_SessionStart (ap_Transport A) (ap_ProjectName A) dto (cl_world y)) (\<lambda>_. MAwaitsSync idx) y)"
| main_synced: "cl_main x = MAwaitsSync idx \<Longrightarrow> cl_syncReq x = Some req \<Longrightarrow>
    cstep A W x (x\<lparr> cl_syncReq := None, cl_main := MUploads idx (sr_Missing req) (length (sr_Missing req)) \<rparr>)"
| main_uploads: "cl_main x = MUploads idx (h # hs) n \<Longrightarrow>
    cstep A W x (proceed (upload_one A idx h (cl_world x)) (\<lambda>_. MUploads idx hs n) x)"
| main_uploaded: "cl_main x = MUploads idx [] n \<Longrightarrow>
    y = info A (''Uploaded '' @ int_text (int n) @ '' missing file(s).'') x \<Longrightarrow>
    cstep A W x (y\<lparr> cl_main := MSyncs \<rparr>)"
| main_syncs: "cl_main x = MSyncs \<Longrightarrow>
    cstep A W x (proceed (tp_SyncDone (ap_Transport A) (cl_world x)) (\<lambda>_. MAwaitsReady) x)"
| main_ready: "cl_main x = MAwaitsReady \<Longrightarrow> cl_ready x = Some i \<Longrightarrow>
    y = info A ''Type a prompt and press Enter (Ctrl-D to quit).'' (info A (''Session ready: '' @ i) x) \<Longrightarrow>
    cstep A W x (y\<lparr> cl_ready := None, cl_main := MReadsPrompt \<rparr>)"
| main_blank: "cl_main x = MReadsPrompt \<Longrightarrow> cl_input x = line # lines \<Longrightarrow> TrimSpace line = [] \<Longrightarrow>
    cstep A W x (x\<lparr> cl_input := lines \<rparr>)"
| main_prompts: "cl_main x = MReadsPrompt \<Longrightarrow> cl_input x = line # lines \<Longrightarrow> TrimSpace line \<noteq> [] \<Longrightarrow>
    cstep A W x ((proceed (tp_Prompt (ap_Transport A) (TrimSpace line) (cl_world x)) (\<lambda>_. MAwaitsTurn) x)\<lparr> cl_input := lines \<rparr>)"
| main_quits: "cl_main x = MReadsPrompt \<Longrightarrow> cl_input x = [] \<Longrightarrow>
    cstep A W x (proceed (tp_SessionEnd (ap_Transport A) (cl_world x)) (\<lambda>_. MReturned None) x)"
| main_answered: "cl_main x = MAwaitsTurn \<Longrightarrow> cl_turnDone x \<Longrightarrow>
    cstep A W x (x\<lparr> cl_turnDone := False, cl_main := MReadsPrompt, cl_answered := Suc (cl_answered x) \<rparr>)"
| main_read_error: "awaits (cl_main x) \<Longrightarrow> cl_readErr x = Some e \<Longrightarrow>
    cstep A W x (x\<lparr> cl_readErr := None, cl_main := MReturned (Some e) \<rparr>)"
| main_cancelled: "awaits (cl_main x) \<Longrightarrow> cl_cancelled x \<Longrightarrow>
    cstep A W x (x\<lparr> cl_main := MReturned (Some Canceled) \<rparr>)"

definition client_start :: "'s \<Rightarrow> string list \<Rightarrow> 's client_run" where
  "client_start s input = \<lparr> cl_main = MStart, cl_reader = RReads, cl_world = s, cl_input = input,
     cl_syncReq = None, cl_ready = None, cl_turnDone = False, cl_readErr = None, cl_cancelled = False,
     cl_turns = 0, cl_answered = 0 \<rparr>"

end
