(* ===== verification/ClientLaws.thy ===== *)
theory ClientLaws
  imports ClientApp
begin

text \<open>
  Properties of the client application: the index for uploads, the trimming of prompts, and how
  turns are accounted for in every run.
\<close>

section \<open>The index for uploads\<close>

lemma toDTO_from_eq:
  "toDTO_from es idx =
     (map dto_of es, \<lambda>h. case idx h of Some p \<Rightarrow> Some p | None \<Rightarrow> map_option fe_Path (find (\<lambda>e. fe_Hash e = h) es))"
  by (induction es idx rule: toDTO_from.induct) (auto simp: fun_eq_iff split: option.splits)

lemma toDTO_eq:
  "toDTO m = (map dto_of (Entries m), \<lambda>h. map_option fe_Path (find (\<lambda>e. fe_Hash e = h) (Entries m)))"
  by (simp add: toDTO_def toDTO_from_eq)

text \<open>
  The conversion of a manifest for the wire: one entry each, in order, and as index for the
  uploads the map from each hash to the path of the first entry that has it. So a server that asks
  only for hashes of the manifest it was sent never gets the answer that a hash is unknown.
\<close>

theorem upload_index_first:
  "toDTO m = (map dto_of (Entries m), \<lambda>h. map_option fe_Path (find (\<lambda>e. fe_Hash e = h) (Entries m)))"
  by (rule toDTO_eq)

section \<open>Prompts\<close>

text \<open>
  What is sent as a prompt: the line without white space around it. The line is the prompt
  with white space before and after, and the prompt itself neither starts nor ends with a character
  of white space, whether ASCII or not. Lines that are all white space give the empty prompt,
  which is not sent.
\<close>

theorem trim_space_spec:
  "(\<exists>a b. line = a @ TrimSpace line @ b \<and> blank a \<and> blank b) \<and>
   (\<forall>p \<in> set spaces. \<not> prefix p (TrimSpace line) \<and> \<not> suffix p (TrimSpace line))"
  by (rule TrimSpace_spec)

section \<open>The accounting of turns\<close>

text \<open>
  A prompt is given back only on a \<^verbatim>\<open>turn.done\<close> of its own: no more prompts were
  answered than such messages were read.
\<close>

definition turns_kept :: "'s client_run \<Rightarrow> bool" where
  "turns_kept x \<longleftrightarrow> cl_answered x + (if cl_turnDone x then 1 else 0) \<le> cl_turns x"

abbreviation creach :: "'s App \<Rightarrow> ('s \<Rightarrow> 's \<Rightarrow> bool) \<Rightarrow> 's client_run \<Rightarrow> 's client_run \<Rightarrow> bool" where
  "creach A W \<equiv> (cstep A W)\<^sup>*\<^sup>*"

lemma creach_invariant:
  assumes "creach A W x y" "P x" "\<And>x y. cstep A W x y \<Longrightarrow> P x \<Longrightarrow> P y"
  shows "P y"
  using assms(1,2) by (induction rule: rtranclp_induct) (auto intro: assms(3))

lemma proceed_fields [simp]:
  "cl_turnDone (proceed rs nxt x) = cl_turnDone x" "cl_turns (proceed rs nxt x) = cl_turns x"
  "cl_answered (proceed rs nxt x) = cl_answered x" "cl_readErr (proceed rs nxt x) = cl_readErr x"
  "cl_reader (proceed rs nxt x) = cl_reader x" "cl_cancelled (proceed rs nxt x) = cl_cancelled x"
  "cl_ready (proceed rs nxt x) = cl_ready x" "cl_syncReq (proceed rs nxt x) = cl_syncReq x"
  by (auto simp: proceed_def split: prod.split sum.split)

lemma proceed_main:
  "cl_main (proceed rs nxt x) = (case fst rs of Inl e \<Rightarrow> MReturned (Some e) | Inr a \<Rightarrow> nxt a)"
  by (auto simp: proceed_def split: prod.split sum.split)

lemma info_fields [simp]:
  "cl_turnDone (info A l x) = cl_turnDone x" "cl_turns (info A l x) = cl_turns x"
  "cl_answered (info A l x) = cl_answered x" "cl_main (info A l x) = cl_main x"
  "cl_readErr (info A l x) = cl_readErr x" "cl_cancelled (info A l x) = cl_cancelled x"
  "cl_reader (info A l x) = cl_reader x"
  by (simp_all add: info_def)

lemma react_cases:
  obtains "sm_Type msg = TypeTurnDone" "cl_turns (react A msg x) = Suc (cl_turns x)" "cl_turnDone (react A msg x)"
      "cl_reader (react A msg x) = cl_reader x"
  | "sm_Type msg \<noteq> TypeTurnDone" "cl_turns (react A msg x) = cl_turns x" "cl_turnDone (react A msg x) = cl_turnDone x"
  by (cases "sm_Type msg = TypeTurnDone") (auto simp: react_def Let_def)

lemma react_fields [simp]:
  "cl_answered (react A msg x) = cl_answered x" "cl_main (react A msg x) = cl_main x"
  "cl_readErr (react A msg x) = cl_readErr x" "cl_cancelled (react A msg x) = cl_cancelled x"
  by (simp_all add: react_def Let_def)

lemma turns_kept_step:
  assumes "cstep A W x y" "turns_kept x"
  shows "turns_kept y"
  using assms(1)
proof (cases rule: cstep.cases)
  case (reader_reads msg s)
  then show ?thesis unfolding reader_reads(1)
    by (cases rule: react_cases[of msg A "x\<lparr> cl_world := s \<rparr>"]) (use assms(2) in \<open>auto simp: turns_kept_def\<close>)
qed (use assms(2) in \<open>auto simp: turns_kept_def\<close>)

text \<open>
  C30. In every run, no more prompts were given back than \<^verbatim>\<open>turn.done\<close> messages were read; a
  second such message before the first was taken counts for nothing.
\<close>

theorem client_turns_accounted:
  assumes "creach A W (client_start s lines) x"
  shows "cl_answered x + (if cl_turnDone x then 1 else 0) \<le> cl_turns x"
proof -
  have "turns_kept x"
    by (rule creach_invariant[where P = turns_kept, OF assms])
       (simp add: client_start_def turns_kept_def, rule turns_kept_step)
  then show ?thesis by (simp add: turns_kept_def)
qed

text \<open>Still waiting for the turn that was not done at \<open>n\<close> messages.\<close>

definition still_waiting :: "nat \<Rightarrow> 's client_run \<Rightarrow> bool" where
  "still_waiting n x \<longleftrightarrow> n \<le> cl_turns x \<and> (cl_reader x = RStopped \<or> cl_cancelled x \<or> n < cl_turns x \<or>
     cl_main x = MAwaitsTurn \<and> \<not> cl_turnDone x \<and> cl_readErr x = None)"

lemma still_waiting_step:
  assumes "cstep A W x y" "still_waiting n x"
  shows "still_waiting n y"
  using assms(1)
proof (cases rule: cstep.cases)
  case (reader_reads msg s)
  then show ?thesis unfolding reader_reads(1) using reader_reads(3) assms(2)
    by (cases rule: react_cases[of msg A "x\<lparr> cl_world := s \<rparr>"]) (auto simp: still_waiting_def)
qed (use assms(2) in \<open>simp_all add: still_waiting_def awaits_def\<close>, auto)

text \<open>
  C31. The client does not take an error for an end of the turn. Whatever the server sends, a
  client that waits for a turn keeps waiting until a \<^verbatim>\<open>turn.done\<close> is read, reading fails, or
  the context is cancelled; in particular the server's report that the prompt failed, which is all
  that the server sends in that case, does not give the prompt back.
\<close>

theorem error_does_not_end_turn:
  assumes "creach A W x y" and "cl_main x = MAwaitsTurn" and "\<not> cl_turnDone x" and "cl_readErr x = None"
    and "cl_turns y = cl_turns x" and "cl_reader y \<noteq> RStopped" and "\<not> cl_cancelled y"
  shows "cl_main y = MAwaitsTurn"
proof -
  have "still_waiting (cl_turns x) y"
    by (rule creach_invariant[where P = "still_waiting (cl_turns x)", OF assms(1)])
       (use assms(2-4) in \<open>simp add: still_waiting_def\<close>, rule still_waiting_step)
  then show ?thesis using assms(5-7) by (simp add: still_waiting_def)
qed

section \<open>Witnesses\<close>

theorem trim_space_spec_witness:
  "TrimSpace '' go on '' = ''go on'' \<and> \<not> prefix '' '' (TrimSpace '' go on '')"
proof -
  have "'' '' \<in> set spaces" by (simp add: spaces_def)
  moreover have "TrimSpace '' go on '' = ''go on''" by code_simp
  ultimately show ?thesis using conjunct2 [OF trim_space_spec [of "'' go on ''"]] by blast
qed

text \<open>A client whose server only reports errors.\<close>

definition error_message :: ServerMessage where
  "error_message = (empty_message TypeError [])\<lparr> sm_Error := Some \<lparr> er_Message = ''failed'' \<rparr> \<rparr>"

definition idle_app :: "unit App" where
  "idle_app = \<lparr> ap_Project = \<lparr> pp_Manifest = retE \<lparr> Entries = [] \<rparr>, pp_ReadFile = \<lambda>_. retE [], pp_Apply = \<lambda>_ _. retE () \<rparr>,
     ap_Transport = \<lparr> tp_SessionStart = \<lambda>_ _. retE (), tp_UploadBlob = \<lambda>_ _. retE (), tp_SyncDone = retE (),
       tp_Prompt = \<lambda>_. retE (), tp_SessionEnd = retE (), tp_ReadServerMessage = retE error_message \<rparr>,
     ap_Renderer = \<lparr> rr_Info = \<lambda>_ s. s, rr_StreamEvent = \<lambda>_ s. s, rr_FileChanged = \<lambda>_ _ s. s,
       rr_TurnDone = \<lambda>_ s. s, rr_ServerError = \<lambda>_ s. s \<rparr>,
     ap_ProjectName = ''p'', ap_say = \<lambda>_. [] \<rparr>"

definition waiting_client :: "unit client_run" where
  "waiting_client = (client_start () [])\<lparr> cl_main := MAwaitsTurn \<rparr>"

lemma error_read: "cstep idle_app (\<lambda>_ _. False) waiting_client waiting_client"
proof -
  have "react idle_app error_message (waiting_client\<lparr> cl_world := () \<rparr>) = waiting_client"
    by (simp add: react_def Let_def error_message_def empty_message_def waiting_client_def client_start_def idle_app_def)
  then show ?thesis
    using cstep.reader_reads[of waiting_client idle_app error_message "()" "\<lambda>_ _. False"]
    by (simp add: waiting_client_def client_start_def idle_app_def)
qed

theorem error_does_not_end_turn_witness:
  "cstep idle_app (\<lambda>_ _. False) waiting_client waiting_client \<and> cl_main waiting_client = MAwaitsTurn"
  using error_read error_does_not_end_turn [OF r_into_rtranclp[of "cstep idle_app (\<lambda>_ _. False)", OF error_read]]
  by (simp add: waiting_client_def client_start_def)

theorem client_turns_accounted_witness:
  "\<exists>x :: unit client_run. cl_main x = MSends [] (snd (toDTO \<lparr> Entries = [] \<rparr>)) \<and> cl_answered x \<le> cl_turns x"
proof -
  let ?x = "client_start () [''hi'']"
  let ?y = "proceed (run_start idle_app (cl_world ?x)) (\<lambda>m. case toDTO m of (dto, idx) \<Rightarrow> MSends dto idx) ?x"
  have "cstep idle_app (\<lambda>_ _. False) ?x ?y" by (rule cstep.main_starts) (simp add: client_start_def)
  from client_turns_accounted [OF r_into_rtranclp[of "cstep idle_app (\<lambda>_ _. False)", OF this]]
  have "cl_answered ?y \<le> cl_turns ?y" by simp
  moreover have "cl_main ?y = MSends [] (snd (toDTO \<lparr> Entries = [] \<rparr>))"
    by (simp add: proceed_main run_start_def idle_app_def toDTO_eq)
  ultimately show ?thesis by blast
qed

end
