(* ===== verification/EndToEnd.thy ===== *)
theory EndToEnd
  imports Wiring Localfs ClientLaws
begin

text \<open>
  What the parts do together. The client's end of the wire and the client's project on one side;
  the server's world, with its store, workspace and service, on the other: at the end of a turn
  the client can read exactly the changes of the turn, and applying them makes the project what
  the server's workspace is.
\<close>

section \<open>The notifier of the world\<close>

interpretation world: client_notifier "notifier_on (ws_notifier fl S)" "\<lambda>w. wire_reads fl S R r0 (w_conn w)"
  "\<lambda>w. stream_room (w_conn w)" for fl S R r0
proof (unfold_locales, goal_cases)
  case (1 s ns i u s')
  then show ?case using wire.ready[of fl S R r0 "w_conn s" ns i u "w_conn s'"] by (simp add: notifier_on_def on_conn_iff)
next
  case (2 s ns hs u s')
  then show ?case using wire.missing[of fl S R r0 "w_conn s" ns hs u "w_conn s'"] by (simp add: notifier_on_def on_conn_iff)
next
  case (3 s ns ev u s')
  then show ?case using wire.event[of fl S R r0 "w_conn s" ns ev u "w_conn s'"] by (simp add: notifier_on_def on_conn_iff)
next
  case (4 s ns ch content u s')
  then show ?case using wire.change[of fl S R r0 "w_conn s" ns ch content u "w_conn s'"] by (simp add: notifier_on_def on_conn_iff)
next
  case (5 s ns res u s')
  then show ?case using wire.finished[of fl S R r0 "w_conn s" ns res u "w_conn s'"] by (simp add: notifier_on_def on_conn_iff)
next
  case (6 s ns msg u s')
  then show ?case using wire.failure[of fl S R r0 "w_conn s" ns msg u "w_conn s'"] by (simp add: notifier_on_def on_conn_iff)
qed

section \<open>What a turn sends\<close>

text \<open>The content that goes with a change: the file's as it is now, none for a deletion.\<close>

definition content_of :: "Workspace \<Rightarrow> os \<Rightarrow> FileChange \<Rightarrow> bytes \<Rightarrow> bool" where
  "content_of ws s ch c \<longleftrightarrow> (if fc_Op ch = ChangeDelete then c = [] else ws_ReadFile ws (fc_Path ch) s = (Inr c, s))"

lemma push_changes:
  assumes "dp_Notifier D = notifier_on (ws_notifier fl S)"
  shows "forE chs (push_change D (workspace_on ws)) w = (Inr u, w') \<Longrightarrow>
    \<exists>xs. map fst xs = chs \<and> list_all (\<lambda>(ch, c). content_of ws (w_os w) ch c) xs \<and>
      world.send_changes fl S xs w = (Inr (), w') \<and> w_os w' = w_os w"
proof (induction chs arbitrary: w)
  case Nil
  then show ?case by (simp add: world.send_changes_def)
next
  case (Cons ch chs)
  obtain w1 where w1: "push_change D (workspace_on ws) ch w = (Inr (), w1)"
      "forE chs (push_change D (workspace_on ws)) w1 = (Inr u, w')"
    using Cons.prems by (auto simp: bindE_Inr_iff)
  have rd: "wk_ReadFile (workspace_on ws) p w = (fst (ws_ReadFile ws p (w_os w)), w)" for p
    using ws_ReadFile_state[of ws p "w_os w"]
    by (cases "ws_ReadFile ws p (w_os w)") (auto simp: workspace_on_def on_os_def)
  obtain c where c: "content_of ws (w_os w) ch c" "FileChanged (notifier_on (ws_notifier fl S)) ch c w = (Inr (), w1)"
  proof (cases "fc_Op ch = ChangeDelete")
    case True
    then show ?thesis using w1(1) assms that[of "[]"] by (simp add: push_change_def content_of_def)
  next
    case False
    then obtain c t where ct: "wk_ReadFile (workspace_on ws) (fc_Path ch) w = (Inr c, t)"
        "FileChanged (notifier_on (ws_notifier fl S)) ch c t = (Inr (), w1)"
      using w1(1) assms by (auto simp: push_change_def bindE_Inr_iff)
    have t: "t = w" "fst (ws_ReadFile ws (fc_Path ch) (w_os w)) = Inr c" using rd[of "fc_Path ch"] ct(1) by simp_all
    have "ws_ReadFile ws (fc_Path ch) (w_os w) = (Inr c, w_os w)"
      by (rule prod_eqI) (use t ws_ReadFile_state[of ws "fc_Path ch" "w_os w"] in simp_all)
    then show ?thesis using ct(2) False t(1) that[of c] by (simp add: content_of_def)
  qed
  have os: "w_os w1 = w_os w" using c(2) by (auto simp: notifier_on_def on_conn_def split: prod.splits)
  obtain xs where "map fst xs = chs" "list_all (\<lambda>(ch, c). content_of ws (w_os w1) ch c) xs"
      "world.send_changes fl S xs w1 = (Inr (), w')" "w_os w' = w_os w1"
    using Cons.IH[OF w1(2)] by blast
  then show ?case using c os by (intro exI[of _ "(ch, c) # xs"]) (simp add: world.send_changes_def)
qed

section \<open>The manifests of a turn\<close>

text \<open>
  The files can be carried to any client: their paths are valid UTF-8 and have no name of a temporary file, they can
  be written, and their sizes are representable.
\<close>

definition portable :: "Manifest \<Rightarrow> bool" where
  "portable M \<longleftrightarrow> (\<forall>e \<in> set (Entries M). valid_utf8 (fe_Path e) \<and> fe_Mode e \<noteq> 0 \<and> fe_Size e < 2 ^ 63 \<and>
     \<not> prefix ''.claude-share-'' (last (path_comps (fe_Path e))))"

text \<open>What every snapshot is.\<close>

definition snapshot_like :: "Manifest \<Rightarrow> bool" where
  "snapshot_like M \<longleftrightarrow> distinct (map fe_Path (Entries M)) \<and>
     (\<forall>e \<in> set (Entries M). \<exists>q c m. e = file_entry q c m \<and> list_all plain_name q \<and> q \<noteq> [])"

lemma snapshot_entry:
  assumes "snapshot_like M" "e \<in> set (Entries M)"
  shows "canonical (fe_Path e)" "validHash (fe_Hash e)" "Perm (fe_Mode e) = fe_Mode e"
proof -
  obtain q c m where e: "e = file_entry q c m" "list_all plain_name q" "q \<noteq> []"
    using assms unfolding snapshot_like_def by blast
  then show "canonical (fe_Path e)" "validHash (fe_Hash e)" "Perm (fe_Mode e) = fe_Mode e"
    by (simp_all add: file_entry_def canonical_def rel_path_comps)
qed

lemma snapshot_facts:
  assumes "os_wf s" "osat s (loc s (ws_dir ws)) = Some IDir" "ws_Snapshot ws s = (Inr M, s')"
  shows "snapshot_like M" "s' = s"
    "\<And>e c. e \<in> set (Entries M) \<Longrightarrow> ws_ReadFile ws (fe_Path e) s = (Inr c, s) \<Longrightarrow> HashContent c = fe_Hash e \<and> int (length c) = fe_Size e"
proof -
  have "wf_node (os_tree s)" "look (os_tree s) (loc s (ws_dir ws)) = Inr IDir"
    using assms(1,2) by (simp_all add: os_wf_def osat_Some)
  note facts = WalkManifest_facts[OF this assms(3)[unfolded ws_Snapshot_def]]
  have entry: "\<exists>q c m. e = file_entry q c m \<and> list_all plain_name q \<and> q \<noteq> [] \<and> osat s (loc s (ws_dir ws) @ q) = Some (IFile c m)"
    if in_M: "e \<in> set (Entries M)" for e
  proof -
    obtain q c m where q: "e = file_entry q c m" "osat s (loc s (ws_dir ws) @ q) = Some (IFile c m)" "visible no_opts q"
    proof -
      have "e \<in> listed s no_opts (ws_dir ws)" using in_M facts(2) by simp
      then show ?thesis using that by (auto simp: listed_def osat_Some)
    qed
    have "list_all plain_name q" using osat_plain[OF assms(1) q(2)] by simp
    moreover have "q \<noteq> []" using q(2) assms(2) by auto
    ultimately show ?thesis using q by blast
  qed
  show "snapshot_like M" using facts(4) entry unfolding snapshot_like_def by blast
  show "s' = s" by (rule facts(1))
  fix e c assume e: "e \<in> set (Entries M)" and rd: "ws_ReadFile ws (fe_Path e) s = (Inr c, s)"
  obtain q c' m where q: "e = file_entry q c' m" "list_all plain_name q" "q \<noteq> []"
      "osat s (loc s (ws_dir ws) @ q) = Some (IFile c' m)" using entry[OF e] by blast
  obtain p t where p: "SafeJoin_os (ws_dir ws) (fe_Path e) s = (Inr p, t)" "os_ReadFile p t = (Inr c, s)"
    using rd by (auto simp: ws_ReadFile_def bindE_Inr_iff)
  have sj: "t = s" "loc s p = loc s (ws_dir ws) @ q"
    using SafeJoin_os_Inr[OF assms(1) p(1)] q(1-3) by (simp_all add: file_entry_def rel_path_comps)
  then have "\<exists>m'. osat s (loc s p) = Some (IFile c m')" using ReadFile_Inr[of p s c] p(2) by simp
  then have "c = c'" using q(4) sj(2) by simp
  then show "HashContent c = fe_Hash e \<and> int (length c) = fe_Size e" using q(1) by (simp add: file_entry_def)
qed

lemma validHash_utf8: "validHash h \<Longrightarrow> valid_utf8 h"
proof -
  assume h: "validHash h"
  have "code c < 0x80" if "c \<in> set h" for c
    using h that unfolding validHash_def less_eq_char_def code_def by force
  then show ?thesis by (simp add: valid_utf8_def fix_utf8_ascii)
qed

text \<open>Every change of a turn, with its content, survives the wire and can be applied.\<close>

lemma change_of_turn:
  assumes "snapshot_like pre" "snapshot_like after" "portable pre" "portable after"
    and "\<And>e c. e \<in> set (Entries after) \<Longrightarrow> ws_ReadFile ws (fe_Path e) s = (Inr c, s) \<Longrightarrow>
      HashContent c = fe_Hash e \<and> int (length c) = fe_Size e"
    and "ch \<in> set (Diff pre after)" "content_of ws s ch c"
  shows "change_ok ch c" "deliverable (ch, c)"
proof -
  have "ch \<in> set (Diff pre after) \<Longrightarrow>
      (\<exists>e \<in> set (Entries after). fc_Path ch = fe_Path e \<and> fc_Hash ch = fe_Hash e \<and> fc_Mode ch = fe_Mode e \<and>
         (fc_Op ch = ChangeCreate \<or> fc_Op ch = ChangeModify)) \<or>
      (\<exists>e \<in> set (Entries pre). fc_Path ch = fe_Path e \<and> fc_Hash ch = [] \<and> fc_Op ch = ChangeDelete)"
    by (auto simp: set_Diff diff_new_def diff_old_def split: option.splits if_splits)
  then consider (new) e where "e \<in> set (Entries after)" "fc_Path ch = fe_Path e" "fc_Hash ch = fe_Hash e"
      "fc_Mode ch = fe_Mode e" "fc_Op ch = ChangeCreate \<or> fc_Op ch = ChangeModify"
    | (old) e where "e \<in> set (Entries pre)" "fc_Path ch = fe_Path e" "fc_Hash ch = []" "fc_Op ch = ChangeDelete"
    using assms(6) by blast
  then have "change_ok ch c \<and> deliverable (ch, c)"
  proof cases
    case new
    have c: "HashContent c = fe_Hash e" "int (length c) = fe_Size e"
      using assms(5)[OF new(1), of c] assms(7) new by (auto simp: content_of_def)
    have p: "valid_utf8 (fe_Path e)" "fe_Mode e \<noteq> 0" "fe_Size e < 2 ^ 63"
        "\<not> prefix ''.claude-share-'' (last (path_comps (fe_Path e)))"
      using assms(4) new(1) unfolding portable_def by blast+
    have len: "length c < 2 ^ 63" using c(2) p(3) by simp
    note en = snapshot_entry[OF assms(2) new(1)]
    have op: "op_of_string (op_string (fc_Op ch)) = fc_Op ch" "valid_utf8 (op_string (fc_Op ch))"
      using new(5) by (auto simp: op_of_string_def valid_utf8_def fix_utf8_ascii code_def)
    show ?thesis
      using new c p len en op validHash_utf8[OF en(2)]
      by (auto simp: change_ok_def deliverable_def no_temp_name_def canonical_def)
  next
    case old
    have p: "valid_utf8 (fe_Path e)" "\<not> prefix ''.claude-share-'' (last (path_comps (fe_Path e)))"
      using assms(3) old(1) unfolding portable_def by blast+
    note en = snapshot_entry[OF assms(1) old(1)]
    have op: "op_of_string (op_string (fc_Op ch)) = fc_Op ch" "valid_utf8 (op_string (fc_Op ch))" "valid_utf8 []"
      using old(4) by (auto simp: op_of_string_def valid_utf8_def fix_utf8_ascii code_def)
    show ?thesis
      using old p en op assms(7) by (auto simp: change_ok_def deliverable_def no_temp_name_def canonical_def content_of_def)
  qed
  then show "change_ok ch c" "deliverable (ch, c)" by blast+
qed

text \<open>
  C1. A turn reaches the client. Suppose a turn is finished without an error. Then reading the
  frames that were written, the client gets, after what it read before, the changes from the
  baseline of the turn to the workspace as it is now, in order, each with the content of its file,
  and then the end of the turn; and the baseline has moved. If the client's project agrees with the
  old baseline on a path and the changes are applied without an error, then it agrees with the
  workspace on that path.
\<close>

theorem turn_reaches_client:
  assumes "dp_Notifier D = notifier_on (ws_notifier fl S)"
    and "os_wf (w_os w)" and "osat (w_os w) (loc (w_os w) (ws_dir ws)) = Some IDir"
    and "ws_Snapshot ws (w_os w) = (Inr after, s1)"
    and "snapshot_like (sv_preTurn sv)" and "portable (sv_preTurn sv)" and "portable after"
    and "wire_reads fl S R r0 (w_conn w) ns" and "length (Diff (sv_preTurn sv) after) \<le> stream_room (w_conn w)"
    and "int64_range (tr_NumTurns res)"
    and "finishTurn D (workspace_on ws) (Some res) (sv, w) = (Inr u, (sv', w'))"
  shows "\<exists>xs news r. map fst xs = Diff (sv_preTurn sv) after \<and> list_all (\<lambda>(ch, c). content_of ws (w_os w) ch c) xs \<and>
    sv_preTurn sv' = after \<and>
    news = ns @ map (\<lambda>(ch, c). NChange ch c) xs @
      [NDone (tr_IsError res) (sent_cost (tr_CostUSD res)) (fix_utf8 (tr_Text res)) (tr_NumTurns res)] \<and>
    read_news (length news) fl S (r0\<lparr> cn_inbox := cn_wire (w_conn w') \<rparr>) = (Inr news, r) \<and>
    (\<forall>p s s' path. pj_open p s \<and> apply_all p xs s = (Inr (), s') \<and> canonical path \<and>
       pj_view p s path = file_view (sv_preTurn sv) path \<longrightarrow> pj_view p s' path = file_view after path)"
proof -
  let ?pre = "sv_preTurn sv"
  note snap = snapshot_facts[OF assms(2,3,4)]
  have sn: "wk_Snapshot (workspace_on ws) w = (Inr after, w)"
    using assms(4) snap(2) by (simp add: workspace_on_def on_os_def)
  obtain w1 where push: "forE (Diff ?pre after) (push_change D (workspace_on ws)) w = (Inr (), w1)"
    and fin: "turn_end D (Some res) after (sv, w1) = (Inr u, (sv', w'))"
    using assms(11) sn by (auto simp: finishTurn_def turn_changes_def bindE_outside split: prod.splits sum.splits)
  obtain xs where xs: "map fst xs = Diff ?pre after" "list_all (\<lambda>(ch, c). content_of ws (w_os w) ch c) xs"
      "world.send_changes fl S xs w = (Inr (), w1)"
    using push_changes[OF assms(1) push] by blast
  have each: "change_ok ch c \<and> deliverable (ch, c)" if "(ch, c) \<in> set xs" for ch c
  proof -
    have "ch \<in> set (Diff ?pre after)" using that xs(1) by (metis fst_conv image_eqI set_map)
    moreover have "content_of ws (w_os w) ch c" using that xs(2) by (auto simp: list_all_iff)
    ultimately show ?thesis
      using change_of_turn[OF assms(5) snap(1) assms(6,7) snap(3)] by blast
  qed
  then have ok: "list_all (\<lambda>(ch, c). change_ok ch c) xs" "\<forall>x \<in> set xs. deliverable x" by (auto simp: list_all_iff)
  have len: "length xs = length (Diff ?pre after)" using xs(1) by (metis length_map)
  let ?sent = "ns @ map (\<lambda>(ch, c). NChange ch c) xs"
  have rd1: "wire_reads fl S R r0 (w_conn w1) ?sent"
    using world.send_changes_read[OF assms(8) xs(3) ok(1)] len assms(9) by simp
  have fn: "TurnDone (notifier_on (ws_notifier fl S)) res w1 = (Inr u, w')" "sv_preTurn sv' = after"
    using fin assms(1) turn_end_keeps[OF fin] by (simp_all add: turn_end_def outside_iff)
  let ?news = "?sent @ [NDone (tr_IsError res) (sent_cost (tr_CostUSD res)) (fix_utf8 (tr_Text res)) (tr_NumTurns res)]"
  have "wire_reads fl S R r0 (w_conn w') ?news"
    using world.finished[OF rd1 assms(10) fn(1)] by simp
  then obtain r where "transcript fl S r0 (cn_wire (w_conn w')) ?news r" by (auto simp: wire_reads_def)
  from transcript_read[OF this, of "[]"]
  have rd: "read_news (length ?news) fl S (r0\<lparr> cn_inbox := cn_wire (w_conn w') \<rparr>) = (Inr ?news, r\<lparr> cn_inbox := [] \<rparr>)"
    by simp
  have "distinct (map fe_Path (Entries ?pre))" "distinct (map fe_Path (Entries after))"
    using assms(5) snap(1) by (simp_all add: snapshot_like_def)
  then have view: "pj_view p s' path = file_view after path"
    if "pj_open p s" "apply_all p xs s = (Inr (), s')" "canonical path" "pj_view p s path = file_view ?pre path" for p s s' path
    using applied_difference[OF that(1) xs(1) ok(2) _ _ that(2-4)] by blast
  show ?thesis
    by (rule exI[of _ xs], rule exI[of _ ?news], rule exI[of _ "r\<lparr> cn_inbox := [] \<rparr>"]) (intro conjI xs(1,2) fn(2) rd allI impI, simp, blast intro: view)
qed

section \<open>Witness\<close>

text \<open>The agent deleted the only file of the workspace.\<close>

definition demo_pre :: Manifest where
  "demo_pre = \<lparr> Entries = [file_entry [''a''] [1] 0x1A4] \<rparr>"

definition demo_world :: "unit world" where
  "demo_world = \<lparr> w_os = demo_blob_os, w_conn = demo_conn [], w_agent = None, w_ids = 0 \<rparr>"

definition demo_service :: "unit world Service" where
  "demo_service = NewService\<lparr> sv_preTurn := demo_pre \<rparr>"

abbreviation demo_world_deps :: "unit world Deps" where
  "demo_world_deps \<equiv> service_deps demo_store ''/d'' demo_uuid demo_spawn NewRunner demo_floats id_channel"

lemma demo_pre_facts: "snapshot_like demo_pre" "portable demo_pre"
proof -
  have pl: "list_all plain_name [''a'']" by code_simp
  have pc: "path_comps (rel_path [''a'']) = [''a'']" using rel_path_comps[OF pl] by simp
  show "snapshot_like demo_pre"
    using pl by (auto simp: snapshot_like_def demo_pre_def intro!: exI[of _ "[''a'']"] exI[of _ "[1]"] exI[of _ "0x1A4"])
  have "Perm 0x1A4 \<noteq> 0" by code_simp
  moreover have "valid_utf8 (rel_path [''a''])" by (simp add: rel_path_def valid_utf8_def fix_utf8_ascii code_def)
  ultimately show "portable demo_pre" using pc by (simp add: portable_def demo_pre_def file_entry_def)
qed

lemma demo_empty_snapshot: "ws_Snapshot demo_ws demo_blob_os = (Inr \<lparr> Entries = [] \<rparr>, demo_blob_os)"
proof -
  have n: "namei (os_tree demo_blob_os) [''w''] = Inr (NDir [])" by (simp add: demo_blob_os_def)
  have f: "os_fault demo_blob_os c q = None" for c q by (simp add: demo_blob_os_def)
  show ?thesis unfolding ws_Snapshot_def WalkManifest_def readE_run demo_locs n f by simp
qed

lemma demo_sends:
  assumes "encoded dep t" "dep \<le> max_depth" "length (obj_text [(''type'', quote ty), (''data'', t)]) < 200"
  shows "\<exists>b. send_data id_channel ty (Some t) (demo_conn []\<lparr> cn_wire := w \<rparr>) = (Inr (), demo_conn []\<lparr> cn_wire := w @ [b] \<rparr>)"
proof -
  have len: "length (obj_text [(''type'', quote ty), (''data'', t)]) < MaxRecordPlaintext"
    unfolding MaxRecordPlaintext_def by (rule less_trans[OF assms(3)]) simp
  have "t \<noteq> []" by (rule encoded_not_Nil[OF assms(1)])
  then show ?thesis
    using demo_envelope[where e = "\<lparr> env_Type = ty, env_ID = [], env_Data = t \<rparr>" and i = "[]" and q = 0, OF disjI2 assms(2)]
      assms(1) len
    by (auto simp: send_data_def marshalData_def omitempty_def demo_conn_def newConn_def)
qed

theorem turn_reaches_client_witness:
  "\<exists>(w' :: unit world) r. read_news 2 demo_floats id_channel (demo_conn []\<lparr> cn_inbox := cn_wire (w_conn w') \<rparr>) =
     (Inr [NChange \<lparr> fc_Op = ChangeDelete, fc_Path = ''a'', fc_Hash = [], fc_Mode = 0 \<rparr> [], NDone False 0 [] 0], r)"
proof -
  let ?ch = "\<lparr> fc_Op = ChangeDelete, fc_Path = ''a'', fc_Hash = [], fc_Mode = 0 \<rparr>"
  let ?fc = "marshal_FileChangeData (change_data ?ch 0 0)"
  have wf: "os_wf (w_os demo_world)" and dir: "osat (w_os demo_world) (loc (w_os demo_world) (ws_dir demo_ws)) = Some IDir"
    using demo_blob_facts(1,5) by (simp_all add: demo_world_def bs_inv_def)
  have snap: "ws_Snapshot demo_ws (w_os demo_world) = (Inr \<lparr> Entries = [] \<rparr>, demo_blob_os)"
    using demo_empty_snapshot by (simp add: demo_world_def)
  have diff: "Diff (sv_preTurn demo_service) \<lparr> Entries = [] \<rparr> = [?ch]"
    by (simp add: demo_service_def NewService_def demo_pre_def Diff_def diff_old_def ByPath_def file_entry_def rel_path_def)
  have "length (obj_text [(''type'', quote TypeFileChange), (''data'', ?fc)]) < 200" by code_simp
  from demo_sends[OF encoded_FileChangeData _ this, of "[]"] obtain b where
    b: "send_data id_channel TypeFileChange (Some ?fc) (demo_conn []) = (Inr (), demo_conn []\<lparr> cn_wire := [b] \<rparr>)"
    by (auto simp: max_depth_def demo_conn_def newConn_def)
  let ?td = "\<lparr> td_IsError = False, td_CostUSD = 0, td_Text = [], td_NumTurns = 0 \<rparr>"
  have "length (obj_text [(''type'', quote TypeTurnDone), (''data'', obj_text ((''isError'', bool_text False) #
      omitempty True ''text'' (quote []) @ omitempty True ''numTurns'' (int_text 0)))]) < 200" by code_simp
  then obtain t where t: "marshal_TurnDoneData demo_floats ?td = Some t" "length (obj_text [(''type'', quote TypeTurnDone), (''data'', t)]) < 200"
    by (simp add: marshal_TurnDoneData_def float_zero_def)
  from demo_sends[OF encoded_TurnDoneData[OF demo_floats_laws t(1)] _ t(2), of "[b]"] obtain b2 where
    b2: "send_data id_channel TypeTurnDone (Some t) (demo_conn []\<lparr> cn_wire := [b] \<rparr>) = (Inr (), demo_conn []\<lparr> cn_wire := [b, b2] \<rparr>)"
    by (auto simp: max_depth_def)
  let ?w' = "demo_world\<lparr> w_conn := demo_conn []\<lparr> cn_wire := [b, b2] \<rparr> \<rparr>"
  have sid: "fd_StreamID (change_data ?ch 0 0) = 0" by (simp add: change_data_def)
  have run: "finishTurn demo_world_deps (workspace_on demo_ws) (Some zero_TurnResult) (demo_service, demo_world) =
      (Inr (), (demo_service\<lparr> sv_preTurn := \<lparr> Entries = [] \<rparr> \<rparr>, ?w'))"
    using snap diff b b2 t(1) sid
    by (simp add: finishTurn_def turn_changes_def bindE_outside workspace_on_def on_os_def push_change_def notifier_on_def
        ws_notifier_def on_conn_def nt_FileChange_def nt_TurnDone_def turn_end_def outside_run zero_TurnResult_def demo_world_def)
  have rd: "wire_reads demo_floats id_channel (\<lambda>_ _. True) (demo_conn []) (w_conn demo_world) []"
    using transcript.nothing[of demo_floats id_channel "demo_conn []"] id_channel_secure demo_floats_laws
    by (auto simp: wire_reads_def demo_world_def demo_conn_def newConn_def pending_ok_def intro!: exI)
  have room: "length (Diff (sv_preTurn demo_service) \<lparr> Entries = [] \<rparr>) \<le> stream_room (w_conn demo_world)"
    using diff by (simp add: stream_room_def demo_world_def demo_conn_def newConn_def)
  have pre: "snapshot_like (sv_preTurn demo_service)" "portable (sv_preTurn demo_service)" "portable \<lparr> Entries = [] \<rparr>"
    using demo_pre_facts by (simp_all add: demo_service_def portable_def)
  have turns: "int64_range (tr_NumTurns zero_TurnResult)" by (simp add: int64_range_def zero_TurnResult_def)
  from turn_reaches_client [OF deps_simps(2) wf dir snap pre rd room turns run]
  obtain c r where "content_of demo_ws (w_os demo_world) ?ch c"
    and rn: "read_news (Suc (Suc 0)) demo_floats id_channel (demo_conn []\<lparr> cn_inbox := cn_wire (w_conn ?w') \<rparr>) =
      (Inr [NChange ?ch c, NDone False 0 [] 0], r)"
    unfolding diff by (auto simp: zero_TurnResult_def sent_cost_def simp del: read_news.simps)
  then have "c = []" by (simp add: content_of_def)
  then show ?thesis using rn by (intro exI[of _ ?w'] exI[of _ r]) (simp del: read_news.simps add: numeral_2_eq_2)
qed

end
