(* ===== verification/SessionStart.thy ===== *)
theory SessionStart
  imports EndToEnd
begin

text \<open>
  The start of a session, from the client's manifest to the workspace: the dispatcher is given the
  messages that the client's upload consists of, and the workspace it makes is the client's project.
\<close>

section \<open>The messages of an upload\<close>

definition start_msg :: "string \<Rightarrow> Manifest \<Rightarrow> Framed" where
  "start_msg name M =
     \<lparr> fr_Env = \<lparr> env_Type = TypeSessionStart, env_ID = [],
         env_Data = marshal_SessionStartData \<lparr> ss_ProjectName = name, ss_Manifest = fst (toDTO M) \<rparr> \<rparr>,
       fr_Content = [], fr_HasContent = False \<rparr>"

definition blob_msg :: "64 word \<Rightarrow> bytes \<Rightarrow> Framed" where
  "blob_msg sid c =
     \<lparr> fr_Env = \<lparr> env_Type = TypeBlob, env_ID = [],
         env_Data = marshal_BlobData \<lparr> bd_StreamID = sid, bd_Hash = HashContent c, bd_Size = int (length c) \<rparr> \<rparr>,
       fr_Content = c, fr_HasContent = True \<rparr>"

definition sync_msg :: Framed where
  "sync_msg = \<lparr> fr_Env = \<lparr> env_Type = TypeSyncDone, env_ID = [], env_Data = [] \<rparr>, fr_Content = [], fr_HasContent = False \<rparr>"

text \<open>A manifest as the client's walk makes it, of files that the server's walk does not skip and
  whose modes the server's umask leaves alone.\<close>

definition client_manifest :: "os \<Rightarrow> Manifest \<Rightarrow> bool" where
  "client_manifest s M \<longleftrightarrow> sorted_wrt (<) (map fe_Path (Entries M)) \<and>
     (\<forall>e \<in> set (Entries M). valid_utf8 (fe_Path e) \<and> (\<exists>q c m. e = file_entry q c m \<and> list_all plain_name q \<and>
        visible no_opts q \<and> Perm m \<noteq> 0 \<and> umasked s (Perm m) = Perm m \<and> length c < 2 ^ 63))"

section \<open>What the dispatcher makes of them\<close>

lemma manifest_over_the_wire:
  assumes "client_manifest s M"
  shows "toManifest (map fix_FileEntryDTO (fst (toDTO M))) = M" "\<forall>e \<in> set (fst (toDTO M)). int64_range (dto_Size e)"
proof -
  have "entry_of (fix_FileEntryDTO (dto_of e)) = e \<and> int64_range (fe_Size e)" if "e \<in> set (Entries M)" for e
  proof -
    obtain q c m where e: "e = file_entry q c m" "length c < 2 ^ 63" and u: "valid_utf8 (fe_Path e)"
      using assms \<open>e \<in> set (Entries M)\<close> unfolding client_manifest_def by blast
    have "valid_utf8 (fe_Hash e)" by (rule validHash_utf8) (simp add: e file_entry_def)
    then show ?thesis using u int64_length[OF e(2)] e(1)
      by (cases e) (simp add: entry_of_def fix_FileEntryDTO_def dto_of_def valid_utf8_def file_entry_def)
  qed
  then show "toManifest (map fix_FileEntryDTO (fst (toDTO M))) = M" "\<forall>e \<in> set (fst (toDTO M)). int64_range (dto_Size e)"
    by (cases M; force simp: toManifest_def toDTO_eq map_idI dto_of_def)+
qed

lemma reported_Inr: "reported say D m x = (Inr a, y) \<longleftrightarrow> m x = (Inr a, y)"
  by (auto simp: reported_def split: prod.splits sum.splits)

lemma handle_start:
  assumes "client_manifest s M"
  shows "handle_message say D (start_msg name M) x = (Inr out, y) \<longleftrightarrow>
    (\<exists>hs t. StartSession D (fix_utf8 name) M x = (Inr hs, t) \<and>
       outside (SyncRequest (dp_Notifier D) hs) t = (Inr (), y) \<and> out = Continue)"
  using manifest_over_the_wire[OF assms]
    unmarshal_SessionStartData[of "\<lparr> ss_ProjectName = name, ss_Manifest = fst (toDTO M) \<rparr>" TypeSessionStart "[]"]
  by (cases y) (auto simp: handle_message_def start_msg_def payload_def zero_SessionStartData_def fix_SessionStartData_def bindE_Inr_iff
      reported_Inr)

lemma handle_blob:
  assumes "length c < 2 ^ 63"
  shows "handle_message say D (blob_msg sid c) x = (Inr out, y) \<longleftrightarrow> PutBlob D (HashContent c) c x = (Inr (), y) \<and> out = Continue"
proof -
  have "valid_utf8 (HashContent c)" by (rule validHash_utf8) simp
  then show ?thesis
    using unmarshal_BlobData[of "\<lparr> bd_StreamID = sid, bd_Hash = HashContent c, bd_Size = int (length c) \<rparr>" TypeBlob "[]"]
      int64_length[OF assms]
    by (cases y) (auto simp: handle_message_def blob_msg_def payload_def zero_BlobData_def valid_utf8_def bindE_Inr_iff reported_Inr)
qed

lemma handle_sync:
  "handle_message say D sync_msg x = (Inr out, y) \<longleftrightarrow>
    (\<exists>sid t. svc_SyncDone D x = (Inr sid, t) \<and> outside (SessionReady (dp_Notifier D) sid) t = (Inr (), y) \<and> out = Continue)"
  by (cases y) (auto simp: handle_message_def sync_msg_def bindE_Inr_iff reported_Inr)

section \<open>The directories\<close>

lemma join_dirs:
  assumes "IsAbs d" "list_all plain_name (c # cs)"
  shows "path_comps (d @ slash # join_with slash (c # cs)) = path_comps d @ c # cs" "IsAbs (d @ slash # join_with slash (c # cs))"
proof -
  have ne: "d \<noteq> []" using assms(1) by auto
  have "split_on slash (join_with slash (c # cs)) = c # cs"
    by (rule split_join_with) (use assms(2) in \<open>auto simp: list_all_iff plain_name_def\<close>)
  then show "path_comps (d @ slash # join_with slash (c # cs)) = path_comps d @ c # cs"
    using path_comps_append[OF ne, of "join_with slash (c # cs)"] clean_go_plain[OF assms(2)] by simp
  show "IsAbs (d @ slash # join_with slash (c # cs))" using assms(1) ne by (simp add: IsAbs_append)
qed

lemma dirs:
  assumes "IsAbs dataDir"
  shows "loc s (blob_dir dataDir) = path_comps dataDir @ [''objects'']"
    and "plain_name sid \<Longrightarrow> loc s (session_dir dataDir sid) = path_comps dataDir @ [''sessions'', sid, ''workspace'']"
    and "IsAbs (session_dir dataDir sid)"
proof -
  have ne: "dataDir \<noteq> []" using assms by auto
  have pl: "plain_name ''objects''" "plain_name ''sessions''" "plain_name ''workspace''" by code_simp+
  have b: "blob_dir dataDir = Clean (dataDir @ slash # join_with slash [''objects''])"
    using ne by (simp add: blob_dir_def Join_def)
  show "loc s (blob_dir dataDir) = path_comps dataDir @ [''objects'']"
    unfolding b loc_def locate_def using join_dirs[OF assms, of "''objects''" "[]"] pl by simp
  have w: "session_dir dataDir sid = Clean (dataDir @ slash # join_with slash [''sessions'', sid, ''workspace''])"
    using ne by (simp add: session_dir_def Join_def)
  show "IsAbs (session_dir dataDir sid)" unfolding w using assms ne by (simp add: IsAbs_append)
  assume "plain_name sid"
  then show "loc s (session_dir dataDir sid) = path_comps dataDir @ [''sessions'', sid, ''workspace'']"
    unfolding w loc_def locate_def using join_dirs[OF assms, of "''sessions''" "[sid, ''workspace'']"] pl by simp
qed

text \<open>Making the workspace gives an empty directory, apart from the store.\<close>

lemma new_workspace:
  assumes "bs_inv b s" "bs_dir b = blob_dir dataDir" "IsAbs dataDir" "plain_name sid"
    and "NewWorkspace (session_dir dataDir sid) s = (Inr ws, s')"
  shows "ws = \<lparr> ws_dir = session_dir dataDir sid \<rparr>" "bs_inv b s'" "bs_held b s' = bs_held b s" "os_env s' = os_env s"
    "\<not> prefix (loc s' (session_dir dataDir sid)) (loc s' (bs_dir b))"
    "osat s' (loc s' (session_dir dataDir sid)) = Some IDir" "osat s' (loc s' (session_dir dataDir sid) @ c # q) = None"
proof -
  let ?dir = "session_dir dataDir sid"
  obtain s1 where s1: "os_RemoveAll ?dir s = (Inr (), s1)" "os_MkdirAll ?dir s1 = (Inr (), s')"
    and ws: "ws = \<lparr> ws_dir = ?dir \<rparr>"
    using assms(5) by (auto simp: NewWorkspace_def bindE_Inr_iff)
  show "ws = \<lparr> ws_dir = ?dir \<rparr>" by (rule ws)
  have wf: "os_wf s" using assms(1) by (simp add: bs_inv_def)
  note k1 = os_keepsD[OF os_keeps_RemoveAll wf s1(1)]
  note k2 = os_keepsD[OF os_keeps_MkdirAll _ s1(2)]
  have env: "os_wf s'" "os_env s' = os_env s" using k1 k2 by simp_all
  note d = dirs[OF assms(3)]
  note dir = d(2)[OF assms(4)]
  let ?L = "path_comps dataDir @ [''sessions'', sid, ''workspace'']"
  have a1: "osat s1 = (\<lambda>q. if prefix ?L q then None else osat s q)" using RemoveAll_Inr[OF s1(1)] dir by simp
  have a2: "osat s' = (\<lambda>q. if prefix q ?L then Some IDir else osat s1 q)"
    by (rule MkdirAll_cases[OF s1(2)]) (simp_all add: dir)
  have "osat s' (bs_loc b s h) = osat s (bs_loc b s h)" for h
    by (simp add: a1 a2 bs_loc_def assms(2) d(1))
  note f = bs_frame[OF assms(1) env(1,2) this]
  show "bs_inv b s'" "bs_held b s' = bs_held b s" "os_env s' = os_env s" by (rule f(1), rule f(2), rule env(2))
  show "\<not> prefix (loc s' ?dir) (loc s' (bs_dir b))" by (simp add: assms(2) d(1) dir)
  show "osat s' (loc s' ?dir) = Some IDir" by (simp add: dir a2)
  show "osat s' (loc s' ?dir @ c # q) = None" by (simp add: dir a1 a2 prefix_def)
qed

section \<open>The run\<close>

text \<open>\<open>each\<close> runs the dispatcher's step on messages one after the other, none of which ends it.\<close>

definition each_message :: "(error \<Rightarrow> string) \<Rightarrow> 's Deps \<Rightarrow> Framed list \<Rightarrow> ('s, unit) sprog" where
  "each_message say D msgs = forE msgs (\<lambda>m. bindE (handle_message say D m) (\<lambda>_. retE ()))"

lemma uploads_run:
  assumes "dp_Blobs D = blobs_on (fs_port b)"
  shows "\<forall>(i, c) \<in> set xs. length c < 2 ^ 63 \<Longrightarrow>
    each_message say D (map (\<lambda>(i, c). blob_msg i c) xs) (sv, w) = (Inr u, (sv', w')) \<Longrightarrow>
    sv' = sv \<and> w' = w\<lparr> w_os := w_os w' \<rparr> \<and>
    fs.upload b (map (\<lambda>(i, c). (HashContent c, c)) xs) (w_os w) = (Inr (), w_os w')"
proof (induction xs arbitrary: w)
  case Nil
  then show ?case by (simp add: each_message_def fs.upload_def)
next
  case (Cons x xs)
  obtain i c where x: "x = (i, c)" by (cases x)
  have len: "length c < 2 ^ 63" using Cons.prems(1) x by simp
  obtain sv1 w1 where w1: "PutBlob D (HashContent c) c (sv, w) = (Inr (), (sv1, w1))"
      "each_message say D (map (\<lambda>(i, c). blob_msg i c) xs) (sv1, w1) = (Inr u, (sv', w'))"
    using Cons.prems(2) x by (auto simp: each_message_def bindE_Inr_iff handle_blob[OF len])
  then have p: "sv1 = sv" "Put (fs_port b) (HashContent c) c (w_os w) = (Inr (), w_os w1)" "w1 = w\<lparr> w_os := w_os w1 \<rparr>"
    using assms by (simp_all add: PutBlob_def outside_iff blobs_on_def on_os_iff)
  have IH: "sv' = sv" "w' = w1\<lparr> w_os := w_os w' \<rparr>"
      "fs.upload b (map (\<lambda>(i, c). (HashContent c, c)) xs) (w_os w1) = (Inr (), w_os w')"
    using Cons.IH[of w1] Cons.prems(1) w1(2) p(1) by simp_all
  have "w' = w\<lparr> w_os := w_os w' \<rparr>" using IH(2) p(3) by (metis world.surjective world.update_convs(1))
  then show ?case using IH p(2) x by (simp add: fs.upload_def)
qed

lemma upload_env:
  assumes "os_wf s" "fs.upload b xs s = (r, s')"
  shows "os_env s' = os_env s"
proof -
  have "os_keeps (fs.upload b xs)"
    unfolding fs.upload_def by (intro os_keeps_for) (simp add: fs_port_def os_keeps_Put split: prod.split)
  then show ?thesis using os_keepsD assms by blast
qed

lemma SyncDone_runs:
  assumes "sv_agent sv = None" "svc_SyncDone (service_deps b dd u spawn rn fl S) (sv, w) = (Inr sid, (sv', w'))"
  obtains ws s1 s2 where "sid = u (w_ids w)" "NewWorkspace (session_dir dd sid) (w_os w) = (Inr ws, s1)"
    "ws_Materialize ws (fs_port b) (sv_manifest sv) s1 = (Inr (), s2)" "w_os w' = s2" "w_conn w' = w_conn w"
    "sv_ws sv' = Some (workspace_on ws)" "sv_agent sv' = Some (session_on cli_session)"
proof -
  let ?D = "service_deps b dd u spawn rn fl S" and ?sid = "u (w_ids w)" and ?w = "w\<lparr> w_ids := Suc (w_ids w) \<rparr>"
  obtain r1 s1 where nw: "NewWorkspace (session_dir dd ?sid) (w_os w) = (r1, s1)" by (metis prod.collapse)
  obtain ws where r1: "r1 = Inr ws"
    using assms nw by (cases r1) (simp_all add: svc_SyncDone_def bindE_outside new_id_def new_workspace_run)
  obtain r2 s2 where m: "ws_Materialize ws (fs_port b) (sv_manifest sv) s1 = (r2, s2)" by (metis prod.collapse)
  have run: "bindE (outside (on_os (ws_Materialize ws (fs_port b) (sv_manifest sv)))) (\<lambda>_.
      bindE (outside (dp_Agent ?D ?sid (ws_dir ws))) (\<lambda>agent.
      bindE (set_sv (\<lambda>sv. sv\<lparr> sv_agent := Some agent, sv_pump_started := True \<rparr>)) (\<lambda>_. retE ?sid)))
      (sv\<lparr> sv_sessionID := ?sid, sv_ws := Some (workspace_on ws) \<rparr>, ?w\<lparr> w_os := s1 \<rparr>) = (Inr sid, (sv', w'))"
    using assms nw r1 by (simp add: svc_SyncDone_def bindE_outside new_id_def new_workspace_run materialize_on workspace_on_def)
  have r2: "r2 = Inr ()" using run m by (cases r2) (simp_all add: bindE_outside on_os_def)
  obtain pr where "spawn (start_command rn ?sid (ws_dir ws)) \<lparr> rb_buf = [], rb_max = 8 * 1024 \<rparr> = Inr pr"
    using run m r2
    by (cases "spawn (start_command rn ?sid (ws_dir ws)) \<lparr> rb_buf = [], rb_max = 8 * 1024 \<rparr>")
       (simp_all add: bindE_outside on_os_def agent_run)
  then show ?thesis
    using that[of ws s1 s2] run m r1 r2 nw by (auto simp: bindE_outside on_os_def agent_run)
qed

text \<open>The stages of a start that succeeds: what is asked for, the upload, the workspace.\<close>

lemma start_stages:
  assumes "client_manifest s0 M" and "\<forall>(i, c) \<in> set xs. length c < 2 ^ 63"
    and "each_message say (service_deps b dataDir uuid spawn rn fl S) (start_msg name M # map (\<lambda>(i, c). blob_msg i c) xs @ [sync_msg])
      (NewService, w) = (Inr (), (sv', w'))"
  obtains hs w1 s2 ws s1 w3 where
    "missing_hashes (fs_port b) {} [] (Entries M) (w_os w) = (Inr hs, w_os w)"
    "SyncRequest (notifier_on (ws_notifier fl S)) hs w = (Inr (), w1)"
    "fs.upload b (map (\<lambda>(i, c). (HashContent c, c)) xs) (w_os w) = (Inr (), s2)"
    "NewWorkspace (session_dir dataDir (uuid (w_ids w))) s2 = (Inr ws, s1)"
    "ws_Materialize ws (fs_port b) M s1 = (Inr (), w_os w')"
    "w_conn w3 = w_conn w1" "SessionReady (notifier_on (ws_notifier fl S)) (uuid (w_ids w)) w3 = (Inr (), w')"
    "sv_ws sv' = Some (workspace_on ws)" "sv_agent sv' = Some (session_on cli_session)"
proof -
  let ?D = "service_deps b dataDir uuid spawn rn fl S" and ?sid = "uuid (w_ids w)"
  obtain sv1 w1 sv2 w2 where
    start: "handle_message say ?D (start_msg name M) (NewService, w) = (Inr Continue, (sv1, w1))"
    and blobs: "each_message say ?D (map (\<lambda>(i, c). blob_msg i c) xs) (sv1, w1) = (Inr (), (sv2, w2))"
    and sync: "handle_message say ?D sync_msg (sv2, w2) = (Inr Continue, (sv', w'))"
    using assms(3) by (auto simp: each_message_def forE_append bindE_Inr_iff handle_start[OF assms(1)] handle_sync)
  obtain hs t where hs: "StartSession ?D (fix_utf8 name) M (NewService, w) = (Inr hs, t)"
      "outside (SyncRequest (notifier_on (ws_notifier fl S)) hs) t = (Inr (), (sv1, w1))"
    using start by (auto simp: handle_start[OF assms(1)])
  have miss: "missing_hashes (fs_port b) {} [] (Entries M) (w_os w) = (Inr hs, w_os w)" and t: "t = (NewService\<lparr> sv_manifest := M \<rparr>, w)"
    using hs(1) fs.missing_hashes_state[of b "{}" "[]" "Entries M" "w_os w"]
    by (auto simp: StartSession_def missing_hashes_on outside_run on_os_def prod_eq_iff split: prod.splits)
  have w1: "sv1 = NewService\<lparr> sv_manifest := M \<rparr>" "SyncRequest (notifier_on (ws_notifier fl S)) hs w = (Inr (), w1)"
    using hs(2) t by (simp_all add: outside_iff)
  have w1': "w_os w1 = w_os w" "w_ids w1 = w_ids w" using w1(2) by (auto simp: notifier_on_def on_conn_def split: prod.splits)
  have up: "sv2 = sv1" "w2 = w1\<lparr> w_os := w_os w2 \<rparr>" "fs.upload b (map (\<lambda>(i, c). (HashContent c, c)) xs) (w_os w) = (Inr (), w_os w2)"
    using uploads_run[OF deps_simps(1) assms(2) blobs] w1'(1) by simp_all
  have w2: "w_conn w2 = w_conn w1" "w_ids w2 = w_ids w" using arg_cong[OF up(2), of w_conn] arg_cong[OF up(2), of w_ids] w1' by simp_all
  obtain sid y where sd: "svc_SyncDone ?D (sv2, w2) = (Inr sid, y)"
      "outside (SessionReady (notifier_on (ws_notifier fl S)) sid) y = (Inr (), (sv', w'))"
    using sync by (auto simp: handle_sync)
  obtain w3 where y: "y = (sv', w3)" and ready: "SessionReady (notifier_on (ws_notifier fl S)) sid w3 = (Inr (), w')"
    using sd(2) by (cases y) (auto simp: outside_iff)
  have fresh: "sv_agent sv2 = None" "sv_manifest sv2 = M" using up(1) w1(1) by (simp_all add: NewService_def)
  obtain ws s1 s2 where ws: "sid = uuid (w_ids w2)" "NewWorkspace (session_dir dataDir sid) (w_os w2) = (Inr ws, s1)"
    "ws_Materialize ws (fs_port b) (sv_manifest sv2) s1 = (Inr (), s2)" "w_os w3 = s2" "w_conn w3 = w_conn w2"
    "sv_ws sv' = Some (workspace_on ws)" "sv_agent sv' = Some (session_on cli_session)"
    using SyncDone_runs[OF fresh(1) sd(1)[unfolded y]] by blast
  have sid: "sid = ?sid" using ws(1) w2(2) by simp
  have "w_os w' = w_os w3" using ready by (auto simp: notifier_on_def on_conn_def split: prod.splits)
  then show thesis
    using that[OF miss w1(2) up(3) ws(2)[unfolded sid] _ _ ready[unfolded sid] ws(6,7)] ws(3-5) fresh(2) w2(1) by simp
qed

text \<open>After the upload the store has the content of every entry, of the entry's size.\<close>

lemma start_uploaded:
  assumes inv: "bs_inv b s0" and M: "client_manifest s0 M"
    and size: "\<forall>e \<in> set (Entries M). \<forall>c. (bs_held b s0 (fe_Hash e) = Some c \<or> c \<in> snd ` set xs \<and> HashContent c = fe_Hash e) \<longrightarrow>
      int (length c) = fe_Size e"
    and sent: "set hs \<subseteq> HashContent ` snd ` set xs"
    and miss: "missing_hashes (fs_port b) {} [] (Entries M) s0 = (Inr hs, s0)"
    and up: "fs.upload b (map (\<lambda>(i, c). (HashContent c, c)) xs) s0 = (Inr (), s2)"
    and s1: "bs_held b s1 = bs_held b s2" "os_env s1 = os_env s0"
  shows "uploaded b s1 M"
  unfolding uploaded_def
proof (intro conjI ballI)
  show "sorted_wrt (<) (map fe_Path (Entries M))" using M by (simp add: client_manifest_def)
  note up_ok = fs.upload_ok[OF inv up]
  fix e assume e: "e \<in> set (Entries M)"
  obtain q c0 m where q: "e = file_entry q c0 m" "list_all plain_name q" "visible no_opts q" "Perm m \<noteq> 0"
      "umasked s0 (Perm m) = Perm m"
    using M e unfolding client_manifest_def by blast
  have "set hs \<subseteq> fst ` set (map (\<lambda>(i, c). (HashContent c, c)) xs)" using sent by force
  from fs.negotiated[OF inv miss up this e] obtain c where
    c: "bs_held b s2 (fe_Hash e) = Some c" "HashContent c = fe_Hash e" by blast
  have "bs_held b s0 (fe_Hash e) = Some c \<or> c \<in> snd ` set xs"
  proof (cases "map_of (rev (map (\<lambda>(i, c). (HashContent c, c)) xs)) (fe_Hash e)")
    case None
    then show ?thesis using c(1) up_ok by (simp add: map_add_def)
  next
    case (Some c')
    then have "c' = c" using c(1) up_ok by (simp add: map_add_def)
    have "(fe_Hash e, c') \<in> set (rev (map (\<lambda>(i, c). (HashContent c, c)) xs))" by (rule map_of_SomeD[OF Some])
    then show ?thesis using \<open>c' = c\<close> by force
  qed
  then have "int (length c) = fe_Size e" using size e c(2) by blast
  then have "e = file_entry q c m" using q(1) c(2) by (simp add: file_entry_def)
  moreover have "umasked s1 (Perm m) = Perm m" using q(5) s1(2) by (simp add: umasked_def os_env_def)
  moreover have "bs_held b s1 (HashContent c) = Some c" using c s1(1) by simp
  ultimately show "\<exists>q c m. e = file_entry q c m \<and> list_all plain_name q \<and> visible no_opts q \<and> Perm m \<noteq> 0 \<and>
      umasked s1 (Perm m) = Perm m \<and> bs_held b s1 (HashContent c) = Some c" using q(2-4) by blast
qed

text \<open>What the client reads meanwhile.\<close>

lemma start_reads:
  assumes "wire_reads fl S R r0 (w_conn w) []" "\<And>h. h \<in> set hs \<Longrightarrow> validHash h"
    and "SyncRequest (notifier_on (ws_notifier fl S)) hs w = (Inr (), w1)" "w_conn w3 = w_conn w1"
    and "SessionReady (notifier_on (ws_notifier fl S)) sid w3 = (Inr (), w')"
  shows "\<exists>r. read_news 2 fl S (r0\<lparr> cn_inbox := cn_wire (w_conn w') \<rparr>) = (Inr [NMissing hs, NReady (fix_utf8 sid)], r)"
proof -
  have "map fix_utf8 hs = hs" using assms(2) validHash_utf8 by (intro map_idI) (auto simp: valid_utf8_def)
  then have "wire_reads fl S R r0 (w_conn w3) [NMissing hs]" using world.missing[OF assms(1,3)] assms(4) by simp
  from world.ready[OF this assms(5)] obtain r where
    "transcript fl S r0 (cn_wire (w_conn w')) [NMissing hs, NReady (fix_utf8 sid)] r" by (auto simp: wire_reads_def)
  from transcript_read[OF this, of "[]"] show ?thesis by (auto simp: numeral_2_eq_2)
qed

text \<open>
  C2. The session's workspace is the client's project. The dispatcher of a fresh connection is given
  the manifest of a project, contents, and the end of the upload, and handles them without an error.
  Then what the client read on the way is the list of exactly those contents that the store did not
  hold, and that the session is ready; and a snapshot of the session's workspace is the client's
  manifest. It is supposed that the client sent what it was asked for, and that the sizes in the
  manifest are those of the contents.
\<close>

theorem session_starts_from_project:
  assumes "bs_inv b (w_os w)" and "bs_dir b = blob_dir dataDir" and "IsAbs dataDir" and "plain_name (uuid (w_ids w))"
    and "client_manifest (w_os w) M" and "\<forall>(i, c) \<in> set xs. length c < 2 ^ 63"
    and "\<forall>e \<in> set (Entries M). \<forall>c. (bs_held b (w_os w) (fe_Hash e) = Some c \<or> c \<in> snd ` set xs \<and> HashContent c = fe_Hash e) \<longrightarrow>
      int (length c) = fe_Size e"
    and "\<forall>e \<in> set (Entries M). bs_held b (w_os w) (fe_Hash e) = None \<longrightarrow> fe_Hash e \<in> HashContent ` snd ` set xs"
    and "wire_reads fl S R r0 (w_conn w) []"
    and "each_message say (service_deps b dataDir uuid spawn rn fl S) (start_msg name M # map (\<lambda>(i, c). blob_msg i c) xs @ [sync_msg])
      (NewService, w) = (Inr (), (sv', w'))"
  shows "\<exists>hs r. read_news 2 fl S (r0\<lparr> cn_inbox := cn_wire (w_conn w') \<rparr>) = (Inr [NMissing hs, NReady (fix_utf8 (uuid (w_ids w)))], r) \<and>
    set hs = {h \<in> fe_Hash ` set (Entries M). bs_held b (w_os w) h = None} \<and> distinct hs \<and>
    sv_ws sv' = Some (session_ws dataDir uuid (w_ids w)) \<and> sv_agent sv' \<noteq> None \<and>
    (\<forall>M' s. ws_Snapshot \<lparr> ws_dir = session_dir dataDir (uuid (w_ids w)) \<rparr> (w_os w') = (Inr M', s) \<longrightarrow> M' = M)"
proof -
  let ?sid = "uuid (w_ids w)"
  obtain hs w1 s2 ws s1 w3 where
    miss: "missing_hashes (fs_port b) {} [] (Entries M) (w_os w) = (Inr hs, w_os w)"
    and ask: "SyncRequest (notifier_on (ws_notifier fl S)) hs w = (Inr (), w1)"
    and up: "fs.upload b (map (\<lambda>(i, c). (HashContent c, c)) xs) (w_os w) = (Inr (), s2)"
    and new: "NewWorkspace (session_dir dataDir ?sid) s2 = (Inr ws, s1)"
    and mat: "ws_Materialize ws (fs_port b) M s1 = (Inr (), w_os w')"
    and conn: "w_conn w3 = w_conn w1" and ready: "SessionReady (notifier_on (ws_notifier fl S)) ?sid w3 = (Inr (), w')"
    and sv: "sv_ws sv' = Some (workspace_on ws)" "sv_agent sv' = Some (session_on cli_session)"
    by (rule start_stages[OF assms(5,6,10)])
  have hs: "set hs = {h \<in> fe_Hash ` set (Entries M). bs_held b (w_os w) h = None}" "distinct hs"
    using fs.missing_hashes_ok[OF assms(1) miss] by auto
  have "validHash h" if "h \<in> set hs" for h
    using that hs(1) assms(5) by (auto simp: client_manifest_def file_entry_def)
  from start_reads[OF assms(9) this ask conn ready] obtain r where
    read: "read_news 2 fl S (r0\<lparr> cn_inbox := cn_wire (w_conn w') \<rparr>) = (Inr [NMissing hs, NReady (fix_utf8 ?sid)], r)" by blast
  have inv: "bs_inv b s2" using fs.upload_ok[OF assms(1) up] by blast
  note nw = new_workspace[OF inv assms(2-4) new]
  have "os_env s2 = os_env (w_os w)" using upload_env[OF _ up] assms(1) by (simp add: bs_inv_def)
  then have env: "os_env s1 = os_env (w_os w)" using nw(4) by simp
  have "set hs \<subseteq> HashContent ` snd ` set xs" using hs(1) assms(8) by (auto simp del: image_image)
  from start_uploaded[OF assms(1,5,7) this miss up nw(3) env] have up_M: "uploaded b s1 M" .
  have dir: "ws_dir ws = session_dir dataDir ?sid" using nw(1) by simp
  have empty: "\<forall>c q. osat s1 (loc s1 (ws_dir ws) @ c # q) = None" using nw(7) dir by simp
  have "M' = M" if "ws_Snapshot ws (w_os w') = (Inr M', s)" for M' s
    by (rule snapshot_of_materialized[OF nw(2) _ _ _ empty up_M mat, unfolded dir])
       (use nw(5,6) dirs(3)[OF assms(3), of ?sid] dir that in simp_all)
  then show ?thesis
    using read hs sv nw(1) by (intro exI[of _ hs] exI[of _ r]) (simp add: session_ws_def)
qed

section \<open>Witness\<close>

text \<open>A store below \<^verbatim>\<open>/d\<close> that already holds the only content of the project.\<close>

definition demo_data_os :: os where
  "demo_data_os = demo_os (NDir [(''d'', NDir [(''objects'', NDir [(HashContent [1], NFile [1] 0x180)])])])"

definition demo_data_store :: BlobStore where
  "demo_data_store = \<lparr> bs_dir = blob_dir ''/d'' \<rparr>"

definition demo_start_world :: "unit world" where
  "demo_start_world = \<lparr> w_os = demo_data_os, w_conn = demo_conn [], w_agent = None, w_ids = 0 \<rparr>"

abbreviation demo_data_deps :: "unit world Deps" where
  "demo_data_deps \<equiv> service_deps demo_data_store ''/d'' demo_uuid demo_spawn NewRunner demo_floats id_channel"

lemma demo_data_facts:
  "bs_inv demo_data_store demo_data_os" "no_faults demo_data_os"
  "osat demo_data_os (loc demo_data_os (bs_dir demo_data_store)) = Some IDir"
  "bs_held demo_data_store demo_data_os (HashContent [1]) = Some [1]" "plain_name (demo_uuid 0)"
proof -
  have l: "loc demo_data_os (bs_dir demo_data_store) = [''d'', ''objects'']"
    using dirs(1)[of "''/d''" demo_data_os] by (simp add: demo_data_store_def path_comps_def plain_name_def clean_step_def)
  have "wf_node (os_tree demo_data_os)"
    by (simp add: demo_data_os_def validHash_plain plain_name_def[of "''d''"] plain_name_def[of "''objects''"])
  then have wf: "os_wf demo_data_os" by (simp add: os_wf_def demo_data_os_def osat_def)
  have at: "osat demo_data_os [''d'', ''objects'', h] = (if h = HashContent [1] then Some (IFile [1] 0x180) else None)" for h
    by (simp add: demo_data_os_def osat_def)
  show "bs_inv demo_data_store demo_data_os"
    using wf at by (auto simp: bs_inv_def bs_loc_def l split: if_splits) (simp add: demo_data_store_def blob_dir_def Join_def)
  show "no_faults demo_data_os" by (simp add: no_faults_def demo_data_os_def)
  show "osat demo_data_os (loc demo_data_os (bs_dir demo_data_store)) = Some IDir"
    unfolding l by (simp add: demo_data_os_def osat_def)
  show "bs_held demo_data_store demo_data_os (HashContent [1]) = Some [1]" using at by (simp add: bs_held_def bs_loc_def l)
  show "plain_name (demo_uuid 0)" by code_simp
qed

lemma demo_session_made:
  obtains s1 s2 where "NewWorkspace (session_dir ''/d'' (demo_uuid 0)) demo_data_os = (Inr \<lparr> ws_dir = session_dir ''/d'' (demo_uuid 0) \<rparr>, s1)"
    "ws_Materialize \<lparr> ws_dir = session_dir ''/d'' (demo_uuid 0) \<rparr> (fs_port demo_data_store) demo_manifest s1 = (Inr (), s2)"
proof -
  let ?dir = "session_dir ''/d'' (demo_uuid 0)" and ?ws = "\<lparr> ws_dir = session_dir ''/d'' (demo_uuid 0) \<rparr>"
  have abs: "IsAbs ''/d''" by simp
  have l: "loc demo_data_os ?dir = [''d'', ''sessions'', demo_uuid 0, ''workspace'']"
    using dirs(2)[OF abs demo_data_facts(5)] by (simp add: path_comps_def plain_name_def clean_step_def)
  have rm: "os_RemoveAll ?dir demo_data_os = (Inr (), demo_data_os)"
  proof -
    have "look (os_tree demo_data_os) [''d'', ''sessions'', demo_uuid 0, ''workspace''] = Inl ENOENT"
      by (simp add: demo_data_os_def)
    then show ?thesis using demo_data_facts(2) l by (simp add: os_RemoveAll_def sys_def no_faults_def)
  qed
  have "\<exists>s1. os_MkdirAll ?dir demo_data_os = (Inr (), s1)"
  proof (rule MkdirAll_ok)
    show "os_fault demo_data_os SysMkdir (loc demo_data_os ?dir) = None" by (simp add: demo_data_os_def)
    fix q i assume "prefix q (loc demo_data_os ?dir)" "osat demo_data_os q = Some i"
    then show "i = IDir" unfolding l by (auto simp: prefix_Cons demo_data_os_def osat_def)
  qed
  then obtain s1 where mk: "os_MkdirAll ?dir demo_data_os = (Inr (), s1)" by blast
  then have nw: "NewWorkspace ?dir demo_data_os = (Inr ?ws, s1)" using rm by (simp add: NewWorkspace_def)
  note f = new_workspace[OF demo_data_facts(1) _ abs demo_data_facts(5) nw]
  have b: "bs_dir demo_data_store = blob_dir ''/d''" by (simp add: demo_data_store_def)
  have wf: "os_wf s1" using f(2)[OF b] by (simp add: bs_inv_def)
  have nf: "no_faults s1" using demo_data_facts(2) no_faults_env[OF f(4)[OF b]] by simp
  have mat: "materializable demo_data_store s1 (Entries demo_manifest)"
  proof -
    have pl: "list_all plain_name [''a'', ''b.txt'']" by code_simp
    show ?thesis using f(3)[OF b] demo_data_facts(4) rel_path_comps[OF pl]
      by (simp add: materializable_def demo_manifest_def file_entry_def escapes_def)
  qed
  have tree: "partial_tree s1 (loc s1 (ws_dir ?ws)) []" using f(7)[OF b] by (simp add: partial_tree_def)
  have "\<exists>s2. materialize_entry ?ws (Get (fs_port demo_data_store)) (hd (Entries demo_manifest)) s1 = (Inr (), s2)"
    by (rule materialize_entry_ok[OF f(2)[OF b] _ _ nf mat _ _ wf refl _ _ tree])
       (use f(5,6)[OF b] dirs(3)[OF abs] in \<open>simp_all add: demo_manifest_def\<close>)
  then obtain s2 where "ws_Materialize ?ws (fs_port demo_data_store) demo_manifest s1 = (Inr (), s2)"
    by (auto simp: ws_Materialize_def demo_manifest_def)
  then show ?thesis using that nw by blast
qed

lemma demo_client_manifest: "client_manifest demo_data_os demo_manifest"
proof -
  have pl: "list_all plain_name [''a'', ''b.txt'']" "visible no_opts [''a'', ''b.txt'']" by code_simp+
  have um: "umasked demo_data_os (Perm 0x1ED) = Perm 0x1ED" "Perm 0x1ED \<noteq> 0"
    unfolding umasked_def demo_data_os_def demo_os_def os.select_convs by code_simp+
  have "valid_utf8 (rel_path [''a'', ''b.txt''])"
    by (simp add: rel_path_def valid_utf8_def fix_utf8_ascii code_def)
  then show ?thesis using pl um
    by (auto simp: client_manifest_def demo_manifest_def fe_Path_file_entry
        intro!: exI[of _ "[''a'', ''b.txt'']"] exI[of _ "[1]"] exI[of _ "0x1ED"])
qed

lemma demo_session_run:
  obtains sv' w' where "each_message (\<lambda>_. []) demo_data_deps (start_msg ''p'' demo_manifest # map (\<lambda>(i, c). blob_msg i c) [] @ [sync_msg])
    (NewService, demo_start_world) = (Inr (), (sv', w'))"
proof -
  let ?ws = "\<lparr> ws_dir = session_dir ''/d'' (demo_uuid 0) \<rparr>" and ?e = "file_entry [''a'', ''b.txt''] [1] 0x1ED"
  obtain s1 s2 where s: "NewWorkspace (session_dir ''/d'' (demo_uuid 0)) demo_data_os = (Inr ?ws, s1)"
    "ws_Materialize ?ws (fs_port demo_data_store) demo_manifest s1 = (Inr (), s2)" by (rule demo_session_made)
  have "Has (fs_port demo_data_store) (HashContent [1]) demo_data_os = (Inr True, demo_data_os)"
    using bs_Has_ok[OF demo_data_facts(1-3) validHash_HashContent, of "[1]"] demo_data_facts(4) by (simp add: fs_port_def)
  then have hs: "missing_hashes (fs_port demo_data_store) {} [] (Entries demo_manifest) demo_data_os = (Inr [], demo_data_os)"
    by (simp add: demo_manifest_def file_entry_def)
  let ?t1 = "marshal_SyncRequestData \<lparr> sr_Missing = [] \<rparr>" and ?t2 = "marshal_SessionReadyData \<lparr> rd_SessionID = demo_uuid 0 \<rparr>"
  have "length (obj_text [(''type'', quote TypeSyncRequest), (''data'', ?t1)]) < 200" by code_simp
  from demo_sends[OF encoded_SyncRequestData _ this, of "[]"] obtain b1 where
    b1: "send_data id_channel TypeSyncRequest (Some ?t1) (demo_conn []) = (Inr (), demo_conn []\<lparr> cn_wire := [b1] \<rparr>)"
    by (auto simp: max_depth_def demo_conn_def newConn_def)
  have "length (obj_text [(''type'', quote TypeSessionReady), (''data'', ?t2)]) < 200" by code_simp
  from demo_sends[OF encoded_SessionReadyData _ this, of "[b1]"] obtain b2 where
    b2: "send_data id_channel TypeSessionReady (Some ?t2) (demo_conn []\<lparr> cn_wire := [b1] \<rparr>) = (Inr (), demo_conn []\<lparr> cn_wire := [b1, b2] \<rparr>)"
    by (auto simp: max_depth_def)
  let ?sv = "NewService\<lparr> sv_manifest := demo_manifest \<rparr>" and ?w = "demo_start_world\<lparr> w_conn := demo_conn []\<lparr> cn_wire := [b1] \<rparr> \<rparr>"
  have "StartSession demo_data_deps (fix_utf8 ''p'') demo_manifest (NewService, demo_start_world) = (Inr [], (?sv, demo_start_world))"
    using hs by (simp add: StartSession_def missing_hashes_on outside_run on_os_def demo_start_world_def)
  moreover have "outside (SyncRequest (dp_Notifier demo_data_deps) []) (?sv, demo_start_world) = (Inr (), (?sv, ?w))"
    using b1 by (simp add: outside_run notifier_on_def ws_notifier_def nt_SyncRequest_def on_conn_def demo_start_world_def)
  ultimately have h1: "handle_message (\<lambda>_. []) demo_data_deps (start_msg ''p'' demo_manifest) (NewService, demo_start_world) = (Inr Continue, (?sv, ?w))"
    by (subst handle_start[OF demo_client_manifest]) blast
  obtain sv' w3 where sd: "svc_SyncDone demo_data_deps (?sv, ?w) = (Inr (demo_uuid 0), (sv', w3))" "w_conn w3 = w_conn ?w"
    using s by (simp add: svc_SyncDone_def NewService_def bindE_outside new_id_def new_workspace_run materialize_on
        on_os_def agent_run demo_spawn_def demo_start_world_def)
  have "outside (SessionReady (dp_Notifier demo_data_deps) (demo_uuid 0)) (sv', w3) =
      (Inr (), (sv', w3\<lparr> w_conn := demo_conn []\<lparr> cn_wire := [b1, b2] \<rparr> \<rparr>))"
    using b2 sd(2) by (simp add: outside_run notifier_on_def ws_notifier_def nt_SessionReady_def on_conn_def)
  then have h2: "handle_message (\<lambda>_. []) demo_data_deps sync_msg (?sv, ?w) = (Inr Continue, (sv', w3\<lparr> w_conn := demo_conn []\<lparr> cn_wire := [b1, b2] \<rparr> \<rparr>))"
    using sd(1) by (subst handle_sync) blast
  show ?thesis using that h1 h2 by (simp add: each_message_def)
qed

theorem session_starts_from_project_witness:
  "\<exists>(w' :: unit world) r. read_news 2 demo_floats id_channel (demo_conn []\<lparr> cn_inbox := cn_wire (w_conn w') \<rparr>) =
     (Inr [NMissing [], NReady (fix_utf8 (demo_uuid 0))], r)"
proof -
  obtain sv' w' where run: "each_message (\<lambda>_. []) demo_data_deps (start_msg ''p'' demo_manifest # map (\<lambda>(i, c). blob_msg i c) [] @ [sync_msg])
    (NewService, demo_start_world) = (Inr (), (sv', w'))" by (rule demo_session_run)
  have w: "w_os demo_start_world = demo_data_os" "w_ids demo_start_world = 0" by (simp_all add: demo_start_world_def)
  have rd: "wire_reads demo_floats id_channel (\<lambda>_ _. True) (demo_conn []) (w_conn demo_start_world) []"
    using transcript.nothing[of demo_floats id_channel "demo_conn []"] id_channel_secure demo_floats_laws
    by (auto simp: wire_reads_def demo_start_world_def demo_conn_def newConn_def pending_ok_def intro!: exI)
  have b: "bs_dir demo_data_store = blob_dir ''/d''" and abs: "IsAbs ''/d''" by (simp_all add: demo_data_store_def)
  have one: "\<forall>e \<in> set (Entries demo_manifest). \<forall>c. (bs_held demo_data_store (w_os demo_start_world) (fe_Hash e) = Some c \<or>
      c \<in> snd ` set ([] :: (64 word \<times> bytes) list) \<and> HashContent c = fe_Hash e) \<longrightarrow> int (length c) = fe_Size e"
    and all: "\<forall>e \<in> set (Entries demo_manifest). bs_held demo_data_store (w_os demo_start_world) (fe_Hash e) = None \<longrightarrow>
      fe_Hash e \<in> HashContent ` snd ` set ([] :: (64 word \<times> bytes) list)"
    and none: "bs_held demo_data_store (w_os demo_start_world) ` fe_Hash ` set (Entries demo_manifest) = {Some [1]}"
    using demo_data_facts(4) by (simp_all add: w demo_manifest_def file_entry_def)
  have short: "\<forall>(i, c) \<in> set ([] :: (64 word \<times> bytes) list). length c < 2 ^ 63" by simp
  have inv: "bs_inv demo_data_store (w_os demo_start_world)" "plain_name (demo_uuid (w_ids demo_start_world))"
    "client_manifest (w_os demo_start_world) demo_manifest"
    using demo_data_facts(1,5) demo_client_manifest by (simp_all only: w)
  from session_starts_from_project [OF inv(1) b abs inv(2,3) short one all rd run]
  obtain hs r where hs: "read_news 2 demo_floats id_channel (demo_conn []\<lparr> cn_inbox := cn_wire (w_conn w') \<rparr>) =
      (Inr [NMissing hs, NReady (fix_utf8 (demo_uuid (w_ids demo_start_world)))], r)"
    "set hs = {h \<in> fe_Hash ` set (Entries demo_manifest). bs_held demo_data_store (w_os demo_start_world) h = None}"
    by blast
  have nn: "bs_held demo_data_store (w_os demo_start_world) h \<noteq> None" if "h \<in> fe_Hash ` set (Entries demo_manifest)" for h
    using none that by (metis image_eqI option.distinct(1) singletonD)
  have "x \<notin> set hs" for x unfolding hs(2) mem_Collect_eq using nn[of x] by (simp only: de_Morgan_conj) blast
  then have "hs = []" by (metis list.set_intros(1) neq_Nil_conv)
  then show ?thesis using hs(1) unfolding w by blast
qed

end
