(* ===== verification/Flags.thy ===== *)
theory Flags
  imports Server
begin

text \<open>
  The command line: what \<^verbatim>\<open>flag.Parse\<close> makes of the arguments for the flags that a command
  has declared, with \<^verbatim>\<open>strconv.ParseBool\<close> and \<^verbatim>\<open>strconv.ParseInt\<close> for the values.
\<close>

section \<open>Values\<close>

definition ParseBool :: "string \<Rightarrow> bool option" where
  "ParseBool s =
     (if s \<in> {''1'', ''t'', ''T'', ''TRUE'', ''true'', ''True''} then Some True
      else if s \<in> {''0'', ''f'', ''F'', ''FALSE'', ''false'', ''False''} then Some False else None)"

text \<open>The digit of a base up to 36, in either case.\<close>

definition int_digit :: "nat \<Rightarrow> char \<Rightarrow> nat option" where
  "int_digit base c =
     (let d = (if CHR ''0'' \<le> c \<and> c \<le> CHR ''9'' then of_char c - 48
        else if CHR ''a'' \<le> c \<and> c \<le> CHR ''z'' then of_char c - 87
        else if CHR ''A'' \<le> c \<and> c \<le> CHR ''Z'' then of_char c - 55 else 36)
      in if d < base then Some d else None)"

text \<open>The loop of \<^verbatim>\<open>ParseUint\<close> for base 0, where underscores are allowed.\<close>

fun uint_digits :: "nat \<Rightarrow> nat \<Rightarrow> string \<Rightarrow> nat option" where
  "uint_digits base n [] = Some n"
| "uint_digits base n (c # cs) =
     (if c = CHR ''_'' then uint_digits base n cs
      else case int_digit base c of None \<Rightarrow> None | Some d \<Rightarrow> uint_digits base (base * n + d) cs)"

text \<open>\<^verbatim>\<open>underscoreOK\<close>: \<open>last\<close> is the kind of the last character, a digit or base prefix, an
  underscore, or none of them.\<close>

datatype last_seen = SeenNothing | SeenDigit | SeenUnderscore | SeenOther

fun underscores_ok :: "bool \<Rightarrow> last_seen \<Rightarrow> string \<Rightarrow> bool" where
  "underscores_ok hex l [] \<longleftrightarrow> l \<noteq> SeenUnderscore"
| "underscores_ok hex l (c # cs) \<longleftrightarrow>
     (if int_digit (if hex then 16 else 10) c \<noteq> None then underscores_ok hex SeenDigit cs
      else if c = CHR ''_'' then l = SeenDigit \<and> underscores_ok hex SeenUnderscore cs
      else l \<noteq> SeenUnderscore \<and> underscores_ok hex SeenOther cs)"

definition base_prefix :: "string \<Rightarrow> nat option" where
  "base_prefix s =
     (if length s < 2 \<or> hd s \<noteq> CHR ''0'' then None
      else if s ! 1 \<in> {CHR ''b'', CHR ''B''} then Some 2
      else if s ! 1 \<in> {CHR ''o'', CHR ''O''} then Some 8
      else if s ! 1 \<in> {CHR ''x'', CHR ''X''} then Some 16 else None)"

definition underscoreOK :: "string \<Rightarrow> bool" where
  "underscoreOK s =
     (case base_prefix s of
        None \<Rightarrow> underscores_ok False SeenNothing s
      | Some b \<Rightarrow> underscores_ok (b = 16) SeenDigit (drop 2 s))"

definition ParseUint :: "string \<Rightarrow> nat option" where
  "ParseUint s =
     (let (base, digits) =
        (if s \<noteq> [] \<and> hd s = CHR ''0''
         then (case base_prefix s of Some b \<Rightarrow> (if 3 \<le> length s then (b, drop 2 s) else (8, tl s)) | None \<Rightarrow> (8, tl s))
         else (10, s))
      in if s = [] then None
         else case uint_digits base 0 digits of
           None \<Rightarrow> None
         | Some n \<Rightarrow> if n < 2 ^ 64 \<and> (CHR ''_'' \<in> set digits \<longrightarrow> underscoreOK s) then Some n else None)"

text \<open>\<^verbatim>\<open>ParseInt(s, 0, 64)\<close>; every error is \<open>None\<close>.\<close>

definition ParseInt :: "string \<Rightarrow> int option" where
  "ParseInt s =
     (if s = [] then None
      else
        let neg = (hd s = CHR ''-'') in
        case ParseUint (if hd s = CHR ''+'' \<or> neg then tl s else s) of
          None \<Rightarrow> None
        | Some un \<Rightarrow>
            if \<not> neg \<and> 2 ^ 63 \<le> un then None
            else if neg \<and> 2 ^ 63 < un then None
            else Some (if neg then - int un else int un))"

section \<open>The flags of a command\<close>

text \<open>A flag has a name and sets a field of the record \<open>'f\<close>.\<close>

datatype 'f flag_value =
    StringFlag "string \<Rightarrow> 'f \<Rightarrow> 'f"
  | BoolFlag "bool \<Rightarrow> 'f \<Rightarrow> 'f"
  | IntFlag "int \<Rightarrow> 'f \<Rightarrow> 'f"

definition set_flag :: "'f flag_value \<Rightarrow> string \<Rightarrow> 'f \<Rightarrow> 'f option" where
  "set_flag v s f =
     (case v of
        StringFlag g \<Rightarrow> Some (g s f)
      | BoolFlag g \<Rightarrow> map_option (\<lambda>b. g b f) (ParseBool s)
      | IntFlag g \<Rightarrow> map_option (\<lambda>i. g i f) (ParseInt s))"

datatype flag_error =
    BadSyntax string | NotDefined string | NeedsArgument string | InvalidBoolean string string | InvalidValue string string

text \<open>What was parsed, with the arguments that are left; or the usage was asked for; or an error.\<close>

datatype 'f parsed = Parsed 'f "string list" | HelpWanted | BadFlags flag_error

text \<open>A name up to an equals sign that is not its first character, and the value after it.\<close>

definition name_value :: "string \<Rightarrow> string \<times> string option" where
  "name_value s =
     (let k = length (takeWhile (\<lambda>c. c \<noteq> CHR ''='') (tl s)) in
      if k = length (tl s) then (s, None) else (take (Suc k) s, Some (drop (k + 2) s)))"

text \<open>\<^verbatim>\<open>FlagSet.parseOne\<close>: the end of the parsing, or what was set and the arguments that are left.\<close>

definition parse_value :: "'f flag_value \<Rightarrow> string \<Rightarrow> string option \<Rightarrow> 'f \<Rightarrow> string list \<Rightarrow> 'f parsed + 'f \<times> string list" where
  "parse_value fv n value f args =
     (case fv of
        BoolFlag g \<Rightarrow>
          (case value of
             None \<Rightarrow> Inr (g True f, args)
           | Some v \<Rightarrow> (case ParseBool v of None \<Rightarrow> Inl (BadFlags (InvalidBoolean v n)) | Some b \<Rightarrow> Inr (g b f, args)))
      | _ \<Rightarrow>
          (case value of
             Some v \<Rightarrow> (case set_flag fv v f of None \<Rightarrow> Inl (BadFlags (InvalidValue v n)) | Some f' \<Rightarrow> Inr (f', args))
           | None \<Rightarrow>
               (case args of
                  [] \<Rightarrow> Inl (BadFlags (NeedsArgument n))
                | v # args' \<Rightarrow>
                    (case set_flag fv v f of None \<Rightarrow> Inl (BadFlags (InvalidValue v n)) | Some f' \<Rightarrow> Inr (f', args')))))"

fun parseOne :: "(string \<times> 'f flag_value) list \<Rightarrow> 'f \<Rightarrow> string list \<Rightarrow> 'f parsed + 'f \<times> string list" where
  "parseOne F f [] = Inl (Parsed f [])"
| "parseOne F f (s # args) =
     (if length s < 2 \<or> hd s \<noteq> CHR ''-'' then Inl (Parsed f (s # args))
      else if s = ''--'' then Inl (Parsed f args)
      else
        let name = (if s ! 1 = CHR ''-'' then drop 2 s else drop 1 s) in
        if name = [] \<or> hd name = CHR ''-'' \<or> hd name = CHR ''='' then Inl (BadFlags (BadSyntax s))
        else case name_value name of (n, value) \<Rightarrow>
          (case map_of F n of
             None \<Rightarrow> Inl (if n = ''help'' \<or> n = ''h'' then HelpWanted else BadFlags (NotDefined n))
           | Some fv \<Rightarrow> parse_value fv n value f args))"

lemma parse_value_shorter: "parse_value fv n value f args = Inr (f', args') \<Longrightarrow> length args' \<le> length args"
  by (auto simp: parse_value_def split: flag_value.splits option.splits list.splits)

lemma parseOne_shorter: "parseOne F f args = Inr (f', args') \<Longrightarrow> length args' < length args"
  by (induction F f args rule: parseOne.induct)
     (auto simp: Let_def less_Suc_eq_le split: if_splits prod.splits option.splits dest: parse_value_shorter)

text \<open>\<^verbatim>\<open>FlagSet.Parse\<close>: every turn of its loop takes an argument or two.\<close>

function parse_flags :: "(string \<times> 'f flag_value) list \<Rightarrow> 'f \<Rightarrow> string list \<Rightarrow> 'f parsed" where
  "parse_flags F f args =
     (case parseOne F f args of Inl r \<Rightarrow> r | Inr (f', args') \<Rightarrow> parse_flags F f' args')"
  by pat_completeness auto
termination by (relation "measure (\<lambda>(F, f, args). length args)") (auto intro: parseOne_shorter)

declare parse_flags.simps [simp del]

section \<open>Integers\<close>

lemma int_digit_decimal: "k < 10 \<Longrightarrow> int_digit 10 (char_of (48 + k)) = Some k"
  by (simp add: int_digit_def less_eq_char_def)

lemma uint_digits_append:
  "uint_digits b n (xs @ ys) = (case uint_digits b n xs of None \<Rightarrow> None | Some m \<Rightarrow> uint_digits b m ys)"
  by (induction b n xs rule: uint_digits.induct) (auto split: option.splits)

lemma no_underscore: "CHR ''_'' \<notin> set (decimal n)"
  by (rule decimal_no) simp

lemma uint_digits_decimal: "uint_digits 10 0 (decimal n) = Some n"
proof (induction n rule: decimal.induct)
  case (1 n)
  have ne: "char_of (48 + k) \<noteq> CHR ''_''" if "k < 10" for k :: nat
  proof
    assume "char_of (48 + k) = CHR ''_''"
    then have "(of_char (char_of (48 + k) :: char) :: nat) = of_char CHR ''_''" by simp
    then show False using that by simp
  qed
  show ?case
  proof (cases "n < 10")
    case True
    then show ?thesis using int_digit_decimal[OF True] ne[OF True] by (simp add: decimal_simps)
  next
    case False
    have "n mod 10 < 10" by simp
    then show ?thesis using 1[OF False] int_digit_decimal ne
      by (simp only: decimal_simps(2)[OF False] uint_digits_append) simp
  qed
qed

lemma ParseUint_decimal: "n < 2 ^ 64 \<Longrightarrow> ParseUint (decimal n) = Some n"
proof (cases "n = 0")
  case True
  have "decimal 0 = ''0''" by code_simp
  then show ?thesis using True by (simp add: ParseUint_def base_prefix_def)
next
  case False
  assume n: "n < 2 ^ 64"
  have "decimal n \<noteq> []" "hd (decimal n) \<noteq> CHR ''0''" using decimal_lead[of n] False by simp_all
  then show ?thesis using n no_underscore by (simp add: ParseUint_def uint_digits_decimal)
qed

lemma ParseInt_text: "int64_range i \<Longrightarrow> ParseInt (int_text i) = Some i"
proof -
  assume i: "int64_range i"
  show ?thesis
  proof (cases "i < 0")
    case True
    then have "ParseUint (decimal (nat (- i))) = Some (nat (- i))" using i by (intro ParseUint_decimal) (simp add: int64_range_def)
    then show ?thesis using i True by (auto simp: ParseInt_def int_text_def int64_range_def)
  next
    case False
    have "hd (decimal (nat i)) \<in> set ''0123456789''" using decimal_digits[of "nat i"] by (meson decimal_not_Nil hd_in_set subsetD)
    then have "hd (decimal (nat i)) \<noteq> CHR ''-''" "hd (decimal (nat i)) \<noteq> CHR ''+''" by auto
    moreover have "ParseUint (decimal (nat i)) = Some (nat i)" using i False by (intro ParseUint_decimal) (simp add: int64_range_def)
    ultimately show ?thesis using i False by (auto simp: ParseInt_def int_text_def int64_range_def)
  qed
qed

end
