(* ===== verification/Passphrase.thy ===== *)
theory Passphrase
  imports Text
begin

text \<open>
  The generated share tokens, \<^verbatim>\<open>internal/adapters/crypto/passphrase/passphrase.go\<close>: the word
  list is parsed from the embedded text, words are drawn at random and joined by dashes. The text
  of the list and the source of randomness are parameters.
\<close>

section \<open>The words\<close>

text \<open>\<^verbatim>\<open>strings.Fields\<close>; the field being read is in reverse.\<close>

fun fields_from :: "string \<Rightarrow> string \<Rightarrow> string list" where
  "fields_from cur [] = (if cur = [] then [] else [rev cur])"
| "fields_from cur (c # s) =
     (case starts_with spaces (c # s) of
        Some p \<Rightarrow> (if cur = [] then [] else [rev cur]) @ fields_from [] (drop (length p - 1) s)
      | None \<Rightarrow> fields_from (c # cur) s)"

definition Fields :: "string \<Rightarrow> string list" where
  "Fields s = fields_from [] s"

definition words :: "string \<Rightarrow> string list" where
  "words rawWordlist = Fields rawWordlist"

definition DefaultWords :: int where
  "DefaultWords = 6"

section \<open>Generating\<close>

text \<open>\<open>randInt m\<close> is \<^verbatim>\<open>rand.Int(rand.Reader, m)\<close>.\<close>

fun choose_words :: "(nat \<Rightarrow> ('r, nat) prog) \<Rightarrow> string list \<Rightarrow> nat \<Rightarrow> ('r, string list) prog" where
  "choose_words randInt ws 0 = retE []"
| "choose_words randInt ws (Suc n) =
     bindE (randInt (length ws)) (\<lambda>idx.
     bindE (choose_words randInt ws n) (\<lambda>chosen. retE (ws ! idx # chosen)))"

definition Generate :: "(nat \<Rightarrow> ('r, nat) prog) \<Rightarrow> string list \<Rightarrow> int \<Rightarrow> ('r, string) prog" where
  "Generate randInt ws n =
     (if n < 1 then throwE (ErrMsg ''passphrase: word count must be >= 1'')
      else if length ws = 0 then throwE (ErrMsg ''passphrase: empty wordlist'')
      else bindE (choose_words randInt ws (nat n)) (\<lambda>chosen. retE (join_with CHR ''-'' chosen)))"

text \<open>What the generator relies on: numbers below the bound, and any sequence of them may come.\<close>

fun draws :: "(nat \<Rightarrow> ('r, nat) prog) \<Rightarrow> nat \<Rightarrow> nat list \<Rightarrow> 'r \<Rightarrow> bool" where
  "draws randInt m [] r \<longleftrightarrow> True"
| "draws randInt m (i # idx) r \<longleftrightarrow> (\<exists>r'. randInt m r = (Inr i, r') \<and> draws randInt m idx r')"

definition rand_laws :: "(nat \<Rightarrow> ('r, nat) prog) \<Rightarrow> bool" where
  "rand_laws randInt \<longleftrightarrow>
     (\<forall>m r i r'. randInt m r = (Inr i, r') \<longrightarrow> i < m) \<and>
     (\<forall>m idx. set idx \<subseteq> {..<m} \<longrightarrow> (\<exists>r. draws randInt m idx r))"

section \<open>Fields of a list with one word a line\<close>

definition plain_word :: "string \<Rightarrow> bool" where
  "plain_word w \<longleftrightarrow> w \<noteq> [] \<and> (\<forall>c \<in> set w. CHR '' '' < c \<and> c < CHR 0x7F)"

lemma starts_with_plain:
  assumes "CHR '' '' < c" "c < CHR 0x7F"
  shows "starts_with spaces (c # s) = None"
proof -
  have "\<not> prefix p (c # s)" if "p \<in> set spaces" for p
    using assms that by (auto simp: spaces_def less_char_def)
  then show ?thesis by (simp add: starts_with_None)
qed

lemma fields_plain:
  assumes "\<forall>c \<in> set w. CHR '' '' < c \<and> c < CHR 0x7F"
  shows "fields_from cur (w @ s) = fields_from (rev w @ cur) s"
  using assms by (induction w arbitrary: cur) (simp_all add: starts_with_plain)

lemma starts_with_newline: "starts_with spaces (CHR 0x0A # s) = Some [CHR 0x0A]"
  by (simp add: starts_with_def spaces_def)

lemma Fields_lines:
  assumes "\<forall>w \<in> set ws. plain_word w"
  shows "Fields (concat (map (\<lambda>w. w @ [CHR 0x0A]) ws)) = ws"
  using assms unfolding Fields_def
  by (induction ws) (simp_all add: plain_word_def fields_plain starts_with_newline)

section \<open>What is generated\<close>

lemma choose_words_Inr:
  assumes "rand_laws randInt"
  shows "choose_words randInt ws n r = (Inr chosen, r') \<Longrightarrow> length chosen = n \<and> set chosen \<subseteq> set ws"
proof (induction n arbitrary: r chosen)
  case 0
  then show ?case by simp
next
  case (Suc n)
  then obtain idx r1 rest where i: "randInt (length ws) r = (Inr idx, r1)"
    and rest: "choose_words randInt ws n r1 = (Inr rest, r')" and c: "chosen = ws ! idx # rest"
    by (auto simp: bindE_Inr_iff)
  have "idx < length ws" using assms i unfolding rand_laws_def by blast
  with Suc.IH[OF rest] show ?case by (simp add: c)
qed

lemma choose_words_draws:
  "draws randInt (length ws) idx r \<Longrightarrow> \<exists>r'. choose_words randInt ws (length idx) r = (Inr (map ((!) ws) idx), r')"
  by (induction idx arbitrary: r) (fastforce simp: bindE_def)+

text \<open>The words of a list can be told apart in a passphrase: no word is another one up to a dash.\<close>

definition dash_free_prefix :: "string list \<Rightarrow> bool" where
  "dash_free_prefix ws \<longleftrightarrow> (\<forall>v \<in> set ws. \<forall>w \<in> set ws. \<not> prefix (v @ ''-'') w)"

lemma first_word_unique:
  assumes "dash_free_prefix ws" "v \<in> set ws" "w \<in> set ws" "v @ ''-'' @ s = w @ ''-'' @ t"
  shows "v = w \<and> s = t"
proof -
  have short: "prefix (x @ ''-'') y \<or> x = y" if "x @ us = y" "us @ ''-'' @ a = ''-'' @ b" for x y us a b :: string
    using that by (cases us) (auto simp: prefix_def)
  have "\<exists>us. v @ us = w \<and> us @ ''-'' @ t = ''-'' @ s \<or> w @ us = v \<and> us @ ''-'' @ s = ''-'' @ t"
    using assms(4) unfolding append_eq_append_conv2 by metis
  then have "prefix (v @ ''-'') w \<or> prefix (w @ ''-'') v \<or> v = w" using short by metis
  then show ?thesis using assms by (auto simp: dash_free_prefix_def)
qed

lemma join_unique:
  assumes "dash_free_prefix ws"
  shows "set vs \<subseteq> set ws \<Longrightarrow> set us \<subseteq> set ws \<Longrightarrow> length vs = length us \<Longrightarrow>
    join_with CHR ''-'' vs = join_with CHR ''-'' us \<Longrightarrow> vs = us"
proof (induction vs arbitrary: us)
  case Nil
  then show ?case by simp
next
  case (Cons v vs)
  then obtain u us' where us: "us = u # us'" by (cases us) auto
  show ?case
  proof (cases "vs = []")
    case True
    then show ?thesis using Cons.prems us by (cases us') auto
  next
    case False
    then have "us' \<noteq> []" using Cons.prems(3) us by auto
    then have "v @ ''-'' @ join_with CHR ''-'' vs = u @ ''-'' @ join_with CHR ''-'' us'"
      using Cons.prems(4) us False by (simp add: join_with_Cons)
    with first_word_unique[OF assms] Cons.prems(1,2) us have "v = u"
      "join_with CHR ''-'' vs = join_with CHR ''-'' us'" by auto
    then show ?thesis using Cons us by auto
  qed
qed

lemma Generate_passphrases:
  assumes "rand_laws randInt" and "1 \<le> n" and "ws \<noteq> []"
  shows "{s. \<exists>r r'. Generate randInt ws n r = (Inr s, r')} =
    join_with CHR ''-'' ` {chosen. set chosen \<subseteq> set ws \<and> length chosen = nat n}" (is "?L = ?R")
proof
  show "?L \<subseteq> ?R"
    using choose_words_Inr[OF assms(1)] assms(2,3)
    by (fastforce simp: Generate_def bindE_Inr_iff)
  show "?R \<subseteq> ?L"
  proof
    fix s assume "s \<in> ?R"
    then obtain chosen where c: "set chosen \<subseteq> set ws" "length chosen = nat n" "s = join_with CHR ''-'' chosen" by blast
    have "\<forall>w \<in> set chosen. \<exists>i < length ws. ws ! i = w" using c(1) by (auto simp: in_set_conv_nth)
    then obtain f where f: "\<forall>w \<in> set chosen. f w < length ws \<and> ws ! (f w) = w" by metis
    let ?idx = "map f chosen"
    have "map ((!) ws) ?idx = chosen" using f by (simp add: map_idI)
    moreover have "set ?idx \<subseteq> {..<length ws}" using f by auto
    then obtain r where "draws randInt (length ws) ?idx r" using assms(1) unfolding rand_laws_def by blast
    ultimately obtain r' where "choose_words randInt ws (nat n) r = (Inr chosen, r')"
      using choose_words_draws[of randInt ws ?idx r] c(2) by auto
    then have "Generate randInt ws n r = (Inr s, r')" using assms(2,3) c(3) by (simp add: Generate_def)
    then show "s \<in> ?L" by blast
  qed
qed

text \<open>
  C38. The passphrases. A count below one and an empty list are refused without drawing; otherwise
  the passphrases that can come out are exactly the words of the list, \<open>n\<close> of them, joined by
  dashes. If the words are distinct and none of them is the part of another before a dash (of the
  embedded list four words have a dash, and what is before it is no word), there are
  \<open>length ws ^ n\<close> passphrases: every sequence of draws gives another one, so that no entropy is
  lost by joining.
\<close>

theorem passphrases_counted:
  assumes "rand_laws randInt"
  shows "(n < 1 \<or> ws = [] \<longrightarrow> (\<exists>e. \<forall>r. Generate randInt ws n r = (Inl e, r))) \<and>
    (1 \<le> n \<and> ws \<noteq> [] \<longrightarrow>
      {s. \<exists>r r'. Generate randInt ws n r = (Inr s, r')} =
        join_with CHR ''-'' ` {chosen. set chosen \<subseteq> set ws \<and> length chosen = nat n} \<and>
      (distinct ws \<and> dash_free_prefix ws \<longrightarrow>
        card {s. \<exists>r r'. Generate randInt ws n r = (Inr s, r')} = length ws ^ nat n))"
proof (intro conjI impI)
  show "\<exists>e. \<forall>r. Generate randInt ws n r = (Inl e, r)" if "n < 1 \<or> ws = []"
    using that by (auto simp: Generate_def)
next
  assume n: "1 \<le> n \<and> ws \<noteq> []"
  then show all: "{s. \<exists>r r'. Generate randInt ws n r = (Inr s, r')} =
      join_with CHR ''-'' ` {chosen. set chosen \<subseteq> set ws \<and> length chosen = nat n}"
    using Generate_passphrases[OF assms] by blast
  assume d: "distinct ws \<and> dash_free_prefix ws"
  then have "inj_on (join_with CHR ''-'') {chosen. set chosen \<subseteq> set ws \<and> length chosen = nat n}"
    using join_unique by (auto intro!: inj_onI)
  then show "card {s. \<exists>r r'. Generate randInt ws n r = (Inr s, r')} = length ws ^ nat n"
    unfolding all by (simp add: card_image card_lists_length_eq distinct_card d)
qed

text \<open>With the 7776 words of the list and the default count there are more than \<open>2 ^ 77\<close>.\<close>

lemma default_entropy: "(2::nat) ^ 77 < 7776 ^ nat DefaultWords \<and> (7776::nat) ^ nat DefaultWords < 2 ^ 78"
  by (simp add: DefaultWords_def)

section \<open>Witness\<close>

text \<open>Randomness as a sequence of numbers that are reduced to the bound.\<close>

definition demo_rand :: "nat \<Rightarrow> (nat list, nat) prog" where
  "demo_rand m r = (case r of [] \<Rightarrow> (Inl (ErrMsg ''EOF''), []) | x # xs \<Rightarrow>
     if x < m then (Inr x, xs) else (Inl (ErrMsg ''range''), xs))"

lemma demo_rand_laws: "rand_laws demo_rand"
proof -
  have "set idx \<subseteq> {..<m} \<Longrightarrow> draws demo_rand m idx idx" for m idx
    by (induction idx) (auto simp: demo_rand_def)
  then show ?thesis by (auto simp: rand_laws_def demo_rand_def split: list.splits if_splits)
qed

theorem passphrases_counted_witness:
  "card {s. \<exists>r r'. Generate demo_rand (words ''ab drop-down down'') 2 r = (Inr s, r')} = 9"
proof -
  let ?ws = "words ''ab drop-down down''"
  have ws: "?ws = [''ab'', ''drop-down'', ''down'']" by code_simp
  have h: "distinct ?ws" "dash_free_prefix ?ws" "?ws \<noteq> []" "length ?ws = 3"
    by (simp_all add: ws dash_free_prefix_def prefix_def)
  have "card {s. \<exists>r r'. Generate demo_rand ?ws 2 r = (Inr s, r')} = length ?ws ^ nat 2"
    using passphrases_counted [OF demo_rand_laws, of 2 ?ws] h(1-3) by fastforce
  then show ?thesis using h(4) by simp
qed

end
