(* ===== verification/Banner.thy ===== *)
theory Banner
  imports Json
begin

text \<open>
  The framed box in which \<^verbatim>\<open>cmd/server/main.go\<close> shows a generated share token:
  \<^verbatim>\<open>renderTokenBanner\<close> with its colours, and the choice of \<^verbatim>\<open>useColor\<close>.
\<close>

section \<open>Runes\<close>

text \<open>\<^verbatim>\<open>utf8.RuneCountInString\<close>: a byte that starts no valid sequence counts as one.\<close>

fun rune_count :: "string \<Rightarrow> nat" where
  "rune_count [] = 0"
| "rune_count (c # s) = Suc (rune_count (drop (utf8_len (c # s) - 1) s))"

lemma utf8_len_append:
  assumes "t = [] \<or> \<not> cont (hd t)"
  shows "utf8_len ((c # s) @ t) = utf8_len (c # s)"
proof -
  consider (t) "t = []" | (d) d t' where "t = d # t'" "\<not> cont d" using assms by (cases t) auto
  then show ?thesis
  proof cases
    case d
    consider "s = []" | x where "s = [x]" | x y where "s = [x, y]" | x y z r where "s = x # y # z # r"
      by (metis list.exhaust)
    then show ?thesis by cases (simp_all add: utf8_len_def d split: list.split)
  qed simp
qed

lemma utf8_len_le: "utf8_len (c # s) - 1 \<le> length s"
proof -
  consider "s = []" | x where "s = [x]" | x y where "s = [x, y]" | x y z r where "s = x # y # z # r"
    by (metis list.exhaust)
  then show ?thesis by cases (simp_all add: utf8_len_def)
qed

lemma rune_count_append:
  assumes "t = [] \<or> \<not> cont (hd t)"
  shows "rune_count (s @ t) = rune_count s + rune_count t"
proof (induction s rule: rune_count.induct)
  case (2 c s)
  have "rune_count ((c # s) @ t) = Suc (rune_count (drop (utf8_len (c # s) - 1) s @ t))"
    using utf8_len_append[OF assms, of c s] utf8_len_le[of c s] by simp
  then show ?case using 2 by simp
qed simp

lemma rune_count_ascii: "\<forall>c \<in> set s. code c < 0x80 \<Longrightarrow> rune_count s = length s"
  by (induction s) (simp_all add: utf8_len_def)

section \<open>Colours\<close>

definition ESC :: char where
  "ESC = CHR 0x1B"

definition ansiReset :: string where "ansiReset = ESC # ''[0m''"
definition ansiBold :: string where "ansiBold = ESC # ''[1m''"
definition ansiDim :: string where "ansiDim = ESC # ''[2m''"
definition ansiToken :: string where "ansiToken = ESC # ''[1;36m''"
definition ansiFrame :: string where "ansiFrame = ESC # ''[38;5;244m''"

definition paint :: "bool \<Rightarrow> string \<Rightarrow> string \<Rightarrow> string" where
  "paint color s c = (if \<not> color \<or> c = [] \<or> s = [] then s else c @ s @ ansiReset)"

text \<open>\<open>getenv\<close> looks \<^verbatim>\<open>NO_COLOR\<close> up, \<open>mode\<close> is the file's mode or the error of asking for it.\<close>

definition ModeCharDevice :: "32 word" where
  "ModeCharDevice = push_bit 21 1"

definition useColor :: "string \<Rightarrow> error + 32 word \<Rightarrow> bool" where
  "useColor noColor mode =
     (if noColor \<noteq> [] then False
      else (case mode of Inl _ \<Rightarrow> False | Inr m \<Rightarrow> m AND ModeCharDevice \<noteq> 0))"

section \<open>The box\<close>

text \<open>The characters of the frame and the dot of the title, which the code has in UTF-8.\<close>

definition dot :: string where "dot = [CHR 0xC2, CHR 0xB7]"
definition bar :: string where "bar = [CHR 0xE2, CHR 0x94, CHR 0x82]"
definition dash :: string where "dash = [CHR 0xE2, CHR 0x94, CHR 0x80]"
definition corner_tl :: string where "corner_tl = [CHR 0xE2, CHR 0x95, CHR 0xAD]"
definition corner_tr :: string where "corner_tr = [CHR 0xE2, CHR 0x95, CHR 0xAE]"
definition corner_bl :: string where "corner_bl = [CHR 0xE2, CHR 0x95, CHR 0xB0]"
definition corner_br :: string where "corner_br = [CHR 0xE2, CHR 0x95, CHR 0xAF]"

lemmas glyph_defs = dot_def bar_def dash_def corner_tl_def corner_tr_def corner_bl_def corner_br_def
lemmas ansi_defs = ansiReset_def ansiBold_def ansiDim_def ansiToken_def ansiFrame_def

definition nl :: string where "nl = [CHR 0x0A]"

record banner_line =
  bl_text :: string
  bl_code :: string
  bl_center :: bool

definition banner_lines :: "string \<Rightarrow> banner_line list" where
  "banner_lines token =
     [\<lparr> bl_text = ''claude-share '' @ dot @ '' generated share token'', bl_code = ansiBold, bl_center = False \<rparr>,
      \<lparr> bl_text = [], bl_code = [], bl_center = False \<rparr>,
      \<lparr> bl_text = token, bl_code = ansiToken, bl_center = True \<rparr>,
      \<lparr> bl_text = [], bl_code = [], bl_center = False \<rparr>,
      \<lparr> bl_text = ''No CLAUDE_SHARE_TOKEN was set, so one was generated for this run.'', bl_code = ansiDim, bl_center = False \<rparr>,
      \<lparr> bl_text = ''Set CLAUDE_SHARE_TOKEN to the value above on every client to connect.'', bl_code = ansiDim, bl_center = False \<rparr>]"

definition banner_width :: "banner_line list \<Rightarrow> nat" where
  "banner_width ls = foldl (\<lambda>width l. if width < rune_count (bl_text l) then rune_count (bl_text l) else width) 0 ls"

definition padX :: int where
  "padX = 3"

text \<open>\<^verbatim>\<open>strings.Repeat\<close> panics for a negative count; here none is.\<close>

definition Repeat :: "string \<Rightarrow> int \<Rightarrow> string" where
  "Repeat s n = concat (replicate (nat n) s)"

definition left_pad :: "int \<Rightarrow> banner_line \<Rightarrow> int" where
  "left_pad inner l =
     (if bl_center l then padX + (inner - 2 * padX - int (rune_count (bl_text l))) div 2 else padX)"

definition right_pad :: "int \<Rightarrow> banner_line \<Rightarrow> int" where
  "right_pad inner l = inner - left_pad inner l - int (rune_count (bl_text l))"

definition banner_row :: "bool \<Rightarrow> int \<Rightarrow> banner_line \<Rightarrow> string" where
  "banner_row color inner l =
     paint color bar ansiFrame @ Repeat '' '' (left_pad inner l) @ paint color (bl_text l) (bl_code l) @
     Repeat '' '' (right_pad inner l) @ paint color bar ansiFrame"

definition renderTokenBanner :: "string \<Rightarrow> bool \<Rightarrow> string" where
  "renderTokenBanner token color =
     (let ls = banner_lines token; inner = int (banner_width ls) + padX * 2 in
      nl @ paint color (corner_tl @ Repeat dash inner @ corner_tr) ansiFrame @ nl @
      concat (map (\<lambda>l. banner_row color inner l @ nl) ls) @
      paint color (corner_bl @ Repeat dash inner @ corner_br) ansiFrame @ nl @ nl)"

section \<open>All rows are as wide\<close>

lemma banner_width_ge: "l \<in> set ls \<Longrightarrow> rune_count (bl_text l) \<le> banner_width ls"
  unfolding banner_width_def by (induction ls rule: rev_induct) auto

lemma Repeat_append: "0 \<le> n \<Longrightarrow> Repeat s (n + 1) = s @ Repeat s n"
  by (simp add: Repeat_def nat_add_distrib)

lemma rune_count_repeat:
  assumes "rune_count s = 1" "s \<noteq> []" "\<not> cont (hd s)"
  shows "rune_count (concat (replicate n s)) = n"
proof (induction n)
  case (Suc n)
  have "concat (replicate n s) = [] \<or> \<not> cont (hd (concat (replicate n s)))"
    using assms(2,3) by (cases n) auto
  then show ?case using Suc assms(1) by (simp add: rune_count_append)
qed simp

definition starts_rune :: "string \<Rightarrow> bool" where
  "starts_rune t \<longleftrightarrow> t \<noteq> [] \<and> \<not> cont (hd t)"

lemma glyph_facts:
  "rune_count bar = 1" "rune_count dash = 1" "rune_count corner_tl = 1" "rune_count corner_tr = 1"
  "rune_count corner_bl = 1" "rune_count corner_br = 1" "rune_count '' '' = 1"
  "starts_rune bar" "starts_rune dash" "starts_rune corner_tr" "starts_rune corner_br" "starts_rune '' ''"
  by (simp_all add: glyph_defs utf8_len_def cont_def code_def starts_rune_def)

lemma count_append: "starts_rune t \<Longrightarrow> rune_count (s @ t) = rune_count s + rune_count t"
  by (simp add: rune_count_append starts_rune_def)

lemma starts_append [simp]: "starts_rune s \<Longrightarrow> starts_rune (s @ t)"
  by (simp add: starts_rune_def)

lemma starts_repeat: "starts_rune s \<Longrightarrow> starts_rune t \<Longrightarrow> starts_rune (Repeat s n @ t)"
  unfolding Repeat_def by (cases "nat n") (auto simp: starts_rune_def)

lemma count_repeat: "rune_count s = 1 \<Longrightarrow> starts_rune s \<Longrightarrow> rune_count (Repeat s n) = nat n"
  by (simp add: Repeat_def rune_count_repeat starts_rune_def)

lemma count_spaces: "rune_count (Repeat '' '' n @ s) = nat n + rune_count s"
proof -
  have "rune_count (concat (replicate k '' '') @ s) = k + rune_count s" for k
    by (induction k) (simp_all add: utf8_len_def code_def)
  then show ?thesis by (simp add: Repeat_def)
qed

lemma count_bar: "rune_count (bar @ s) = Suc (rune_count s)"
  by (simp add: bar_def utf8_len_def cont_def code_def)

lemma count_row:
  assumes "0 \<le> left_pad inner l" "0 \<le> right_pad inner l" "0 \<le> inner"
  shows "rune_count (banner_row False inner l) = nat inner + 2"
proof -
  have e: "starts_rune (Repeat '' '' (right_pad inner l) @ bar)"
    by (simp add: starts_repeat glyph_facts)
  have "rune_count (bl_text l @ Repeat '' '' (right_pad inner l) @ bar) =
      rune_count (bl_text l) + nat (right_pad inner l) + 1"
    by (simp add: count_append[OF e] count_spaces glyph_facts)
  moreover have "left_pad inner l + int (rune_count (bl_text l)) + right_pad inner l = inner"
    by (simp add: right_pad_def)
  ultimately show ?thesis using assms
    by (simp add: banner_row_def paint_def count_bar count_spaces)
qed

lemma pads_nonneg:
  assumes "l \<in> set ls"
  shows "0 \<le> left_pad (int (banner_width ls) + padX * 2) l" "padX \<le> left_pad (int (banner_width ls) + padX * 2) l"
    "padX \<le> right_pad (int (banner_width ls) + padX * 2) l"
  using banner_width_ge[OF assms] by (auto simp: left_pad_def right_pad_def padX_def)

section \<open>Colours change only how it looks\<close>

text \<open>\<open>plain\<close> takes the escape sequences, from \<open>ESC\<close> to the next \<open>m\<close>, out of a text.\<close>

primrec plain_from :: "string \<Rightarrow> bool \<Rightarrow> string" where
  "plain_from [] esc = []"
| "plain_from (c # s) esc =
     (if esc then plain_from s (c \<noteq> CHR ''m'') else if c = ESC then plain_from s True else c # plain_from s False)"

abbreviation plain :: "string \<Rightarrow> string" where
  "plain s \<equiv> plain_from s False"

lemma plain_append: "ESC \<notin> set s \<Longrightarrow> plain (s @ t) = s @ plain t"
  by (induction s) auto

lemma plain_code: "c \<in> {ansiReset, ansiBold, ansiDim, ansiToken, ansiFrame} \<Longrightarrow> plain (c @ t) = plain t"
  by (auto simp: ansi_defs ESC_def)

lemma plain_paint:
  assumes "c \<in> {[], ansiBold, ansiDim, ansiToken, ansiFrame}" "ESC \<notin> set s"
  shows "plain (paint color s c @ t) = paint False s c @ plain t"
proof (cases "\<not> color \<or> c = [] \<or> s = []")
  case True
  then show ?thesis using assms(2) by (auto simp: paint_def plain_append)
next
  case False
  then have "c \<in> {ansiReset, ansiBold, ansiDim, ansiToken, ansiFrame}" using assms(1) by blast
  then show ?thesis using assms(2) False by (simp add: paint_def plain_code plain_append)
qed

lemma no_escape [simp]:
  "ESC \<notin> set bar" "ESC \<notin> set dash" "ESC \<notin> set corner_tl" "ESC \<notin> set corner_tr" "ESC \<notin> set corner_bl"
  "ESC \<notin> set corner_br" "ESC \<notin> set nl" "ESC \<notin> set dot"
  by (simp_all add: glyph_defs nl_def ESC_def)

lemma no_escape_repeat [simp]: "ESC \<notin> set s \<Longrightarrow> ESC \<notin> set (Repeat s n)"
  by (auto simp: Repeat_def)

lemma plain_row:
  assumes "bl_code l \<in> {[], ansiBold, ansiDim, ansiToken}" "ESC \<notin> set (bl_text l)"
  shows "plain (banner_row color inner l @ t) = banner_row False inner l @ plain t"
proof -
  have "ESC \<notin> set (Repeat '' '' n)" for n by (rule no_escape_repeat) (simp add: ESC_def)
  moreover have "plain (paint color (bl_text l) (bl_code l) @ u) = paint False (bl_text l) (bl_code l) @ plain u" for u
    using assms by (intro plain_paint) blast+
  ultimately show ?thesis by (simp add: banner_row_def plain_paint plain_append)
qed

lemma plain_rows:
  assumes "\<forall>l \<in> set ls. bl_code l \<in> {[], ansiBold, ansiDim, ansiToken} \<and> ESC \<notin> set (bl_text l)"
  shows "plain (concat (map (\<lambda>l. banner_row color inner l @ nl) ls) @ t) =
    concat (map (\<lambda>l. banner_row False inner l @ nl) ls) @ plain t"
  using assms by (induction ls) (simp_all add: plain_row plain_append)

text \<open>The rows of the plain banner.\<close>

definition banner_rows :: "string \<Rightarrow> string list" where
  "banner_rows token =
     (let ls = banner_lines token; inner = int (banner_width ls) + padX * 2 in
      [corner_tl @ Repeat dash inner @ corner_tr] @ map (banner_row False inner) ls @
      [corner_bl @ Repeat dash inner @ corner_br])"

lemma banner_of_rows: "renderTokenBanner token False = nl @ concat (map (\<lambda>row. row @ nl) (banner_rows token)) @ nl"
  by (simp add: renderTokenBanner_def banner_rows_def Let_def paint_def comp_def)

lemma Repeat_space: "Repeat '' '' n = replicate (nat n) CHR '' ''"
proof -
  have "concat (replicate k '' '') = replicate k CHR '' ''" for k by (induction k) simp_all
  then show ?thesis by (simp add: Repeat_def)
qed

lemma plain_from_shorter: "length (plain_from s esc) \<le> length s"
  by (induction s arbitrary: esc) (auto intro: le_SucI)

lemma plain_shorter: "length (plain s) \<le> length s"
  by (rule plain_from_shorter)

text \<open>
  The banner. For a token without control characters the coloured banner is the plain one
  with escape sequences added. The plain one is a frame of eight rows that all have the same
  number of characters, two more than the inner width. The row of the token has it in the middle
  with at least three spaces on each side, one more on the right if they cannot be equal.
\<close>

theorem banner_framed:
  assumes "ESC \<notin> set token"
  shows "plain (renderTokenBanner token color) = renderTokenBanner token False \<and>
    (\<exists>rows l r. renderTokenBanner token False = nl @ concat (map (\<lambda>row. row @ nl) rows) @ nl \<and>
       length rows = 8 \<and> (\<forall>row \<in> set rows. rune_count row = banner_width (banner_lines token) + 8) \<and>
       rows ! 3 = bar @ replicate l CHR '' '' @ token @ replicate r CHR '' '' @ bar \<and>
       3 \<le> l \<and> l \<le> r \<and> r \<le> l + 1)"
proof
  let ?ls = "banner_lines token"
  have codes: "\<forall>l \<in> set ?ls. bl_code l \<in> {[], ansiBold, ansiDim, ansiToken} \<and> ESC \<notin> set (bl_text l)"
    using assms by (simp add: banner_lines_def) (simp add: ESC_def dot_def)
  show "plain (renderTokenBanner token color) = renderTokenBanner token False"
    unfolding renderTokenBanner_def Let_def
    by (simp add: plain_append plain_paint plain_rows[OF codes]) (simp add: nl_def ESC_def)
  let ?inner = "int (banner_width ?ls) + padX * 2"
  let ?t = "?ls ! 2"
  have t: "?t \<in> set ?ls" "bl_text ?t = token" "bl_center ?t" by (simp_all add: banner_lines_def)
  have "rune_count (banner_row False ?inner l) = banner_width ?ls + 8" if "l \<in> set ?ls" for l
    using count_row[of ?inner l] pads_nonneg[OF that] by (simp add: padX_def)
  moreover have "rune_count (corner_tl @ Repeat dash ?inner @ corner_tr) = banner_width ?ls + 8"
    "rune_count (corner_bl @ Repeat dash ?inner @ corner_br) = banner_width ?ls + 8"
    by (simp_all add: count_append starts_repeat count_repeat glyph_facts padX_def)
  ultimately have "\<forall>row \<in> set (banner_rows token). rune_count row = banner_width ?ls + 8"
    by (auto simp: banner_rows_def Let_def)
  moreover have "length (banner_rows token) = 8" by (simp add: banner_rows_def banner_lines_def Let_def)
  moreover have "banner_rows token ! 3 = bar @ replicate (nat (left_pad ?inner ?t)) CHR '' '' @ token @
      replicate (nat (right_pad ?inner ?t)) CHR '' '' @ bar"
    by (simp add: banner_rows_def Let_def banner_lines_def banner_row_def paint_def Repeat_space)
  moreover have "padX \<le> left_pad ?inner ?t" "left_pad ?inner ?t \<le> right_pad ?inner ?t"
    "right_pad ?inner ?t \<le> left_pad ?inner ?t + 1"
    using pads_nonneg[OF t(1)] t by (simp_all add: right_pad_def left_pad_def)
  then have "3 \<le> nat (left_pad ?inner ?t)" "nat (left_pad ?inner ?t) \<le> nat (right_pad ?inner ?t)"
    "nat (right_pad ?inner ?t) \<le> nat (left_pad ?inner ?t) + 1"
    unfolding padX_def by linarith+
  ultimately show "\<exists>rows l r. renderTokenBanner token False = nl @ concat (map (\<lambda>row. row @ nl) rows) @ nl \<and>
       length rows = 8 \<and> (\<forall>row \<in> set rows. rune_count row = banner_width (banner_lines token) + 8) \<and>
       rows ! 3 = bar @ replicate l CHR '' '' @ token @ replicate r CHR '' '' @ bar \<and>
       3 \<le> l \<and> l \<le> r \<and> r \<le> l + 1"
    using banner_of_rows by blast
qed

theorem banner_framed_witness:
  "length (renderTokenBanner ''abc-def'' False) \<le> length (renderTokenBanner ''abc-def'' True) \<and>
   plain (renderTokenBanner ''abc-def'' True) = renderTokenBanner ''abc-def'' False"
proof -
  have "ESC \<notin> set ''abc-def''" by (simp add: ESC_def)
  from banner_framed [OF this, of True] show ?thesis using plain_shorter by metis
qed

end
