(* ===== verification/Startup.thy ===== *)
theory Startup
  imports Noise
begin

text \<open>What the two commands share: the version of \<^verbatim>\<open>internal/version/version.go\<close>, and how a
  command that cannot start ends.\<close>

definition Version :: string where
  "Version = ''0.1.1''"

text \<open>\<^verbatim>\<open>log.Fatalf("t: %v", err)\<close> ends the program.\<close>

definition fatalE :: "string \<Rightarrow> ('s, 'a) prog \<Rightarrow> ('s, 'a) prog" where
  "fatalE t m s = (case m s of (Inl e, s') \<Rightarrow> (Inl (Wrapped t e), s') | (Inr a, s') \<Rightarrow> (Inr a, s'))"

lemma fatalE_Inr: "fatalE t m s = (Inr a, s') \<longleftrightarrow> m s = (Inr a, s')"
  by (auto simp: fatalE_def split: prod.splits sum.splits)

lemma liftE_Inr: "liftE r s = (Inr a, s') \<longleftrightarrow> r = Inr a \<and> s' = s"
  by (auto simp: liftE_def)

end
