(* ===== verification/ServerMain.thy ===== *)
theory ServerMain
  imports Wiring Passphrase Banner Startup
begin

text \<open>
  The start of \<^verbatim>\<open>cmd/server/main.go\<close>: the flags, the token that is taken from the
  environment or generated and shown, the key, the blob store and the server's configuration.
\<close>

section \<open>Flags\<close>

text \<open>\<open>home\<close> is what \<^verbatim>\<open>os.UserHomeDir\<close> returns.\<close>

definition defaultDataDir :: "error + string \<Rightarrow> string" where
  "defaultDataDir home = (case home of Inl _ \<Rightarrow> ''.claude-share'' | Inr dir \<Rightarrow> Join [dir, ''.claude-share''])"

record server_flags =
  sf_addr :: string
  sf_dataDir :: string
  sf_allowPublic :: bool
  sf_claudeBin :: string
  sf_permMode :: string
  sf_maxSessions :: int
  sf_showVersion :: bool

definition server_defaults :: "error + string \<Rightarrow> server_flags" where
  "server_defaults home =
     \<lparr> sf_addr = ''127.0.0.1:8443'', sf_dataDir = defaultDataDir home, sf_allowPublic = False,
       sf_claudeBin = ''claude'', sf_permMode = ''acceptEdits'', sf_maxSessions = 8, sf_showVersion = False \<rparr>"

section \<open>Starting\<close>

text \<open>The machine: its files, its randomness, and what was written to the error stream. The
  environment: the two variables, the mode of the error stream or the error of asking for it.\<close>

record 'r host =
  ho_os :: os
  ho_rand :: 'r
  ho_Err :: string

record environment =
  en_token :: string
  en_noColor :: string
  en_ErrMode :: "error + 32 word"

definition host_os :: "(os, 'a) prog \<Rightarrow> ('r host, 'a) prog" where
  "host_os m h = (case m (ho_os h) of (r, s) \<Rightarrow> (r, h\<lparr> ho_os := s \<rparr>))"

definition host_rand :: "('r, 'a) prog \<Rightarrow> ('r host, 'a) prog" where
  "host_rand m h = (case m (ho_rand h) of (r, s) \<Rightarrow> (r, h\<lparr> ho_rand := s \<rparr>))"

definition printTokenBanner :: "environment \<Rightarrow> string \<Rightarrow> ('r host, unit) prog" where
  "printTokenBanner env token h =
     (Inr (), h\<lparr> ho_Err := ho_Err h @ renderTokenBanner token (useColor (en_noColor env) (en_ErrMode env)) \<rparr>)"

text \<open>The token, and whether it was generated.\<close>

definition share_token ::
  "(nat \<Rightarrow> ('r, nat) prog) \<Rightarrow> string \<Rightarrow> environment \<Rightarrow> ('r host, string \<times> bool) prog" where
  "share_token randInt rawWordlist env =
     (if en_token env = [] then
        bindE (fatalE ''generate share token'' (host_rand (Generate randInt (words rawWordlist) DefaultWords)))
          (\<lambda>t. retE (t, True))
      else retE (en_token env, False))"

datatype 'c server_startup =
  ShowsServerVersion string | Serves ServerConfig "nat option" "'c world Deps"

definition server_main ::
  "(nat \<Rightarrow> ('r, nat) prog) \<Rightarrow> string \<Rightarrow> (bytes \<Rightarrow> bytes \<Rightarrow> nat \<Rightarrow> error + bytes) \<Rightarrow> (nat \<Rightarrow> string) \<Rightarrow>
   (command \<Rightarrow> ringBuffer \<Rightarrow> error + process) \<Rightarrow> float_ops \<Rightarrow> 'c SecureChannel \<Rightarrow>
   server_flags \<Rightarrow> environment \<Rightarrow> ('r host, 'c server_startup) prog" where
  "server_main randInt rawWordlist hkdf uuid spawn fl S flags env =
     (if sf_showVersion flags then retE (ShowsServerVersion (''claude-share-server '' @ Version @ nl))
      else
        bindE (share_token randInt rawWordlist env) (\<lambda>(token, generated).
        bindE (fatalE ''derive PSK'' (liftE (PSKFromToken hkdf token))) (\<lambda>psk.
        bindE (if generated then printTokenBanner env token else retE ()) (\<lambda>_.
        bindE (fatalE ''blob store'' (host_os (NewBlobStore (blob_dir (sf_dataDir flags))))) (\<lambda>blobs.
        let runner = NewRunner\<lparr> rn_Bin := sf_claudeBin flags, rn_PermissionMode := sf_permMode flags \<rparr> in
        bindE (fatalE ''server'' (liftE (NewServer
          \<lparr> sc_Addr = sf_addr flags, sc_PSK = psk, sc_AllowPublic = sf_allowPublic flags,
            sc_MaxSessions = sf_maxSessions flags \<rparr>))) (\<lambda>(cfg, slots).
        retE (Serves cfg slots (service_deps blobs (sf_dataDir flags) uuid spawn runner fl S))))))))"

section \<open>A server has a secret and its address is checked\<close>

lemma share_token_Inr:
  assumes "share_token randInt raw env h = (Inr (token, generated), h')"
  shows "ho_Err h' = ho_Err h \<and> ho_os h' = ho_os h \<and>
    (if en_token env = [] then generated \<and> (\<exists>r r'. Generate randInt (words raw) DefaultWords r = (Inr token, r'))
     else \<not> generated \<and> token = en_token env)"
  using assms
  by (auto simp: share_token_def bindE_Inr_iff fatalE_Inr host_rand_def split: if_splits prod.splits)

lemma host_os_Err: "host_os m h = (r, h') \<Longrightarrow> ho_Err h' = ho_Err h"
  by (auto simp: host_os_def split: prod.splits)

lemma server_main_Serves:
  assumes "server_main randInt raw hkdf uuid spawn fl S flags env h = (Inr (Serves cfg slots D), h')"
  shows "\<exists>token. PSKFromToken hkdf token = Inr (sc_PSK cfg) \<and> token \<noteq> [] \<and> length (sc_PSK cfg) = 32 \<and>
    (if en_token env \<noteq> [] then token = en_token env \<and> ho_Err h' = ho_Err h
     else (\<exists>r r'. Generate randInt (words raw) 6 r = (Inr token, r')) \<and>
       ho_Err h' = ho_Err h @ renderTokenBanner token (useColor (en_noColor env) (en_ErrMode env))) \<and>
    checkBind (sc_Addr cfg) (sf_allowPublic flags) = Inr () \<and> sc_Addr cfg = sf_addr flags"
proof -
  have go: "\<not> sf_showVersion flags" using assms by (auto simp: server_main_def split: if_splits)
  obtain token generated h1 psk h2 blobs h3 where
    t: "share_token randInt raw env h = (Inr (token, generated), h1)"
    and psk: "PSKFromToken hkdf token = Inr psk"
    and banner: "(if generated then printTokenBanner env token else retE ()) h1 = (Inr (), h2)"
    and blobs: "host_os (NewBlobStore (blob_dir (sf_dataDir flags))) h2 = (Inr blobs, h3)"
    and srv: "NewServer \<lparr> sc_Addr = sf_addr flags, sc_PSK = psk, sc_AllowPublic = sf_allowPublic flags,
            sc_MaxSessions = sf_maxSessions flags \<rparr> = Inr (cfg, slots)"
    and h': "h' = h3"
    using assms unfolding server_main_def if_not_P[OF go] bindE_Inr_iff fatalE_Inr liftE_Inr Let_def
    by (auto simp: bindE_Inr_iff fatalE_Inr liftE_Inr)
  have cfg: "sc_PSK cfg = psk" "length psk = 32" "checkBind (sc_Addr cfg) (sf_allowPublic flags) = Inr ()"
    "sc_Addr cfg = sf_addr flags"
    using srv by (auto simp: NewServer_def split: if_splits sum.splits)
  have ne: "token \<noteq> []" using psk by (auto simp: PSKFromToken_def DerivePSK_def split: if_splits)
  note tk = share_token_Inr[OF t]
  have err: "ho_Err h' = ho_Err h2" using host_os_Err[OF blobs] h' by simp
  show ?thesis
  proof (cases "en_token env = []")
    case True
    then have "ho_Err h2 = ho_Err h @ renderTokenBanner token (useColor (en_noColor env) (en_ErrMode env))"
      using tk banner by (auto simp: printTokenBanner_def)
    then show ?thesis using True tk cfg ne psk err by (auto simp: DefaultWords_def)
  next
    case False
    then have "h2 = h1" "token = en_token env" using tk banner by auto
    then show ?thesis using False tk cfg ne psk err by auto
  qed
qed

text \<open>
  C37. A server never serves without a secret. If it starts, every connection will be
  authenticated with a key of 32 bytes that is derived from a token that is not empty: the one of
  the environment, and then nothing is shown, or else a passphrase of six words of the list, and
  then it was shown in the banner, so that a client started with that token derives the same key.
  The address it listens on was accepted by the check with the flag that allows public ones.
\<close>

theorem server_starts_with_secret:
  assumes "server_main randInt raw hkdf uuid spawn fl S flags env h = (Inr (Serves cfg slots D), h')"
  shows "\<exists>token. PSKFromToken hkdf token = Inr (sc_PSK cfg) \<and> token \<noteq> [] \<and> length (sc_PSK cfg) = 32 \<and>
    (if en_token env \<noteq> [] then token = en_token env \<and> ho_Err h' = ho_Err h
     else (\<exists>r r'. Generate randInt (words raw) 6 r = (Inr token, r')) \<and>
       ho_Err h' = ho_Err h @ renderTokenBanner token (useColor (en_noColor env) (en_ErrMode env))) \<and>
    checkBind (sc_Addr cfg) (sf_allowPublic flags) = Inr () \<and> sc_Addr cfg = sf_addr flags"
  by (rule server_main_Serves[OF assms])

section \<open>Witness\<close>

definition demo_server :: "(nat list host, unit server_startup) prog" where
  "demo_server = server_main demo_rand ''alpha beta gamma'' demo_hkdf (\<lambda>_. ''id'') (\<lambda>_ _. Inl Canceled) demo_floats
     id_channel (server_defaults (Inr ''/h'')) \<lparr> en_token = [], en_noColor = [], en_ErrMode = Inl Canceled \<rparr>"

definition demo_host :: "nat list host" where
  "demo_host = \<lparr> ho_os = demo_os (NDir []), ho_rand = [0, 2, 1, 1, 0, 2], ho_Err = [] \<rparr>"

lemma demo_server_runs: "\<exists>cfg D h'. demo_server demo_host = (Inr (Serves cfg (Some 8) D), h')"
proof -
  have t: "fst (Generate demo_rand (words ''alpha beta gamma'') 6 [0, 2, 1, 1, 0, 2]) =
      Inr ''alpha-gamma-beta-beta-alpha-gamma''" by code_simp
  then obtain r where t: "Generate demo_rand (words ''alpha beta gamma'') 6 [0, 2, 1, 1, 0, 2] =
      (Inr ''alpha-gamma-beta-beta-alpha-gamma'', r)" by (metis prod.collapse)
  obtain psk where psk: "PSKFromToken demo_hkdf ''alpha-gamma-beta-beta-alpha-gamma'' = Inr psk"
    by (simp add: PSKFromToken_def DerivePSK_def demo_hkdf_def)
  have len: "length psk = 32"
    using DerivePSK_length[OF demo_hkdf_laws] psk by (simp add: PSKFromToken_def PSKLen_def)
  have addr: "checkBind ''127.0.0.1:8443'' False = Inr ()" by code_simp
  have "fst (NewBlobStore (blob_dir ''/h/.claude-share'') (demo_os (NDir []))) = Inr \<lparr> bs_dir = ''/h/.claude-share/objects'' \<rparr>"
    by code_simp
  then obtain s where blobs: "NewBlobStore (blob_dir ''/h/.claude-share'') (demo_os (NDir [])) =
      (Inr \<lparr> bs_dir = ''/h/.claude-share/objects'' \<rparr>, s)" by (metis prod.collapse)
  have dir: "defaultDataDir (Inr ''/h'') = ''/h/.claude-share''" by code_simp
  show ?thesis using t psk len addr blobs
    by (simp add: demo_server_def demo_host_def server_main_def server_defaults_def dir share_token_def DefaultWords_def
        bindE_def fatalE_def liftE_def host_rand_def host_os_def printTokenBanner_def NewServer_def)
qed

theorem server_starts_with_secret_witness:
  "\<exists>cfg slots D h' token. demo_server demo_host = (Inr (Serves cfg slots D), h') \<and> slots = Some 8 \<and>
     PSKFromToken demo_hkdf token = Inr (sc_PSK cfg) \<and> ho_Err h' = renderTokenBanner token False"
proof -
  obtain cfg D h' where run: "demo_server demo_host = (Inr (Serves cfg (Some 8) D), h')"
    using demo_server_runs by blast
  from server_starts_with_secret [OF run[unfolded demo_server_def]]
  obtain token where "PSKFromToken demo_hkdf token = Inr (sc_PSK cfg)"
    "ho_Err h' = ho_Err demo_host @ renderTokenBanner token (useColor [] (Inl Canceled))" by auto
  then show ?thesis using run by (intro exI[of _ cfg] exI[of _ "Some 8"] exI[of _ D] exI[of _ h'] exI[of _ token])
    (simp add: demo_host_def useColor_def)
qed

end
