(* ===== verification/Terminal.thy ===== *)
theory Terminal
  imports ClientApp
begin

text \<open>
  What the user sees, \<^verbatim>\<open>internal/adapters/terminal/terminal.go\<close>: the client's renderer
  over its two output streams. Failing writes are dropped by the code and not modelled.
\<close>

section \<open>The streams\<close>

record console =
  con_Out :: string
  con_Err :: string

definition Fprint_Out :: "string \<Rightarrow> console \<Rightarrow> console" where
  "Fprint_Out t c = c\<lparr> con_Out := con_Out c @ t \<rparr>"

definition Fprint_Err :: "string \<Rightarrow> console \<Rightarrow> console" where
  "Fprint_Err t c = c\<lparr> con_Err := con_Err c @ t \<rparr>"

definition newline :: string where
  "newline = [CHR 0x0A]"

text \<open>The marks in UTF-8: U+2022 before a line, U+2699 before a tool.\<close>

definition bullet :: string where
  "bullet = [CHR 0xE2, CHR 0x80, CHR 0xA2]"

definition gear :: string where
  "gear = [CHR 0xE2, CHR 0x9A, CHR 0x99]"

text \<open>\<^verbatim>\<open>d.CostUSD > 0\<close> on the bits of the number: not negative, not zero, not NaN.\<close>

definition positive_float :: "float64 \<Rightarrow> bool" where
  "positive_float x \<longleftrightarrow> \<not> bit x 63 \<and> x \<noteq> 0 \<and> x \<le> 0x7FF0000000000000"

section \<open>The renderer\<close>

text \<open>\<open>line\<close> is the formatted text.\<close>

definition tm_Info :: "string \<Rightarrow> console \<Rightarrow> console" where
  "tm_Info line = Fprint_Err (bullet @ '' '' @ line @ newline)"

definition kind_of :: "string \<Rightarrow> AgentEventKind" where
  "kind_of s =
     (if s = kind_string AgentInit then AgentInit else if s = kind_string AgentMessage then AgentMessage
      else if s = kind_string AgentToolUse then AgentToolUse
      else if s = kind_string AgentToolResult then AgentToolResult
      else if s = kind_string AgentResult then AgentResult
      else if s = kind_string AgentUnknown then AgentUnknown else OtherKind s)"

definition tm_StreamEvent :: "StreamEventData \<Rightarrow> console \<Rightarrow> console" where
  "tm_StreamEvent d =
     (case kind_of (se_Kind d) of
        AgentMessage \<Rightarrow> if se_Text d \<noteq> [] then Fprint_Out (se_Text d) else id
      | AgentToolUse \<Rightarrow> Fprint_Err (newline @ ''  '' @ gear @ '' tool use'' @ newline)
      | AgentToolResult \<Rightarrow> Fprint_Err (''  '' @ gear @ '' tool result'' @ newline)
      | _ \<Rightarrow> id)"

definition change_symbol :: "string \<Rightarrow> string" where
  "change_symbol op =
     (case map_of [(''create'', ''+''), (''modify'', ''~''), (''delete'', ''-'')] op of
        None \<Rightarrow> ''?'' | Some mark \<Rightarrow> mark)"

definition tm_FileChanged :: "string \<Rightarrow> string \<Rightarrow> console \<Rightarrow> console" where
  "tm_FileChanged op path = Fprint_Err (newline @ ''  '' @ change_symbol op @ '' '' @ path @ newline)"

text \<open>\<open>dollars\<close> is what \<^verbatim>\<open>%.4f\<close> prints.\<close>

definition tm_TurnDone :: "(float64 \<Rightarrow> string) \<Rightarrow> TurnDoneData \<Rightarrow> console \<Rightarrow> console" where
  "tm_TurnDone dollars d c =
     (let c1 = Fprint_Out newline c;
          c2 = (if td_IsError d then Fprint_Err (bullet @ '' turn ended with error'' @ newline) c1 else c1) in
      if positive_float (td_CostUSD d)
      then Fprint_Err (bullet @ '' turn complete ($'' @ dollars (td_CostUSD d) @ '')'' @ newline) c2
      else Fprint_Err (bullet @ '' turn complete'' @ newline) c2)"

definition tm_ServerError :: "string \<Rightarrow> console \<Rightarrow> console" where
  "tm_ServerError msg = Fprint_Err (''! server error: '' @ msg @ newline)"

definition terminal :: "(float64 \<Rightarrow> string) \<Rightarrow> console Renderer" where
  "terminal dollars =
     \<lparr> rr_Info = tm_Info, rr_StreamEvent = tm_StreamEvent, rr_FileChanged = tm_FileChanged,
       rr_TurnDone = tm_TurnDone dollars, rr_ServerError = tm_ServerError \<rparr>"

section \<open>What goes where\<close>

lemma console_streams [simp]:
  "con_Out (Fprint_Out t c) = con_Out c @ t" "con_Err (Fprint_Out t c) = con_Err c"
  "con_Out (Fprint_Err t c) = con_Out c" "con_Err (Fprint_Err t c) = con_Err c @ t"
  by (simp_all add: Fprint_Out_def Fprint_Err_def)

text \<open>The part of a message that is the agent's answer.\<close>

definition answer_text :: "ServerMessage \<Rightarrow> string" where
  "answer_text m =
     (if sm_Type m = TypeStreamEvent \<and> se_Kind (the (sm_StreamEvent m)) = ''message'' then se_Text (the (sm_StreamEvent m))
      else if sm_Type m = TypeTurnDone then newline else [])"

lemma StreamEvent_Out:
  "con_Out (tm_StreamEvent d c) = con_Out c @ (if se_Kind d = ''message'' then se_Text d else [])"
  by (auto simp: tm_StreamEvent_def kind_of_def)

lemma TurnDone_Out: "con_Out (tm_TurnDone dollars d c) = con_Out c @ newline"
  by (simp add: tm_TurnDone_def Let_def)

lemma other_Out [simp]:
  "con_Out (tm_Info line c) = con_Out c" "con_Out (tm_FileChanged op path c) = con_Out c"
  "con_Out (tm_ServerError msg c) = con_Out c"
  by (simp_all add: tm_Info_def tm_FileChanged_def tm_ServerError_def)

end
