(* ===== verification/Links.thy ===== *)
theory Links
  imports Localfs
begin

text \<open>
  Symbolic links. \<^verbatim>\<open>SafeJoin\<close> looks at the text of a path only, while the calls that
  \<^verbatim>\<open>Apply\<close> makes with the path follow links. Here is how a path is followed, where the two agree
  and where they do not, and that \<^verbatim>\<open>Apply\<close> makes no links itself.
\<close>

section \<open>Following a path\<close>

text \<open>
  Where the system arrives that goes from the directory \<open>cur\<close> through the components of a path, when
  \<open>L\<close> gives the target of every symbolic link; as the kernel does, it gives up after \<open>n\<close> links
  (40 on Linux).
\<close>

function walk :: "(string list \<rightharpoonup> string) \<Rightarrow> nat \<Rightarrow> string list \<Rightarrow> string list \<Rightarrow> string list option" where
  "walk L n cur [] = Some cur"
| "walk L n cur (c # cs) =
     (if c = [] \<or> c = ''.'' then walk L n cur cs
      else if c = ''..'' then walk L n (butlast cur) cs
      else case L (cur @ [c]) of
        None \<Rightarrow> walk L n (cur @ [c]) cs
      | Some target \<Rightarrow>
          (case n of
             0 \<Rightarrow> None
           | Suc k \<Rightarrow> walk L k (if IsAbs target then [] else cur) (split_on slash target @ cs)))"
  by pat_completeness auto
termination
  by (relation "measures [\<lambda>(L, n, cur, cs). n, \<lambda>(L, n, cur, cs). length cs]") auto

lemma plain_step: "plain_name c \<Longrightarrow> c \<noteq> [] \<and> c \<noteq> ''.'' \<and> c \<noteq> ''..''"
  by (auto simp: plain_name_def)

text \<open>Without a link on the way a path leads to where its text says.\<close>

lemma walk_plain:
  "list_all plain_name cs \<Longrightarrow> (\<And>p. prefix p (cur @ cs) \<Longrightarrow> L p = None) \<Longrightarrow> walk L n cur cs = Some (cur @ cs)"
proof (induction cs arbitrary: cur)
  case (Cons c cs)
  have "L (cur @ [c]) = None" by (rule Cons.prems(2)) (simp add: prefix_def)
  then show ?case using Cons.IH[of "cur @ [c]"] Cons.prems plain_step[of c] by simp
qed simp

lemma walk_append:
  assumes "list_all plain_name cs" "\<And>p. prefix p (cur @ cs) \<Longrightarrow> L p = None"
  shows "walk L n cur (cs @ ds) = walk L n (cur @ cs) ds"
  using assms
proof (induction cs arbitrary: cur)
  case (Cons c cs)
  have "L (cur @ [c]) = None" by (rule Cons.prems(2)) (simp add: prefix_def)
  then show ?case using Cons.IH[of "cur @ [c]"] Cons.prems plain_step[of c] by simp
qed simp

section \<open>What SafeJoin promises\<close>

text \<open>The place of an accepted path, for a name below a name.\<close>

lemma SafeJoin_two:
  assumes wf: "os_wf s" and root: "IsAbs root" "loc s root \<noteq> []" and pl: "plain_name l" "plain_name f"
  obtains dst where "SafeJoin_os root (l @ slash # f) s = (Inr dst, s)" "loc s dst = loc s root @ [l, f]"
    "loc s (Dir dst) = loc s root @ [l]"
proof -
  let ?rel = "l @ slash # f"
  have wd: "IsAbs (os_cwd s)" using wf by (simp add: os_wf_def)
  have ns: "slash \<notin> set l" "slash \<notin> set f" "l \<noteq> []" using pl by (auto simp: plain_name_def)
  have sp: "split_on slash ?rel = [l, f]" using ns by (simp add: split_on_sep split_on_id)
  have abs: "\<not> IsAbs ?rel" using ns by (cases l) auto
  have pc: "path_comps ?rel = [l, f]"
    using pl abs by (simp add: path_comps_def sp clean_step_plain)
  have esc: "\<not> escapes ?rel" using pc plain_step[OF pl(1)] by (simp add: escapes_def)
  have "SafeJoin (Inr (os_cwd s)) root ?rel = Inr (Join [root, Clean ?rel])"
    using root(2) abs esc by (simp add: SafeJoin_eval[OF wd] loc_def)
  then have sj: "SafeJoin_os root ?rel s = (Inr (Join [root, Clean ?rel]), s)" by (simp add: SafeJoin_os_def)
  note d = SafeJoin_os_Inr[OF wf sj]
  show thesis by (rule that[OF sj]) (use d(2,4) pc in simp_all)
qed

text \<open>
  C39. \<^verbatim>\<open>SafeJoin\<close> keeps the text of a path below the root, not the file. Where no symbolic link is on
  the way, a path that it accepts leads to the place below the root that its text names. But if the
  entry \<open>l\<close> of the root is a symbolic link, the path \<open>l/f\<close> is accepted all the same, the
  place that was checked is below the root, and the directory in which the file is then made is the one
  that the link points to, anywhere in the system.
\<close>

theorem link_leads_outside:
  assumes "os_wf s" and "IsAbs root" and "loc s root \<noteq> []"
  shows "(\<forall>rel dst s'. SafeJoin_os root rel s = (Inr dst, s') \<longrightarrow> (\<forall>p. prefix p (loc s dst) \<longrightarrow> L p = None) \<longrightarrow>
      prefix (loc s root) (loc s dst) \<and> walk L n [] (loc s dst) = Some (loc s dst)) \<and>
    (\<forall>l f target. plain_name l \<longrightarrow> plain_name f \<longrightarrow> list_all plain_name target \<longrightarrow> 0 < n \<longrightarrow>
      L = [loc s root @ [l] \<mapsto> slash # join_with slash target] \<longrightarrow> \<not> prefix (loc s root @ [l]) target \<longrightarrow>
      (\<exists>dst. SafeJoin_os root (l @ slash # f) s = (Inr dst, s) \<and> prefix (loc s root) (loc s dst) \<and>
        walk L n [] (loc s (Dir dst)) = Some target))"
proof (intro conjI allI impI)
  fix rel dst s' p
  assume sj: "SafeJoin_os root rel s = (Inr dst, s')" and none: "\<forall>p. prefix p (loc s dst) \<longrightarrow> L p = None"
  show "prefix (loc s root) (loc s dst)" using SafeJoin_os_Inr(2)[OF assms(1) sj] by simp
  show "walk L n [] (loc s dst) = Some (loc s dst)"
    using walk_plain[of "loc s dst" "[]" L n] loc_plain[OF assms(1)] none by simp
next
  fix l f target
  assume pl: "plain_name l" "plain_name f" and tg: "list_all plain_name target" and n: "0 < n"
    and L: "L = [loc s root @ [l] \<mapsto> slash # join_with slash target]" and off: "\<not> prefix (loc s root @ [l]) target"
  obtain dst where d: "SafeJoin_os root (l @ slash # f) s = (Inr dst, s)" "loc s dst = loc s root @ [l, f]"
    "loc s (Dir dst) = loc s root @ [l]" by (rule SafeJoin_two[OF assms pl])
  obtain k where k: "n = Suc k" using n by (cases n) auto
  have free: "L p = None" if "prefix p ([] @ loc s root)" for p
    using that L by (auto simp: prefix_def)
  have "walk L n [] (loc s root @ [l]) = walk L n (loc s root) [l]"
    using walk_append[of "loc s root" "[]" L n "[l]", OF loc_plain[OF assms(1)] free] by (simp del: walk.simps)
  also have "\<dots> = walk L k [] (split_on slash (slash # join_with slash target))"
    using plain_step[OF pl(1)] L k by simp
  also have "\<dots> = walk L k [] target"
  proof (cases "target = []")
    case False
    have "\<And>x. x \<in> set target \<Longrightarrow> slash \<notin> set x" using tg by (auto simp: list_all_iff plain_name_def)
    then have "split_on slash (slash # join_with slash target) = [] # target"
      using split_on_sep[of slash "[]" "join_with slash target"] split_join_with[OF False, of slash] by simp
    then show ?thesis by simp
  qed (simp add: split_on_sep)
  also have "\<dots> = Some target"
    using walk_plain[of target "[]" L k] tg off L by (auto simp: prefix_order.trans)
  finally have w: "walk L n [] (loc s (Dir dst)) = Some target" using d(3) by simp
  show "\<exists>dst. SafeJoin_os root (l @ slash # f) s = (Inr dst, s) \<and> prefix (loc s root) (loc s dst) \<and>
      walk L n [] (loc s (Dir dst)) = Some target"
    using d w by (intro exI[of _ dst]) simp
qed

section \<open>Apply makes no links\<close>

definition no_new_links :: "os \<Rightarrow> os \<Rightarrow> bool" where
  "no_new_links s s' \<longleftrightarrow> (\<forall>q. osat s' q = Some IOther \<longrightarrow> osat s q = Some IOther)"

lemma no_new_links_keep: "no_new_links s s' \<Longrightarrow> os_env s' = os_env s \<Longrightarrow> no_links s p \<Longrightarrow> no_links s' p"
  using loc_env[of s' s p] by (auto simp: no_new_links_def no_links_def)

lemma Remove_links: "os_wf s \<Longrightarrow> os_Remove p s = (r, s') \<Longrightarrow> no_new_links s s'"
  by (erule Remove_cases) (auto simp: no_new_links_def split: if_splits)

lemma fill_links:
  assumes wf: "os_wf s" and fin: "sets_mode fin md"
    and s0: "osat s = (osat s0)(loc s tmp \<mapsto> IFile [] m)"
    and run: "fill_and_rename fin content target tmp s = (r, s')"
  shows "no_new_links s0 s'"
proof -
  let ?steps = "bindE (onErrE (tmp_Write tmp content) (tmp_Close tmp)) (\<lambda>_.
          bindE (tmp_Close tmp) (\<lambda>_. fin tmp))"
  obtain rs s1 where st: "?steps s = (rs, s1)" by (cases "?steps s")
  obtain b' m' where k1: "os_wf s1" "os_env s1 = os_env s" "osat s1 = (osat s0)(loc s tmp \<mapsto> IFile b' m')"
    using fill_steps[OF wf fin s0 st] by blast
  have at1: "osat s1 (loc s1 tmp) = Some (IFile b' m')" using k1(3) loc_env[OF k1(2)] by simp
  have l1: "no_new_links s0 s1" using k1(3) by (auto simp: no_new_links_def split: if_splits)
  obtain s2 where s2: "s' = snd (os_Remove tmp s2)" "os_wf s2" "no_new_links s0 s2"
  proof (cases rs)
    case (Inl e)
    then show ?thesis using that[of s1] run st k1(1) l1 by (simp add: fill_and_rename_alt deferE_def)
  next
    case (Inr u)
    obtain r2 s2 where r2: "os_Rename tmp target s1 = (r2, s2)" by (cases "os_Rename tmp target s1")
    have "s' = snd (os_Remove tmp s2)"
      using run st Inr r2 by (simp add: fill_and_rename_alt deferE_def)
    moreover have "os_wf s2 \<and> no_new_links s0 s2"
    proof (rule Rename_cases[OF r2 at1])
      assume n: "loc s1 target \<noteq> []" "osat s1 (loc s1 target) \<noteq> Some IDir"
        "osat s1 (butlast (loc s1 target)) = Some IDir"
        "s2 = write_file (loc s1 target) b' m' (set_tree (graft (os_tree s1) (loc s1 tmp) None) s1)"
      show ?thesis using osat_rename[OF k1(1) at1 n(1) loc_plain[OF k1(1)] n(2-4)] l1
        by (auto simp: no_new_links_def split: if_splits)
    qed (use k1(1) l1 in simp)
    ultimately show ?thesis using that by blast
  qed
  obtain r3 where "os_Remove tmp s2 = (r3, s')" using s2(1) by (metis prod.collapse)
  from Remove_links[OF s2(2) this] show ?thesis using s2(3) by (simp add: no_new_links_def)
qed

lemma atomic_links:
  assumes wf: "os_wf s" and fin: "sets_mode fin md" and pre: "slash \<notin> set pre" "2 < length pre" and dir: "dir \<noteq> ''''"
    and run: "bindE (os_CreateTemp dir pre) (fill_and_rename fin content target) s = (r, s')"
  shows "no_new_links s s'"
proof -
  obtain rt s1 where t: "os_CreateTemp dir pre s = (rt, s1)" by (cases "os_CreateTemp dir pre s")
  have k1: "os_wf s1 \<and> os_env s1 = os_env s" by (rule os_keepsD[OF os_keeps_CreateTemp[OF pre] wf t])
  show ?thesis
  proof (rule CreateTemp_cases[OF t])
    fix e rs assume "rt = Inl e" "s1 = s\<lparr>os_rands := rs\<rparr>"
    then show ?thesis using run t by (auto simp: no_new_links_def osat_def)
  next
    fix x rs
    let ?t = "loc s dir @ [pre @ decimal x]"
    assume c: "rt = Inr (joinPath dir (pre @ decimal x))" "osat s (loc s dir) = Some IDir"
      "osat s ?t = None" "s1 = write_file ?t [] (umasked s 0x180) (s\<lparr>os_rands := rs\<rparr>)"
    have lt: "loc s1 (joinPath dir (pre @ decimal x)) = ?t"
      using loc_joinPath[OF wf dir plain_temp[OF pre]] k1 loc_env by metis
    have s1: "osat s1 = (osat s)(?t \<mapsto> IFile [] (umasked s 0x180))"
      unfolding c(4) by (subst osat_write_file) (use c in auto)
    have "fill_and_rename fin content target (joinPath dir (pre @ decimal x)) s1 = (r, s')"
      using run t c(1) by simp
    then show ?thesis using fill_links[OF _ fin] k1 s1 lt by metis
  qed
qed

lemma Apply_links:
  assumes wf: "os_wf s" and run: "pj_Apply p ch content s = (r, s')"
  shows "no_new_links s s'"
proof (cases "fst (SafeJoin_os (pj_root p) (fc_Path ch) s)")
  case (Inl e)
  then have "s' = s" using run SafeJoin_os_state[of "pj_root p" "fc_Path ch" s]
    by (cases "SafeJoin_os (pj_root p) (fc_Path ch) s") (simp add: pj_Apply_def)
  then show ?thesis by (simp add: no_new_links_def)
next
  case (Inr dst)
  then have sj: "SafeJoin_os (pj_root p) (fc_Path ch) s = (Inr dst, s)"
    using SafeJoin_os_state[of "pj_root p" "fc_Path ch" s] by (metis prod.collapse)
  show ?thesis
  proof (cases "fc_Op ch = ChangeDelete")
    case True
    obtain rr s1 where rm: "os_Remove dst s = (rr, s1)" by (cases "os_Remove dst s")
    have "s' = s1" using run sj rm True by (cases rr) (auto simp: pj_Apply_def split: if_splits)
    then show ?thesis using Remove_links[OF wf rm] by simp
  next
    case False
    obtain rm s1 where m: "os_MkdirAll (Dir dst) s = (rm, s1)" by (cases "os_MkdirAll (Dir dst) s")
    have nd: "Dir dst \<noteq> ''''" by (simp add: Dir_def)
    have w: "(case rm of Inl e \<Rightarrow> s' = s1 | Inr _ \<Rightarrow> bindE (os_CreateTemp (Dir dst) ''.claude-share-'')
        (fill_and_rename (\<lambda>t. os_Chmod t (file_mode (fc_Mode ch))) content dst) s1 = (r, s'))"
      using run sj m by (cases rm) (auto simp: pj_Apply_write[OF False])
    show ?thesis
    proof (rule MkdirAll_cases[OF m])
      fix e assume "rm = Inl e" "s1 = s"
      then show ?thesis using w by (simp add: no_new_links_def)
    next
      assume a: "rm = Inr ()" "osat s1 = (\<lambda>q. if prefix q (loc s (Dir dst)) then Some IDir else osat s q)"
        "os_wf s \<Longrightarrow> os_wf s1"
      have "no_new_links s1 s'"
        by (rule atomic_links[OF a(3)[OF wf] sets_mode_Chmod _ _ nd]) (use w a(1) in auto)
      then show ?thesis using a(2) by (auto simp: no_new_links_def split: if_splits)
    qed
  qed
qed

section \<open>Witness\<close>

text \<open>A project \<^verbatim>\<open>/w\<close> with a link to the directory \<^verbatim>\<open>/home/u\<close>.\<close>

theorem link_leads_outside_witness:
  "\<exists>dst. SafeJoin_os ''/w'' ''out/.bashrc'' demo_pj_os = (Inr dst, demo_pj_os) \<and>
     walk [[''w'', ''out''] \<mapsto> ''/home/u''] 40 [] (loc demo_pj_os (Dir dst)) = Some [''home'', ''u'']"
proof -
  have l: "loc demo_pj_os ''/w'' = [''w'']" by code_simp
  have wf: "os_wf demo_pj_os" using demo_pj_facts(1) by (simp add: pj_open_def)
  have pl: "plain_name ''out''" "plain_name ''.bashrc''" "list_all plain_name [''home'', ''u'']" by code_simp+
  have t: "slash # join_with slash [''home'', ''u''] = ''/home/u''" "''out'' @ slash # ''.bashrc'' = ''out/.bashrc''" by code_simp+
  have off: "\<not> prefix ([''w''] @ [''out'']) [''home'', ''u'']" by simp
  have ab: "IsAbs ''/w''" "loc demo_pj_os ''/w'' \<noteq> []" unfolding l by simp_all
  have r: "[''w''] @ [''out''] = [''w'', ''out'']" by simp
  note th = link_leads_outside [OF wf ab, of "[[''w'', ''out''] \<mapsto> ''/home/u'']" 40, THEN conjunct2, rule_format,
      OF pl(1,2,3), unfolded t l r, OF _ refl]
  have "0 < (40::nat)" "\<not> prefix [''w'', ''out''] [''home'', ''u'']" by simp_all
  then show ?thesis using th by blast
qed

end
