(* ===== verification/ClientMain.thy ===== *)
theory ClientMain
  imports Terminal Connect Links Startup
begin

text \<open>
  How \<^verbatim>\<open>cmd/client/main.go\<close> puts the client together: the world of the client
  application has the file system, the connection to the server and the console; each port is the
  implementation of its component on its part. What the whole client can do to the files of its
  user is proved here, for any server.
\<close>

section \<open>The world\<close>

record 'c client_world =
  cw_os :: os
  cw_conn :: "'c conn"
  cw_console :: console

definition at_os :: "(os, 'a) prog \<Rightarrow> ('c client_world, 'a) prog" where
  "at_os m w = (case m (cw_os w) of (r, s) \<Rightarrow> (r, w\<lparr> cw_os := s \<rparr>))"

definition at_conn :: "('c conn, 'a) prog \<Rightarrow> ('c client_world, 'a) prog" where
  "at_conn m w = (case m (cw_conn w) of (r, c) \<Rightarrow> (r, w\<lparr> cw_conn := c \<rparr>))"

definition at_console :: "(console \<Rightarrow> console) \<Rightarrow> 'c client_world \<Rightarrow> 'c client_world" where
  "at_console f w = w\<lparr> cw_console := f (cw_console w) \<rparr>"

section \<open>The ports on it\<close>

definition project_on :: "Project \<Rightarrow> 'c client_world ProjectPort" where
  "project_on p =
     \<lparr> pp_Manifest = at_os (pj_Manifest p), pp_ReadFile = \<lambda>path. at_os (pj_ReadFile p path),
       pp_Apply = \<lambda>ch content. at_os (pj_Apply p ch content) \<rparr>"

definition wsTransport :: "float_ops \<Rightarrow> 'c SecureChannel \<Rightarrow> 'c client_world Transport" where
  "wsTransport fl S =
     \<lparr> tp_SessionStart = \<lambda>projectName manifest. at_conn (cl_SessionStart S projectName manifest),
       tp_UploadBlob = \<lambda>hash content. at_conn (cl_UploadBlob S hash content),
       tp_SyncDone = at_conn (cl_SyncDone S),
       tp_Prompt = \<lambda>t. at_conn (cl_Prompt S t),
       tp_SessionEnd = at_conn (cl_SessionEnd S),
       tp_ReadServerMessage = at_conn (ReadServerMessage fl S) \<rparr>"

definition terminal_on :: "(float64 \<Rightarrow> string) \<Rightarrow> 'c client_world Renderer" where
  "terminal_on dollars =
     \<lparr> rr_Info = \<lambda>line. at_console (rr_Info (terminal dollars) line),
       rr_StreamEvent = \<lambda>d. at_console (rr_StreamEvent (terminal dollars) d),
       rr_FileChanged = \<lambda>op path. at_console (rr_FileChanged (terminal dollars) op path),
       rr_TurnDone = \<lambda>d. at_console (rr_TurnDone (terminal dollars) d),
       rr_ServerError = \<lambda>msg. at_console (rr_ServerError (terminal dollars) msg) \<rparr>"

definition client_app ::
  "(error \<Rightarrow> string) \<Rightarrow> (float64 \<Rightarrow> string) \<Rightarrow> float_ops \<Rightarrow> 'c SecureChannel \<Rightarrow> Project \<Rightarrow> string \<Rightarrow> 'c client_world App" where
  "client_app say dollars fl S proj projectName =
     \<lparr> ap_Project = project_on proj, ap_Transport = wsTransport fl S, ap_Renderer = terminal_on dollars,
       ap_ProjectName = projectName, ap_say = say \<rparr>"

section \<open>Starting\<close>

text \<open>The flags, with what they are when not given.\<close>

record client_flags =
  cf_server :: string
  cf_dir :: string
  cf_name :: string
  cf_maxFile :: int
  cf_maxTotal :: int
  cf_showVersion :: bool

definition client_defaults :: client_flags where
  "client_defaults =
     \<lparr> cf_server = ''ws://127.0.0.1:8443/ws'', cf_dir = ''.'', cf_name = [], cf_maxFile = push_bit 20 25,
       cf_maxTotal = push_bit 20 500, cf_showVersion = False \<rparr>"

text \<open>The loop of \<^verbatim>\<open>filepathBase\<close>: \<open>i\<close> counts down.\<close>

fun base_from :: "string \<Rightarrow> nat \<Rightarrow> string" where
  "base_from p 0 = p"
| "base_from p (Suc i) = (if p ! i = slash \<or> p ! i = CHR 0x5C then drop (Suc i) p else base_from p i)"

definition filepathBase :: "string \<Rightarrow> string" where
  "filepathBase p = base_from p (length p)"

datatype 'c startup = ShowsVersion string | Runs "'c client_world App" "'c client_world"

text \<open>Up to \<^verbatim>\<open>app.Run\<close>; \<open>wsDial\<close> is what dialling an address gives.\<close>

definition client_main ::
  "('r, 'h, 'k) noise_lib \<Rightarrow> 'r \<Rightarrow> (bytes \<Rightarrow> bytes \<Rightarrow> nat \<Rightarrow> error + bytes) \<Rightarrow> (string list \<Rightarrow> string \<Rightarrow> bool) \<Rightarrow>
   (string \<Rightarrow> error + link) \<Rightarrow> (error \<Rightarrow> string) \<Rightarrow> (float64 \<Rightarrow> string) \<Rightarrow> float_ops \<Rightarrow>
   client_flags \<Rightarrow> string \<Rightarrow> (os, 'k Channel startup) prog" where
  "client_main N rnd hkdf compileIgnoreLines wsDial say dollars fl flags token =
     (if cf_showVersion flags then retE (ShowsVersion (''claude-share-client '' @ Version @ newline))
      else if token = [] then throwE (ErrMsg ''CLAUDE_SHARE_TOKEN must be set (must match the server's token)'')
      else
        bindE (fatalE ''derive PSK'' (liftE (PSKFromToken hkdf token))) (\<lambda>psk.
        bindE (fatalE ''open project'' (pj_Open compileIgnoreLines (cf_dir flags) (cf_maxFile flags) (cf_maxTotal flags))) (\<lambda>proj.
        let projectName = (if cf_name flags = [] then filepathBase (pj_root proj) else cf_name flags) in
        bindE (fatalE ''connect'' (readE (\<lambda>_. case wsDial (cf_server flags) of
            Inl e \<Rightarrow> Inl e | Inr lk \<Rightarrow> fst (Dial N rnd psk lk)))) (\<lambda>client.
        bindE (readE Inr) (\<lambda>s.
        retE (Runs (client_app say dollars fl (noise_channel N) proj projectName)
          \<lparr> cw_os = s, cw_conn = client, cw_console = \<lparr> con_Out = [], con_Err = [] \<rparr> \<rparr>))))))"

section \<open>The client application keeps what its ports keep\<close>

text \<open>
  A condition \<open>J\<close> on the world that every call of a port keeps, and everything that happens
  outside, holds at every point of a run.
\<close>

locale world_keeper =
  fixes A :: "'s App" and W :: "'s \<Rightarrow> 's \<Rightarrow> bool" and J :: "'s \<Rightarrow> bool"
  assumes keeps_outside: "J s \<Longrightarrow> W s s' \<Longrightarrow> J s'"
    and keeps_Manifest: "J s \<Longrightarrow> J (snd (pp_Manifest (ap_Project A) s))"
    and keeps_ReadFile: "J s \<Longrightarrow> J (snd (pp_ReadFile (ap_Project A) path s))"
    and keeps_Apply: "J s \<Longrightarrow> J (snd (pp_Apply (ap_Project A) ch content s))"
    and keeps_SessionStart: "J s \<Longrightarrow> J (snd (tp_SessionStart (ap_Transport A) nm dto s))"
    and keeps_UploadBlob: "J s \<Longrightarrow> J (snd (tp_UploadBlob (ap_Transport A) h content s))"
    and keeps_SyncDone: "J s \<Longrightarrow> J (snd (tp_SyncDone (ap_Transport A) s))"
    and keeps_Prompt: "J s \<Longrightarrow> J (snd (tp_Prompt (ap_Transport A) t s))"
    and keeps_SessionEnd: "J s \<Longrightarrow> J (snd (tp_SessionEnd (ap_Transport A) s))"
    and keeps_Read: "J s \<Longrightarrow> J (snd (tp_ReadServerMessage (ap_Transport A) s))"
    and keeps_Info: "J s \<Longrightarrow> J (rr_Info (ap_Renderer A) line s)"
    and keeps_Event: "J s \<Longrightarrow> J (rr_StreamEvent (ap_Renderer A) ev s)"
    and keeps_FileChanged: "J s \<Longrightarrow> J (rr_FileChanged (ap_Renderer A) op path s)"
    and keeps_TurnDone: "J s \<Longrightarrow> J (rr_TurnDone (ap_Renderer A) td s)"
    and keeps_ServerError: "J s \<Longrightarrow> J (rr_ServerError (ap_Renderer A) msg s)"
begin

lemma keeps_info: "J (cl_world x) \<Longrightarrow> J (cl_world (info A line x))"
  by (simp add: info_def keeps_Info)

lemma keeps_applyChange: "J s \<Longrightarrow> J (applyChange A fc content s)"
  using keeps_Apply[of s]
  by (auto simp: applyChange_def Let_def split: prod.split sum.split
      intro!: keeps_ServerError keeps_FileChanged dest: sndI)

lemma keeps_react: "J (cl_world x) \<Longrightarrow> J (cl_world (react A msg x))"
  by (simp add: react_def Let_def keeps_Event keeps_applyChange keeps_TurnDone keeps_ServerError)

lemma keeps_proceed: "J (snd rs) \<Longrightarrow> J (cl_world (proceed rs nxt x))"
  by (auto simp: proceed_def split: prod.split sum.split)

lemma keeps_run_start: "J s \<Longrightarrow> J (snd (run_start A s))"
  using keeps_Manifest[of s] by (auto simp: run_start_def split: prod.split sum.split)

lemma keeps_upload_one: "J s \<Longrightarrow> J (snd (upload_one A byHash h s))"
proof (cases "byHash h")
  case (Some path)
  assume "J s"
  then have "J (snd (pp_ReadFile (ap_Project A) path s))" by (rule keeps_ReadFile)
  then show ?thesis using Some keeps_UploadBlob
    by (cases "pp_ReadFile (ap_Project A) path s"; cases "fst (pp_ReadFile (ap_Project A) path s)")
       (simp_all add: upload_one_def bindE_def)
qed (simp add: upload_one_def)

lemma keeps_step:
  assumes "cstep A W x y" "J (cl_world x)"
  shows "J (cl_world y)"
  using assms
proof cases
  case (others s)
  then show ?thesis using keeps_outside[OF assms(2)] by simp
next
  case (reader_reads msg s)
  then have "J s" using keeps_Read[OF assms(2)] by simp
  then show ?thesis using reader_reads by (simp add: keeps_react)
next
  case (reader_stops e s)
  then show ?thesis using keeps_Read[OF assms(2)] by simp
next
  case main_starts
  then show ?thesis using assms(2) by (simp add: keeps_proceed keeps_run_start)
next
  case (main_sends dto idx y')
  then show ?thesis using assms(2) by (simp add: keeps_proceed keeps_SessionStart keeps_info)
next
  case (main_uploads idx h hs n)
  then show ?thesis using assms(2) by (simp add: keeps_proceed keeps_upload_one)
next
  case (main_uploaded idx n y')
  then show ?thesis using assms(2) by (simp add: keeps_info)
next
  case main_syncs
  then show ?thesis using assms(2) by (simp add: keeps_proceed keeps_SyncDone)
next
  case (main_ready i y')
  then show ?thesis using assms(2) by (simp add: keeps_info)
next
  case (main_prompts line lines)
  have "J (snd (tp_Prompt (ap_Transport A) (TrimSpace line) (cl_world x)))" by (rule keeps_Prompt[OF assms(2)])
  then show ?thesis using main_prompts by (simp add: keeps_proceed)
next
  case main_quits
  then show ?thesis using assms(2) by (simp add: keeps_proceed keeps_SessionEnd)
qed (use assms(2) in simp_all)

lemma keeps_run:
  assumes "(cstep A W)\<^sup>*\<^sup>* x y" "J (cl_world x)"
  shows "J (cl_world y)"
  using assms by (induction rule: rtranclp_induct) (auto intro: keeps_step)

end

section \<open>The files of the user\<close>

text \<open>All that the model lets happen outside: the connection changes in any way.\<close>

definition conn_moves :: "'c client_world \<Rightarrow> 'c client_world \<Rightarrow> bool" where
  "conn_moves w w' \<longleftrightarrow> w' = w\<lparr> cw_conn := cw_conn w' \<rparr>"

definition files_kept :: "Project \<Rightarrow> os \<Rightarrow> 'c client_world \<Rightarrow> bool" where
  "files_kept p s0 w \<longleftrightarrow> project_place p (cw_os w) \<and> os_env (cw_os w) = os_env s0 \<and>
     (\<forall>q. \<not> near_project p s0 q \<longrightarrow> osat (cw_os w) q = osat s0 q) \<and> no_new_links s0 (cw_os w)"

lemma at_conn_os [simp]: "cw_os (snd (at_conn m w)) = cw_os w"
  by (simp add: at_conn_def split: prod.split)

lemma at_console_os [simp]: "cw_os (at_console f w) = cw_os w"
  by (simp add: at_console_def)

lemma at_os_os [simp]: "cw_os (snd (at_os m w)) = snd (m (cw_os w))"
  by (simp add: at_os_def split: prod.split)

lemma pj_Manifest_state: "snd (pj_Manifest p s) = s"
  by (simp add: pj_Manifest_def WalkManifest_def)

lemma pj_ReadFile_state: "snd (pj_ReadFile p path s) = s"
proof (cases "SafeJoin_os (pj_root p) path s")
  case (Pair r s')
  then have "s' = s" using SafeJoin_os_state[of "pj_root p" path s] by simp
  then show ?thesis using Pair by (cases r) (simp_all add: pj_ReadFile_def bindE_def ReadFile_state)
qed

lemma files_kept_Apply: "files_kept p s0 w \<Longrightarrow> files_kept p s0 (snd (at_os (pj_Apply p ch content) w))"
proof -
  assume k: "files_kept p s0 w"
  obtain r s' where run: "pj_Apply p ch content (cw_os w) = (r, s')" by (cases "pj_Apply p ch content (cw_os w)")
  have k1: "project_place p (cw_os w)" "os_env (cw_os w) = os_env s0"
    "\<And>q. \<not> near_project p s0 q \<Longrightarrow> osat (cw_os w) q = osat s0 q" "no_new_links s0 (cw_os w)"
    using k unfolding files_kept_def by blast+
  have a: "os_env s' = os_env (cw_os w)" "project_place p s'"
    "\<And>q. \<not> near_project p (cw_os w) q \<Longrightarrow> osat s' q = osat (cw_os w) q"
    using Apply_near[OF k1(1) run] by blast+
  have "osat s' q = osat s0 q" if "\<not> near_project p s0 q" for q
    using a(3)[of q] k1(3)[OF that] that near_project_env[OF k1(2), of p q] by simp
  moreover have "no_new_links s0 s'"
    using Apply_links[OF _ run] k1(1,4) by (auto simp: project_place_def no_new_links_def)
  ultimately show ?thesis unfolding files_kept_def at_os_os run snd_conv using a k1(2) by simp
qed

interpretation user_files: world_keeper "client_app say dollars fl S p nm" conn_moves "files_kept p s0"
  for say dollars fl S p nm s0
proof
  show "files_kept p s0 (s' :: 'a client_world)" if "files_kept p s0 s" "conn_moves s s'" for s s'
  proof -
    have "cw_os s' = cw_os s" using that(2) unfolding conn_moves_def by (metis client_world.select_convs(1) client_world.surjective client_world.update_convs(2))
    then show ?thesis using that(1) by (simp add: files_kept_def)
  qed
  show "files_kept p s0 (snd (pp_Apply (ap_Project (client_app say dollars fl S p nm)) ch content s))"
    if "files_kept p s0 s" for ch content and s :: "'a client_world"
    using files_kept_Apply[OF that] by (simp add: client_app_def project_on_def)
qed (simp_all add: files_kept_def client_app_def project_on_def wsTransport_def terminal_on_def
    pj_Manifest_state pj_ReadFile_state)

lemma loc_Abs:
  assumes "os_wf s" "Abs (Inr (os_cwd s)) dir = Inr a"
  shows "IsAbs a" "loc s a = loc s dir"
proof -
  have wd: "IsAbs (os_cwd s)" using assms(1) by (simp add: os_wf_def)
  have "IsAbs a \<and> locate (os_cwd s) a = locate (os_cwd s) dir"
  proof (cases "IsAbs dir")
    case True
    then show ?thesis using assms(2) wd by (auto simp: Abs_def locate_Clean)
  next
    case False
    have ne: "os_cwd s \<noteq> ''''" using wd by auto
    have a: "a = Clean (os_cwd s @ slash # dir)"
      using assms(2) False ne by (simp add: Abs_def Join2)
    show ?thesis using False wd unfolding a by (simp add: locate_def IsAbs_append ne)
  qed
  then show "IsAbs a" "loc s a = loc s dir" by (auto simp: loc_def)
qed

lemma read_ignore_files_ok: "\<exists>ls. read_ignore_files root names lines s = (Inr ls, s)"
proof (induction names arbitrary: lines)
  case (Cons n ns)
  obtain r where "os_ReadFile (Join [root, n]) s = (r, s)"
    using ReadFile_state[of "Join [root, n]" s] by (metis prod.collapse)
  then show ?case using Cons by (cases r) (simp_all add: bindE_def tryE_def)
qed simp

lemma open_project:
  assumes "os_wf s" "pj_Open cmp dir mf mt s = (Inr p, s')"
  shows "s' = s \<and> pj_open p s \<and> loc s (pj_root p) = loc s dir"
proof -
  obtain a where a: "Abs (Inr (os_cwd s)) dir = Inr a"
    using assms(2) by (cases "Abs (Inr (os_cwd s)) dir") (auto simp: pj_Open_def bindE_def)
  obtain fi where st: "os_Stat a s = (Inr fi, s)"
    using assms(2) a Stat_state[of a s]
    by (cases "os_Stat a s"; cases "fst (os_Stat a s)") (auto simp: pj_Open_def bindE_def)
  have dir: "fi = IDir" using assms(2) a st by (auto simp: pj_Open_def bindE_def split: if_splits)
  obtain ls where rd: "read_ignore_files a [''.gitignore'', ''.claudeshareignore''] [] s = (Inr ls, s)"
    using read_ignore_files_ok by blast
  have "s' = s \<and> pj_root p = a"
    using assms(2) a st dir rd by (auto simp: pj_Open_def bindE_def)
  moreover have "osat s (loc s a) = Some IDir" using Stat_Inr[of a s fi] st dir by simp
  ultimately show ?thesis using loc_Abs[OF assms(1) a] assms(1) by (simp add: pj_open_def)
qed

lemma client_main_Runs:
  assumes "os_wf s" "client_main N rnd hkdf cmp wsDial say dollars fl flags token s = (Inr (Runs A w), s1)"
  obtains p nm where "A = client_app say dollars fl (noise_channel N) p nm" "cw_os w = s" "s1 = s"
    "pj_open p s" "loc s (pj_root p) = loc s (cf_dir flags)"
proof -
  have go: "\<not> cf_showVersion flags" "token \<noteq> []"
    using assms(2) by (auto simp: client_main_def split: if_splits)
  obtain p s2 c nm where p: "pj_Open cmp (cf_dir flags) (cf_maxFile flags) (cf_maxTotal flags) s = (Inr p, s2)"
    and r: "Runs A w = Runs (client_app say dollars fl (noise_channel N) p nm)
      \<lparr> cw_os = s2, cw_conn = c, cw_console = \<lparr> con_Out = [], con_Err = [] \<rparr> \<rparr>" "s1 = s2"
    using assms(2) unfolding client_main_def if_not_P[OF go(1)] if_not_P[OF go(2)] bindE_Inr_iff fatalE_Inr liftE_Inr
      Let_def readE_run retE_run prod.inject sum.inject by blast
  show thesis using that[of p nm] open_project[OF assms(1) p] r by auto
qed

text \<open>
  C4. What a server can do to its client, where no symbolic link lies in the shared directory or on
  the way to it. However the client was started, and whatever arrives
  on its connection at whatever time, no run of the client application creates, changes or removes
  anything but the shared directory, what is below it, and files named \<^verbatim>\<open>.claude-share-<n>\<close>
  beside it; and it makes no symbolic link, so there is still none at the end. (Those files come from
  the path \<^verbatim>\<open>.\<close>, which \<^verbatim>\<open>SafeJoin\<close> accepts. Nothing but the client changes files
  in such a run: the connection is all that moves outside it. With a link in the directory the claim
  fails, see C39: \<^verbatim>\<open>SafeJoin\<close> does not look for links, which the system follows.)
\<close>

theorem client_contained:
  assumes "os_wf s" and "no_links s (cf_dir flags)"
    and "client_main N rnd hkdf cmp wsDial say dollars fl flags token s = (Inr (Runs A w), s1)"
    and "(cstep A conn_moves)\<^sup>*\<^sup>* (client_start w input) y"
  shows "(\<forall>q. \<not> near_dir (loc s (cf_dir flags)) q \<longrightarrow> osat (cw_os (cl_world y)) q = osat s q) \<and>
    no_links (cw_os (cl_world y)) (cf_dir flags)"
proof -
  obtain p nm where c: "A = client_app say dollars fl (noise_channel N) p nm" "cw_os w = s"
    and p: "pj_open p s" "loc s (pj_root p) = loc s (cf_dir flags)"
    using client_main_Runs[OF assms(1,3)] by blast
  have "osat s (butlast (loc s (pj_root p))) = Some IDir"
    using p(1) osat_butlast[of s "loc s (pj_root p)" IDir] by (cases "loc s (pj_root p) = []") (auto simp: pj_open_def)
  then have "files_kept p s (cl_world (client_start w input))"
    using p(1) c(2) by (simp add: files_kept_def project_place_def pj_open_def client_start_def no_new_links_def)
  then have k: "files_kept p s (cl_world y)"
    using user_files.keeps_run[of say dollars fl "noise_channel N" p nm "client_start w input" y s] assms(4) c(1) by simp
  then have "no_links (cw_os (cl_world y)) (cf_dir flags)"
    using no_new_links_keep[OF _ _ assms(2)] by (simp add: files_kept_def)
  then show ?thesis using k by (simp add: files_kept_def near_project_def p(2))
qed

section \<open>The name of the project\<close>

lemma base_from_spec:
  "i \<le> length p \<Longrightarrow> base_from p i = rev (takeWhile (\<lambda>c. c \<noteq> slash \<and> c \<noteq> bslash) (rev (take i p))) @ drop i p"
proof (induction i)
  case (Suc i)
  then have "take (Suc i) p = take i p @ [p ! i]" "drop i p = p ! i # drop (Suc i) p"
    by (simp_all add: take_Suc_conv_app_nth Cons_nth_drop_Suc)
  then show ?case using Suc by auto
qed simp

lemma filepathBase_eq: "filepathBase p = rev (takeWhile (\<lambda>c. c \<noteq> slash \<and> c \<noteq> bslash) (rev p))"
  by (simp add: filepathBase_def base_from_spec)

text \<open>Without a name of its own a project has the name of its directory.\<close>

lemma project_name:
  assumes "c \<noteq> []" "slash \<notin> set (last c)" "CHR 0x5C \<notin> set (last c)"
  shows "filepathBase (slash # join_with slash c) = last c"
proof -
  obtain a where a: "slash # join_with slash c = a @ slash # last c"
  proof (cases "butlast c = []")
    case True
    then have "c = [last c]" using assms(1) by (metis append_butlast_last_id append_Nil)
    then show ?thesis using that[of "[]"] by (metis append_Nil join_with.simps(2))
  next
    case False
    have "join_with slash (butlast c @ [last c]) = join_with slash (butlast c) @ slash # last c"
      using False by (simp add: join_with_append)
    then show ?thesis using that[of "slash # join_with slash (butlast c)"] assms(1) by simp
  qed
  have "takeWhile (\<lambda>c. c \<noteq> slash \<and> c \<noteq> bslash) (rev (last c) @ slash # rev a) = rev (last c)"
    using assms(2,3) by (subst takeWhile_append2) auto
  then show ?thesis by (simp add: filepathBase_eq a del: takeWhile_append)
qed

section \<open>What is printed where\<close>

text \<open>
  Standard output has the agent's answers and nothing else: after any messages it has grown
  by the texts of the message events, in order and unchanged, and a newline for each finished
  turn; everything else that is shown goes to the error stream.
\<close>

theorem answers_on_stdout:
  assumes "A = client_app say dollars fl S p nm"
  shows "con_Out (cw_console (cl_world (foldl (\<lambda>x m. react A m x) x ms))) =
    con_Out (cw_console (cl_world x)) @ concat (map answer_text ms)"
proof (induction ms arbitrary: x)
  case (Cons m ms)
  have "con_Out (cw_console (applyChange A fc content w)) = con_Out (cw_console w)" for fc content w
    using assms
    by (auto simp: applyChange_def Let_def client_app_def terminal_on_def terminal_def at_console_def project_on_def
        at_os_def split: prod.split sum.split)
  then have "con_Out (cw_console (cl_world (react A m x))) = con_Out (cw_console (cl_world x)) @ answer_text m"
    using assms
    by (simp add: react_def Let_def answer_text_def client_app_def terminal_on_def terminal_def at_console_def
        StreamEvent_Out TurnDone_Out type_defs)
  then show ?case using Cons by simp
qed simp

section \<open>Messages have their payload\<close>

lemma case_sum_Inr: "(case x of Inl e \<Rightarrow> throwE e | Inr m \<Rightarrow> retE m) s = (Inr m', s') \<Longrightarrow> (x = Inr m' \<Longrightarrow> thesis) \<Longrightarrow> thesis"
  by (cases x) simp_all

text \<open>
  The client's switch never uses a payload that is not there: a message that
  \<^verbatim>\<open>ReadServerMessage\<close> returns without an error has the payload of its type, whatever the
  frame contained, and no other one.
\<close>

theorem message_has_payload:
  assumes "ReadServerMessage fl S c = (Inr m, c')"
  shows "(sm_SyncRequest m \<noteq> None \<longleftrightarrow> sm_Type m = TypeSyncRequest) \<and>
    (sm_SessionReady m \<noteq> None \<longleftrightarrow> sm_Type m = TypeSessionReady) \<and>
    (sm_StreamEvent m \<noteq> None \<longleftrightarrow> sm_Type m = TypeStreamEvent) \<and>
    (sm_FileChange m \<noteq> None \<longleftrightarrow> sm_Type m = TypeFileChange) \<and>
    (sm_TurnDone m \<noteq> None \<longleftrightarrow> sm_Type m = TypeTurnDone) \<and>
    (sm_Error m \<noteq> None \<longleftrightarrow> sm_Type m = TypeError)"
proof -
  obtain f where "server_message fl f = Inr m"
    using assms unfolding ReadServerMessage_def bindE_Inr_iff
    by (auto elim: case_sum_Inr)
  then show ?thesis
    by (auto simp: server_message_def Let_def with_payload_def empty_message_def type_defs
        split: if_splits prod.splits sum.splits)
qed

section \<open>Witnesses\<close>

theorem message_has_payload_witness:
  "\<exists>c m c'. ReadServerMessage demo_floats id_channel c = (Inr m, c') \<and> sm_Type m = TypeTurnDone \<and> sm_TurnDone m \<noteq> None"
proof -
  let ?e = "bare_envelope TypeTurnDone"
  have e: "?e = \<lparr> env_Type = TypeTurnDone, env_ID = [], env_Data = [] \<rparr>" by (simp add: bare_envelope_def)
  have "length (obj_text ([(''type'', quote (env_Type ?e))] @ omitempty (env_ID ?e = []) ''id'' (quote (env_ID ?e)) @
       omitempty (env_Data ?e = []) ''data'' (env_Data ?e))) < 200" by code_simp
  then have len: "length (obj_text ([(''type'', quote (env_Type ?e))] @ omitempty (env_ID ?e = []) ''id'' (quote (env_ID ?e)) @
       omitempty (env_Data ?e = []) ''data'' (env_Data ?e))) < MaxRecordPlaintext"
    unfolding MaxRecordPlaintext_def by (rule less_trans) simp
  have c: "demo_conn []\<lparr> cn_wire := [], cn_outSeq := 0 \<rparr> = demo_conn []" by (simp add: demo_conn_def newConn_def)
  obtain c' where send: "SendEnvelope id_channel ?e (demo_conn []) = (Inr (), c')"
    using demo_envelope[OF _ _ len, where i = "[]" and w = "[]" and q = 0 and dep = 0] unfolding c e by auto
  have plain: "plain_envelope ?e" "streamIDOf ?e = Inr 0"
    unfolding e by (simp_all add: plain_envelope_def fix_Envelope_def) (rule streamIDOf_other; simp add: type_defs)
  have "cn_pending (demo_conn []) 0 = None" "pending_ok (cn_pending (demo_conn []))"
    by (simp_all add: demo_conn_def newConn_def pending_ok_def)
  moreover have "\<exists>m. server_message demo_floats \<lparr> fr_Env = ?e, fr_Content = [], fr_HasContent = False \<rparr> = Inr m \<and>
      sm_Type m = TypeTurnDone"
    unfolding e by (simp add: server_message_def Let_def with_payload_def UnmarshalData_def empty_message_def type_defs)
  ultimately obtain m where "receives demo_floats id_channel (\<lambda>_ _. True) m (demo_conn []) c' (demo_conn [])"
    and ty: "sm_Type m = TypeTurnDone"
    using delivers_receives[OF SendEnvelope_delivers[OF id_channel_secure TrueI _ plain send]] by blast
  then obtain i r where "ReadServerMessage demo_floats id_channel i = (Inr m, r)" unfolding receives_def by blast
  then show ?thesis using message_has_payload[of demo_floats id_channel i m r] ty by blast
qed

definition demo_flags :: client_flags where
  "demo_flags = client_defaults\<lparr> cf_dir := ''/w'' \<rparr>"

lemma demo_client_main:
  "\<exists>A w s1. client_main demo_noise () demo_hkdf (\<lambda>_ _. False) (\<lambda>_. Inr (fresh_link (\<lambda>_. None) [[1]] Canceled))
     (\<lambda>_. ''error'') (\<lambda>_. ''0.0000'') demo_floats demo_flags ''token'' demo_pj_os = (Inr (Runs A w), s1)"
proof -
  obtain psk where psk: "PSKFromToken demo_hkdf ''token'' = Inr psk"
    by (auto simp: PSKFromToken_def DerivePSK_def demo_hkdf_def)
  have len: "length psk = PSKLen" using DerivePSK_length[OF demo_hkdf_laws] psk by (simp add: PSKFromToken_def)
  obtain p s2 where p: "pj_Open (\<lambda>_ _. False) (cf_dir demo_flags) (cf_maxFile demo_flags) (cf_maxTotal demo_flags) demo_pj_os = (Inr p, s2)"
  proof -
    have a: "Abs (Inr (os_cwd demo_pj_os)) ''/w'' = Inr ''/w''" "fst (os_Stat ''/w'' demo_pj_os) = Inr IDir"
      by code_simp+
    have st: "os_Stat ''/w'' demo_pj_os = (Inr IDir, demo_pj_os)"
      using a(2) Stat_state[of "''/w''" demo_pj_os] by (metis prod.collapse)
    obtain ls where "read_ignore_files ''/w'' [''.gitignore'', ''.claudeshareignore''] [] demo_pj_os = (Inr ls, demo_pj_os)"
      using read_ignore_files_ok by blast
    then show thesis using that a(1) st by (simp add: pj_Open_def demo_flags_def bindE_def)
  qed
  obtain c lk where d: "Dial demo_noise () psk (fresh_link (\<lambda>_. None) [[1]] Canceled) = (Inr c, lk)"
    using len by (simp add: Dial_def Handshake_def bindE_def liftE_def lk_Write_def lk_Read_def fresh_link_def
        conn_on_def demo_noise_def defaultReadLimit_def)
  show ?thesis using psk p d
    by (simp add: client_main_def demo_flags_def client_defaults_def bindE_def fatalE_def liftE_def Let_def)
qed

theorem client_contained_witness:
  "\<exists>A w s1 y. client_main demo_noise () demo_hkdf (\<lambda>_ _. False) (\<lambda>_. Inr (fresh_link (\<lambda>_. None) [[1]] Canceled))
     (\<lambda>_. ''error'') (\<lambda>_. ''0.0000'') demo_floats demo_flags ''token'' demo_pj_os = (Inr (Runs A w), s1) \<and>
     (cstep A conn_moves)\<^sup>*\<^sup>* (client_start w []) y \<and> cl_main y \<noteq> MStart \<and>
     (\<forall>q. \<not> near_dir [''w''] q \<longrightarrow> osat (cw_os (cl_world y)) q = osat demo_pj_os q) \<and>
     no_links (cw_os (cl_world y)) (cf_dir demo_flags)"
proof -
  obtain A w s1 where m: "client_main demo_noise () demo_hkdf (\<lambda>_ _. False) (\<lambda>_. Inr (fresh_link (\<lambda>_. None) [[1]] Canceled))
     (\<lambda>_. ''error'') (\<lambda>_. ''0.0000'') demo_floats demo_flags ''token'' demo_pj_os = (Inr (Runs A w), s1)"
    using demo_client_main by blast
  have wf: "os_wf demo_pj_os" using demo_pj_facts(1) by (simp add: pj_open_def)
  let ?x = "client_start w []"
  let ?y = "proceed (run_start A (cl_world ?x)) (\<lambda>m. case toDTO m of (dto, idx) \<Rightarrow> MSends dto idx) ?x"
  have "cstep A conn_moves ?x ?y" by (rule cstep.main_starts) (simp add: client_start_def)
  then have run: "(cstep A conn_moves)\<^sup>*\<^sup>* ?x ?y" by blast
  have st: "cl_main ?y \<noteq> MStart"
    by (auto simp: proceed_def split: prod.splits sum.splits)
  have "loc demo_pj_os (cf_dir demo_flags) = [''w'']"
    using demo_pj_facts(2) by (simp add: demo_flags_def demo_pj_def client_defaults_def)
  moreover have "no_links demo_pj_os (cf_dir demo_flags)" by (rule linkless_no_links) code_simp
  ultimately show ?thesis using client_contained [OF wf _ m run] m run st by metis
qed

end
