(* ===== verification/CommandLine.thy ===== *)
theory CommandLine
  imports Flags ServerMain ClientMain
begin

text \<open>
  The two commands from their arguments on: the flags that \<^verbatim>\<open>cmd/server/main.go\<close> and
  \<^verbatim>\<open>cmd/client/main.go\<close> declare, and what a command line makes of them.
\<close>

section \<open>The flags\<close>

definition server_flag_set :: "(string \<times> server_flags flag_value) list" where
  "server_flag_set =
     [(''addr'', StringFlag (\<lambda>v f. f\<lparr> sf_addr := v \<rparr>)),
      (''data-dir'', StringFlag (\<lambda>v f. f\<lparr> sf_dataDir := v \<rparr>)),
      (''allow-public'', BoolFlag (\<lambda>v f. f\<lparr> sf_allowPublic := v \<rparr>)),
      (''claude-bin'', StringFlag (\<lambda>v f. f\<lparr> sf_claudeBin := v \<rparr>)),
      (''permission-mode'', StringFlag (\<lambda>v f. f\<lparr> sf_permMode := v \<rparr>)),
      (''max-sessions'', IntFlag (\<lambda>v f. f\<lparr> sf_maxSessions := v \<rparr>)),
      (''version'', BoolFlag (\<lambda>v f. f\<lparr> sf_showVersion := v \<rparr>))]"

definition client_flag_set :: "(string \<times> client_flags flag_value) list" where
  "client_flag_set =
     [(''server'', StringFlag (\<lambda>v f. f\<lparr> cf_server := v \<rparr>)),
      (''dir'', StringFlag (\<lambda>v f. f\<lparr> cf_dir := v \<rparr>)),
      (''name'', StringFlag (\<lambda>v f. f\<lparr> cf_name := v \<rparr>)),
      (''max-file-size'', IntFlag (\<lambda>v f. f\<lparr> cf_maxFile := v \<rparr>)),
      (''max-total-size'', IntFlag (\<lambda>v f. f\<lparr> cf_maxTotal := v \<rparr>)),
      (''version'', BoolFlag (\<lambda>v f. f\<lparr> cf_showVersion := v \<rparr>))]"

section \<open>The commands\<close>

text \<open>How a command ends before it does its work, with the status 0, 2 or 1, or what it goes on with.
  Arguments after the flags are not looked at.\<close>

datatype 'a ended = ExitUsage | ExitFlags flag_error | ExitFatal error | Goes 'a

definition run_command :: "'f parsed \<Rightarrow> ('f \<Rightarrow> ('s, 'a) prog) \<Rightarrow> 's \<Rightarrow> 'a ended \<times> 's" where
  "run_command p main s =
     (case p of
        HelpWanted \<Rightarrow> (ExitUsage, s)
      | BadFlags e \<Rightarrow> (ExitFlags e, s)
      | Parsed f rest \<Rightarrow> (case main f s of (Inl e, s') \<Rightarrow> (ExitFatal e, s') | (Inr a, s') \<Rightarrow> (Goes a, s')))"

definition server_command ::
  "(nat \<Rightarrow> ('r, nat) prog) \<Rightarrow> string \<Rightarrow> (bytes \<Rightarrow> bytes \<Rightarrow> nat \<Rightarrow> error + bytes) \<Rightarrow> (nat \<Rightarrow> string) \<Rightarrow>
   (command \<Rightarrow> ringBuffer \<Rightarrow> error + process) \<Rightarrow> float_ops \<Rightarrow> 'c SecureChannel \<Rightarrow>
   error + string \<Rightarrow> string list \<Rightarrow> environment \<Rightarrow> 'r host \<Rightarrow> 'c server_startup ended \<times> 'r host" where
  "server_command randInt rawWordlist hkdf uuid spawn fl S home args env =
     run_command (parse_flags server_flag_set (server_defaults home) args)
       (\<lambda>flags. server_main randInt rawWordlist hkdf uuid spawn fl S flags env)"

definition client_command ::
  "('r, 'h, 'k) noise_lib \<Rightarrow> 'r \<Rightarrow> (bytes \<Rightarrow> bytes \<Rightarrow> nat \<Rightarrow> error + bytes) \<Rightarrow> (string list \<Rightarrow> string \<Rightarrow> bool) \<Rightarrow>
   (string \<Rightarrow> error + link) \<Rightarrow> (error \<Rightarrow> string) \<Rightarrow> (float64 \<Rightarrow> string) \<Rightarrow> float_ops \<Rightarrow>
   string list \<Rightarrow> string \<Rightarrow> os \<Rightarrow> 'k Channel startup ended \<times> os" where
  "client_command N rnd hkdf compileIgnoreLines wsDial say dollars fl args token =
     run_command (parse_flags client_flag_set client_defaults args)
       (\<lambda>flags. client_main N rnd hkdf compileIgnoreLines wsDial say dollars fl flags token)"

section \<open>Every configuration can be asked for\<close>

definition server_args :: "server_flags \<Rightarrow> string list" where
  "server_args f =
     [''-addr='' @ sf_addr f, ''-data-dir='' @ sf_dataDir f, ''-allow-public='' @ bool_text (sf_allowPublic f),
      ''-claude-bin='' @ sf_claudeBin f, ''-permission-mode='' @ sf_permMode f,
      ''-max-sessions='' @ int_text (sf_maxSessions f), ''-version='' @ bool_text (sf_showVersion f)]"

definition client_args :: "client_flags \<Rightarrow> string list" where
  "client_args f =
     [''--server'', cf_server f, ''--dir'', cf_dir f, ''--name'', cf_name f,
      ''--max-file-size'', int_text (cf_maxFile f), ''--max-total-size'', int_text (cf_maxTotal f),
      ''--version='' @ bool_text (cf_showVersion f)]"

lemma ParseBool_text [simp]: "ParseBool (bool_text b) = Some b"
  by (cases b) (simp_all add: ParseBool_def bool_text_def)

lemma name_value_eq:
  assumes "name \<noteq> []" "CHR ''='' \<notin> set (tl name)"
  shows "name_value (name @ CHR ''='' # v) = (name, Some v)" "name_value name = (name, None)"
proof -
  obtain c cs where n: "name = c # cs" "CHR ''='' \<notin> set cs" using assms by (cases name) auto
  have "takeWhile (\<lambda>c. c \<noteq> CHR ''='') (cs @ CHR ''='' # v) = cs" using n(2) by (subst takeWhile_append2) auto
  then show "name_value (name @ CHR ''='' # v) = (name, Some v)" using n(1) by (simp add: name_value_def)
  have "takeWhile (\<lambda>c. c \<noteq> CHR ''='') cs = cs" using n(2) by (subst takeWhile_eq_all_conv) auto
  then have "length (takeWhile (\<lambda>c. c \<noteq> CHR ''='') (tl name)) = length (tl name)" unfolding n(1) list.sel(3) by (rule arg_cong)
  then show "name_value name = (name, None)" unfolding name_value_def Let_def by (rule if_P)
qed

text \<open>One flag with its value, in either form.\<close>

definition flag_name :: "string \<Rightarrow> bool" where
  "flag_name n \<longleftrightarrow> n \<noteq> [] \<and> hd n \<noteq> CHR ''-'' \<and> CHR ''='' \<notin> set n"

lemma parse_with_value:
  assumes "flag_name n" "map_of F n = Some fv" "set_flag fv v f = Some f'"
  shows "parse_flags F f ((CHR ''-'' # n @ CHR ''='' # v) # args) = parse_flags F f' args"
    and "parse_flags F f ((''--'' @ n @ CHR ''='' # v) # args) = parse_flags F f' args"
proof -
  obtain c cs where n: "n = c # cs" "c \<noteq> CHR ''-''" "c \<noteq> CHR ''=''" "CHR ''='' \<notin> set cs"
    using assms(1) by (cases n) (auto simp: flag_name_def)
  have nv: "name_value (c # cs @ CHR ''='' # v) = (c # cs, Some v)" using name_value_eq(1)[of "c # cs" v] n by simp
  show "parse_flags F f ((CHR ''-'' # n @ CHR ''='' # v) # args) = parse_flags F f' args"
    "parse_flags F f ((''--'' @ n @ CHR ''='' # v) # args) = parse_flags F f' args"
    using assms(2,3) n nv
    by (subst parse_flags.simps; cases fv; auto simp: Let_def set_flag_def parse_value_def split: option.splits)+
qed

lemma parse_next_value:
  assumes "flag_name n" "map_of F n = Some fv" "set_flag fv v f = Some f'" "\<forall>g. fv \<noteq> BoolFlag g"
  shows "parse_flags F f ((''--'' @ n) # v # args) = parse_flags F f' args"
proof -
  obtain c cs where n: "n = c # cs" "c \<noteq> CHR ''-''" "c \<noteq> CHR ''=''" "CHR ''='' \<notin> set cs"
    using assms(1) by (cases n) (auto simp: flag_name_def)
  have nv: "name_value (c # cs) = (c # cs, None)" using name_value_eq(2)[of "c # cs"] n by simp
  show ?thesis using assms(2-4) n nv
    by (subst parse_flags.simps; cases fv; auto simp: Let_def set_flag_def parse_value_def split: option.splits)
qed

lemma server_flag:
  "parse_flags server_flag_set h ((''-addr='' @ v) # args) = parse_flags server_flag_set (h\<lparr> sf_addr := v \<rparr>) args"
  "parse_flags server_flag_set h ((''-data-dir='' @ v) # args) = parse_flags server_flag_set (h\<lparr> sf_dataDir := v \<rparr>) args"
  "parse_flags server_flag_set h ((''-allow-public='' @ bool_text b) # args) = parse_flags server_flag_set (h\<lparr> sf_allowPublic := b \<rparr>) args"
  "parse_flags server_flag_set h ((''-claude-bin='' @ v) # args) = parse_flags server_flag_set (h\<lparr> sf_claudeBin := v \<rparr>) args"
  "parse_flags server_flag_set h ((''-permission-mode='' @ v) # args) = parse_flags server_flag_set (h\<lparr> sf_permMode := v \<rparr>) args"
  "int64_range i \<Longrightarrow> parse_flags server_flag_set h ((''-max-sessions='' @ int_text i) # args) = parse_flags server_flag_set (h\<lparr> sf_maxSessions := i \<rparr>) args"
  "parse_flags server_flag_set h ((''-version='' @ bool_text b) # args) = parse_flags server_flag_set (h\<lparr> sf_showVersion := b \<rparr>) args"
  using
    parse_with_value(1)[of "''addr''" server_flag_set "StringFlag (\<lambda>v f. f\<lparr> sf_addr := v \<rparr>)" "v" h "h\<lparr> sf_addr := v \<rparr>" args]
    parse_with_value(1)[of "''data-dir''" server_flag_set "StringFlag (\<lambda>v f. f\<lparr> sf_dataDir := v \<rparr>)" "v" h "h\<lparr> sf_dataDir := v \<rparr>" args]
    parse_with_value(1)[of "''allow-public''" server_flag_set "BoolFlag (\<lambda>v f. f\<lparr> sf_allowPublic := v \<rparr>)" "bool_text b" h "h\<lparr> sf_allowPublic := b \<rparr>" args]
    parse_with_value(1)[of "''claude-bin''" server_flag_set "StringFlag (\<lambda>v f. f\<lparr> sf_claudeBin := v \<rparr>)" "v" h "h\<lparr> sf_claudeBin := v \<rparr>" args]
    parse_with_value(1)[of "''permission-mode''" server_flag_set "StringFlag (\<lambda>v f. f\<lparr> sf_permMode := v \<rparr>)" "v" h "h\<lparr> sf_permMode := v \<rparr>" args]
    parse_with_value(1)[of "''max-sessions''" server_flag_set "IntFlag (\<lambda>v f. f\<lparr> sf_maxSessions := v \<rparr>)" "int_text i" h "h\<lparr> sf_maxSessions := i \<rparr>" args]
    parse_with_value(1)[of "''version''" server_flag_set "BoolFlag (\<lambda>v f. f\<lparr> sf_showVersion := v \<rparr>)" "bool_text b" h "h\<lparr> sf_showVersion := b \<rparr>" args]
  by (simp_all add: server_flag_set_def flag_name_def set_flag_def ParseInt_text)

lemma client_flag:
  "parse_flags client_flag_set h (''--server'' # v # args) = parse_flags client_flag_set (h\<lparr> cf_server := v \<rparr>) args"
  "parse_flags client_flag_set h (''--dir'' # v # args) = parse_flags client_flag_set (h\<lparr> cf_dir := v \<rparr>) args"
  "parse_flags client_flag_set h (''--name'' # v # args) = parse_flags client_flag_set (h\<lparr> cf_name := v \<rparr>) args"
  "int64_range i \<Longrightarrow> parse_flags client_flag_set h (''--max-file-size'' # int_text i # args) = parse_flags client_flag_set (h\<lparr> cf_maxFile := i \<rparr>) args"
  "int64_range i \<Longrightarrow> parse_flags client_flag_set h (''--max-total-size'' # int_text i # args) = parse_flags client_flag_set (h\<lparr> cf_maxTotal := i \<rparr>) args"
  "parse_flags client_flag_set h ((''--version='' @ bool_text b) # args) = parse_flags client_flag_set (h\<lparr> cf_showVersion := b \<rparr>) args"
  using
    parse_next_value[of "''server''" client_flag_set "StringFlag (\<lambda>v f. f\<lparr> cf_server := v \<rparr>)" "v" h "h\<lparr> cf_server := v \<rparr>" args]
    parse_next_value[of "''dir''" client_flag_set "StringFlag (\<lambda>v f. f\<lparr> cf_dir := v \<rparr>)" "v" h "h\<lparr> cf_dir := v \<rparr>" args]
    parse_next_value[of "''name''" client_flag_set "StringFlag (\<lambda>v f. f\<lparr> cf_name := v \<rparr>)" "v" h "h\<lparr> cf_name := v \<rparr>" args]
    parse_next_value[of "''max-file-size''" client_flag_set "IntFlag (\<lambda>v f. f\<lparr> cf_maxFile := v \<rparr>)" "int_text i" h "h\<lparr> cf_maxFile := i \<rparr>" args]
    parse_next_value[of "''max-total-size''" client_flag_set "IntFlag (\<lambda>v f. f\<lparr> cf_maxTotal := v \<rparr>)" "int_text i" h "h\<lparr> cf_maxTotal := i \<rparr>" args]
    parse_with_value(2)[of "''version''" client_flag_set "BoolFlag (\<lambda>v f. f\<lparr> cf_showVersion := v \<rparr>)" "bool_text b" h "h\<lparr> cf_showVersion := b \<rparr>" args]
  by (simp_all add: client_flag_set_def flag_name_def set_flag_def ParseInt_text)

text \<open>
  C40. Every configuration can be given on the command line: the arguments written out for a record
  of flags, with one dash and an equals sign or with two dashes and the next argument, are parsed to
  that record, whatever was set before, whatever strings it holds, and for every integer of 64 bits.
\<close>

theorem flags_roundtrip:
  assumes "int64_range (sf_maxSessions f)" and "int64_range (cf_maxFile g)" and "int64_range (cf_maxTotal g)"
  shows "parse_flags server_flag_set f0 (server_args f) = Parsed f [] \<and>
    parse_flags client_flag_set g0 (client_args g) = Parsed g []"
  using assms
  by (simp add: server_args_def client_args_def server_flag client_flag parse_flags.simps[of _ _ "[]"] del: append.simps)

section \<open>What has to be asked for\<close>

definition asks_public :: "string \<Rightarrow> bool" where
  "asks_public a \<longleftrightarrow> (\<exists>d \<in> {''-'', ''--''}. a = d @ ''allow-public'' \<or>
     (\<exists>v. a = d @ ''allow-public='' @ v \<and> ParseBool v = Some True))"

lemma name_value_inv:
  "name_value s = (n, None) \<Longrightarrow> s = n"
  "name_value s = (n, Some v) \<Longrightarrow> s \<noteq> [] \<Longrightarrow> s = n @ CHR ''='' # v"
proof -
  show "name_value s = (n, None) \<Longrightarrow> s = n" by (auto simp: name_value_def Let_def split: if_splits)
  assume nv: "name_value s = (n, Some v)" "s \<noteq> []"
  let ?P = "\<lambda>c. c \<noteq> CHR ''=''"
  obtain c cs where s: "s = c # cs" using nv(2) by (cases s) auto
  let ?k = "length (takeWhile ?P cs)"
  have k: "?k < length cs" "n = c # take ?k cs" "v = drop (Suc ?k) cs"
    using nv(1) s length_takeWhile_le[of ?P cs] by (auto simp: name_value_def Let_def split: if_splits)
  have "cs ! ?k = CHR ''=''" using nth_length_takeWhile[OF k(1)] by simp
  then have "cs = take ?k cs @ CHR ''='' # drop (Suc ?k) cs" using id_take_nth_drop[OF k(1)] by simp
  then show "s = n @ CHR ''='' # v" using s k by simp
qed

text \<open>Only one flag sets the field.\<close>

lemma public_field:
  assumes "map_of server_flag_set n = Some fv" "set_flag fv v f = Some f'" "sf_allowPublic f'" "\<not> sf_allowPublic f"
  shows "n = ''allow-public'' \<and> ParseBool v = Some True"
  using assms by (auto simp: server_flag_set_def set_flag_def split: if_splits)

text \<open>How an argument names a flag and a value; the value may also be the argument after it.\<close>

definition gives :: "string \<Rightarrow> string \<Rightarrow> 'f flag_value \<Rightarrow> string \<Rightarrow> bool" where
  "gives s n fv v \<longleftrightarrow> (\<exists>d \<in> {''-'', ''--''}. s = d @ n @ CHR ''='' # v \<or> s = d @ n \<and> (\<forall>g. fv = BoolFlag g \<longrightarrow> v = ''true''))"

lemma parseOne_gives:
  assumes "parseOne F f args = Inr (f', args')"
  shows "set args' \<subseteq> set args \<and>
    (\<exists>s \<in> set args. \<exists>n fv v. map_of F n = Some fv \<and> set_flag fv v f = Some f' \<and> gives s n fv v)"
proof -
  obtain s as where args: "args = s # as" using assms by (cases args) auto
  let ?name = "if s ! 1 = CHR ''-'' then drop 2 s else drop 1 s"
  obtain n vl where nv: "name_value ?name = (n, vl)" by (metis surj_pair)
  have p: "2 \<le> length s" "hd s = CHR ''-''" "?name \<noteq> []" "\<exists>fv. map_of F n = Some fv \<and> parse_value fv n vl f as = Inr (f', args')"
    using assms args nv by (auto simp: Let_def split: if_splits option.splits)
  have s: "s = ''-'' @ ?name \<or> s = ''--'' @ ?name" using p(1,2) by (cases s; cases "tl s") auto
  obtain fv where fv: "map_of F n = Some fv" "parse_value fv n vl f as = Inr (f', args')" using p(4) by blast
  have sub: "set args' \<subseteq> set args"
    using fv(2) args by (auto simp: parse_value_def split: flag_value.splits option.splits list.splits)
  have "\<exists>v. set_flag fv v f = Some f' \<and> gives s n fv v"
  proof (cases vl)
    case (Some v)
    have "?name = n @ CHR ''='' # v" using name_value_inv(2)[OF nv[unfolded Some] p(3)] .
    then have "gives s n fv v" using s by (auto simp: gives_def)
    then show ?thesis using fv(2) Some by (cases fv) (auto simp: parse_value_def set_flag_def split: option.splits)
  next
    case None
    have name: "?name = n" using name_value_inv(1) nv None by blast
    have "gives s n fv v" if "\<forall>b. fv = BoolFlag b \<longrightarrow> v = ''true''" for v
      using s name that by (auto simp: gives_def)
    moreover have "\<exists>v. set_flag fv v f = Some f' \<and> (\<forall>b. fv = BoolFlag b \<longrightarrow> v = ''true'')"
      using fv(2) None
      by (cases fv) (auto simp: parse_value_def set_flag_def ParseBool_def split: list.splits option.splits)
    ultimately show ?thesis by blast
  qed
  then show ?thesis using fv(1) args sub by auto
qed

text \<open>A flag that was read is read in the same way when more arguments follow.\<close>

lemma parse_value_append:
  "parse_value fv n value f args = Inr (g, args') \<Longrightarrow> parse_value fv n value f (args @ later) = Inr (g, args' @ later)"
  by (auto simp: parse_value_def split: flag_value.splits option.splits list.splits)

lemma parse_value_not_Parsed: "parse_value fv n value f args \<noteq> Inl (Parsed f' rest)"
  by (auto simp: parse_value_def split: flag_value.splits option.splits list.splits)

lemma parseOne_append:
  assumes "parseOne F f args = Inr (g, args')"
  shows "parseOne F f (args @ later) = Inr (g, args' @ later)"
proof -
  obtain s as where args: "args = s # as" using assms by (cases args) auto
  define name where "name = (if s ! 1 = CHR ''-'' then drop 2 s else drop 1 s)"
  obtain n vl where nv: "name_value name = (n, vl)" by (metis surj_pair)
  show ?thesis using assms unfolding args append_Cons parseOne.simps Let_def name_def[symmetric] nv prod.case
    by (auto simp: parse_value_append split: if_split_asm option.split_asm)
qed

lemma parseOne_Parsed:
  assumes "parseOne F f args = Inl (Parsed f' rest)"
  shows "f' = f \<and> (args = [] \<and> rest = [] \<or> args \<noteq> [] \<and> rest = args \<and> (length (hd args) < 2 \<or> hd (hd args) \<noteq> CHR ''-'') \<or>
    args = ''--'' # rest)"
proof (cases args)
  case Nil
  then show ?thesis using assms by simp
next
  case (Cons s as)
  define name where "name = (if s ! 1 = CHR ''-'' then drop 2 s else drop 1 s)"
  obtain n vl where nv: "name_value name = (n, vl)" by (metis surj_pair)
  show ?thesis using assms unfolding Cons parseOne.simps Let_def name_def[symmetric] nv prod.case
    by (auto simp: parse_value_not_Parsed split: if_split_asm option.split_asm)
qed

lemma parseOne_stops:
  assumes "parseOne F f args = Inl (Parsed f' [])" and "length w < 2 \<or> hd w \<noteq> CHR ''-''"
  shows "parseOne F f (args @ w # later) = Inl (Parsed f' (w # later))"
  using parseOne_Parsed[OF assms(1)] assms(2) by auto

text \<open>Whatever holds after the flags and did not hold before was brought about by one of the arguments.\<close>

lemma parse_cause:
  "parse_flags F f args = Parsed f' rest \<Longrightarrow> P f' \<Longrightarrow> \<not> P f \<Longrightarrow>
   \<exists>s \<in> set args. \<exists>n fv v g g'. map_of F n = Some fv \<and> set_flag fv v g = Some g' \<and> P g' \<and> \<not> P g \<and> gives s n fv v"
proof (induction F f args rule: parse_flags.induct)
  case (1 F f args)
  show ?case
  proof (cases "parseOne F f args")
    case (Inl r)
    then have "parseOne F f args = Inl (Parsed f' rest)" using 1(2) by (subst (asm) parse_flags.simps) simp
    then have "f' = f" by (rule parseOne_Parsed[THEN conjunct1])
    then show ?thesis using 1(3,4) by simp
  next
    case (Inr z)
    obtain g args' where z: "parseOne F f args = Inr (g, args')" using Inr by (cases z) auto
    have p: "parse_flags F g args' = Parsed f' rest" using 1(2) z by (subst (asm) parse_flags.simps) simp
    obtain s n fv v where s: "s \<in> set args" "map_of F n = Some fv" "set_flag fv v f = Some g" "gives s n fv v"
      "set args' \<subseteq> set args" using parseOne_gives[OF z] by blast
    show ?thesis
    proof (cases "P g")
      case False
      then show ?thesis using 1(1)[OF z refl p 1(3)] s(5) by blast
    qed (use s 1(4) in blast)
  qed
qed

lemma parsed_public:
  assumes "parse_flags server_flag_set f args = Parsed f' rest" "sf_allowPublic f'" "\<not> sf_allowPublic f"
  shows "\<exists>a \<in> set args. asks_public a"
proof -
  obtain s n fv v g g' where s: "s \<in> set args" "map_of server_flag_set n = Some fv" "set_flag fv v g = Some g'"
    "sf_allowPublic g'" "\<not> sf_allowPublic g" "gives s n fv v"
    using parse_cause[OF assms(1), of sf_allowPublic] assms(2,3) by blast
  note n = public_field[OF s(2-5)]
  have "asks_public s" using s(6) n unfolding gives_def asks_public_def by auto
  then show ?thesis using s(1) by blast
qed

text \<open>
  C9. A server that can be reached from the network was asked to be, as far as its address is a number
  that the check can read. If the command serves, whatever its arguments and its environment, then
  one of the arguments was the flag \<^verbatim>\<open>allow-public\<close>, with one dash or two, alone or with a value
  that means true; or the address has a host that is no IP address for \<^verbatim>\<open>net.ParseIP\<close>, as a name or an
  IPv6 address with a zone, or is a loopback address. In particular it was asked if the address is
  a dotted IPv4 address outside 127.0.0.0/8. Whatever is served, is served under a key of 32 bytes.
\<close>

theorem public_address_asked:
  assumes "server_command randInt raw hkdf uuid spawn fl S home args env h = (Goes (Serves cfg slots D), h')"
  shows "length (sc_PSK cfg) = 32 \<and>
    ((\<exists>x \<in> set args. asks_public x) \<or>
     (\<exists>host. SplitHostPort (sc_Addr cfg) = Inr host \<and> host \<noteq> [] \<and>
        (case ParseIP host of None \<Rightarrow> True | Some ip \<Rightarrow> IsLoopback ip))) \<and>
    (\<forall>a b c d port. sc_Addr cfg = dotted a b c d @ '':'' @ port \<longrightarrow> a \<le> 255 \<longrightarrow> b \<le> 255 \<longrightarrow> c \<le> 255 \<longrightarrow> d \<le> 255 \<longrightarrow>
       plain_port port \<longrightarrow> a \<noteq> 127 \<longrightarrow> (\<exists>x \<in> set args. asks_public x))"
proof -
  obtain flags rest where p: "parse_flags server_flag_set (server_defaults home) args = Parsed flags rest"
    and m: "server_main randInt raw hkdf uuid spawn fl S flags env h = (Inr (Serves cfg slots D), h')"
    using assms by (auto simp: server_command_def run_command_def split: parsed.splits prod.splits sum.splits)
  from server_main_Serves[OF m] have c: "checkBind (sc_Addr cfg) (sf_allowPublic flags) = Inr ()" "length (sc_PSK cfg) = 32" by auto
  have asked: "\<exists>x \<in> set args. asks_public x" if "sf_allowPublic flags"
    using parsed_public[OF p] that by (simp add: server_defaults_def)
  have 1: "\<exists>host. SplitHostPort (sc_Addr cfg) = Inr host \<and> host \<noteq> [] \<and>
        (case ParseIP host of None \<Rightarrow> True | Some ip \<Rightarrow> IsLoopback ip)" if "\<not> sf_allowPublic flags"
    using c(1) that by (auto simp: checkBind_def split: sum.splits if_splits option.splits)
  have 2: "sf_allowPublic flags"
    if "sc_Addr cfg = dotted a b c d @ '':'' @ port" "a \<le> 255" "b \<le> 255" "c \<le> 255" "d \<le> 255" "plain_port port" "a \<noteq> 127"
    for a b c d port
    using c(1) checkBind_dotted[OF that(2-6)] that(1,7) by (cases "sf_allowPublic flags") auto
  show ?thesis using c(2) asked 1 2 by blast
qed

text \<open>An argument that is no flag ends the flags: what comes after it is not looked at.\<close>

theorem word_ends_flags:
  assumes "parse_flags F f args = Parsed f' []" and "length w < 2 \<or> hd w \<noteq> CHR ''-''"
  shows "parse_flags F f (args @ w # later) = Parsed f' (w # later)"
  using assms(1)
proof (induction F f args rule: parse_flags.induct)
  case (1 F f args)
  show ?case
  proof (cases "parseOne F f args")
    case (Inl r)
    then have "parseOne F f args = Inl (Parsed f' [])" using 1(2) by (subst (asm) parse_flags.simps) simp
    then have "parseOne F f (args @ w # later) = Inl (Parsed f' (w # later))"
      using assms(2) by (rule parseOne_stops)
    then show ?thesis by (subst parse_flags.simps) simp
  next
    case (Inr z)
    obtain g args' where z: "parseOne F f args = Inr (g, args')" using Inr by (cases z) auto
    then have "parse_flags F g args' = Parsed f' []" using 1(2) by (subst (asm) parse_flags.simps) simp
    then show ?thesis using 1(1)[OF z refl] parseOne_append[OF z] by (subst parse_flags.simps) simp
  qed
qed

section \<open>Witnesses\<close>

theorem flags_roundtrip_witness:
  "parse_flags server_flag_set (server_defaults (Inr ''/h'')) (server_args ((server_defaults (Inl Canceled))\<lparr> sf_addr := ''=-x'', sf_maxSessions := - 3 \<rparr>)) =
     Parsed ((server_defaults (Inl Canceled))\<lparr> sf_addr := ''=-x'', sf_maxSessions := - 3 \<rparr>) [] \<and>
   parse_flags client_flag_set (client_defaults\<lparr> cf_showVersion := True \<rparr>) (client_args (client_defaults\<lparr> cf_dir := ''--server'' \<rparr>)) =
     Parsed (client_defaults\<lparr> cf_dir := ''--server'' \<rparr>) []"
proof -
  have "int64_range (- 3)" "int64_range (push_bit 20 25)" "int64_range (push_bit 20 500)" by code_simp+
  then show ?thesis
    using flags_roundtrip [of "(server_defaults (Inl Canceled))\<lparr> sf_addr := ''=-x'', sf_maxSessions := - 3 \<rparr>"
        "client_defaults\<lparr> cf_dir := ''--server'' \<rparr>"]
    by (simp add: client_defaults_def)
qed

definition public_args :: "string list" where
  "public_args = [''-allow-public'', ''-addr=10.0.0.1:1'']"


definition public_env :: environment where
  "public_env = \<lparr> en_token = ''secret'', en_noColor = [], en_ErrMode = Inl Canceled \<rparr>"

lemma public_args_parsed:
  "parse_flags server_flag_set f public_args = Parsed (f\<lparr> sf_allowPublic := True, sf_addr := ''10.0.0.1:1'' \<rparr>) []"
proof -
  have "parse_flags server_flag_set f public_args = parse_flags server_flag_set (f\<lparr> sf_allowPublic := True \<rparr>) [''-addr=10.0.0.1:1'']"
    unfolding public_args_def
    by (subst parse_flags.simps) (simp add: name_value_def parse_value_def server_flag_set_def)
  then show ?thesis using server_flag(1)[of "f\<lparr> sf_allowPublic := True \<rparr>" "''10.0.0.1:1''" "[]"]
    by (simp add: parse_flags.simps[of _ _ "[]"])
qed

lemma public_server_runs:
  "\<exists>cfg D h'. server_command demo_rand [] demo_hkdf uuid spawn demo_floats S (Inr ''/h'') public_args public_env demo_host =
     (Goes (Serves cfg (Some 8) D), h') \<and> sc_Addr cfg = ''10.0.0.1:1''"
proof -
  obtain psk where psk: "PSKFromToken demo_hkdf ''secret'' = Inr psk"
    by (simp add: PSKFromToken_def DerivePSK_def demo_hkdf_def)
  have len: "length psk = 32"
    using DerivePSK_length[OF demo_hkdf_laws] psk by (simp add: PSKFromToken_def PSKLen_def)
  have addr: "checkBind ''10.0.0.1:1'' True = Inr ()" by code_simp
  have "fst (NewBlobStore (blob_dir ''/h/.claude-share'') (demo_os (NDir []))) = Inr \<lparr> bs_dir = ''/h/.claude-share/objects'' \<rparr>"
    by code_simp
  then obtain s where blobs: "NewBlobStore (blob_dir ''/h/.claude-share'') (demo_os (NDir [])) =
      (Inr \<lparr> bs_dir = ''/h/.claude-share/objects'' \<rparr>, s)" by (metis prod.collapse)
  have dir: "defaultDataDir (Inr ''/h'') = ''/h/.claude-share''" by code_simp
  show ?thesis
    using psk len addr blobs
    by (simp add: server_command_def run_command_def public_args_parsed public_env_def demo_host_def server_main_def
        server_defaults_def dir share_token_def bindE_def fatalE_def liftE_def host_os_def NewServer_def)
qed

theorem public_address_asked_witness:
  "\<exists>cfg slots D h'. server_command demo_rand [] demo_hkdf (\<lambda>_. ''id'') (\<lambda>_ _. Inl Canceled) demo_floats id_channel
       (Inr ''/h'') public_args public_env demo_host = (Goes (Serves cfg slots D), h') \<and>
     sc_Addr cfg = ''10.0.0.1:1'' \<and> (\<exists>x \<in> set public_args. asks_public x) \<and> length (sc_PSK cfg) = 32"
proof -
  obtain cfg D h' where run: "server_command demo_rand [] demo_hkdf (\<lambda>_. ''id'') (\<lambda>_ _. Inl Canceled) demo_floats id_channel
       (Inr ''/h'') public_args public_env demo_host = (Goes (Serves cfg (Some 8) D), h')" and a: "sc_Addr cfg = ''10.0.0.1:1''"
    using public_server_runs by blast
  have d: "''10.0.0.1:1'' = dotted 10 0 0 1 @ '':'' @ ''1''" "plain_port ''1''" by code_simp+
  have "sc_Addr cfg = dotted 10 0 0 1 @ '':'' @ ''1''" using a d(1) by metis
  moreover have "(10::nat) \<le> 255" "(0::nat) \<le> 255" "(1::nat) \<le> 255" "(10::nat) \<noteq> 127" by simp_all
  ultimately have "\<exists>x \<in> set public_args. asks_public x" "length (sc_PSK cfg) = 32"
    using public_address_asked [OF run] d(2) by blast+
  then show ?thesis using run a by blast
qed

theorem word_ends_flags_witness:
  "parse_flags server_flag_set (server_defaults home) ([''-allow-public'', ''-addr=10.0.0.1:1''] @ ''false'' # [''-max-sessions=2'']) =
     Parsed ((server_defaults home)\<lparr> sf_allowPublic := True, sf_addr := ''10.0.0.1:1'' \<rparr>) [''false'', ''-max-sessions=2'']"
  using word_ends_flags [OF public_args_parsed, of "''false''" "server_defaults home" "[''-max-sessions=2'']"]
  unfolding public_args_def by simp

end
