(* ===== verification/Isolation.thy ===== *)
theory Isolation
  imports Wiring
begin

text \<open>
  What the handler of a connection can do to the server's files: the store grows by contents under
  their hashes, and the directories of one session are made and removed. Everything else, other
  sessions included, is as before, whatever the client sends.
\<close>

section \<open>Programs that keep what is outside a region\<close>

text \<open>\<open>P\<close> is the outside, \<open>s0\<close> the state to compare with.\<close>

definition kept :: "(string list \<Rightarrow> bool) \<Rightarrow> os \<Rightarrow> os \<Rightarrow> bool" where
  "kept P s0 s \<longleftrightarrow> os_wf s \<and> os_env s = os_env s0 \<and> (\<forall>q. P q \<longrightarrow> osat s q = osat s0 q)"

definition keeps_outside :: "(string list \<Rightarrow> bool) \<Rightarrow> os \<Rightarrow> (os, 'a) prog \<Rightarrow> bool" where
  "keeps_outside P s0 m \<longleftrightarrow> (\<forall>s. kept P s0 s \<longrightarrow> kept P s0 (snd (m s)))"

lemma kept_loc: "kept P s0 s \<Longrightarrow> loc s p = loc s0 p"
  unfolding kept_def using loc_env by blast

lemma outside_state: "(\<And>s. snd (m s) = s) \<Longrightarrow> keeps_outside P s0 m"
  by (simp add: keeps_outside_def)

lemma outside_bind:
  assumes "keeps_outside P s0 m" "\<And>a. keeps_outside P s0 (f a)"
  shows "keeps_outside P s0 (bindE m f)"
  unfolding keeps_outside_def
proof (intro allI impI)
  fix s assume k: "kept P s0 s"
  obtain r t where m: "m s = (r, t)" by (cases "m s")
  have "kept P s0 t" using assms(1) k m unfolding keeps_outside_def by (metis snd_conv)
  then show "kept P s0 (snd (bindE m f s))"
    using assms(2) m unfolding keeps_outside_def by (cases r) (simp_all add: bindE_def)
qed

lemma outside_frame:
  assumes "os_frame P (os_cwd s0) m" "os_keeps m"
  shows "keeps_outside P s0 m"
  unfolding keeps_outside_def
proof (intro allI impI)
  fix s assume k: "kept P s0 s"
  then have "os_cwd s = os_cwd s0" "os_wf s" by (auto simp: kept_def os_env_def)
  then show "kept P s0 (snd (m s))" using assms k unfolding os_frame_def os_keeps_def kept_def by metis
qed

lemma outside_MkdirAll:
  assumes "\<And>q. P q \<Longrightarrow> prefix q (loc s0 p) \<Longrightarrow> osat s0 q = Some IDir"
  shows "keeps_outside P s0 (os_MkdirAll p)"
  unfolding keeps_outside_def
proof (intro allI impI)
  fix s assume k: "kept P s0 s"
  obtain r t where m: "os_MkdirAll p s = (r, t)" by (cases "os_MkdirAll p s")
  show "kept P s0 (snd (os_MkdirAll p s))"
  proof (cases rule: MkdirAll_cases[OF m])
    case (1 e)
    then show ?thesis using k m by simp
  next
    case 2
    have "osat t q = osat s0 q" if "P q" for q
      using assms[OF that] 2(2) k that kept_loc[OF k, of p] by (auto simp: kept_def)
    then show ?thesis using 2(3,4) k m by (simp add: kept_def)
  qed
qed

lemma frame_RemoveAll:
  "(\<And>q. P q \<Longrightarrow> \<not> prefix (locate wd p) q) \<Longrightarrow> os_frame P wd (os_RemoveAll p)"
  unfolding os_RemoveAll_def
  by (rule frame_sys) (auto simp: os_frame_def loc_def osat_set_graft split: sum.split)

lemma outside_RemoveAll: "(\<And>q. P q \<Longrightarrow> \<not> prefix (loc s0 p) q) \<Longrightarrow> keeps_outside P s0 (os_RemoveAll p)"
  by (rule outside_frame[OF frame_RemoveAll os_keeps_RemoveAll]) (simp add: loc_def)

lemma outside_Put:
  assumes "os_wf s0" "bs_dir b \<noteq> ''''" "\<And>q c. P q \<Longrightarrow> \<not> prefix (loc s0 (bs_dir b) @ [c]) q"
  shows "keeps_outside P s0 (bs_Put b h c)"
proof (cases "validHash h \<and> HashContent c = h")
  case False
  then show ?thesis by (auto simp: keeps_outside_def bs_Put_def Let_def)
next
  case True
  have put: "bs_Put b h c = bindE (os_CreateTemp (bs_dir b) ''.tmp-'') (fill_and_rename (\<lambda>_. retE ()) c (bs_path b h))"
    using True by (simp add: bs_Put_alt)
  show ?thesis unfolding keeps_outside_def
  proof (intro allI impI)
    fix s assume k: "kept P s0 s"
    obtain r s' where run: "bs_Put b h c s = (r, s')" by (cases "bs_Put b h c s")
    have wf: "os_wf s" using k by (simp add: kept_def)
    have l: "loc s (bs_dir b) = loc s0 (bs_dir b)" "loc s (bs_path b h) = loc s0 (bs_dir b) @ [h]"
      using kept_loc[OF k] loc_bs_path[OF wf] True by (simp_all add: bs_loc_def)
    have "osat s' q = osat s q" if "P q" for q
      by (rule frame_atomic_write[where P = P, OF wf _ _ assms(2) _ _ _ run[unfolded put] that])
         (use l assms(3) frame_ret(1) in auto)
    moreover have "os_wf s' \<and> os_env s' = os_env s" using os_keepsD[OF os_keeps_Put] wf run by blast
    ultimately show "kept P s0 (snd (bs_Put b h c s))" using k run by (simp add: kept_def)
  qed
qed

section \<open>The places of the data directory\<close>

lemma loc_Join_names:
  assumes "os_wf s" "IsAbs dir" "cs \<noteq> []" "list_all plain_name cs"
  shows "loc s (Join (dir # cs)) = loc s dir @ cs"
proof -
  have ne: "dir \<noteq> ''''" using assms(2) by auto
  have "\<forall>c \<in> set cs. slash \<notin> set c" using assms(4) by (auto simp: plain_name_def list_all_iff)
  then have sp: "split_on slash (join_with slash cs) = cs" using assms(3) by (simp add: split_join_with)
  have j: "Join (dir # cs) = Clean (dir @ slash # join_with slash cs)"
    using ne assms(3) by (simp add: Join_def join_with_Cons)
  have wd: "IsAbs (os_cwd s)" using assms(1) by (simp add: os_wf_def)
  have "locate (os_cwd s) (dir @ slash # join_with slash cs) = locate (os_cwd s) dir @ filter plain_name cs"
    by (rule locate_append[OF wd ne _ sp]) (use assms(4) in \<open>auto simp: list_all_iff\<close>)
  then show ?thesis using assms(4) by (simp add: loc_def j locate_Clean[OF wd] list_all_iff)
qed

lemma data_places:
  assumes "os_wf s" "IsAbs dd"
  shows "loc s (blob_dir dd) = loc s dd @ [''objects'']"
    "plain_name i \<Longrightarrow> loc s (session_dir dd i) = loc s dd @ [''sessions'', i, ''workspace'']"
  using loc_Join_names[OF assms] by (simp_all add: blob_dir_def session_dir_def plain_name_def)

lemma session_dir_abs: "IsAbs dd \<Longrightarrow> IsAbs (session_dir dd i)"
proof -
  assume a: "IsAbs dd"
  then have ne: "dd \<noteq> ''''" by auto
  then show ?thesis using a by (simp add: session_dir_def Join_def IsAbs_append)
qed

text \<open>A region away from the directory of a session, and from the directories above it, which may
  have to be made; and one away from the store. \<open>dd\<close> is where the data directory is.\<close>

definition off_session :: "string list \<Rightarrow> string \<Rightarrow> (string list \<Rightarrow> bool) \<Rightarrow> bool" where
  "off_session dd i P \<longleftrightarrow> (\<forall>q. P q \<longrightarrow> \<not> prefix q (dd @ [''sessions'']) \<and> \<not> prefix (dd @ [''sessions'', i]) q)"

definition off_store :: "string list \<Rightarrow> (string list \<Rightarrow> bool) \<Rightarrow> bool" where
  "off_store dd P \<longleftrightarrow> (\<forall>q. P q \<longrightarrow> \<not> strict_prefix (dd @ [''objects'']) q)"

lemma off_below: "off_session dd i P \<Longrightarrow> P q \<Longrightarrow> \<not> prefix (dd @ ''sessions'' # i # x) q"
  using append_prefixD[of "dd @ [''sessions'', i]" x q] by (auto simp: off_session_def)

lemma off_objects: "off_store dd P \<Longrightarrow> P q \<Longrightarrow> \<not> prefix (dd @ [''objects''] @ [c]) q"
  by (auto simp: off_store_def strict_prefix_def prefix_def)

lemma off_above: "off_session dd i P \<Longrightarrow> P q \<Longrightarrow> \<not> prefix q (dd @ [''sessions'', i, w])"
proof
  assume off: "off_session dd i P" "P q" and pre: "prefix q (dd @ [''sessions'', i, w])"
  then have "prefix q ((dd @ [''sessions'']) @ [i, w])" by simp
  then have "prefix q (dd @ [''sessions'']) \<or> (\<exists>us. q = (dd @ [''sessions'']) @ us \<and> prefix us [i, w])"
    unfolding prefix_append by blast
  then show False using off by (auto simp: off_session_def prefix_Cons)
qed

section \<open>The session's steps\<close>

text \<open>The data directory has an absolute name, and the id is a file name.\<close>

definition prepared :: "string \<Rightarrow> string \<Rightarrow> os \<Rightarrow> bool" where
  "prepared dd i s \<longleftrightarrow> os_wf s \<and> IsAbs dd \<and> plain_name i"

lemma store_keeps:
  assumes "prepared dd i s0" "off_store (loc s0 dd) P"
  shows "keeps_outside P s0 (bs_Put \<lparr> bs_dir = blob_dir dd \<rparr> h c)"
proof (rule outside_Put)
  have p: "os_wf s0" "IsAbs dd" using assms(1) by (simp_all add: prepared_def)
  show "os_wf s0" by (rule p)
  have "dd \<noteq> ''''" using p(2) by auto
  then show "bs_dir \<lparr> bs_dir = blob_dir dd \<rparr> \<noteq> ''''"
    using p(2) by (simp add: blob_dir_def Join2 Clean_def IsAbs_append)
  show "\<not> prefix (loc s0 (bs_dir \<lparr> bs_dir = blob_dir dd \<rparr>) @ [c]) q" if "P q" for q c
    using off_objects[OF assms(2) that, of c] data_places(1)[OF p] by simp
qed

lemma remove_keeps:
  assumes "prepared dd i s0" "off_session (loc s0 dd) i P"
  shows "keeps_outside P s0 (os_RemoveAll (session_dir dd i))"
  using assms off_below[OF assms(2), of _ "[''workspace'']"] data_places(2)[of s0 dd i]
  by (intro outside_RemoveAll) (auto simp: prepared_def)

lemma mkdir_keeps:
  assumes "prepared dd i s0" "off_session (loc s0 dd) i P"
  shows "keeps_outside P s0 (os_MkdirAll (session_dir dd i))"
  using off_above[OF assms(2), of _ "''workspace''"] data_places(2)[of s0 dd i] assms(1)
  by (intro outside_MkdirAll) (auto simp: prepared_def)

lemma workspace_keeps:
  assumes "prepared dd i s0" "off_session (loc s0 dd) i P"
  shows "keeps_outside P s0 (NewWorkspace (session_dir dd i))"
  unfolding NewWorkspace_def
  by (intro outside_bind remove_keeps[OF assms] mkdir_keeps[OF assms] outside_state) simp

text \<open>Materializing writes below a workspace that was just made.\<close>

lemma materialize_keeps:
  assumes prep: "prepared dd i s0" and off: "off_session (loc s0 dd) i P" and k: "kept P s0 s"
    and new: "NewWorkspace (session_dir dd i) s = (Inr ws, s1)"
  shows "kept P s0 (snd (ws_Materialize ws (fs_port b) M s1))"
proof -
  have ws: "ws = \<lparr> ws_dir = session_dir dd i \<rparr>" using new by (auto simp: NewWorkspace_def bindE_Inr_iff)
  obtain t where t: "os_MkdirAll (session_dir dd i) t = (Inr (), s1)"
    using new by (auto simp: NewWorkspace_def bindE_Inr_iff)
  have k1: "kept P s0 s1"
    using workspace_keeps[OF prep off] k new unfolding keeps_outside_def by (metis snd_conv)
  have p: "os_wf s0" "IsAbs dd" "plain_name i" using prep by (simp_all add: prepared_def)
  have R: "loc s1 (ws_dir ws) = loc s0 dd @ [''sessions'', i, ''workspace'']"
    using kept_loc[OF k1] data_places(2)[OF p] ws by simp
  have dir: "osat s1 (loc s1 (ws_dir ws)) = Some IDir"
  proof (cases rule: MkdirAll_cases[OF t])
    case 2
    then show ?thesis using loc_env[OF 2(3)] ws by simp
  qed simp
  have wf: "os_wf s1" using k1 by (simp add: kept_def)
  have get: "\<forall>h t. snd (Get (fs_port b) h t) = t"
    by (simp add: fs_port_def bs_Get_def ReadFile_state)
  obtain r s' where run: "ws_Materialize ws (fs_port b) M s1 = (r, s')" by (cases "ws_Materialize ws (fs_port b) M s1")
  have "IsAbs (ws_dir ws)" using session_dir_abs[OF p(2)] ws by simp
  from Materialize_outside[OF wf dir this get run]
  have m: "os_wf s'" "os_env s' = os_env s1" "\<And>q. \<not> strict_prefix (loc s1 (ws_dir ws)) q \<Longrightarrow> osat s' q = osat s1 q" by auto
  have "osat s' q = osat s1 q" if "P q" for q
    using m(3)[of q] off_below[OF off that, of "[''workspace'']"] R by (auto simp: strict_prefix_def)
  then show ?thesis using k1 m(1,2) run by (simp add: kept_def)
qed

section \<open>The dispatcher's steps\<close>

definition others_kept :: "(string list \<Rightarrow> bool) \<Rightarrow> os \<Rightarrow> 'c world Service \<times> 'c world \<Rightarrow> bool" where
  "others_kept P s0 x \<longleftrightarrow> kept P s0 (w_os (snd x))"

text \<open>A step that keeps the session's shape, and other people's files.\<close>

definition own_inv :: "(string list \<Rightarrow> bool) \<Rightarrow> string \<Rightarrow> (nat \<Rightarrow> string) \<Rightarrow> nat \<Rightarrow> os \<Rightarrow> 'c world Service \<times> 'c world \<Rightarrow> bool" where
  "own_inv P dd u n s0 x \<longleftrightarrow> unclean dd u n x \<and> others_kept P s0 x"

definition own_end :: "(string list \<Rightarrow> bool) \<Rightarrow> string \<Rightarrow> (nat \<Rightarrow> string) \<Rightarrow> nat \<Rightarrow> os \<Rightarrow> 'c world Service \<times> 'c world \<Rightarrow> bool" where
  "own_end P dd u n s0 x \<longleftrightarrow> broken dd u n x \<and> others_kept P s0 x"

lemma own_hoare:
  assumes "hoareE (unclean dd u n) m (\<lambda>_. unclean dd u n) (broken dd u n)"
    and "\<And>x. unclean dd u n x \<Longrightarrow> others_kept P s0 x \<Longrightarrow> others_kept P s0 (snd (m x))"
  shows "hoareE (own_inv P dd u n s0) m (\<lambda>_. own_inv P dd u n s0) (own_end P dd u n s0)"
proof (rule hoareE_I)
  fix x a y assume x: "own_inv P dd u n s0 x" and r: "m x = (Inr a, y)"
  then show "own_inv P dd u n s0 y"
    using hoareE_D1[OF assms(1) _ r] assms(2)[of x] by (simp add: own_inv_def)
next
  fix x e y assume x: "own_inv P dd u n s0 x" and r: "m x = (Inl e, y)"
  then show "own_end P dd u n s0 y"
    using hoareE_D2[OF assms(1) _ r] assms(2)[of x] by (simp add: own_inv_def own_end_def)
qed

definition same_files :: "('c world, 'a) sprog \<Rightarrow> bool" where
  "same_files m \<longleftrightarrow> (\<forall>x. w_os (snd (snd (m x))) = w_os (snd x))"

lemma same_own:
  "leaves m \<Longrightarrow> same_files m \<Longrightarrow> hoareE (own_inv P dd u n s0) m (\<lambda>_. own_inv P dd u n s0) (own_end P dd u n s0)"
  by (rule own_hoare[OF leaves_hoare]) (simp_all add: same_files_def others_kept_def del: split_paired_All)

lemma same_files_ret: "same_files (retE a)" "same_files (throwE e)"
  by (simp_all add: same_files_def)

lemma same_files_conn: "same_files (outside (on_conn p))"
  by (simp add: same_files_def outside_def on_conn_def split: prod.split)

lemma same_files_payload: "same_files (payload msg dec zero)"
  by (auto simp: payload_def same_files_ret split: prod.split sum.split)

lemma os_own:
  assumes "keeps_outside P s0 p"
  shows "hoareE (own_inv P dd u n s0) (outside (on_os p)) (\<lambda>_. own_inv P dd u n s0) (own_end P dd u n s0)"
  using assms by (intro own_hoare[OF leaves_hoare[OF leaves_os]])
    (auto simp: others_kept_def keeps_outside_def outside_def on_os_def split: prod.split)

lemma own_end_of: "own_inv P dd u n s0 x \<Longrightarrow> own_end P dd u n s0 x"
  by (simp add: own_inv_def own_end_def broken_def)

lemma reported_own:
  assumes "hoareE (own_inv P dd u n s0) m (\<lambda>_. own_inv P dd u n s0) (own_end P dd u n s0)" "dp_Notifier D = notifier_on N"
  shows "hoareE (own_inv P dd u n s0) (reported say D m) (\<lambda>_. own_inv P dd u n s0) (own_end P dd u n s0)"
proof (rule hoareE_I)
  fix x a y assume x: "own_inv P dd u n s0 x" "reported say D m x = (Inr a, y)"
  then have "m x = (Inr a, y)" by (auto simp: reported_def split: prod.splits sum.splits)
  then show "own_inv P dd u n s0 y" by (rule hoareE_D1[OF assms(1) x(1)])
next
  fix x e z assume x: "own_inv P dd u n s0 x" and run: "reported say D m x = (Inl e, z)"
  then obtain y where y: "m x = (Inl e, y)" "z = snd (outside (Error (dp_Notifier D) (say e)) y)"
    by (auto simp: reported_def split: prod.splits sum.splits)
  have "own_end P dd u n s0 y" by (rule hoareE_D2[OF assms(1) x y(1)])
  moreover have "to_clean z = to_clean y" "w_os (snd z) = w_os (snd y)"
    using y(2) assms(2) by (simp_all add: notifier_on_def to_clean_def outside_def on_conn_def split: prod.split)
  ultimately show "own_end P dd u n s0 z" by (simp add: own_end_def broken_def unclean_def others_kept_def)
qed

lemma StartSession_own:
  "hoareE (own_inv P dd u n s0) (StartSession (service_deps b dd u spawn rn fl S) nm M) (\<lambda>_. own_inv P dd u n s0) (own_end P dd u n s0)"
proof -
  have "keeps_outside P s0 (missing_hashes (fs_port b) seen ms es)" for seen ms es
    by (rule outside_state[OF fs.missing_hashes_state])
  then show ?thesis unfolding StartSession_def deps_simps missing_hashes_on
    by (intro hoareE_bind[where R = "\<lambda>_. own_inv P dd u n s0"] os_own same_own)
       (auto simp: leaves_def same_files_def set_sv_def to_clean_def)
qed

lemma SyncDone_files:
  assumes prep: "prepared dd (u n) s0" and off: "off_session (loc s0 dd) (u n) P" and un: "unclean dd u n (sv, w)" and k: "others_kept P s0 (sv, w)"
  shows "others_kept P s0 (snd (svc_SyncDone (service_deps b dd u spawn rn fl S) (sv, w)))"
proof (cases "sv_agent sv")
  case (Some ag)
  then show ?thesis using k by (simp add: svc_SyncDone_def)
next
  case None
  let ?D = "service_deps b dd u spawn rn fl S" and ?dir = "session_dir dd (u n)"
  let ?w = "w\<lparr> w_ids := Suc n \<rparr>"
  have st: "w_ids w = n" using un None by (auto simp: unclean_def to_clean_def)
  have ks: "kept P s0 (w_os w)" using k by (simp add: others_kept_def)
  obtain r1 s1 where nw: "NewWorkspace ?dir (w_os w) = (r1, s1)" by (metis prod.collapse)
  have k1: "kept P s0 s1"
    using workspace_keeps[OF prep off] ks nw unfolding keeps_outside_def by (metis snd_conv)
  show ?thesis
  proof (cases r1)
    case (Inl e)
    then show ?thesis using k1 None st nw
      by (simp add: svc_SyncDone_def bindE_outside new_id_def new_workspace_run others_kept_def)
  next
    case (Inr ws)
    obtain r2 s2 where m: "ws_Materialize ws (fs_port b) (sv_manifest sv) s1 = (r2, s2)" by (metis prod.collapse)
    have k2: "kept P s0 s2"
      using materialize_keeps[OF prep off ks nw[unfolded Inr], of b "sv_manifest sv"] m by simp
    show ?thesis using k2 None st nw Inr m
      by (cases r2; cases "spawn (start_command rn (u n) (ws_dir ws)) \<lparr> rb_buf = [], rb_max = 8 * 1024 \<rparr>")
         (simp_all add: svc_SyncDone_def bindE_outside new_id_def new_workspace_run materialize_on on_os_def
           agent_run workspace_on_def others_kept_def)
  qed
qed

lemma SyncDone_own:
  assumes "prepared dd (u n) s0" "off_session (loc s0 dd) (u n) P" "spawns_running spawn"
  shows "hoareE (own_inv P dd u n s0) (svc_SyncDone (service_deps b dd u spawn rn fl S)) (\<lambda>_. own_inv P dd u n s0) (own_end P dd u n s0)"
proof (rule own_hoare[OF SyncDone_hoare[OF assms(3)]])
  fix x :: "'a world Service \<times> 'a world"
  assume "unclean dd u n x" "others_kept P s0 x"
  then show "others_kept P s0 (snd (svc_SyncDone (service_deps b dd u spawn rn fl S) x))"
    using SyncDone_files[where u = u and n = n and sv = "fst x" and w = "snd x", OF assms(1,2)] by simp
qed

lemma Interrupt_own:
  "hoareE (own_inv P dd u n s0) (tryE (reported say (service_deps b dd u spawn rn fl S) (svc_Interrupt (service_deps b dd u spawn rn fl S))))
     (\<lambda>_. own_inv P dd u n s0) (own_end P dd u n s0)"
proof (rule own_hoare[OF Interrupt_hoare])
  let ?D = "service_deps b dd u spawn rn fl S"
  fix x :: "'a world Service \<times> 'a world"
  assume un: "unclean dd u n x" and k: "others_kept P s0 x"
  obtain sv w where x: "x = (sv, w)" by (cases x)
  obtain r z where z: "svc_Interrupt ?D x = (r, z)" by (metis prod.collapse)
  have "w_os (snd z) = w_os w"
  proof (cases "sv_agent sv")
    case (Some ag)
    then have "ag = session_on cli_session" using un x by (auto simp: unclean_def to_clean_def)
    then show ?thesis using z x Some
      by (auto simp: svc_Interrupt_def session_on_def outside_def on_agent_def split: prod.splits)
  qed (use z x in \<open>auto simp: svc_Interrupt_def\<close>)
  moreover have "w_os (snd (snd (reported say ?D (svc_Interrupt ?D) x))) = w_os (snd z)"
    using z by (simp add: reported_def notifier_on_def outside_def on_conn_def split: prod.split sum.split)
  ultimately have "w_os (snd (snd (tryE (reported say ?D (svc_Interrupt ?D)) x))) = w_os w"
    by (simp add: tryE_def case_prod_beta)
  then show "others_kept P s0 (snd (tryE (reported say ?D (svc_Interrupt ?D)) x))"
    using k x by (simp add: others_kept_def)
qed

lemma handle_own:
  assumes prep: "prepared dd (u n) s0" and off: "off_session (loc s0 dd) (u n) P" and spawn: "spawns_running spawn"
    and put: "\<And>h c. env_Type (fr_Env msg) = TypeBlob \<Longrightarrow> keeps_outside P s0 (bs_Put \<lparr> bs_dir = blob_dir dd \<rparr> h c)"
  shows "hoareE (own_inv P dd u n s0) (handle_message say (service_deps \<lparr> bs_dir = blob_dir dd \<rparr> dd u spawn rn fl S) msg)
    (\<lambda>_. own_inv P dd u n s0) (own_end P dd u n s0)"
proof -
  let ?D = "service_deps \<lparr> bs_dir = blob_dir dd \<rparr> dd u spawn rn fl S"
  have notify: "hoareE (own_inv P dd u n s0) (outside (SessionReady (notifier_on N) i)) (\<lambda>_. own_inv P dd u n s0) (own_end P dd u n s0)"
    "hoareE (own_inv P dd u n s0) (outside (SyncRequest (notifier_on N) hs)) (\<lambda>_. own_inv P dd u n s0) (own_end P dd u n s0)"
    for N i hs by (simp_all add: notifier_on_def same_own leaves_conn same_files_conn)
  note simple = same_own[OF leaves_payload same_files_payload] same_own[OF leaves_ret(1) same_files_ret(1)] notify
  have putb: "hoareE (own_inv P dd u n s0) (PutBlob ?D h c) (\<lambda>_. own_inv P dd u n s0) (own_end P dd u n s0)"
    if "env_Type (fr_Env msg) = TypeBlob" for h c
    using os_own[where u = u and n = n and dd = dd, OF put[OF that]] by (simp add: PutBlob_def blobs_on_def fs_port_def)
  have branch: "(c \<Longrightarrow> hoareE P m Q E) \<Longrightarrow> hoareE P m' Q E \<Longrightarrow> hoareE P (if c then m else m') Q E" for P m m' Q E c
    by simp
  show ?thesis
    unfolding handle_message_def Let_def deps_simps(2)
    by (intro branch hoareE_bind[where R = "\<lambda>_. own_inv P dd u n s0"] simple reported_own[OF _ deps_simps(2)]
        StartSession_own putb SyncDone_own[where u = u and n = n, OF prep off spawn] Interrupt_own)
qed

section \<open>An empty data directory\<close>

definition demo_empty_os :: os where
  "demo_empty_os = demo_os (NDir [(''d'', NDir [(''objects'', NDir [])])])"

lemma demo_prepared: "prepared ''/d'' (demo_uuid 0) demo_empty_os"
proof -
  have "plain_name (demo_uuid 0)" "IsAbs ''/d''" "wf_node (os_tree demo_empty_os)" by code_simp+
  then show ?thesis by (simp add: prepared_def os_wf_def demo_empty_os_def osat_def)
qed

end
