(* ===== verification/Serving.thy ===== *)
theory Serving
  imports Isolation
begin

text \<open>
  The server at work, \<^verbatim>\<open>ListenAndServe\<close> and the handlers that run at once: every
  connection has its handler, its event pump and its prompts, all of them share one file system
  with one store, the limit of sessions, and the process, which ends for all of them. The agents'
  processes work on the same file system, and nothing confines them to a session.
\<close>

section \<open>One connection\<close>

text \<open>
  The handler dispatches; or has left its loop, with what the loop returned; or is in
  \<^verbatim>\<open>Close\<close>, where it has taken the agent and the workspace out of the service, and closes the
  one and removes the other; or is gone.
\<close>

datatype 's phase =
    Dispatching
  | Closing "error option"
  | Stopping "'s AgentSession option" "'s WorkspacePort option"
  | Removing "'s WorkspacePort option"
  | Gone

text \<open>\<open>cx_started\<close> are the prompts whose goroutine has not begun, \<open>cx_reported\<close> the
  positions of the returned prompts whose error was sent to the client.\<close>

record 'c client =
  cx_run :: "'c world run"
  cx_started :: "string list"
  cx_reported :: "nat set"
  cx_phase :: "'c world phase"

definition cx_state :: "'c client \<Rightarrow> 'c world Service \<times> 'c world" where
  "cx_state x = (rn_sv (cx_run x), rn_world (cx_run x))"

definition put_state :: "'c world Service \<times> 'c world \<Rightarrow> 'c client \<Rightarrow> 'c client" where
  "put_state z x = x\<lparr> cx_run := (cx_run x)\<lparr> rn_sv := fst z, rn_world := snd z \<rparr> \<rparr>"

text \<open>What the loop of \<^verbatim>\<open>dispatch\<close> does after a message.\<close>

definition after_message :: "error + outcome \<Rightarrow> 'c client \<Rightarrow> 'c client" where
  "after_message r x =
     (case r of
        Inl e \<Rightarrow> x\<lparr> cx_phase := Closing (Some e) \<rparr>
      | Inr Continue \<Rightarrow> x
      | Inr (Started t) \<Rightarrow> x\<lparr> cx_started := cx_started x @ [t] \<rparr>
      | Inr Ended \<Rightarrow> x\<lparr> cx_phase := Closing None \<rparr>)"

text \<open>The process is done: its input is closed, and it is one that exits then.\<close>

definition exited :: "'c world \<Rightarrow> bool" where
  "exited w \<longleftrightarrow> (\<forall>p. w_agent w = Some p \<longrightarrow> \<not> pr_in_open p \<and> pr_exits p)"

text \<open>
  A step of the handler: the dispatcher takes a message; or \<^verbatim>\<open>Close\<close> begins; it closes the
  input of the process; the process has exited, and waiting for it returns; the workspace is
  removed. With a process that does not exit there is no step after its input is closed.
\<close>

inductive handler_step ::
  "(error \<Rightarrow> string) \<Rightarrow> 'c SecureChannel \<Rightarrow> 'c world Deps \<Rightarrow> 'c client \<Rightarrow> 'c client \<Rightarrow> bool"
  for say S D where
  serves: "cx_phase x = Dispatching \<Longrightarrow>
    bindE (outside (on_conn (ReadMessage S))) (handle_message say D) (cx_state x) = (r, z) \<Longrightarrow>
    handler_step say S D x (after_message r (put_state z x))"
| takes: "cx_phase x = Closing e \<Longrightarrow> close_take (cx_state x) = (Inr (agent, ws), z) \<Longrightarrow>
    handler_step say S D x (put_state z (x\<lparr> cx_run := (cx_run x)\<lparr> rn_closed := True \<rparr>, cx_phase := Stopping agent ws \<rparr>))"
| hangs_up: "cx_phase x = Stopping (Some agent) ws \<Longrightarrow> cx_state x = (sv, w) \<Longrightarrow> w_agent w = Some p \<Longrightarrow> pr_in_open p \<Longrightarrow>
    handler_step say S D x (put_state (sv, w\<lparr> w_agent := Some (p\<lparr> pr_in_open := False \<rparr>) \<rparr>) x)"
| stops_agent: "cx_phase x = Stopping agent ws \<Longrightarrow> agent = None \<or> exited (snd (cx_state x)) \<Longrightarrow>
    close_agent agent (cx_state x) = (r, z) \<Longrightarrow>
    handler_step say S D x (put_state z (x\<lparr> cx_phase := Removing ws \<rparr>))"
| removes: "cx_phase x = Removing ws \<Longrightarrow> close_ws ws (cx_state x) = (r, z) \<Longrightarrow>
    handler_step say S D x (put_state z (x\<lparr> cx_phase := Gone \<rparr>))"

text \<open>
  A step beside the handler: a goroutine that was started for a prompt begins; it reports the error of
  its prompt; or one of the pump and the prompts moves, or the agent emits an event.
\<close>

inductive beside_step :: "(error \<Rightarrow> string) \<Rightarrow> 'c world Deps \<Rightarrow> 'c client \<Rightarrow> 'c client \<Rightarrow> bool" for say D where
  begins: "cx_started x = ps @ t # qs \<Longrightarrow>
    beside_step say D x (x\<lparr> cx_run := begin_prompt t (cx_run x), cx_started := ps @ qs \<rparr>)"
| reports: "k < length (rn_returned (cx_run x)) \<Longrightarrow> k \<notin> cx_reported x \<Longrightarrow> rn_returned (cx_run x) ! k = Some e \<Longrightarrow>
    outside (Error (dp_Notifier D) (say e)) (cx_state x) = (r, z) \<Longrightarrow>
    beside_step say D x (put_state z (x\<lparr> cx_reported := insert k (cx_reported x) \<rparr>))"
| background: "bstep D (\<lambda>_ _. False) (cx_run x) r \<Longrightarrow> beside_step say D x (x\<lparr> cx_run := r \<rparr>)"

definition new_client :: "'c conn \<Rightarrow> os \<Rightarrow> nat \<Rightarrow> 'c client" where
  "new_client c s ids =
     \<lparr> cx_run = start_run \<lparr> w_os = s, w_conn = c, w_agent = None, w_ids = ids \<rparr>, cx_started = [],
       cx_reported = {}, cx_phase = Dispatching \<rparr>"

section \<open>The server\<close>

text \<open>What \<^verbatim>\<open>main\<close> fixed, and the libraries it uses; \<open>su_closeStatus\<close> is
  \<^verbatim>\<open>websocket.CloseStatus\<close>.\<close>

record ('r, 'h, 'k) installed =
  su_say :: "error \<Rightarrow> string"
  su_noise :: "('r, 'h, 'k) noise_lib"
  su_psk :: bytes
  su_dataDir :: string
  su_uuid :: "nat \<Rightarrow> string"
  su_spawn :: "command \<Rightarrow> ringBuffer \<Rightarrow> error + process"
  su_runner :: Runner
  su_floats :: float_ops
  su_closeStatus :: "error \<Rightarrow> int"

definition su_deps :: "('r, 'h, 'k) installed \<Rightarrow> 'k Channel world Deps" where
  "su_deps U = service_deps \<lparr> bs_dir = blob_dir (su_dataDir U) \<rparr> (su_dataDir U) (su_uuid U) (su_spawn U)
     (su_runner U) (su_floats U) (noise_channel (su_noise U))"

definition su_handler :: "('r, 'h, 'k) installed \<Rightarrow> 'k Channel client \<Rightarrow> 'k Channel client \<Rightarrow> bool" where
  "su_handler U = handler_step (su_say U) (noise_channel (su_noise U)) (su_deps U)"

definition su_beside :: "('r, 'h, 'k) installed \<Rightarrow> 'k Channel client \<Rightarrow> 'k Channel client \<Rightarrow> bool" where
  "su_beside U = beside_step (su_say U) (su_deps U)"

text \<open>\<open>sr_shaking\<close> counts the handlers that have a slot and are in the handshake; \<open>sr_exit\<close> is
  how the process ended, \<^verbatim>\<open>None\<close> inside for a regular end.\<close>

record 'c server =
  sr_os :: os
  sr_ids :: nat
  sr_pool :: pool
  sr_shaking :: nat
  sr_clients :: "'c client list"
  sr_log :: "error list"
  sr_listening :: bool
  sr_exit :: "error option option"

text \<open>\<^verbatim>\<open>errors.Is\<close>, and what a session's end is logged for.\<close>

fun errors_Is :: "error \<Rightarrow> error \<Rightarrow> bool" where
  "errors_Is (Wrapped t e) target \<longleftrightarrow> Wrapped t e = target \<or> errors_Is e target"
| "errors_Is (Joined es) target \<longleftrightarrow> Joined es = target \<or> list_ex (\<lambda>e. errors_Is e target) es"
| "errors_Is e target \<longleftrightarrow> e = target"

definition net_ErrClosed :: error where
  "net_ErrClosed = ErrMsg ''use of closed network connection''"

definition isClosed :: "(error \<Rightarrow> int) \<Rightarrow> error option \<Rightarrow> bool" where
  "isClosed closeStatus err =
     (case err of
        None \<Rightarrow> False
      | Some e \<Rightarrow> errors_Is e Canceled \<or> errors_Is e net_ErrClosed \<or> closeStatus e = 1000 \<or> closeStatus e = 1001)"

definition session_ended :: "(error \<Rightarrow> int) \<Rightarrow> error option \<Rightarrow> error list" where
  "session_ended closeStatus err =
     (case err of None \<Rightarrow> [] | Some e \<Rightarrow> if isClosed closeStatus err then [] else [Wrapped ''session ended'' e])"

text \<open>It is logged when the loop has been left, before the session is closed.\<close>

definition logged :: "(error \<Rightarrow> int) \<Rightarrow> 'c client \<Rightarrow> 'c client \<Rightarrow> error list" where
  "logged closeStatus x y =
     (case (cx_phase x, cx_phase y) of (Dispatching, Closing err) \<Rightarrow> session_ended closeStatus err | _ \<Rightarrow> [])"

text \<open>A connection sees the file system and the ids as they are now, and leaves them as it makes them;
  the end of its loop is logged.\<close>

definition enter :: "'c server \<Rightarrow> 'c client \<Rightarrow> 'c client" where
  "enter s x = put_state (rn_sv (cx_run x), (rn_world (cx_run x))\<lparr> w_os := sr_os s, w_ids := sr_ids s \<rparr>) x"

definition leave :: "(error \<Rightarrow> int) \<Rightarrow> 'c server \<Rightarrow> nat \<Rightarrow> 'c client \<Rightarrow> 'c server" where
  "leave closeStatus s i y = s\<lparr> sr_os := w_os (rn_world (cx_run y)), sr_ids := w_ids (rn_world (cx_run y)),
     sr_clients := (sr_clients s)[i := y], sr_log := sr_log s @ logged closeStatus (sr_clients s ! i) y \<rparr>"

text \<open>What \<^verbatim>\<open>ListenAndServe\<close> returns when the HTTP server does.\<close>

definition ErrServerClosed :: error where
  "ErrServerClosed = ErrMsg ''http: Server closed''"

definition ListenAndServe :: "error \<Rightarrow> error option" where
  "ListenAndServe err = (if errors_Is err ErrServerClosed then None else Some err)"

text \<open>\<^verbatim>\<open>main\<close> after that: an error is fatal.\<close>

definition main_ends :: "error option \<Rightarrow> error option" where
  "main_ends served = map_option (Wrapped ''serve'') served"

text \<open>The process runs: nobody has ended it, and no goroutine has panicked.\<close>

definition running :: "'c server \<Rightarrow> bool" where
  "running s \<longleftrightarrow> sr_exit s = None \<and> (\<forall>x \<in> set (sr_clients s). \<not> rn_panicked (cx_run x))"

text \<open>Who makes a step: the handler of a connection, what runs beside it, the connection's agent, or
  nobody of a session.\<close>

datatype mover = Outside | Handler nat | Beside nat | AgentOf nat

text \<open>
  A step of the server. A connection arrives and gets a slot, or is turned away; its handshake
  succeeds or not; its handler makes a step, the last one when it is gone, with which the slot is
  free again; something beside it makes a step; its agent's process, or what that has started,
  changes the files in any way whatever; the signal arrives, and the listener is closed; the HTTP
  server returns, for another reason or because it is closed, and with \<^verbatim>\<open>main\<close> the process ends,
  at whatever point its sessions are.
\<close>

inductive srv_step :: "('r, 'h, 'k) installed \<Rightarrow> mover \<Rightarrow> 'k Channel server \<Rightarrow> 'k Channel server \<Rightarrow> bool" for U where
  arrives: "running s \<Longrightarrow> sr_listening s \<Longrightarrow> pool_step (sr_pool s) p \<Longrightarrow> po_running p = Suc (po_running (sr_pool s)) \<Longrightarrow>
    srv_step U Outside s (s\<lparr> sr_pool := p, sr_shaking := Suc (sr_shaking s) \<rparr>)"
| turned_away: "running s \<Longrightarrow> sr_listening s \<Longrightarrow> pool_step (sr_pool s) p \<Longrightarrow> po_rejected p = Suc (po_rejected (sr_pool s)) \<Longrightarrow>
    srv_step U Outside s (s\<lparr> sr_pool := p \<rparr>)"
| accepted: "running s \<Longrightarrow> sr_shaking s = Suc k \<Longrightarrow> accept_conn (su_noise U) rnd (su_psk U) lk = (Inr c, lk') \<Longrightarrow>
    srv_step U Outside s (s\<lparr> sr_shaking := k, sr_clients := sr_clients s @ [new_client c (sr_os s) (sr_ids s)] \<rparr>)"
| rejected: "running s \<Longrightarrow> sr_shaking s = Suc k \<Longrightarrow> accept_conn (su_noise U) rnd (su_psk U) lk = (Inl e, lk') \<Longrightarrow>
    pool_step (sr_pool s) p \<Longrightarrow> Suc (po_running p) = po_running (sr_pool s) \<Longrightarrow>
    srv_step U Outside s (s\<lparr> sr_shaking := k, sr_pool := p, sr_log := sr_log s @ [Wrapped ''handshake rejected'' e] \<rparr>)"
| handles: "running s \<Longrightarrow> i < length (sr_clients s) \<Longrightarrow> su_handler U (enter s (sr_clients s ! i)) y \<Longrightarrow>
    cx_phase y \<noteq> Gone \<Longrightarrow> srv_step U (Handler i) s (leave (su_closeStatus U) s i y)"
| ends: "running s \<Longrightarrow> i < length (sr_clients s) \<Longrightarrow> su_handler U (enter s (sr_clients s ! i)) y \<Longrightarrow>
    cx_phase y = Gone \<Longrightarrow> pool_step (sr_pool s) p \<Longrightarrow> Suc (po_running p) = po_running (sr_pool s) \<Longrightarrow>
    srv_step U (Handler i) s ((leave (su_closeStatus U) s i y)\<lparr> sr_pool := p \<rparr>)"
| goes_on: "running s \<Longrightarrow> i < length (sr_clients s) \<Longrightarrow> su_beside U (enter s (sr_clients s ! i)) y \<Longrightarrow>
    srv_step U (Beside i) s (leave (su_closeStatus U) s i y)"
| agent: "running s \<Longrightarrow> i < length (sr_clients s) \<Longrightarrow> w_agent (rn_world (cx_run (sr_clients s ! i))) \<noteq> None \<Longrightarrow>
    fs = (sr_os s)\<lparr> os_tree := tree \<rparr> \<Longrightarrow> os_wf fs \<Longrightarrow> srv_step U (AgentOf i) s (s\<lparr> sr_os := fs \<rparr>)"
| stops: "running s \<Longrightarrow> sr_listening s \<Longrightarrow> srv_step U Outside s (s\<lparr> sr_listening := False \<rparr>)"
| returns: "running s \<Longrightarrow> (err = ErrServerClosed \<longleftrightarrow> \<not> sr_listening s) \<Longrightarrow>
    srv_step U Outside s (s\<lparr> sr_exit := Some (main_ends (ListenAndServe err)) \<rparr>)"

text \<open>The server that \<^verbatim>\<open>main\<close> starts on the file system \<open>s0\<close>, with the slots of its configuration.\<close>

definition new_server :: "os \<Rightarrow> nat option \<Rightarrow> 'c server" where
  "new_server s0 cap =
     \<lparr> sr_os = s0, sr_ids = 0, sr_pool = new_pool cap, sr_shaking = 0, sr_clients = [], sr_log = [],
       sr_listening = True, sr_exit = None \<rparr>"

definition srv_reach :: "('r, 'h, 'k) installed \<Rightarrow> 'k Channel server \<Rightarrow> 'k Channel server \<Rightarrow> bool" where
  "srv_reach U = (\<lambda>s t. \<exists>l. srv_step U l s t)\<^sup>*\<^sup>*"

text \<open>A run, with who made its steps.\<close>

inductive srv_run :: "('r, 'h, 'k) installed \<Rightarrow> mover list \<Rightarrow> 'k Channel server \<Rightarrow> 'k Channel server \<Rightarrow> bool" for U where
  rests: "srv_run U [] s s"
| then_runs: "srv_step U l s t \<Longrightarrow> srv_run U ls t v \<Longrightarrow> srv_run U (l # ls) s v"

text \<open>
  What a run can be asked of the agents, since nothing in the program asks it: that they leave the files
  of a region alone, and make no symbolic links, which the file system of the model does not follow.
\<close>

definition spares :: "(string list \<Rightarrow> bool) \<Rightarrow> os \<Rightarrow> os \<Rightarrow> bool" where
  "spares Q s s' \<longleftrightarrow> (\<forall>q. Q q \<longrightarrow> osat s' q = osat s q) \<and> (\<forall>q. osat s' q = Some IOther \<longrightarrow> osat s q = Some IOther)"

text \<open>The runs of those that are in \<open>L\<close>, in which the agents spare the region \<open>Q\<close>.\<close>

definition sparing_run ::
  "('r, 'h, 'k) installed \<Rightarrow> (mover \<Rightarrow> bool) \<Rightarrow> (string list \<Rightarrow> bool) \<Rightarrow> 'k Channel server \<Rightarrow> 'k Channel server \<Rightarrow> bool" where
  "sparing_run U L Q =
     (\<lambda>s t. \<exists>l. L l \<and> srv_step U l s t \<and> (\<forall>i. l = AgentOf i \<longrightarrow> spares Q (sr_os s) (sr_os t)))\<^sup>*\<^sup>*"

lemma srv_reach_refl: "srv_reach U s s"
  by (simp add: srv_reach_def)

lemma srv_reach_step: "srv_step U l s t \<Longrightarrow> srv_reach U t v \<Longrightarrow> srv_reach U s v"
  unfolding srv_reach_def by (rule converse_rtranclp_into_rtranclp) blast

lemma srv_reach_trans: "srv_reach U s t \<Longrightarrow> srv_reach U t v \<Longrightarrow> srv_reach U s v"
  unfolding srv_reach_def by simp

lemma srv_run_reach: "srv_run U ls s t \<Longrightarrow> srv_reach U s t"
  by (induction rule: srv_run.induct) (auto intro: srv_reach_refl srv_reach_step)

lemma sparing_reach: "sparing_run U L Q s t \<Longrightarrow> srv_reach U s t"
  unfolding sparing_run_def srv_reach_def by (erule mono_rtranclp[THEN mp, rotated]) blast

end
