(* ===== verification/ServingOwn.thy ===== *)
theory ServingOwn
  imports Serving
begin

text \<open>
  What one connection of the running server touches: a step of its handler puts a content in the
  store, or changes nothing outside the session's own directory; a step of its pump or its prompts
  changes no file. And how far a handler is from its end.
\<close>

section \<open>What a connection has\<close>

definition sid :: "'c client \<Rightarrow> string" where
  "sid x = sv_sessionID (rn_sv (cx_run x))"

definition own_workspace :: "string \<Rightarrow> string \<Rightarrow> 'c world WorkspacePort" where
  "own_workspace dd i = workspace_on \<lparr> ws_dir = session_dir dd i \<rparr>"

fun prompt_fits :: "string \<Rightarrow> string \<Rightarrow> 'c world prompt_state \<Rightarrow> bool" where
  "prompt_fits dd i (PromptSnaps agent ws t) \<longleftrightarrow> agent = session_on cli_session \<and> ws = own_workspace dd i"
| "prompt_fits dd i (PromptSends k agent t) \<longleftrightarrow> agent = session_on cli_session"
| "prompt_fits dd i (PromptWaits k) \<longleftrightarrow> True"

text \<open>What the service and its process refer to is the session's own.\<close>

definition service_fits :: "string \<Rightarrow> 'c world Service \<times> 'c world \<Rightarrow> bool" where
  "service_fits dd z \<longleftrightarrow> (case z of (sv, w) \<Rightarrow>
     (sv_agent sv = None \<or> sv_agent sv = Some (session_on cli_session)) \<and>
     (sv_ws sv = None \<or> sv_ws sv = Some (own_workspace dd (sv_sessionID sv))) \<and>
     (\<forall>p. w_agent w = Some p \<longrightarrow> cmd_Dir (pr_cmd p) = session_dir dd (sv_sessionID sv)) \<and>
     (sv_sessionID sv = [] \<longrightarrow> sv_agent sv = None \<and> sv_ws sv = None \<and> w_agent w = None))"

definition service_runs :: "'c world Service \<times> 'c world \<Rightarrow> bool" where
  "service_runs z \<longleftrightarrow> (case z of (sv, w) \<Rightarrow> sv_sessionID sv \<noteq> [] \<longrightarrow>
     sv_agent sv \<noteq> None \<and> sv_ws sv \<noteq> None \<and> (\<exists>p. w_agent w = Some p \<and> \<not> pr_waited p))"

text \<open>The process that an agent is of: there is one, and nobody has waited for it.\<close>

definition agent_there :: "'c world AgentSession option \<Rightarrow> 'c world \<Rightarrow> bool" where
  "agent_there agent w \<longleftrightarrow>
     (case agent of
        None \<Rightarrow> w_agent w = None
      | Some ag \<Rightarrow> ag = session_on cli_session \<and> (\<exists>p. w_agent w = Some p \<and> \<not> pr_waited p))"

lemma runs_there: "service_fits dd (sv, w) \<Longrightarrow> service_runs (sv, w) \<Longrightarrow> agent_there (sv_agent sv) w"
  by (auto simp: service_fits_def service_runs_def agent_there_def split: option.split)

text \<open>The invariants of the dispatcher, for a session that runs and for one that is not there yet.\<close>

lemma fits_unclean:
  assumes "service_fits dd (sv, w)" "service_runs (sv, w)"
  shows "sv_sessionID sv = [] \<Longrightarrow> w_ids w = k \<Longrightarrow> unclean dd u k (sv, w)"
    and "sv_sessionID sv = u k \<Longrightarrow> u k \<noteq> [] \<Longrightarrow> w_ids w = Suc k \<Longrightarrow> unclean dd u k (sv, w)"
  using assms
  by (auto simp: service_fits_def service_runs_def unclean_def to_clean_def session_ws_def own_workspace_def)

lemma unclean_fits:
  assumes "unclean dd u k z" "u k \<noteq> []"
  shows "service_fits dd z \<and> service_runs z \<and>
    (sv_sessionID (fst z) = [] \<and> w_ids (snd z) = k \<or> sv_sessionID (fst z) = u k \<and> w_ids (snd z) = Suc k)"
  using assms
  by (cases z) (auto simp: service_fits_def service_runs_def unclean_def to_clean_def session_ws_def own_workspace_def)

lemma broken_fits:
  assumes "broken dd u k z" "u k \<noteq> []"
  shows "service_fits dd z \<and> agent_there (sv_agent (fst z)) (snd z) \<and>
    (sv_sessionID (fst z) = [] \<and> w_ids (snd z) = k \<or> sv_sessionID (fst z) = u k \<and> w_ids (snd z) = Suc k)"
  using unclean_fits[of dd u k z] runs_there[of dd "fst z" "snd z"] assms
  by (cases z) (auto simp: broken_def service_fits_def to_clean_def session_ws_def own_workspace_def agent_there_def)

text \<open>A session that runs makes no ids, so it does not matter how they are made.\<close>

lemma handle_message_ids:
  assumes "sv_agent sv \<noteq> None"
  shows "handle_message say (service_deps b dd u spawn rn fl S) m (sv, w) =
    handle_message say (service_deps b dd u' spawn rn fl S) m (sv, w)"
proof -
  have sync: "svc_SyncDone D (sv, w) = (Inr (sv_sessionID sv), (sv, w))" for D :: "'a world Deps"
    using assms by (simp add: svc_SyncDone_def)
  have rep: "reported say (service_deps b dd u spawn rn fl S) p = reported say (service_deps b dd u' spawn rn fl S) p" for p :: "('a world, 'x) sprog"
    unfolding reported_def [abs_def] deps_simps ..
  have rsync: "reported say D (svc_SyncDone D) (sv, w) = (Inr (sv_sessionID sv), (sv, w))" for D :: "'a world Deps"
    by (simp add: reported_def sync)
  have bs: "bindE (reported say D (svc_SyncDone D)) f (sv, w) = f (sv_sessionID sv) (sv, w)" for D :: "'a world Deps" and f :: "string \<Rightarrow> ('a world, outcome) sprog"
    by (simp add: bindE_def rsync)
  have st: "StartSession (service_deps b dd u spawn rn fl S) = StartSession (service_deps b dd u' spawn rn fl S)"
    by (intro ext) (simp add: StartSession_def)
  have pb: "PutBlob (service_deps b dd u spawn rn fl S) = PutBlob (service_deps b dd u' spawn rn fl S)"
    by (intro ext) (simp add: PutBlob_def)
  have it: "svc_Interrupt (service_deps b dd u spawn rn fl S) = svc_Interrupt (service_deps b dd u' spawn rn fl S)"
    by (simp add: svc_Interrupt_def)
  show ?thesis
  proof (cases "env_Type (fr_Env m) = TypeSyncDone")
    case True
    then show ?thesis by (simp add: handle_message_def type_defs bs)
  next
    case False
    show ?thesis unfolding handle_message_def Let_def if_not_P[OF False] deps_simps st pb it rep ..
  qed
qed

section \<open>The dispatcher keeps to its session\<close>

text \<open>What a step of the session \<open>i\<close> may do to the files: put a content in the store, or
  nothing outside the session's own directory.\<close>

definition touches :: "string \<Rightarrow> string \<Rightarrow> os \<Rightarrow> os \<Rightarrow> bool" where
  "touches dd i s s' \<longleftrightarrow> (\<exists>h c. s' = snd (bs_Put \<lparr> bs_dir = blob_dir dd \<rparr> h c s)) \<or>
     (\<forall>P. off_session (loc s dd) i P \<longrightarrow> kept P s s')"

lemma kept_refl: "os_wf s \<Longrightarrow> kept P s s"
  by (simp add: kept_def)

lemma touches_refl: "os_wf s \<Longrightarrow> touches dd i s s"
  by (simp add: touches_def kept_refl)

lemma blob_message:
  assumes "handle_message say (service_deps \<lparr> bs_dir = blob_dir dd \<rparr> dd u spawn rn fl S) m (sv, w) = (r, z)"
    and "env_Type (fr_Env m) = TypeBlob" "os_wf (w_os w)"
  shows "touches dd i (w_os w) (w_os (snd z))"
proof -
  let ?D = "service_deps \<lparr> bs_dir = blob_dir dd \<rparr> dd u spawn rn fl S"
  have put: "PutBlob ?D h c (sv, w) = (case bs_Put \<lparr> bs_dir = blob_dir dd \<rparr> h c (w_os w) of (r, s) \<Rightarrow> (r, (sv, w\<lparr> w_os := s \<rparr>)))" for h c
    by (simp add: PutBlob_def outside_def blobs_on_def fs_port_def on_os_def split: prod.split)
  have rep: "w_os (snd (snd (reported say ?D p x))) = w_os (snd (snd (p x)))" for p :: "('a world, unit) sprog" and x
    by (simp add: reported_def notifier_on_def outside_def on_conn_def split: prod.split sum.split)
  obtain p y where pay: "payload m dec_BlobData \<lparr> bd_StreamID = 0, bd_Hash = [], bd_Size = 0 \<rparr> (sv, w) = (p, y)" by (metis prod.collapse)
  have y: "y = (sv, w)" using pay by (auto simp: payload_def split: prod.splits sum.splits)
  show ?thesis
  proof (cases p)
    case (Inl e)
    then have "z = (sv, w)" using assms(1,2) pay y by (simp add: handle_message_def type_defs bindE_def)
    then show ?thesis using assms(3) by (simp add: touches_refl)
  next
    case (Inr d)
    let ?q = "reported say ?D (PutBlob ?D (bd_Hash d) (fr_Content m)) (sv, w)"
    have "bindE (reported say ?D (PutBlob ?D (bd_Hash d) (fr_Content m))) (\<lambda>_. retE Continue) (sv, w) = (r, z)"
      using assms(1,2) pay y Inr by (simp add: handle_message_def type_defs bindE_def[of "payload _ _ _"])
    then have "z = snd ?q" by (cases ?q; cases "fst ?q") (auto simp: bindE_def)
    then have "w_os (snd z) = snd (bs_Put \<lparr> bs_dir = blob_dir dd \<rparr> (bd_Hash d) (fr_Content m) (w_os w))"
      using rep by (simp add: put split: prod.split)
    then show ?thesis unfolding touches_def by blast
  qed
qed

lemma message_own:
  assumes "prepared dd (u k) s" "spawns_running spawn" "unclean dd u k (sv, w)" "w_os w = s"
    and "bindE (outside (on_conn (ReadMessage S))) (handle_message say (service_deps \<lparr> bs_dir = blob_dir dd \<rparr> dd u spawn rn fl S)) (sv, w) = (r, z)"
  shows "(case r of Inl e \<Rightarrow> broken dd u k z | Inr out \<Rightarrow> unclean dd u k z) \<and> touches dd (u k) s (w_os (snd z))"
proof -
  let ?D = "service_deps \<lparr> bs_dir = blob_dir dd \<rparr> dd u spawn rn fl S"
  have wf: "os_wf s" using assms(1) by (simp add: prepared_def)
  obtain q w1 where rd: "on_conn (ReadMessage S) w = (q, w1)" by (metis prod.collapse)
  have w1: "w_os w1 = s" "unclean dd u k (sv, w1)"
    using rd assms(3,4) by (auto simp: on_conn_def unclean_def to_clean_def split: prod.splits)
  show ?thesis
  proof (cases q)
    case (Inl e)
    then show ?thesis using assms(5) rd w1 touches_refl[OF wf] by (auto simp: bindE_outside broken_def)
  next
    case (Inr m)
    have run: "handle_message say ?D m (sv, w1) = (r, z)" using assms(5) rd Inr by (simp add: bindE_outside)
    have own: "case r of Inl e \<Rightarrow> own_end P dd u k s z | Inr out \<Rightarrow> own_inv P dd u k s z"
      if "off_session (loc s dd) (u k) P" "env_Type (fr_Env m) = TypeBlob \<Longrightarrow> P = (\<lambda>_. False)" for P
    proof -
      have put: "keeps_outside P s (bs_Put b h c)" if "env_Type (fr_Env m) = TypeBlob" for b h c
        using os_keeps_Put \<open>env_Type (fr_Env m) = TypeBlob \<Longrightarrow> P = (\<lambda>_. False)\<close>[OF that]
        unfolding keeps_outside_def kept_def os_keeps_def by metis
      have h: "hoareE (own_inv P dd u k s) (handle_message say ?D m) (\<lambda>_. own_inv P dd u k s) (own_end P dd u k s)"
        by (rule handle_own[where u = u and n = k, OF assms(1) that(1) assms(2) put])
      have "own_inv P dd u k s (sv, w1)" using w1 kept_refl[OF wf] by (simp add: own_inv_def others_kept_def)
      from hoareE_D1[OF h this] hoareE_D2[OF h this] run show ?thesis by (cases r) auto
    qed
    have "off_session (loc s dd) (u k) (\<lambda>_. False)" by (simp add: off_session_def)
    from own[OF this refl] have "case r of Inl e \<Rightarrow> broken dd u k z | Inr out \<Rightarrow> unclean dd u k z"
      by (auto simp: own_inv_def own_end_def split: sum.splits)
    moreover have "touches dd (u k) s (w_os (snd z))"
    proof (cases "env_Type (fr_Env m) = TypeBlob")
      case True
      then show ?thesis using blob_message[OF run True] w1(1) wf by simp
    next
      case False
      have "kept P s (w_os (snd z))" if "off_session (loc s dd) (u k) P" for P
        using own[OF that] False by (cases r) (simp_all add: own_inv_def own_end_def others_kept_def)
      then show ?thesis unfolding touches_def by blast
    qed
    ultimately show ?thesis by blast
  qed
qed

text \<open>A session that runs stays the session that it is.\<close>

lemma hoare_same: "hoareE I m (\<lambda>_. I) I \<longleftrightarrow> (\<forall>x. I x \<longrightarrow> I (snd (m x)))"
proof
  assume h: "hoareE I m (\<lambda>_. I) I"
  show "\<forall>x. I x \<longrightarrow> I (snd (m x))"
  proof (intro allI impI)
    fix x assume x: "I x"
    obtain r y where m: "m x = (r, y)" by (cases "m x")
    show "I (snd (m x))" using hoareE_D1[OF h x] hoareE_D2[OF h x] m by (cases r) auto
  qed
next
  assume all: "\<forall>x. I x \<longrightarrow> I (snd (m x))"
  have "I y" if "I x" "m x = (r, y)" for x r y using all[rule_format, OF that(1)] that(2) by simp
  then show "hoareE I m (\<lambda>_. I) I" by (intro hoareE_I)
qed

lemma leaves_same: "leaves m \<Longrightarrow> hoareE (\<lambda>x. to_clean x = c) m (\<lambda>_ x. to_clean x = c) (\<lambda>x. to_clean x = c)"
  unfolding hoare_same leaves_def by simp

lemma reported_same:
  assumes "hoareE (\<lambda>x. to_clean x = c) m (\<lambda>_ x. to_clean x = c) (\<lambda>x. to_clean x = c)" "dp_Notifier D = notifier_on N"
  shows "hoareE (\<lambda>x. to_clean x = c) (reported say D m) (\<lambda>_ x. to_clean x = c) (\<lambda>x. to_clean x = c)"
  unfolding hoare_same
proof (intro allI impI)
  fix x assume "to_clean x = c"
  then have m: "to_clean (snd (m x)) = c" using assms(1) unfolding hoare_same by blast
  have "to_clean (snd (outside (on_conn (Error N msg)) y)) = to_clean y" for msg y
    using leaves_conn unfolding leaves_def by blast
  then show "to_clean (snd (reported say D m x)) = c"
    using m assms(2) by (cases "m x"; cases "fst (m x)") (simp_all add: reported_def notifier_on_def)
qed

lemma started_same:
  assumes "c = (Some (session_on cli_session), ws, Some p, k, i)"
  shows "hoareE (\<lambda>x. to_clean x = c) (handle_message say (service_deps b dd u spawn rn fl S) m) (\<lambda>_ x. to_clean x = c) (\<lambda>x. to_clean x = c)"
proof -
  let ?D = "service_deps b dd u spawn rn fl S"
  let ?I = "\<lambda>x :: 'a world Service \<times> 'a world. to_clean x = c"
  note bind = hoareE_bind[where R = "\<lambda>_. ?I"]
  have start: "leaves (StartSession ?D nm M)" "leaves (PutBlob ?D h d)" for nm M h d
    by (rule leaves_StartSession, simp) (simp add: PutBlob_def blobs_on_def leaves_os)
  have sync: "hoareE ?I (svc_SyncDone ?D) (\<lambda>_. ?I) ?I"
    using assms by (intro hoareE_I) (auto simp: svc_SyncDone_def to_clean_def)
  have intr: "hoareE ?I (svc_Interrupt ?D) (\<lambda>_. ?I) ?I"
    using assms by (intro hoareE_I)
      (auto simp: svc_Interrupt_def to_clean_def session_on_def cli_session_def on_agent_def on_process_def cs_Interrupt_def
        outside_def split: prod.splits)
  have tried: "hoareE ?I (tryE q) (\<lambda>_. ?I) ?I" if "hoareE ?I q (\<lambda>_. ?I) ?I" for q :: "('a world, unit) sprog"
    using that unfolding hoare_same by (simp add: tryE_def split: prod.split) (metis snd_conv)
  have branch: "hoareE P m Q E \<Longrightarrow> hoareE P m' Q E \<Longrightarrow> hoareE P (if c then m else m') Q E" for P m m' Q E c
    by simp
  note simple = leaves_payload[THEN leaves_same] leaves_notify[THEN leaves_same] leaves_ret(1)[THEN leaves_same] start[THEN leaves_same]
  show ?thesis unfolding handle_message_def Let_def deps_simps(2)
    by (intro branch bind simple tried reported_same[OF _ deps_simps(2)] sync intr)
qed

lemma message_ids:
  assumes "sv_agent sv \<noteq> None"
  shows "bindE (outside p) (handle_message say (service_deps b dd u spawn rn fl S)) (sv, w) =
    bindE (outside p) (handle_message say (service_deps b dd u' spawn rn fl S)) (sv, w)"
proof -
  have "handle_message say (service_deps b dd u spawn rn fl S) m (sv, w') = handle_message say (service_deps b dd u' spawn rn fl S) m (sv, w')" for m w'
    by (rule handle_message_ids[OF assms])
  then show ?thesis by (simp add: bindE_outside cong: prod.case_cong sum.case_cong)
qed

text \<open>What a step makes of the session's id, with the ids \<open>k\<close> that were made before it.\<close>

definition sid_moves :: "(nat \<Rightarrow> string) \<Rightarrow> nat \<Rightarrow> string \<Rightarrow> 'c world Service \<times> 'c world \<Rightarrow> bool" where
  "sid_moves u k i z \<longleftrightarrow> sv_sessionID (fst z) = i \<and> w_ids (snd z) = k \<or>
     i = [] \<and> sv_sessionID (fst z) = u k \<and> w_ids (snd z) = Suc k"

text \<open>Whose directory a step may touch: the session's own, or that of the next session.\<close>

definition owner :: "(nat \<Rightarrow> string) \<Rightarrow> nat \<Rightarrow> string \<Rightarrow> string" where
  "owner u k i = (if i = [] then u k else i)"

lemma message_fits:
  assumes fits: "service_fits dd (sv, w)" "service_runs (sv, w)"
    and prep: "prepared dd (owner u k (sv_sessionID sv)) (w_os w)" and spawn: "spawns_running spawn"
    and ids: "w_ids w = k" "sv_sessionID sv = [] \<or> 0 < k"
    and run: "bindE (outside (on_conn (ReadMessage S))) (handle_message say (service_deps \<lparr> bs_dir = blob_dir dd \<rparr> dd u spawn rn fl S)) (sv, w) = (r, z)"
  shows "service_fits dd z \<and> agent_there (sv_agent (fst z)) (snd z) \<and> (\<forall>out. r = Inr out \<longrightarrow> service_runs z) \<and> sid_moves u k (sv_sessionID sv) z \<and>
    (sv_sessionID sv \<noteq> [] \<longrightarrow> to_clean z = to_clean (sv, w)) \<and>
    touches dd (owner u k (sv_sessionID sv)) (w_os w) (w_os (snd z))"
proof (cases "sv_sessionID sv = []")
  case True
  then have own: "owner u k (sv_sessionID sv) = u k" by (simp add: owner_def)
  have ne: "u k \<noteq> []" using prep own by (auto simp: prepared_def plain_name_def)
  have "unclean dd u k (sv, w)" by (rule fits_unclean(1)[OF fits True ids(1)])
  from message_own[OF prep[unfolded own] spawn this refl run]
  have m: "case r of Inl e \<Rightarrow> broken dd u k z | Inr out \<Rightarrow> unclean dd u k z"
    "touches dd (u k) (w_os w) (w_os (snd z))" by auto
  then show ?thesis using unclean_fits[of dd u k z] broken_fits[of dd u k z] runs_there[of dd "fst z" "snd z"] ne own True
    by (cases r) (auto simp: sid_moves_def)
next
  case False
  let ?i = "sv_sessionID sv" and ?u = "\<lambda>_. sv_sessionID sv"
  obtain n where n: "k = Suc n" using ids(2) False by (cases k) auto
  have own: "owner u k ?i = ?i" using False by (simp add: owner_def)
  have ag: "sv_agent sv \<noteq> None" using fits False by (auto simp: service_runs_def)
  have un: "unclean dd ?u n (sv, w)" using fits_unclean(2)[OF fits, where u = ?u and k = n] ids(1) n False by simp
  have kept: "touches dd ?i (w_os w) (w_os (snd z))"
    using message_own[where u = ?u and k = n, OF prep[unfolded own] spawn un refl]
      run[unfolded message_ids[OF ag, where u = u and u' = ?u]] by blast
  obtain ws p where c: "to_clean (sv, w) = (Some (session_on cli_session), ws, Some p, k, ?i)"
    using fits False ids(1) by (auto simp: service_fits_def service_runs_def to_clean_def)
  let ?m = "bindE (outside (on_conn (ReadMessage S))) (handle_message say (service_deps \<lparr> bs_dir = blob_dir dd \<rparr> dd u spawn rn fl S))"
  have "hoareE (\<lambda>x. to_clean x = to_clean (sv, w)) ?m (\<lambda>_ x. to_clean x = to_clean (sv, w)) (\<lambda>x. to_clean x = to_clean (sv, w))"
    by (rule hoareE_bind[OF leaves_same[OF leaves_conn] started_same[OF c]])
  then have same: "to_clean z = to_clean (sv, w)" unfolding hoare_same using run by (metis snd_conv)
  then show ?thesis using fits kept own ids(1)
    by (cases z) (auto simp: to_clean_def service_fits_def service_runs_def sid_moves_def agent_there_def)
qed

section \<open>What runs beside the dispatcher keeps to its session\<close>

text \<open>Everything that says whose the session is stays, and how far its handler is.\<close>

definition still :: "'c world Service \<times> 'c world \<Rightarrow> 'c world Service \<times> 'c world \<Rightarrow> bool" where
  "still z z' \<longleftrightarrow> sv_agent (fst z') = sv_agent (fst z) \<and> sv_ws (fst z') = sv_ws (fst z) \<and>
     sv_sessionID (fst z') = sv_sessionID (fst z) \<and> w_ids (snd z') = w_ids (snd z) \<and>
     input_left (snd z') = input_left (snd z) \<and>
     map_option (\<lambda>p. (pr_cmd p, pr_waited p, pr_exits p, pr_in_open p)) (w_agent (snd z')) =
       map_option (\<lambda>p. (pr_cmd p, pr_waited p, pr_exits p, pr_in_open p)) (w_agent (snd z))"

lemma still_refl [simp]: "still z z"
  by (simp add: still_def)

lemma still_fits:
  assumes st: "still z z'" and fits: "service_fits dd z"
  shows "service_fits dd z'" "service_runs z \<Longrightarrow> service_runs z'"
proof -
  have eq: "sv_agent (fst z') = sv_agent (fst z)" "sv_ws (fst z') = sv_ws (fst z)" "sv_sessionID (fst z') = sv_sessionID (fst z)"
    using st by (simp_all add: still_def)
  show "service_fits dd z'"
    using fits st unfolding service_fits_def case_prod_beta eq
    by (cases "w_agent (snd z)"; cases "w_agent (snd z')"; simp add: still_def)
  show "service_runs z'" if "service_runs z"
    using that st unfolding service_runs_def case_prod_beta eq
    by (cases "w_agent (snd z)"; cases "w_agent (snd z')"; simp add: still_def)
qed

lemma still_there: "still z z' \<Longrightarrow> agent_there ag (snd z) \<Longrightarrow> agent_there ag (snd z')"
  by (cases "w_agent (snd z)"; cases "w_agent (snd z')") (auto simp: still_def agent_there_def split: option.splits)

lemma conn_call:
  assumes "on_conn p w = (r, w')" "only_sends p"
  shows "still (sv, w) (sv, w')" "w_os w' = w_os w"
  using assms left_on_conn[OF assms(2), of w] by (auto simp: still_def on_conn_def split: prod.splits)

lemma own_snapshot: "wk_Snapshot (own_workspace dd i) w = (r, w') \<Longrightarrow> w' = w"
  by (auto simp: own_workspace_def workspace_on_def on_os_def ws_Snapshot_def WalkManifest_def split: prod.splits)

lemma own_read: "wk_ReadFile (own_workspace dd i) p w = (r, w') \<Longrightarrow> w' = w"
  using ws_ReadFile_state[of "\<lparr> ws_dir = session_dir dd i \<rparr>" p "w_os w"]
  by (auto simp: own_workspace_def workspace_on_def on_os_def split: prod.splits)

lemma push_own:
  assumes "push_change (service_deps b dd u spawn rn fl S) ws ch w = (r, w')"
    and "fc_Op ch \<noteq> ChangeDelete \<Longrightarrow> ws = own_workspace dd i"
  shows "still (sv, w) (sv, w') \<and> w_os w' = w_os w"
proof -
  have n: "still (sv, w) (sv, w') \<and> w_os w' = w_os w" if "FileChanged (notifier_on (ws_notifier fl S)) ch c w = (r, w')" for c
    using that conn_call[OF _ only_sends_notifier(4)] by (auto simp: notifier_on_def)
  show ?thesis
  proof (cases "fc_Op ch = ChangeDelete")
    case True
    then show ?thesis using assms(1) n[of "[]"] by (simp add: push_change_def)
  next
    case False
    obtain rc w1 where rd: "wk_ReadFile ws (fc_Path ch) w = (rc, w1)" by (metis prod.collapse)
    have "w1 = w" using own_read rd assms(2)[OF False] by metis
    then show ?thesis using assms(1) rd False n
      by (cases rc) (auto simp: push_change_def bindE_def)
  qed
qed

lemma sent_own:
  assumes "ag_Send (session_on cli_session) t w = (r, w')"
  shows "still (sv, w) (sv, w') \<and> w_os w' = w_os w"
  using assms
  by (auto simp: still_def input_left_def session_on_def cli_session_def on_agent_def on_process_def cs_Send_def
      split: prod.splits option.splits if_splits)

definition run_fits :: "string \<Rightarrow> 'c world run \<Rightarrow> bool" where
  "run_fits dd r \<longleftrightarrow> service_fits dd (rn_sv r, rn_world r) \<and>
     (\<forall>p \<in> set (rn_prompts r). prompt_fits dd (sv_sessionID (rn_sv r)) p) \<and>
     (sv_sessionID (rn_sv r) = [] \<longrightarrow> rn_prompts r = [])"

lemma run_fits_D:
  assumes "run_fits dd r"
  shows "sv_ws (rn_sv r) = Some ws \<Longrightarrow> ws = own_workspace dd (sv_sessionID (rn_sv r))"
    "rn_prompts r = ps @ PromptSnaps ag ws t # qs \<Longrightarrow> ag = session_on cli_session \<and> ws = own_workspace dd (sv_sessionID (rn_sv r))"
    "rn_prompts r = ps @ PromptSends k ag t # qs \<Longrightarrow> ag = session_on cli_session"
  using assms by (auto simp: run_fits_def service_fits_def)

lemma turn_changes_own:
  assumes "turn_changes (own_workspace dd i) (sv, w) = (r, (sv', w'))"
  shows "sv' = sv \<and> w' = w"
  using assms by (auto simp: turn_changes_def bindE_outside split: prod.splits sum.splits dest: own_snapshot)

lemma turn_end_own:
  assumes "turn_end (service_deps b dd u spawn rn fl S) res after (sv, w) = (r, (sv', w'))"
  shows "still (sv, w) (sv', w') \<and> w_os w' = w_os w"
proof -
  obtain res' where "on_conn (TurnDone (ws_notifier fl S) res') w = (r, w')" "sv' = sv\<lparr> sv_preTurn := after \<rparr>"
    using assms by (auto simp: turn_end_def outside_iff notifier_on_def)
  from conn_call[OF this(1) only_sends_notifier(5)] this(2) show ?thesis by (simp add: still_def)
qed

lemma prompt_snap_own:
  assumes "prompt_snap (own_workspace dd i) (sv, w) = (r, (sv', w'))"
  shows "still (sv, w) (sv', w') \<and> w_os w' = w_os w"
proof -
  have "w' = w" using assms by (auto simp: prompt_snap_def bindE_outside split: prod.splits sum.splits dest: own_snapshot)
  then show ?thesis using assms by (auto elim!: prompt_snap_cases simp: still_def drain_done_def)
qed

lemma bstep_own:
  assumes step: "bstep (service_deps b dd u spawn rn fl S) (\<lambda>_ _. False) r r'" and fits: "run_fits dd r"
  shows "still (rn_sv r, rn_world r) (rn_sv r', rn_world r') \<and> run_fits dd r' \<and> w_os (rn_world r') = w_os (rn_world r)"
proof -
  have main: "still (rn_sv r, rn_world r) (rn_sv r', rn_world r') \<and> w_os (rn_world r') = w_os (rn_world r) \<and>
      (\<forall>p \<in> set (rn_prompts r'). p \<in> set (rn_prompts r) \<or> (\<exists>k. p = PromptWaits k) \<or>
         (\<exists>k t. p = PromptSends k (session_on cli_session) t)) \<and> (rn_prompts r = [] \<longrightarrow> rn_prompts r' = [])"
    using step
  proof (cases rule: bstep.cases)
    case (pump_fails ev evs e w)
    then show ?thesis using conn_call[of "StreamEvent (ws_notifier fl S) ev" "rn_world r" "Inl e" w, OF _ only_sends_notifier(3)] by (simp add: notifier_on_def)
  next
    case (pump_forwards ev evs v w)
    then show ?thesis using conn_call[of "StreamEvent (ws_notifier fl S) ev" "rn_world r" "Inr v" w, OF _ only_sends_notifier(3)] by (simp add: notifier_on_def)
  next
    case (pump_snaps res ws q sv w)
    have "ws = own_workspace dd (sv_sessionID (rn_sv r))" by (rule run_fits_D(1)[OF fits pump_snaps(3)])
    then have "sv = rn_sv r \<and> w = rn_world r" using turn_changes_own pump_snaps(4) by metis
    then show ?thesis using pump_snaps(1) by simp
  next
    case (pump_pushes res after ch chs ws q w)
    have "still (rn_sv r, rn_world r) (rn_sv r, w) \<and> w_os w = w_os (rn_world r)"
      by (rule push_own[OF pump_pushes(4)]) (use pump_pushes(3) run_fits_D(1)[OF fits] in blast)
    then show ?thesis using pump_pushes by simp
  next
    case (pump_ends_turn res after q sv w)
    then show ?thesis using turn_end_own[OF pump_ends_turn(3)] by simp
  next
    case (pump_signals e)
    then show ?thesis by (simp add: still_def signal_done_def)
  next
    case (prompt_snaps ps ag ws t qs v sv w)
    have f: "ag = session_on cli_session" "ws = own_workspace dd (sv_sessionID (rn_sv r))"
      using run_fits_D(2)[OF fits prompt_snaps(2)] by auto
    then show ?thesis using prompt_snap_own[OF prompt_snaps(3)[unfolded f]] prompt_snaps(1,2) by auto
  next
    case (prompt_snap_fails ps ag ws t qs e sv w)
    have f: "ag = session_on cli_session" "ws = own_workspace dd (sv_sessionID (rn_sv r))"
      using run_fits_D(2)[OF fits prompt_snap_fails(2)] by auto
    then show ?thesis using prompt_snap_own[OF prompt_snap_fails(3)[unfolded f]] prompt_snap_fails(1,2) by auto
  next
    case (prompt_sends ps k ag t qs v w)
    have f: "ag = session_on cli_session" by (rule run_fits_D(3)[OF fits prompt_sends(2)])
    then show ?thesis using sent_own[OF prompt_sends(3)[unfolded f], of "rn_sv r"] prompt_sends(1,2) by auto
  next
    case (prompt_send_fails ps k ag t qs e w)
    have f: "ag = session_on cli_session" by (rule run_fits_D(3)[OF fits prompt_send_fails(2)])
    then show ?thesis using sent_own[OF prompt_send_fails(3)[unfolded f], of "rn_sv r"] prompt_send_fails(1,2) by auto
  next
    case (prompt_returns ps k qs e)
    then show ?thesis by (auto simp: still_def drain_done_def)
  qed auto
  have "service_fits dd (rn_sv r', rn_world r')"
    using still_fits(1) main fits unfolding run_fits_def by blast
  moreover have "sv_sessionID (rn_sv r') = sv_sessionID (rn_sv r)" using main by (simp add: still_def)
  ultimately show ?thesis using main fits unfolding run_fits_def by fastforce
qed

section \<open>A connection keeps to its session\<close>

text \<open>What the handler has taken out of the service, or let go of.\<close>

definition taken :: "'c world Service \<Rightarrow> bool" where
  "taken sv \<longleftrightarrow> sv_agent sv = None \<and> sv_ws sv = None"

definition ws_fits :: "string \<Rightarrow> string \<Rightarrow> 'c world WorkspacePort option \<Rightarrow> bool" where
  "ws_fits dd i ws \<longleftrightarrow> ws = None \<or> i \<noteq> [] \<and> ws = Some (own_workspace dd i)"

definition released :: "'c client \<Rightarrow> bool" where
  "released x \<longleftrightarrow> taken (rn_sv (cx_run x)) \<and>
     (\<forall>p. w_agent (rn_world (cx_run x)) = Some p \<longrightarrow> \<not> pr_in_open p \<and> pr_waited p)"

definition phase_fits :: "string \<Rightarrow> 'c client \<Rightarrow> bool" where
  "phase_fits dd x \<longleftrightarrow>
     (case cx_phase x of
        Dispatching \<Rightarrow> service_runs (cx_state x)
      | Closing e \<Rightarrow> agent_there (sv_agent (rn_sv (cx_run x))) (rn_world (cx_run x))
      | Stopping agent ws \<Rightarrow> taken (rn_sv (cx_run x)) \<and> agent_there agent (rn_world (cx_run x)) \<and> ws_fits dd (sid x) ws
      | Removing ws \<Rightarrow> released x \<and> ws_fits dd (sid x) ws
      | Gone \<Rightarrow> released x)"

definition client_fits :: "string \<Rightarrow> 'c client \<Rightarrow> bool" where
  "client_fits dd x \<longleftrightarrow> run_fits dd (cx_run x) \<and> phase_fits dd x"

lemma state_simps [simp]:
  "cx_state (put_state z x) = z" "cx_phase (put_state z x) = cx_phase x" "cx_started (put_state z x) = cx_started x"
  "rn_prompts (cx_run (put_state z x)) = rn_prompts (cx_run x)" "rn_world (cx_run (put_state z x)) = snd z"
  "rn_sv (cx_run (put_state z x)) = fst z" "cx_run (after_message r y) = cx_run y"
  by (auto simp: cx_state_def put_state_def after_message_def split: sum.split outcome.split)

lemma fits_state: "run_fits dd (cx_run x) \<longleftrightarrow> service_fits dd (cx_state x) \<and>
   (\<forall>p \<in> set (rn_prompts (cx_run x)). prompt_fits dd (sid x) p) \<and> (sid x = [] \<longrightarrow> rn_prompts (cx_run x) = [])"
  by (simp add: run_fits_def cx_state_def sid_def)

lemma begin_fits:
  assumes "run_fits dd r"
  shows "run_fits dd (begin_prompt t r)"
proof -
  obtain ps where ps: "rn_prompts (begin_prompt t r) = rn_prompts r @ ps"
    "ps = [] \<or> (\<exists>agent ws. ps = [PromptSnaps agent ws t] \<and> sv_agent (rn_sv r) = Some agent \<and> sv_ws (rn_sv r) = Some ws)"
    using begin_prompt_prompts[of t r] by blast
  then show ?thesis using assms by (auto simp: run_fits_def service_fits_def)
qed

lemma still_phase:
  assumes "still (cx_state x) (cx_state y)" "cx_phase y = cx_phase x" "phase_fits dd x" "service_fits dd (cx_state x)"
  shows "phase_fits dd y"
proof -
  let ?pr = "\<lambda>x. map_option (\<lambda>p. (pr_cmd p, pr_waited p, pr_exits p, pr_in_open p)) (w_agent (rn_world (cx_run x)))"
  have eq: "sv_agent (rn_sv (cx_run y)) = sv_agent (rn_sv (cx_run x))" "sv_ws (rn_sv (cx_run y)) = sv_ws (rn_sv (cx_run x))"
      "sid y = sid x" "?pr y = ?pr x"
    using assms(1) by (simp_all add: still_def cx_state_def sid_def)
  have "released x \<Longrightarrow> released y"
    using eq by (cases "w_agent (rn_world (cx_run x))"; cases "w_agent (rn_world (cx_run y))") (auto simp: released_def taken_def)
  moreover have "agent_there ag (rn_world (cx_run x)) \<Longrightarrow> agent_there ag (rn_world (cx_run y))" for ag
    using still_there[OF assms(1), of ag] by (simp add: cx_state_def)
  ultimately show ?thesis
    using assms(2,3) still_fits(2)[OF assms(1,4)] eq by (auto simp: phase_fits_def taken_def split: phase.splits)
qed

text \<open>What runs beside the handler changes no file, and nothing that the handler depends on.\<close>

lemma beside_own:
  assumes step: "beside_step say (service_deps b dd u spawn rn fl S) x y" and fits: "client_fits dd x"
  shows "client_fits dd y \<and> still (cx_state x) (cx_state y) \<and> cx_phase y = cx_phase x \<and>
    w_os (rn_world (cx_run y)) = w_os (rn_world (cx_run x))"
proof -
  have rf: "run_fits dd (cx_run x)" using fits by (simp add: client_fits_def)
  have sf: "service_fits dd (cx_state x)" using rf by (simp add: run_fits_def cx_state_def)
  have same: "?thesis" if "run_fits dd (cx_run y)" "still (cx_state x) (cx_state y)" "cx_phase y = cx_phase x"
      "w_os (rn_world (cx_run y)) = w_os (rn_world (cx_run x))"
    using that still_phase[OF that(2,3) _ sf] fits by (simp add: client_fits_def)
  show ?thesis
    using step
  proof (cases rule: beside_step.cases)
    case (begins ps t qs)
    show ?thesis by (rule same) (use begins(1) begin_fits[OF rf] in \<open>simp_all add: cx_state_def\<close>)
  next
    case (reports j e r z)
    obtain c where "on_conn (Error (ws_notifier fl S) c) (rn_world (cx_run x)) = (r, snd z)" "fst z = rn_sv (cx_run x)"
      using reports(5) by (cases z) (auto simp: cx_state_def outside_iff notifier_on_def)
    from conn_call[OF this(1) only_sends_notifier(6)] this(2)
    have st: "still (cx_state x) z" "w_os (snd z) = w_os (rn_world (cx_run x))" by (simp_all add: cx_state_def still_def)
    have "run_fits dd (cx_run y)"
      using reports(1) rf still_fits(1)[OF st(1) sf] st(1)
      by (auto simp: run_fits_def put_state_def cx_state_def still_def)
    then show ?thesis by (rule same) (use reports(1) st in \<open>simp_all add: put_state_def cx_state_def\<close>)
  next
    case (background r)
    note b = bstep_own[OF background(2) rf]
    show ?thesis by (rule same) (use b background(1) in \<open>simp_all add: cx_state_def\<close>)
  qed
qed

text \<open>The handler's steps of \<^verbatim>\<open>Close\<close>, one by one.\<close>

lemma close_agent_run:
  assumes "close_agent agent (sv, w) = (r, z)" "agent = None \<or> agent = Some (session_on cli_session)"
  shows "z = (sv, w\<lparr> w_agent := (if agent = None then w_agent w else map_option (\<lambda>p. p\<lparr> pr_in_open := False, pr_waited := True \<rparr>) (w_agent w)) \<rparr>)"
proof (cases agent)
  case None
  then show ?thesis using assms(1) by (simp add: close_agent_def try_outside)
next
  case (Some ag)
  have "snd (close_agent agent (sv, w)) = (sv, snd (on_agent (ag_Close cli_session) w))"
    using Some assms(2) by (simp add: close_agent_def try_outside session_on_def)
  then show ?thesis using assms(1) Some by (simp add: close_session closed_waited)
qed

lemma close_ws_run:
  assumes "close_ws ws (sv, w) = (r, z)" "ws_fits dd i ws"
  shows "z = (sv, w\<lparr> w_os := (if ws = None then w_os w else snd (os_RemoveAll (session_dir dd i) (w_os w))) \<rparr>)"
proof (cases ws)
  case None
  then show ?thesis using assms(1) by (simp add: close_ws_def try_outside)
next
  case (Some wk)
  then have "wk = own_workspace dd i" using assms(2) by (simp add: ws_fits_def)
  then have "snd (close_ws ws (sv, w)) = (sv, w\<lparr> w_os := snd (os_RemoveAll (session_dir dd i) (w_os w)) \<rparr>)"
    using Some by (simp add: close_ws_def try_outside own_workspace_def workspace_on_def on_os_def ws_Remove_def split: prod.split)
  then show ?thesis using assms(1) Some by simp
qed

text \<open>A session's part of the files after its workspace is removed.\<close>

lemma removed_touches:
  assumes "prepared dd i s"
  shows "touches dd i s (snd (os_RemoveAll (session_dir dd i) s))"
  using remove_keeps[OF assms] kept_refl assms by (auto simp: touches_def keeps_outside_def prepared_def)

lemma fits_put:
  assumes "run_fits dd (cx_run x)" "service_fits dd z" "sv_sessionID (fst z) = sid x"
    and "rn_sv (cx_run y) = fst z" "rn_world (cx_run y) = snd z" "rn_prompts (cx_run y) = rn_prompts (cx_run x)"
  shows "run_fits dd (cx_run y)"
  using assms by (simp add: run_fits_def sid_def)

lemma put_sid [simp]: "sid (put_state z x) = sv_sessionID (fst z)"
  by (simp add: sid_def)

lemma handler_own:
  assumes step: "handler_step say S (service_deps \<lparr> bs_dir = blob_dir dd \<rparr> dd u spawn rn fl S) x y"
    and fits: "client_fits dd x" and prep: "prepared dd (owner u k (sid x)) s"
    and at: "w_os (rn_world (cx_run x)) = s" "w_ids (rn_world (cx_run x)) = k" and ids: "sid x = [] \<or> 0 < k"
    and env: "spawns_running spawn"
  shows "client_fits dd y \<and> sid_moves u k (sid x) (cx_state y) \<and>
    touches dd (owner u k (sid x)) s (w_os (rn_world (cx_run y)))"
proof -
  obtain sv w where st: "cx_state x = (sv, w)" "rn_sv (cx_run x) = sv" "rn_world (cx_run x) = w" by (simp add: cx_state_def)
  have rf: "run_fits dd (cx_run x)" and pf: "phase_fits dd x" using fits by (auto simp: client_fits_def)
  have sf: "service_fits dd (sv, w)" using rf st by (simp add: run_fits_def)
  have wf: "os_wf s" using prep by (simp add: prepared_def)
  have i: "sv_sessionID sv = sid x" using st by (simp add: sid_def)
  show ?thesis
    using step
  proof (cases rule: handler_step.cases)
    case (serves r z)
    have run: "service_runs (sv, w)" using pf serves(2) st by (simp add: phase_fits_def)
    have ids': "w_ids w = k" "sv_sessionID sv = [] \<or> 0 < k" using at(2) ids st i by simp_all
    have prep': "prepared dd (owner u k (sv_sessionID sv)) (w_os w)" using prep at(1) st i by simp
    note m = message_fits[OF sf run prep' env ids' serves(3)[unfolded st], unfolded i]
    have ne: "sid x \<noteq> [] \<Longrightarrow> sv_sessionID (fst z) = sid x" using m by (auto simp: sid_moves_def)
    have "run_fits dd (cx_run y)"
      using m serves(1) rf ne by (auto simp: run_fits_def sid_def)
    moreover have "phase_fits dd y"
      using m serves(1,2) by (auto simp: phase_fits_def after_message_def cx_state_def put_state_def split: sum.split outcome.split)
    ultimately show ?thesis using m serves(1) at(1) st by (simp add: client_fits_def cx_state_def)
  next
    case (takes e agent ws z)
    have z: "agent = sv_agent sv" "ws = sv_ws sv" "z = (sv\<lparr> sv_agent := None, sv_ws := None \<rparr>, w)" using takes(3) st by auto
    have "run_fits dd (cx_run y)"
      by (rule fits_put[OF rf, of z]) (use z sf i takes(1) in \<open>auto simp: service_fits_def put_state_def\<close>)
    moreover have "phase_fits dd y"
    proof -
      have "agent_there (sv_agent sv) w" using pf takes(2) st by (simp add: phase_fits_def)
      moreover have "ws_fits dd (sid x) (sv_ws sv)" using sf i by (auto simp: service_fits_def ws_fits_def)
      moreover have "cx_phase y = Stopping (sv_agent sv) (sv_ws sv)" "rn_sv (cx_run y) = fst z" "rn_world (cx_run y) = w" "sid y = sid x"
        using takes(1) z i by (simp_all add: put_state_def sid_def)
      ultimately show ?thesis using z by (simp add: phase_fits_def taken_def)
    qed
    ultimately show ?thesis using takes(1) z at st i touches_refl[OF wf]
      by (simp add: client_fits_def sid_moves_def cx_state_def put_state_def)
  next
    case (hangs_up agent ws sv' w' p)
    have z: "sv' = sv" "w' = w" using hangs_up(3) st by auto
    let ?z = "(sv, w\<lparr> w_agent := Some (p\<lparr> pr_in_open := False \<rparr>) \<rparr>)"
    have y: "y = put_state ?z x" using hangs_up(1) z by simp
    have "service_fits dd ?z" using sf hangs_up(4) z by (auto simp: service_fits_def)
    then have "run_fits dd (cx_run y)" by (intro fits_put[OF rf, of ?z]) (use i y in \<open>simp_all add: put_state_def\<close>)
    moreover have "phase_fits dd y"
      using y hangs_up(2,4) z pf st i by (auto simp: phase_fits_def agent_there_def)
    ultimately show ?thesis using y at st i touches_refl[OF wf] by (simp add: client_fits_def sid_moves_def)
  next
    case (stops_agent agent ws r z)
    have ag: "agent = None \<or> agent = Some (session_on cli_session)" "taken sv" "agent_there agent w" "ws_fits dd (sid x) ws"
      using pf stops_agent(2) st by (auto simp: phase_fits_def agent_there_def split: option.splits)
    note z = close_agent_run[OF stops_agent(4)[unfolded st] ag(1)]
    have "service_fits dd z" using z sf by (auto simp: service_fits_def)
    then have "run_fits dd (cx_run y)" by (intro fits_put[OF rf, of z]) (use i z stops_agent(1) in \<open>simp_all add: put_state_def\<close>)
    moreover have "phase_fits dd y"
      using stops_agent(1) ag z i
      by (auto simp: phase_fits_def released_def agent_there_def sid_def put_state_def split: option.splits)
    ultimately show ?thesis using stops_agent(1) z at st i touches_refl[OF wf]
      by (simp add: client_fits_def sid_moves_def cx_state_def put_state_def)
  next
    case (removes ws r z)
    have ag: "released x" "ws_fits dd (sid x) ws" using pf removes(2) by (simp_all add: phase_fits_def)
    note z = close_ws_run[OF removes(3)[unfolded st] ag(2)]
    have "service_fits dd z" using z sf by (auto simp: service_fits_def)
    then have "run_fits dd (cx_run y)" by (intro fits_put[OF rf, of z]) (use i z removes(1) in \<open>simp_all add: put_state_def\<close>)
    moreover have "phase_fits dd y"
      using removes(1) ag z st by (auto simp: phase_fits_def released_def put_state_def)
    moreover have "touches dd (owner u k (sid x)) s (w_os (snd z))"
    proof (cases "ws = None")
      case True
      then show ?thesis using z at(1) st touches_refl[OF wf] by simp
    next
      case False
      then have "owner u k (sid x) = sid x" using ag(2) by (auto simp: ws_fits_def owner_def)
      then show ?thesis using z at(1) st False removed_touches[of dd "sid x" s] prep by simp
    qed
    ultimately show ?thesis using removes(1) z at st i
      by (simp add: client_fits_def sid_moves_def cx_state_def put_state_def)
  qed
qed

section \<open>The workspace is removed\<close>

text \<open>The connection has a workspace: in its service, or taken out of it and not yet removed.\<close>

definition holds_ws :: "'c client \<Rightarrow> bool" where
  "holds_ws x \<longleftrightarrow> sv_ws (rn_sv (cx_run x)) \<noteq> None \<or>
     (\<exists>agent ws. cx_phase x = Stopping agent (Some ws)) \<or> (\<exists>ws. cx_phase x = Removing (Some ws))"

lemma holds_sid: "client_fits dd x \<Longrightarrow> holds_ws x \<Longrightarrow> sid x \<noteq> []"
  by (auto simp: holds_ws_def client_fits_def run_fits_def service_fits_def phase_fits_def ws_fits_def sid_def)

lemma holds_alive: "client_fits dd x \<Longrightarrow> holds_ws x \<Longrightarrow> cx_phase x \<noteq> Gone"
  by (auto simp: holds_ws_def client_fits_def phase_fits_def released_def taken_def)

lemma still_holds: "still (cx_state x) (cx_state y) \<Longrightarrow> cx_phase y = cx_phase x \<Longrightarrow> holds_ws y = holds_ws x \<and> sid y = sid x"
  by (simp add: still_def holds_ws_def cx_state_def sid_def)

lemma handler_removes:
  assumes step: "handler_step say S (service_deps \<lparr> bs_dir = blob_dir dd \<rparr> dd u spawn rn fl S) x y"
    and fits: "client_fits dd x" and prep: "prepared dd (owner u k (sid x)) (w_os (rn_world (cx_run x)))"
    and ids: "w_ids (rn_world (cx_run x)) = k" "sid x = [] \<or> 0 < k" and env: "spawns_running spawn" and ws: "holds_ws x"
  shows "holds_ws y \<and> sid y = sid x \<or>
    w_os (rn_world (cx_run y)) = snd (os_RemoveAll (session_dir dd (sid x)) (w_os (rn_world (cx_run x))))"
proof -
  obtain sv w where st: "cx_state x = (sv, w)" "rn_sv (cx_run x) = sv" "rn_world (cx_run x) = w" by (simp add: cx_state_def)
  have sf: "service_fits dd (sv, w)" and pf: "phase_fits dd x" using fits st by (auto simp: client_fits_def run_fits_def)
  have i: "sv_sessionID sv = sid x" "sid x \<noteq> []" using st holds_sid[OF fits ws] by (simp_all add: sid_def)
  show ?thesis
    using step
  proof (cases rule: handler_step.cases)
    case (serves r z)
    have run: "service_runs (sv, w)" using pf serves(2) st by (simp add: phase_fits_def)
    have ids': "w_ids w = k" "sv_sessionID sv = [] \<or> 0 < k" using ids st i by simp_all
    have prep': "prepared dd (owner u k (sv_sessionID sv)) (w_os w)" using prep st i by simp
    have c: "to_clean z = to_clean (sv, w)"
      using message_fits[OF sf run prep' env ids' serves(3)[unfolded st]] i by simp
    have "sv_ws sv \<noteq> None" using ws serves(2) st by (simp add: holds_ws_def)
    then show ?thesis using c serves(1) i by (auto simp: to_clean_def holds_ws_def sid_def)
  next
    case (takes e agent ws' z)
    then show ?thesis using ws st i by (auto simp: holds_ws_def sid_def put_state_def)
  next
    case (hangs_up agent ws' sv' w' p)
    then show ?thesis using ws st i pf by (auto simp: holds_ws_def phase_fits_def taken_def)
  next
    case (stops_agent agent ws' r z)
    have ag: "agent = None \<or> agent = Some (session_on cli_session)" "taken sv"
      using pf stops_agent(2) st by (auto simp: phase_fits_def agent_there_def split: option.splits)
    note z = close_agent_run[OF stops_agent(4)[unfolded st] ag(1)]
    have "ws' \<noteq> None" using ws stops_agent(2) ag(2) st by (simp add: holds_ws_def taken_def)
    then show ?thesis using stops_agent(1) z i by (auto simp: holds_ws_def sid_def put_state_def)
  next
    case (removes ws' r z)
    have ag: "released x" "ws_fits dd (sid x) ws'" using pf removes(2) by (simp_all add: phase_fits_def)
    note z = close_ws_run[OF removes(3)[unfolded st] ag(2)]
    obtain wk where "ws' = Some wk" using ws removes(2) ag(1) st by (auto simp: holds_ws_def released_def taken_def)
    then show ?thesis using removes(1) z st by (simp add: put_state_def)
  qed
qed

section \<open>How far a handler is from its end\<close>

definition steps_left :: "'c client \<Rightarrow> nat" where
  "steps_left x =
     (case cx_phase x of
        Dispatching \<Rightarrow> input_left (rn_world (cx_run x)) + 5
      | Closing e \<Rightarrow> 4
      | Stopping agent ws \<Rightarrow>
          (case w_agent (rn_world (cx_run x)) of Some p \<Rightarrow> if pr_in_open p then 3 else 2 | None \<Rightarrow> 2)
      | Removing ws \<Rightarrow> 1
      | Gone \<Rightarrow> 0)"

text \<open>The handler waits for a process that does not exit, although its input is closed.\<close>

definition stuck :: "'c client \<Rightarrow> bool" where
  "stuck x \<longleftrightarrow> (\<exists>agent ws p. cx_phase x = Stopping (Some agent) ws \<and> w_agent (rn_world (cx_run x)) = Some p \<and>
     \<not> pr_in_open p \<and> \<not> pr_exits p)"

lemma still_steps:
  assumes "still (cx_state x) (cx_state y)" "cx_phase y = cx_phase x"
  shows "steps_left y = steps_left x" "stuck y \<longleftrightarrow> stuck x"
  using assms
  by (cases "w_agent (rn_world (cx_run x))"; cases "w_agent (rn_world (cx_run y))";
      auto simp: still_def cx_state_def steps_left_def stuck_def split: phase.split)+

lemma handler_less:
  assumes step: "handler_step say S (service_deps b dd u spawn rn fl S) x y" and fits: "client_fits dd x"
  shows "steps_left y < steps_left x"
  using step
proof (cases rule: handler_step.cases)
  case (serves r z)
  obtain sv w where st: "cx_state x = (sv, w)" by (metis prod.collapse)
  have "sv_agent sv = None \<or> sv_agent sv = Some (session_on cli_session)"
    using fits st by (auto simp: client_fits_def run_fits_def service_fits_def cx_state_def)
  then have so: "main.sound (sv :: 'a world Service)"
    by (auto simp: main.sound_def session_on_def)
  show ?thesis
  proof (cases "cx_phase y = Dispatching")
    case True
    then obtain out where out: "r = Inr out" using serves(1,2) by (cases r) (auto simp: after_message_def)
    have "input_left (snd z) < input_left w"
      by (rule main.round_left[OF so, where sv' = "fst z"]) (use serves(3) st out in simp)
    then show ?thesis using True serves(1,2) st by (simp add: steps_left_def cx_state_def)
  next
    case False
    then have "\<exists>e. cx_phase y = Closing e"
      using serves(1,2) by (auto simp: after_message_def split: sum.splits outcome.splits)
    then show ?thesis using serves(2) by (auto simp: steps_left_def)
  qed
qed (auto simp: steps_left_def cx_state_def put_state_def split: option.split)

lemma handler_alive: "handler_step say S D x y \<Longrightarrow> cx_phase x \<noteq> Gone"
  by (auto elim: handler_step.cases)

lemma beside_phase: "beside_step say D x y \<Longrightarrow> cx_phase y = cx_phase x"
  by (auto elim: beside_step.cases)

lemma handler_unstuck: "handler_step say S D x y \<Longrightarrow> \<not> stuck x"
  by (auto simp: stuck_def exited_def cx_state_def elim!: handler_step.cases)

text \<open>A handler that is neither gone nor stuck can make a step.\<close>

lemma handler_moves:
  assumes "client_fits dd x" "cx_phase x \<noteq> Gone" "\<not> stuck x"
  shows "\<exists>y. handler_step say S D x y"
proof (cases "cx_phase x")
  case Dispatching
  then show ?thesis using handler_step.serves[OF Dispatching] by (metis prod.collapse)
next
  case (Closing e)
  have "\<exists>agent ws z. close_take (cx_state x) = (Inr (agent, ws), z)" by (simp add: cx_state_def)
  then show ?thesis using handler_step.takes[OF Closing] by blast
next
  case (Stopping agent ws)
  show ?thesis
  proof (cases agent)
    case None
    then show ?thesis using handler_step.stops_agent[OF Stopping] by (metis prod.collapse)
  next
    case (Some ag)
    then obtain p where p: "w_agent (snd (cx_state x)) = Some p"
      using assms(1) Stopping by (auto simp: client_fits_def phase_fits_def agent_there_def cx_state_def)
    show ?thesis
    proof (cases "pr_in_open p")
      case True
      then show ?thesis using handler_step.hangs_up[OF Stopping[unfolded Some], of "fst (cx_state x)" "snd (cx_state x)" p] p by auto
    next
      case False
      then have "exited (snd (cx_state x))"
        using assms(3) p Stopping Some by (auto simp: exited_def stuck_def cx_state_def)
      then show ?thesis using handler_step.stops_agent[OF Stopping] by (metis prod.collapse)
    qed
  qed
next
  case (Removing ws)
  then show ?thesis using handler_step.removes[OF Removing] by (metis prod.collapse)
qed (use assms(2) in simp)

end
