(* ===== verification/ServingRuns.thy ===== *)
theory ServingRuns
  imports ServingOwn
begin

text \<open>
  What holds in the runs of the server: what the server does for a session disturbs no other, the
  store they share is sound, their number is limited, every handler comes to an end unless its
  process does not; and how one session ends all of them.
\<close>

section \<open>The invariant of the server\<close>

definition installed_ok :: "('r, 'h, 'k) installed \<Rightarrow> os \<Rightarrow> bool" where
  "installed_ok U s0 \<longleftrightarrow> (\<forall>n. prepared (su_dataDir U) (su_uuid U n) s0) \<and> inj (su_uuid U) \<and>
     spawns_running (su_spawn U)"

text \<open>Neither in the store nor in a session's directory, nor one of the directories above those.\<close>

definition elsewhere :: "string list \<Rightarrow> string list \<Rightarrow> bool" where
  "elsewhere dd q \<longleftrightarrow> \<not> strict_prefix (dd @ [''objects'']) q \<and> \<not> prefix (dd @ [''sessions'']) q \<and>
     \<not> prefix q (dd @ [''sessions''])"

definition sids_apart :: "'c client list \<Rightarrow> bool" where
  "sids_apart xs \<longleftrightarrow> (\<forall>i j. i < length xs \<longrightarrow> j < length xs \<longrightarrow> i \<noteq> j \<longrightarrow> sid (xs ! i) \<noteq> [] \<longrightarrow> sid (xs ! i) \<noteq> sid (xs ! j))"

definition srv_ok :: "('r, 'h, 'k) installed \<Rightarrow> os \<Rightarrow> 'k Channel server \<Rightarrow> bool" where
  "srv_ok U s0 s \<longleftrightarrow> os_wf (sr_os s) \<and> os_env (sr_os s) = os_env s0 \<and>
     (\<forall>x \<in> set (sr_clients s). client_fits (su_dataDir U) x \<and> (sid x = [] \<or> sid x \<in> su_uuid U ` {..<sr_ids s})) \<and>
     sids_apart (sr_clients s)"

lemma touch_env:
  assumes "touches dd i s s'" "os_wf s"
  shows "os_wf s' \<and> os_env s' = os_env s"
  using assms(1) unfolding touches_def
proof
  assume "\<exists>h c. s' = snd (bs_Put \<lparr> bs_dir = blob_dir dd \<rparr> h c s)"
  then show ?thesis using os_keeps_Put assms(2) unfolding os_keeps_def by blast
next
  assume "\<forall>P. off_session (loc s dd) i P \<longrightarrow> kept P s s'"
  moreover have "off_session (loc s dd) i (\<lambda>_. False)" by (simp add: off_session_def)
  ultimately show ?thesis unfolding kept_def by blast
qed

lemma touch_kept:
  assumes "touches dd i s s'" "prepared dd i s" "off_session (loc s dd) i P" "off_store (loc s dd) P"
  shows "kept P s s'"
  using assms store_keeps[OF assms(2,4)] kept_refl[of s P]
  by (auto simp: touches_def keeps_outside_def prepared_def)

text \<open>The file of a hash in the store: it is not lost, and stays sound.\<close>

lemma touch_held:
  assumes t: "touches dd i s s'" "prepared dd i s" and sound: "held_sound \<lparr> bs_dir = blob_dir dd \<rparr> s h"
  shows "held_sound \<lparr> bs_dir = blob_dir dd \<rparr> s' h \<and>
    (bs_held \<lparr> bs_dir = blob_dir dd \<rparr> s h \<noteq> None \<longrightarrow> bs_held \<lparr> bs_dir = blob_dir dd \<rparr> s' h \<noteq> None)"
proof (cases "validHash h")
  case False
  then show ?thesis by (simp add: held_sound_def held_invalid)
next
  case True
  let ?b = "\<lparr> bs_dir = blob_dir dd \<rparr>"
  have p: "os_wf s" "IsAbs dd" using t(2) by (simp_all add: prepared_def)
  have "dd \<noteq> ''''" using p(2) by auto
  then have dir: "bs_dir ?b \<noteq> ''''" using p(2) by (simp add: blob_dir_def Join2 Clean_def IsAbs_append)
  have l: "bs_loc ?b s h = loc s dd @ [''objects'', h]" using data_places(1)[OF p] by (simp add: bs_loc_def)
  have "\<exists>c. osat s' (bs_loc ?b s h) = osat s (bs_loc ?b s h) \<or>
      HashContent c = h \<and> (\<exists>m. osat s' (bs_loc ?b s h) = Some (IFile c m))"
    using t(1) unfolding touches_def
  proof
    assume "\<exists>k c. s' = snd (bs_Put ?b k c s)"
    then show ?thesis using Put_held[OF p(1) dir True] by blast
  next
    assume all: "\<forall>P. off_session (loc s dd) i P \<longrightarrow> kept P s s'"
    have "off_session (loc s dd) i (\<lambda>q. q = loc s dd @ [''objects'', h])"
      by (auto simp: off_session_def prefix_def)
    then show ?thesis using all l by (auto simp: kept_def)
  qed
  then show ?thesis using held_frame touch_env[OF t(1) p(1)] True sound by metis
qed

lemma enter_fields [simp]:
  "rn_sv (cx_run (enter s x)) = rn_sv (cx_run x)" "rn_prompts (cx_run (enter s x)) = rn_prompts (cx_run x)"
  "cx_phase (enter s x) = cx_phase x"
  "rn_world (cx_run (enter s x)) = (rn_world (cx_run x))\<lparr> w_os := sr_os s, w_ids := sr_ids s \<rparr>"
  by (simp_all add: enter_def put_state_def)

lemma there_world [simp]: "agent_there a (w\<lparr> w_os := o1, w_ids := k \<rparr>) \<longleftrightarrow> agent_there a w"
  by (simp add: agent_there_def split: option.split)

lemma enter_simps [simp]:
  "sid (enter s x) = sid x" "cx_phase (enter s x) = cx_phase x" "w_os (rn_world (cx_run (enter s x))) = sr_os s"
  "w_ids (rn_world (cx_run (enter s x))) = sr_ids s" "client_fits dd (enter s x) \<longleftrightarrow> client_fits dd x"
  "steps_left (enter s x) = steps_left x" "stuck (enter s x) \<longleftrightarrow> stuck x" "holds_ws (enter s x) \<longleftrightarrow> holds_ws x"
  by (simp_all add: sid_def client_fits_def run_fits_def service_fits_def service_runs_def cx_state_def
      phase_fits_def released_def steps_left_def input_left_def stuck_def holds_ws_def cong: phase.case_cong)

lemma ok_prepared:
  assumes "installed_ok U s0" "srv_ok U s0 s" "plain_name i"
  shows "prepared (su_dataDir U) i (sr_os s)" "loc (sr_os s) (su_dataDir U) = loc s0 (su_dataDir U)"
  using loc_env[of "sr_os s" s0] assms by (auto simp: installed_ok_def srv_ok_def prepared_def)

lemma uuid_plain: "installed_ok U s0 \<Longrightarrow> plain_name (su_uuid U n)" "installed_ok U s0 \<Longrightarrow> su_uuid U n \<noteq> []"
  by (auto simp: installed_ok_def prepared_def plain_name_def)

lemma ok_client:
  assumes "installed_ok U s0" "srv_ok U s0 s" "i < length (sr_clients s)"
  shows "client_fits (su_dataDir U) (sr_clients s ! i)"
    "sid (sr_clients s ! i) = [] \<or> sid (sr_clients s ! i) \<in> su_uuid U ` {..<sr_ids s}"
    "sid (sr_clients s ! i) = [] \<or> 0 < sr_ids s"
    "plain_name (owner (su_uuid U) (sr_ids s) (sid (sr_clients s ! i)))"
  using assms(2) nth_mem[OF assms(3)] uuid_plain(1)[OF assms(1)]
  by (auto simp: srv_ok_def owner_def)

text \<open>What a step of a handler does, on the server; and one beside it.\<close>

lemma su_own:
  assumes ok: "installed_ok U s0" "srv_ok U s0 s" and i: "i < length (sr_clients s)"
    and step: "su_handler U (enter s (sr_clients s ! i)) y"
  shows "client_fits (su_dataDir U) y \<and> sid_moves (su_uuid U) (sr_ids s) (sid (sr_clients s ! i)) (cx_state y) \<and>
    touches (su_dataDir U) (owner (su_uuid U) (sr_ids s) (sid (sr_clients s ! i))) (sr_os s) (w_os (rn_world (cx_run y)))"
proof -
  let ?x = "sr_clients s ! i" and ?u = "su_uuid U" and ?dd = "su_dataDir U"
  note x = ok_client[OF ok i]
  have "client_fits ?dd (enter s ?x)" "sid (enter s ?x) = [] \<or> 0 < sr_ids s" using x by auto
  note own = handler_own[OF step[unfolded su_handler_def su_deps_def] this(1) _ enter_simps(3,4) this(2)]
  show ?thesis using own ok_prepared(1)[OF ok x(4)] ok(1) by (auto simp: installed_ok_def)
qed

lemma su_beside_own:
  assumes ok: "installed_ok U s0" "srv_ok U s0 s" and i: "i < length (sr_clients s)"
    and step: "su_beside U (enter s (sr_clients s ! i)) y"
  shows "client_fits (su_dataDir U) y \<and> still (cx_state (enter s (sr_clients s ! i))) (cx_state y) \<and>
    cx_phase y = cx_phase (sr_clients s ! i) \<and> w_os (rn_world (cx_run y)) = sr_os s"
  using beside_own[OF step[unfolded su_beside_def su_deps_def]] ok_client(1)[OF ok i] by simp

lemma beside_moves:
  "still (cx_state (enter s x)) (cx_state y) \<Longrightarrow> sid_moves u (sr_ids s) (sid x) (cx_state y)"
  by (simp add: still_def sid_moves_def cx_state_def enter_def put_state_def sid_def)

lemma sids_apart_update:
  assumes "sids_apart xs" "i < length xs" "sid y = sid (xs ! i) \<or> sid y \<notin> sid ` set xs"
  shows "sids_apart (xs[i := y])"
  using assms unfolding sids_apart_def by (auto simp: nth_list_update) (metis image_eqI nth_mem)+

lemma leave_ok:
  assumes ok: "installed_ok U s0" "srv_ok U s0 s" and i: "i < length (sr_clients s)"
    and y: "client_fits (su_dataDir U) y" "sid_moves (su_uuid U) (sr_ids s) (sid (sr_clients s ! i)) (cx_state y)"
    and env: "os_wf (w_os (rn_world (cx_run y))) \<and> os_env (w_os (rn_world (cx_run y))) = os_env (sr_os s)"
  shows "srv_ok U s0 (leave (su_closeStatus U) s i y)"
proof -
  let ?x = "sr_clients s ! i" and ?u = "su_uuid U" and ?dd = "su_dataDir U"
  have ids: "sr_ids s \<le> sr_ids (leave (su_closeStatus U) s i y)" and sy: "sid y = sid ?x \<or> sid y = ?u (sr_ids s) \<and> sr_ids (leave (su_closeStatus U) s i y) = Suc (sr_ids s)"
    using y(2) by (auto simp: sid_moves_def leave_def cx_state_def sid_def)
  have old: "sid x = [] \<or> sid x \<in> ?u ` {..<sr_ids s}" if "x \<in> set (sr_clients s)" for x
    using ok(2) that by (simp add: srv_ok_def)
  have new: "?u (sr_ids s) \<notin> sid ` set (sr_clients s)"
  proof
    assume "?u (sr_ids s) \<in> sid ` set (sr_clients s)"
    then obtain n where "n < sr_ids s" "?u (sr_ids s) = ?u n" using old uuid_plain(2)[OF ok(1), of "sr_ids s"] by force
    then show False using ok(1) by (simp add: installed_ok_def inj_eq)
  qed
  have 2: "sid x = [] \<or> sid x \<in> ?u ` {..<sr_ids (leave (su_closeStatus U) s i y)}" if "x \<in> set (sr_clients (leave (su_closeStatus U) s i y))" for x
  proof -
    have "x = y \<or> x \<in> set (sr_clients s)" using that set_update_subset_insert[of "sr_clients s" i y] by (auto simp: leave_def)
    then have "sid x = ?u (sr_ids s) \<and> sr_ids (leave (su_closeStatus U) s i y) = Suc (sr_ids s) \<or> sid x = [] \<or> sid x \<in> ?u ` {..<sr_ids s}"
      using old sy nth_mem[OF i] by fastforce
    then show ?thesis using ids by force
  qed
  have "sids_apart (sr_clients (leave (su_closeStatus U) s i y))"
    using sids_apart_update[of "sr_clients s" i y] ok(2) i sy new by (auto simp: leave_def srv_ok_def)
  moreover have "\<forall>x \<in> set (sr_clients (leave (su_closeStatus U) s i y)). client_fits ?dd x"
    using y(1) ok(2) set_update_subset_insert[of "sr_clients s" i y] by (auto simp: leave_def srv_ok_def)
  ultimately show ?thesis using 2 env ok(2) by (simp add: srv_ok_def leave_def)
qed

lemma new_client_fits: "client_fits dd (new_client c s k)" "sid (new_client c s k) = []"
  by (simp_all add: new_client_def client_fits_def run_fits_def service_fits_def service_runs_def cx_state_def sid_def
      start_run_def NewService_def phase_fits_def)

lemma srv_ok_cong:
  "srv_ok U s0 s \<Longrightarrow> sr_os t = sr_os s \<Longrightarrow> sr_ids t = sr_ids s \<Longrightarrow> sr_clients t = sr_clients s \<Longrightarrow> srv_ok U s0 t"
  by (simp add: srv_ok_def)

lemma handler_leave_ok:
  assumes "installed_ok U s0" "srv_ok U s0 s" "i < length (sr_clients s)" "su_handler U (enter s (sr_clients s ! i)) y"
  shows "srv_ok U s0 (leave (su_closeStatus U) s i y)"
proof -
  have "os_wf (sr_os s)" using assms(2) by (simp add: srv_ok_def)
  then show ?thesis using su_own[OF assms] touch_env leave_ok[OF assms(1-3)] by blast
qed

lemma srv_ok_step:
  assumes "srv_step U l s t" "installed_ok U s0" "srv_ok U s0 s"
  shows "srv_ok U s0 t"
  using assms(1)
proof (cases rule: srv_step.cases)
  case (accepted k rnd lk c lk')
  have "sids_apart (sr_clients s @ [new_client c (sr_os s) (sr_ids s)])"
    using assms(3) by (auto simp: new_client_fits srv_ok_def sids_apart_def nth_append less_Suc_eq)
  then show ?thesis using assms(3) accepted by (auto simp: new_client_fits srv_ok_def)
next
  case (handles i y)
  then show ?thesis using handler_leave_ok[OF assms(2,3) handles(4,5)] by simp
next
  case (ends i y p)
  then show ?thesis using handler_leave_ok[OF assms(2,3) ends(4,5)] by (auto elim: srv_ok_cong)
next
  case (goes_on i y)
  note b = su_beside_own[OF assms(2,3) goes_on(4,5)]
  have "os_wf (sr_os s)" using assms(3) by (simp add: srv_ok_def)
  then show ?thesis using leave_ok[OF assms(2,3) goes_on(4), of y] b beside_moves goes_on(2) by metis
next
  case (agent i fs tree)
  then show ?thesis using assms(3) by (simp add: srv_ok_def os_env_def)
qed (auto intro!: srv_ok_cong[OF assms(3)])

lemma srv_reach_ok: "installed_ok U s0 \<Longrightarrow> srv_ok U s0 s \<Longrightarrow> srv_reach U s t \<Longrightarrow> srv_ok U s0 t"
  unfolding srv_reach_def by (rotate_tac 2, induction rule: rtranclp_induct) (auto intro: srv_ok_step)

lemma new_server_ok: "installed_ok U s0 \<Longrightarrow> srv_ok U s0 (new_server s0 cap)"
  by (auto simp: srv_ok_def new_server_def sids_apart_def installed_ok_def prepared_def)

lemma reached_ok: "installed_ok U s0 \<Longrightarrow> srv_reach U (new_server s0 cap) s \<Longrightarrow> srv_ok U s0 s"
  using srv_reach_ok new_server_ok by blast

section \<open>Sessions do not disturb each other\<close>

definition session_files :: "('r, 'h, 'k) installed \<Rightarrow> os \<Rightarrow> 'k Channel server \<Rightarrow> nat \<Rightarrow> string list \<Rightarrow> bool" where
  "session_files U s0 s j q \<longleftrightarrow> prefix (loc s0 (su_dataDir U) @ [''sessions'', sid (sr_clients s ! j)]) q"

text \<open>Everything happens but the steps of the connection \<open>j\<close>, and the agents spare \<open>Q\<close>.\<close>

definition others_run :: "('r, 'h, 'k) installed \<Rightarrow> nat \<Rightarrow> (string list \<Rightarrow> bool) \<Rightarrow> 'k Channel server \<Rightarrow> 'k Channel server \<Rightarrow> bool" where
  "others_run U j = sparing_run U (\<lambda>l. l \<noteq> Handler j \<and> l \<noteq> Beside j)"

lemma region_off:
  assumes "\<forall>q. Q q \<longrightarrow> prefix (dd @ [''sessions'', i]) q \<or> elsewhere dd q" "j \<noteq> i"
  shows "off_session dd j Q" "off_store dd Q"
proof -
  have "\<not> prefix q (dd @ [''sessions'']) \<and> \<not> prefix (dd @ [''sessions'', j]) q \<and> \<not> strict_prefix (dd @ [''objects'']) q" if "Q q" for q
  proof -
    from assms(1) that consider "prefix (dd @ [''sessions'', i]) q" | "elsewhere dd q" by blast
    then show ?thesis
    proof cases
      case 1
      then show ?thesis using assms(2) by (auto simp: prefix_def strict_prefix_def)
    next
      case 2
      then show ?thesis using append_prefixD[of "dd @ [''sessions'']" "[j]" q] by (auto simp: elsewhere_def)
    qed
  qed
  then show "off_session dd j Q" "off_store dd Q" by (auto simp: off_session_def off_store_def)
qed

lemma other_step:
  assumes ok: "installed_ok U s0" "srv_ok U s0 s" and step: "srv_step U l s t"
    and j: "l \<noteq> Handler j" "l \<noteq> Beside j" "j < length (sr_clients s)" "sid (sr_clients s ! j) \<noteq> []"
    and Q: "\<forall>q. Q q \<longrightarrow> session_files U s0 s j q \<or> elsewhere (loc s0 (su_dataDir U)) q"
    and agents: "\<forall>i. l = AgentOf i \<longrightarrow> spares Q (sr_os s) (sr_os t)"
  shows "j < length (sr_clients t) \<and> sr_clients t ! j = sr_clients s ! j \<and> (\<forall>q. Q q \<longrightarrow> osat (sr_os t) q = osat (sr_os s) q)"
proof -
  have leave: "osat (w_os (rn_world (cx_run y))) q = osat (sr_os s) q"
    if i: "i < length (sr_clients s)" "i \<noteq> j" and y: "su_handler U (enter s (sr_clients s ! i)) y" and q: "Q q" for i y q
  proof -
    let ?o = "owner (su_uuid U) (sr_ids s) (sid (sr_clients s ! i))"
    have "sid (sr_clients s ! j) \<in> su_uuid U ` {..<sr_ids s}" using ok(2) j(3,4) by (auto simp: srv_ok_def)
    then have "sid (sr_clients s ! j) \<noteq> su_uuid U (sr_ids s)" using ok(1) by (auto simp: installed_ok_def inj_eq)
    then have ne: "?o \<noteq> sid (sr_clients s ! j)"
      using ok(2) i j by (auto simp: owner_def srv_ok_def sids_apart_def)
    note off = region_off[OF Q[unfolded session_files_def] ne]
    note prep = ok_prepared[OF ok ok_client(4)[OF ok i(1)]]
    have "kept Q (sr_os s) (w_os (rn_world (cx_run y)))"
      using touch_kept[OF _ prep(1)] su_own[OF ok i(1) y] off prep(2) by metis
    then show ?thesis using q by (simp add: kept_def)
  qed
  have beside: "osat (w_os (rn_world (cx_run y))) q = osat (sr_os s) q"
    if "i < length (sr_clients s)" "su_beside U (enter s (sr_clients s ! i)) y" for i y q
    using su_beside_own[OF ok that] by simp
  show ?thesis using step j agents
    by (cases rule: srv_step.cases) (auto simp: leave_def leave beside nth_append spares_def)
qed

text \<open>
  C3. The server keeps its sessions apart. Take a state that the server reaches, and from there any run
  in which the connection \<open>j\<close>, which has a session, makes no step, while all the others go on with
  their messages, prompts, pumps and the ends of their sessions, connections arrive, and the agents
  work. Then the connection is as it was; and so is every file of its session's directory, and every
  file outside the store, the session directories and the directories above them, that the agents have
  left alone. Nothing in the program keeps an agent to its own workspace: it is started in that
  directory, and may change any file; so that they leave the region \<open>Q\<close> alone is a hypothesis about the
  run, as is that they make no symbolic links.
\<close>

theorem sessions_undisturbed:
  assumes "installed_ok U s0" and "no_links s0 (su_dataDir U)"
    and "sparing_run U (\<lambda>_. True) (\<lambda>_. False) (new_server s0 cap) s"
    and "j < length (sr_clients s)" and "sid (sr_clients s ! j) \<noteq> []"
    and "\<forall>q. Q q \<longrightarrow> session_files U s0 s j q \<or> elsewhere (loc s0 (su_dataDir U)) q"
    and "others_run U j Q s t"
  shows "sr_clients t ! j = sr_clients s ! j \<and> (\<forall>q. Q q \<longrightarrow> osat (sr_os t) q = osat (sr_os s) q)"
proof -
  have s: "srv_ok U s0 s" using reached_ok[OF assms(1) sparing_reach[OF assms(3)]] .
  have "srv_ok U s0 t \<and> j < length (sr_clients t) \<and> sr_clients t ! j = sr_clients s ! j \<and>
    (\<forall>q. Q q \<longrightarrow> osat (sr_os t) q = osat (sr_os s) q)"
    using assms(7) unfolding others_run_def sparing_run_def
  proof (induction rule: rtranclp_induct)
    case (step t t')
    then obtain l where l: "l \<noteq> Handler j" "l \<noteq> Beside j" "srv_step U l t t'"
      "\<forall>i. l = AgentOf i \<longrightarrow> spares Q (sr_os t) (sr_os t')" by blast
    have same: "session_files U s0 t j = session_files U s0 s j"
      using step.IH by (simp add: session_files_def fun_eq_iff)
    show ?case using step.IH srv_ok_step[OF l(3) assms(1)] other_step[OF assms(1) _ l(3,1,2) _ _ _ l(4), unfolded same]
        assms(5,6) by auto
  qed (use s assms(4) in simp)
  then show ?thesis by simp
qed

section \<open>The shared store\<close>

abbreviation the_store :: "('r, 'h, 'k) installed \<Rightarrow> BlobStore" where
  "the_store U \<equiv> \<lparr> bs_dir = blob_dir (su_dataDir U) \<rparr>"

definition blob_file :: "('r, 'h, 'k) installed \<Rightarrow> os \<Rightarrow> string \<Rightarrow> string list \<Rightarrow> bool" where
  "blob_file U s0 h q \<longleftrightarrow> q = bs_loc (the_store U) s0 h"

lemma held_same:
  assumes "os_env s' = os_env s" "osat s' (bs_loc b s h) = osat s (bs_loc b s h)"
  shows "bs_held b s' h = bs_held b s h"
  using assms bs_loc_env[OF assms(1)] by (simp add: bs_held_def)

lemma store_step:
  assumes ok: "installed_ok U s0" "srv_ok U s0 s" and step: "srv_step U l s t"
    and agents: "\<forall>i. l = AgentOf i \<longrightarrow> spares (blob_file U s0 h) (sr_os s) (sr_os t)"
    and sound: "held_sound (the_store U) (sr_os s) h"
  shows "held_sound (the_store U) (sr_os t) h \<and>
    (bs_held (the_store U) (sr_os s) h \<noteq> None \<longrightarrow> bs_held (the_store U) (sr_os t) h \<noteq> None)"
proof -
  have handler: "held_sound (the_store U) (w_os (rn_world (cx_run y))) h \<and>
      (bs_held (the_store U) (sr_os s) h \<noteq> None \<longrightarrow> bs_held (the_store U) (w_os (rn_world (cx_run y))) h \<noteq> None)"
    if "i < length (sr_clients s)" "su_handler U (enter s (sr_clients s ! i)) y" for i y
    using su_own[OF ok that] ok_prepared(1)[OF ok ok_client(4)[OF ok that(1)]] touch_held[OF _ _ sound] by blast
  have beside: "w_os (rn_world (cx_run y)) = sr_os s"
    if "i < length (sr_clients s)" "su_beside U (enter s (sr_clients s ! i)) y" for i y
    using su_beside_own[OF ok that] by simp
  show ?thesis using step
  proof (cases rule: srv_step.cases)
    case (agent i fs tree)
    have e: "os_env (sr_os s) = os_env s0" using ok(2) by (simp add: srv_ok_def)
    have "os_env (sr_os t) = os_env (sr_os s)" using agent by (simp add: os_env_def)
    moreover have "osat (sr_os t) (bs_loc (the_store U) (sr_os s) h) = osat (sr_os s) (bs_loc (the_store U) (sr_os s) h)"
      using agents agent(1) bs_loc_env[OF e] by (simp add: spares_def blob_file_def)
    ultimately show ?thesis using held_same sound by (metis held_sound_def)
  qed (use sound handler beside in \<open>auto simp: leave_def\<close>)
qed

lemma store_run:
  assumes ok: "installed_ok U s0" and run: "sparing_run U (\<lambda>_. True) (blob_file U s0 h) s t"
    and s: "srv_ok U s0 s" "held_sound (the_store U) (sr_os s) h"
  shows "srv_ok U s0 t \<and> held_sound (the_store U) (sr_os t) h \<and>
    (bs_held (the_store U) (sr_os s) h \<noteq> None \<longrightarrow> bs_held (the_store U) (sr_os t) h \<noteq> None)"
  using run unfolding sparing_run_def
proof (induction rule: rtranclp_induct)
  case (step t t')
  then obtain l where l: "srv_step U l t t'" "\<forall>i. l = AgentOf i \<longrightarrow> spares (blob_file U s0 h) (sr_os t) (sr_os t')" by blast
  show ?case using step.IH srv_ok_step[OF l(1) ok] store_step[OF ok _ l] by blast
qed (use s in simp)

lemma store_from_start:
  assumes "installed_ok U s0" "held_sound (the_store U) s0 h" "sparing_run U (\<lambda>_. True) (blob_file U s0 h) (new_server s0 cap) s"
  shows "held_sound (the_store U) (sr_os s) h"
  using store_run[OF assms(1,3) new_server_ok[OF assms(1)]] assms(2) by (simp add: new_server_def)

text \<open>
  C6. The store that all sessions share. Take a hash whose file the store did not have, or had with a
  content of that hash, when the server was started. In every state that the server reaches while no
  agent touches that file, its content, if it is there, has that hash; and once it is there it stays,
  with a content of that hash, whatever all the sessions do and the agents do elsewhere. The agents
  are not kept from the store by the program, so that they spare the file, and make no symbolic
  links, is a hypothesis about the runs.
\<close>

theorem shared_store_sound:
  assumes "installed_ok U s0" and "no_links s0 (su_dataDir U)" and "held_sound (the_store U) s0 h"
    and "sparing_run U (\<lambda>_. True) (blob_file U s0 h) (new_server s0 cap) s"
    and "sparing_run U (\<lambda>_. True) (blob_file U s0 h) s t" and "bs_held (the_store U) (sr_os s) h = Some c"
  shows "HashContent c = h \<and> (\<exists>d. bs_held (the_store U) (sr_os t) h = Some d \<and> HashContent d = h)"
proof -
  have s: "srv_ok U s0 s" "held_sound (the_store U) (sr_os s) h"
    using reached_ok[OF assms(1) sparing_reach[OF assms(4)]] store_from_start[OF assms(1,3,4)] by auto
  then show ?thesis using store_run[OF assms(1,5) s] assms(6) by (auto simp: held_sound_def)
qed

section \<open>The limit\<close>

definition at_work :: "'c server \<Rightarrow> nat" where
  "at_work s = sr_shaking s + length (filter (\<lambda>x. cx_phase x \<noteq> Gone) (sr_clients s))"

definition counted :: "nat option \<Rightarrow> 'c server \<Rightarrow> bool" where
  "counted cap s \<longleftrightarrow> pool_ok cap (sr_pool s) \<and> po_running (sr_pool s) = at_work s"

lemma filter_update:
  "i < length xs \<Longrightarrow> length (filter P (xs[i := y])) + (if P (xs ! i) then 1 else 0) = length (filter P xs) + (if P y then 1 else 0)"
proof (induction xs arbitrary: i)
  case (Cons x xs)
  then show ?case by (cases i) fastforce+
qed simp

lemma counted_step:
  assumes "srv_step U l s t" "counted cap s"
  shows "counted cap t"
  using assms(1)
proof (cases rule: srv_step.cases)
  case (arrives p)
  then show ?thesis using assms(2) pool_ok_step by (auto simp: counted_def at_work_def)
next
  case (turned_away p)
  then show ?thesis using assms(2) pool_ok_step by (auto simp: counted_def at_work_def elim!: pool_step.cases)
next
  case (rejected k rnd lk e lk' p)
  then show ?thesis using assms(2) pool_ok_step by (auto simp: counted_def at_work_def)
next
  case (accepted k rnd lk c lk')
  then show ?thesis using assms(2) by (auto simp: counted_def at_work_def new_client_def)
next
  case (handles i y)
  then have "cx_phase (sr_clients s ! i) \<noteq> Gone" using handler_alive[OF handles(5)[unfolded su_handler_def]] by simp
  then show ?thesis using assms(2) handles filter_update[of i "sr_clients s" "\<lambda>x. cx_phase x \<noteq> Gone" y]
    by (auto simp: counted_def at_work_def leave_def split: if_splits)
next
  case (ends i y p)
  then have "cx_phase (sr_clients s ! i) \<noteq> Gone" using handler_alive[OF ends(5)[unfolded su_handler_def]] by simp
  then show ?thesis using assms(2) ends pool_ok_step filter_update[of i "sr_clients s" "\<lambda>x. cx_phase x \<noteq> Gone" y]
    by (auto simp: counted_def at_work_def leave_def split: if_splits)
next
  case (goes_on i y)
  then have "cx_phase y = cx_phase (sr_clients s ! i)" using beside_phase[OF goes_on(5)[unfolded su_beside_def]] by simp
  then show ?thesis using assms(2) goes_on filter_update[of i "sr_clients s" "\<lambda>x. cx_phase x \<noteq> Gone" y]
    by (auto simp: counted_def at_work_def leave_def split: if_splits)
qed (use assms(2) in \<open>auto simp: counted_def at_work_def\<close>)

lemma reach_counted: "srv_reach U (new_server s0 cap) s \<Longrightarrow> counted cap s"
  unfolding srv_reach_def
proof (induction rule: rtranclp_induct)
  case base
  show ?case by (simp add: counted_def at_work_def new_server_def new_pool_def pool_ok_def split: option.split)
qed (auto intro: counted_step)

text \<open>
  At no time are more connections past the limit check than the configuration allows, in the
  handshake or in their session, and every connection that closes or is rejected makes room.
\<close>

theorem server_limited:
  assumes "NewServer cfg = Inr (cfg', cap)" and "0 < sc_MaxSessions cfg" and "srv_reach U (new_server s0 cap) s"
  shows "int (at_work s) \<le> sc_MaxSessions cfg"
proof -
  have "cap = Some (nat (sc_MaxSessions cfg))" using assms(1,2) by (auto simp: NewServer_def split: if_splits sum.splits)
  then show ?thesis using reach_counted[OF assms(3)] assms(2) by (auto simp: counted_def pool_ok_def)
qed

section \<open>Every handler ends, unless its process does not\<close>

text \<open>What a step does to the connection \<open>i\<close>.\<close>

lemma other_client:
  assumes "srv_step U l s t" "i < length (sr_clients s)"
  shows "i < length (sr_clients t)" "l \<noteq> Handler i \<Longrightarrow> l \<noteq> Beside i \<Longrightarrow> sr_clients t ! i = sr_clients s ! i"
  using assms by (cases rule: srv_step.cases; auto simp: leave_def nth_append)+

lemma handler_client:
  assumes "srv_step U (Handler i) s t"
  shows "i < length (sr_clients s) \<and> su_handler U (enter s (sr_clients s ! i)) (sr_clients t ! i) \<and>
    sr_os t = w_os (rn_world (cx_run (sr_clients t ! i)))"
  using assms by (cases rule: srv_step.cases) (auto simp: leave_def)

lemma beside_client:
  assumes "srv_step U (Beside i) s t"
  shows "i < length (sr_clients s) \<and> su_beside U (enter s (sr_clients s ! i)) (sr_clients t ! i)"
  using assms by (cases rule: srv_step.cases) (auto simp: leave_def)

lemma step_measure:
  assumes ok: "installed_ok U s0" "srv_ok U s0 s" and step: "srv_step U l s t" and i: "i < length (sr_clients s)"
  shows "steps_left (sr_clients t ! i) + (if l = Handler i then 1 else 0) \<le> steps_left (sr_clients s ! i)"
    and "stuck (sr_clients s ! i) \<Longrightarrow> stuck (sr_clients t ! i)"
proof -
  consider "l = Handler i" | "l = Beside i" | "l \<noteq> Handler i" "l \<noteq> Beside i" by blast
  then have "steps_left (sr_clients t ! i) + (if l = Handler i then 1 else 0) \<le> steps_left (sr_clients s ! i) \<and>
    (stuck (sr_clients s ! i) \<longrightarrow> stuck (sr_clients t ! i))"
  proof cases
    case 1
    then have h: "su_handler U (enter s (sr_clients s ! i)) (sr_clients t ! i)" using handler_client step by blast
    from handler_less[OF this[unfolded su_handler_def su_deps_def]] handler_unstuck[OF h[unfolded su_handler_def]]
    show ?thesis using ok_client(1)[OF ok i] 1 by auto
  next
    case 2
    then have "su_beside U (enter s (sr_clients s ! i)) (sr_clients t ! i)" using beside_client step by blast
    from su_beside_own[OF ok i this] have "still (cx_state (enter s (sr_clients s ! i))) (cx_state (sr_clients t ! i))"
      "cx_phase (sr_clients t ! i) = cx_phase (enter s (sr_clients s ! i))" by auto
    from still_steps[OF this] show ?thesis using 2 by simp
  next
    case 3
    then show ?thesis using other_client(2)[OF step i] by simp
  qed
  then show "steps_left (sr_clients t ! i) + (if l = Handler i then 1 else 0) \<le> steps_left (sr_clients s ! i)"
    and "stuck (sr_clients s ! i) \<Longrightarrow> stuck (sr_clients t ! i)" by auto
qed

text \<open>A step that removes the workspace of the session with the id \<open>i\<close>.\<close>

definition removing_step :: "('r, 'h, 'k) installed \<Rightarrow> string \<Rightarrow> 'k Channel server \<Rightarrow> 'k Channel server \<Rightarrow> bool" where
  "removing_step U i a b \<longleftrightarrow> sr_os b = snd (os_RemoveAll (session_dir (su_dataDir U) i) (sr_os a))"

lemma step_holds:
  assumes ok: "installed_ok U s0" "srv_ok U s0 s" and step: "srv_step U l s t" and i: "i < length (sr_clients s)"
    and ws: "holds_ws (sr_clients s ! i)"
  shows "holds_ws (sr_clients t ! i) \<and> sid (sr_clients t ! i) = sid (sr_clients s ! i) \<or>
    l = Handler i \<and> removing_step U (sid (sr_clients s ! i)) s t"
proof -
  consider "l = Handler i" | "l = Beside i" | "l \<noteq> Handler i" "l \<noteq> Beside i" by blast
  then show ?thesis
  proof cases
    case 1
    note h = handler_client[OF step[unfolded 1]]
    note x = ok_client[OF ok i]
    have "holds_ws (sr_clients t ! i) \<and> sid (sr_clients t ! i) = sid (enter s (sr_clients s ! i)) \<or>
      w_os (rn_world (cx_run (sr_clients t ! i))) =
        snd (os_RemoveAll (session_dir (su_dataDir U) (sid (enter s (sr_clients s ! i)))) (w_os (rn_world (cx_run (enter s (sr_clients s ! i))))))"
      by (rule handler_removes[OF _ _ _ enter_simps(4)])
         (use h x ws ok_prepared(1)[OF ok x(4)] ok(1) in \<open>auto simp: su_handler_def su_deps_def installed_ok_def\<close>)
    then show ?thesis using h 1 by (auto simp: removing_step_def)
  next
    case 2
    then have "su_beside U (enter s (sr_clients s ! i)) (sr_clients t ! i)" using beside_client step by blast
    from su_beside_own[OF ok i this] have "still (cx_state (enter s (sr_clients s ! i))) (cx_state (sr_clients t ! i))"
      "cx_phase (sr_clients t ! i) = cx_phase (enter s (sr_clients s ! i))" by auto
    from still_holds[OF this] show ?thesis using ws by simp
  next
    case 3
    then show ?thesis using other_client(2)[OF step i] ws by simp
  qed
qed

lemma run_holds:
  "srv_run U ls s t \<Longrightarrow> installed_ok U s0 \<Longrightarrow> srv_ok U s0 s \<Longrightarrow> i < length (sr_clients s) \<Longrightarrow> holds_ws (sr_clients s ! i) \<Longrightarrow>
   holds_ws (sr_clients t ! i) \<or>
     (\<exists>ls1 ls2 a b. ls = ls1 @ Handler i # ls2 \<and> srv_run U ls1 s a \<and> srv_step U (Handler i) a b \<and>
        removing_step U (sid (sr_clients s ! i)) a b \<and> srv_run U ls2 b t)"
proof (induction rule: srv_run.induct)
  case (then_runs l s t ls v)
  note ok = srv_ok_step[OF then_runs.hyps(1) then_runs.prems(1,2)]
  from step_holds[OF then_runs.prems(1,2) then_runs.hyps(1) then_runs.prems(3,4)]
  show ?case
  proof
    assume h: "holds_ws (sr_clients t ! i) \<and> sid (sr_clients t ! i) = sid (sr_clients s ! i)"
    from then_runs.IH[OF then_runs.prems(1) ok other_client(1)[OF then_runs.hyps(1) then_runs.prems(3)]] h
    consider "holds_ws (sr_clients v ! i)"
      | ls1 ls2 a b where "ls = ls1 @ Handler i # ls2" "srv_run U ls1 t a" "srv_step U (Handler i) a b"
          "removing_step U (sid (sr_clients s ! i)) a b" "srv_run U ls2 b v" by auto
    then show ?thesis
    proof cases
      case 2
      then have "l # ls = (l # ls1) @ Handler i # ls2" "srv_run U (l # ls1) s a"
        using srv_run.then_runs[OF then_runs.hyps(1)] by auto
      then show ?thesis using 2(3-5) by blast
    qed blast
  next
    assume "l = Handler i \<and> removing_step U (sid (sr_clients s ! i)) s t"
    then show ?thesis using then_runs.hyps srv_run.rests[of U s] by (metis append_Nil)
  qed
qed simp

lemma run_measure:
  "srv_run U ls s t \<Longrightarrow> installed_ok U s0 \<Longrightarrow> srv_ok U s0 s \<Longrightarrow> i < length (sr_clients s) \<Longrightarrow>
   i < length (sr_clients t) \<and> length (filter (\<lambda>l. l = Handler i) ls) + steps_left (sr_clients t ! i) \<le> steps_left (sr_clients s ! i) \<and>
   (stuck (sr_clients s ! i) \<longrightarrow> stuck (sr_clients t ! i))"
proof (induction rule: srv_run.induct)
  case (then_runs l s t ls v)
  note ok = srv_ok_step[OF then_runs.hyps(1) then_runs.prems(1,2)]
  note IH = then_runs.IH[OF then_runs.prems(1) ok other_client(1)[OF then_runs.hyps(1) then_runs.prems(3)]]
  show ?case using IH step_measure[OF then_runs.prems(1,2) then_runs.hyps(1) then_runs.prems(3)] by (auto split: if_splits)
qed simp

lemma handler_step_there:
  assumes ok: "installed_ok U s0" "srv_reach U (new_server s0 cap) t" and run: "running t" and i: "i < length (sr_clients t)"
    and go: "cx_phase (sr_clients t ! i) \<noteq> Gone" "\<not> stuck (sr_clients t ! i)"
  shows "\<exists>v. srv_step U (Handler i) t v"
proof -
  let ?x = "enter t (sr_clients t ! i)"
  have "client_fits (su_dataDir U) ?x" "cx_phase ?x \<noteq> Gone" "\<not> stuck ?x"
    using ok_client(1)[OF ok(1) reached_ok[OF ok] i] go by simp_all
  then obtain y where y: "su_handler U ?x y" unfolding su_handler_def using handler_moves by blast
  show ?thesis
  proof (cases "cx_phase y = Gone")
    case False
    then show ?thesis using srv_step.handles[OF run i y] by blast
  next
    case True
    have "sr_clients t ! i \<in> set (filter (\<lambda>x. cx_phase x \<noteq> Gone) (sr_clients t))" using i go(1) by simp
    then have "0 < at_work t" unfolding at_work_def by (metis length_pos_if_in_set add_gr_0)
    then obtain k where k: "po_running (sr_pool t) = Suc k"
      using reach_counted[OF ok(2)] by (cases "po_running (sr_pool t)") (auto simp: counted_def)
    show ?thesis using srv_step.ends[OF run i y True pool_step.finish[OF k]] k by auto
  qed
qed

text \<open>
  C5. Every handler comes to an end, unless the process of its agent does not. From any state the server
  reaches, in any run, whatever the client sends and whatever runs beside: the handler of a connection
  makes at most as many steps as frames are to be read and five for the end. As long as the server
  runs, it is gone, or can make its next step, or its process does not exit although its input is
  closed; and then it waits for good, as \<^verbatim>\<open>Close\<close> waits for the process without a limit. When it is
  gone, the service has no agent and no workspace, the process was told to end and waited for, and
  if there was a workspace the run has a step of the handler that removed its directory.
\<close>

theorem handler_ends:
  assumes "installed_ok U s0" and "srv_reach U (new_server s0 cap) s" and "i < length (sr_clients s)"
    and "srv_run U ls s t"
  shows "length (filter (\<lambda>l. l = Handler i) ls) + steps_left (sr_clients t ! i) \<le> steps_left (sr_clients s ! i) \<and>
    (running t \<longrightarrow> cx_phase (sr_clients t ! i) = Gone \<or> (\<exists>v. srv_step U (Handler i) t v) \<or> stuck (sr_clients t ! i)) \<and>
    (stuck (sr_clients s ! i) \<longrightarrow> stuck (sr_clients t ! i)) \<and>
    (cx_phase (sr_clients t ! i) = Gone \<longrightarrow> released (sr_clients t ! i) \<and>
      (holds_ws (sr_clients s ! i) \<longrightarrow>
        (\<exists>ls1 ls2 a b. ls = ls1 @ Handler i # ls2 \<and> srv_run U ls1 s a \<and> srv_step U (Handler i) a b \<and>
           removing_step U (sid (sr_clients s ! i)) a b \<and> srv_run U ls2 b t)))"
proof -
  note s = reached_ok[OF assms(1,2)]
  have rt: "srv_reach U (new_server s0 cap) t" by (rule srv_reach_trans[OF assms(2) srv_run_reach[OF assms(4)]])
  note t = reached_ok[OF assms(1) rt]
  note m = run_measure[OF assms(4,1) s assms(3)]
  have it: "i < length (sr_clients t)" using m by blast
  have fits: "client_fits (su_dataDir U) (sr_clients t ! i)" by (rule ok_client(1)[OF assms(1) t it])
  have 1: "running t \<longrightarrow> cx_phase (sr_clients t ! i) = Gone \<or> (\<exists>v. srv_step U (Handler i) t v) \<or> stuck (sr_clients t ! i)"
    using handler_step_there[OF assms(1) rt _ it] by blast
  have gone: "released (sr_clients t ! i) \<and> \<not> holds_ws (sr_clients t ! i)" if "cx_phase (sr_clients t ! i) = Gone"
    using fits that holds_alive[OF fits] by (auto simp: client_fits_def phase_fits_def)
  show ?thesis using m 1 gone run_holds[OF assms(4,1) s assms(3)] by blast
qed

section \<open>How the process ends\<close>

lemma stopped: "\<not> running s \<Longrightarrow> \<not> srv_step U l s t"
  by (auto elim: srv_step.cases)

lemma panic_stops:
  assumes "running s" "i < length (sr_clients s)" "sv_ws (rn_sv (cx_run (sr_clients s ! i))) = None"
    and "needs_ws (rn_pump (cx_run (sr_clients s ! i)))"
  shows "\<exists>t. srv_step U (Beside i) s t \<and> (\<forall>l z. \<not> srv_step U l t z)"
proof -
  let ?x = "enter s (sr_clients s ! i)"
  let ?y = "?x\<lparr> cx_run := (cx_run ?x)\<lparr> rn_panicked := True \<rparr> \<rparr>"
  have "su_beside U ?x ?y"
    unfolding su_beside_def by (rule beside_step.background[OF bstep.pump_panics]) (use assms(3,4) in \<open>simp_all add: enter_def put_state_def\<close>)
  then have "srv_step U (Beside i) s (leave (su_closeStatus U) s i ?y)" by (rule srv_step.goes_on[OF assms(1,2)])
  moreover have "\<not> running (leave (su_closeStatus U) s i ?y)"
    using assms(2) by (auto simp: running_def leave_def intro!: bexI[OF _ set_update_memI[OF assms(2)]])
  ultimately show ?thesis using stopped by blast
qed

text \<open>
  C11. One session can end all of them. When a handler closes its session while the session's pump is
  still to use the workspace, which a client brings about by hanging up during the end of a turn,
  one move of the handler, and one of the pump, lead to a state in which the process has crashed, and
  no connection moves any more.
\<close>

theorem one_session_stops_all:
  assumes "running s" and "i < length (sr_clients s)" and "cx_phase (sr_clients s ! i) = Closing e"
    and "needs_ws (rn_pump (cx_run (sr_clients s ! i)))"
  shows "\<exists>t v. srv_step U (Handler i) s t \<and> srv_step U (Beside i) t v \<and> (\<forall>l z. \<not> srv_step U l v z)"
proof -
  let ?x = "enter s (sr_clients s ! i)"
  obtain agent ws z where cl: "close_take (cx_state ?x) = (Inr (agent, ws), z)" and z: "sv_ws (fst z) = None"
    by (simp add: cx_state_def)
  let ?y = "put_state z (?x\<lparr> cx_run := (cx_run ?x)\<lparr> rn_closed := True \<rparr>, cx_phase := Stopping agent ws \<rparr>)"
  let ?t = "leave (su_closeStatus U) s i ?y"
  have "su_handler U ?x ?y" unfolding su_handler_def by (rule handler_step.takes[OF _ cl]) (use assms(3) in simp)
  then have 1: "srv_step U (Handler i) s ?t" by (rule srv_step.handles[OF assms(1,2)]) simp
  have run: "running ?t" using assms(1,2) set_update_subset_insert[of "sr_clients s" i ?y]
    by (auto simp: running_def leave_def enter_def put_state_def)
  have "sv_ws (rn_sv (cx_run (sr_clients ?t ! i))) = None" "needs_ws (rn_pump (cx_run (sr_clients ?t ! i)))" "i < length (sr_clients ?t)"
    using assms(2,4) z by (simp_all add: leave_def enter_def put_state_def)
  then show ?thesis using 1 panic_stops[OF run, of i U] by blast
qed

section \<open>Witnesses\<close>

definition demo_installed :: "(unit, demo_phase, nat) installed" where
  "demo_installed =
     \<lparr> su_say = \<lambda>_. [], su_noise = demo_noise, su_psk = replicate 32 1, su_dataDir = ''/d'', su_uuid = demo_uuid,
       su_spawn = demo_spawn, su_runner = NewRunner, su_floats = demo_floats, su_closeStatus = \<lambda>_. - 1 \<rparr>"

lemma demo_uuid_inj: "inj demo_uuid"
proof (rule injI)
  fix m n assume "demo_uuid m = demo_uuid n"
  then have "decimal m = decimal n" by (simp add: demo_uuid_def)
  then show "m = n" by (metis option.inject octet_digits_decimal)
qed

lemma demo_uuid_plain: "plain_name (demo_uuid n)"
proof -
  have "slash \<notin> set ''0123456789''" by simp
  then show ?thesis by (simp add: plain_name_def demo_uuid_def decimal_no)
qed

lemma demo_installed_ok: "os_wf s0 \<Longrightarrow> installed_ok demo_installed s0"
  using demo_uuid_inj demo_uuid_plain by (simp add: installed_ok_def prepared_def demo_installed_def spawns_running_def demo_spawn_def)

text \<open>Two file systems: an empty store, and one that holds a content.\<close>

lemma demo_empty_facts: "os_wf demo_empty_os" "no_links demo_empty_os p"
proof -
  show "os_wf demo_empty_os" using demo_prepared by (simp add: prepared_def)
  have "linkless (os_tree demo_empty_os)" by code_simp
  then show "no_links demo_empty_os p" by (rule linkless_no_links)
qed

definition demo_stored_os :: os where
  "demo_stored_os = demo_os (NDir [(''d'', NDir [(''objects'', NDir [(HashContent [1], NFile [1] 0x180)])])])"

lemma demo_stored_facts:
  "os_wf demo_stored_os" "no_links demo_stored_os p"
  "bs_held (the_store demo_installed) demo_stored_os (HashContent [1]) = Some [1]"
proof -
  let ?h = "HashContent [1]"
  have "plain_name ?h" using validHash_plain(1)[of ?h] by simp
  then have "wf_node (os_tree demo_stored_os)" by (simp add: demo_stored_os_def demo_os_def plain_name_def)
  then show "os_wf demo_stored_os" by (simp add: os_wf_def demo_stored_os_def demo_os_def osat_def)
  show "no_links demo_stored_os p" by (rule linkless_no_links) (simp add: demo_stored_os_def demo_os_def)
  have "locate ''/'' (blob_dir ''/d'') = [''d'', ''objects'']" by code_simp
  then have "loc demo_stored_os (blob_dir ''/d'') = [''d'', ''objects'']"
    by (simp add: loc_def demo_stored_os_def demo_os_def)
  then show "bs_held (the_store demo_installed) demo_stored_os ?h = Some [1]"
    by (simp add: bs_held_def bs_loc_def demo_installed_def demo_stored_os_def demo_os_def osat_def)
qed

lemma SyncDone_sid:
  assumes "svc_SyncDone (service_deps b dd u spawn rn fl S) (NewService, w) = (r, (sv, w'))"
  shows "sv_sessionID sv = u (w_ids w)"
  using assms by (auto simp: svc_SyncDone_def bindE_outside NewService_def new_id_def split: prod.splits sum.splits)

lemma demo_sync_sid:
  assumes "handle_message (\<lambda>_. []) (su_deps demo_installed)
    \<lparr> fr_Env = bare_envelope TypeSyncDone, fr_Content = [], fr_HasContent = False \<rparr> (NewService, w) = (r, z)"
  shows "sv_sessionID (fst z) = demo_uuid (w_ids w)"
proof -
  let ?D = "su_deps demo_installed"
  obtain q sv w' where q: "svc_SyncDone ?D (NewService, w) = (q, (sv, w'))" by (metis prod.collapse)
  have "sv_sessionID sv = demo_uuid (w_ids w)"
    using SyncDone_sid q by (simp add: su_deps_def demo_installed_def)
  moreover have "fst z = sv"
    using assms q by (cases q)
      (auto simp: handle_message_def bare_envelope_def type_defs bindE_def reported_def outside_def split: prod.splits sum.splits)
  ultimately show ?thesis by simp
qed

lemma sparing_refl: "sparing_run U L Q s s"
  by (simp add: sparing_run_def)

lemma sparing_step:
  "srv_step U l s t \<Longrightarrow> L l \<Longrightarrow> \<forall>i. l \<noteq> AgentOf i \<Longrightarrow> sparing_run U L Q t v \<Longrightarrow> sparing_run U L Q s v"
  unfolding sparing_run_def by (rule converse_rtranclp_into_rtranclp) blast+

text \<open>A client that connects and asks at once for its session.\<close>

lemma demo_started:
  obtains s where "\<forall>Q. sparing_run demo_installed (\<lambda>_. True) Q (new_server s0 (Some 8)) s" "length (sr_clients s) = 1"
    "sid (sr_clients s ! 0) = ''id0''" "running s" "sr_listening s" "cx_phase (sr_clients s ! 0) \<noteq> Gone"
    "\<not> stuck (sr_clients s ! 0)"
proof -
  let ?e = "bare_envelope TypeSyncDone" and ?S = "noise_channel demo_noise"
  have e: "?e = \<lparr> env_Type = TypeSyncDone, env_ID = [], env_Data = [] \<rparr>" by (simp add: bare_envelope_def)
  have "length (obj_text ([(''type'', quote (env_Type ?e))] @ omitempty (env_ID ?e = []) ''id'' (quote (env_ID ?e)) @
       omitempty (env_Data ?e = []) ''data'' (env_Data ?e))) < 200" by code_simp
  then have "length (obj_text ([(''type'', quote (env_Type ?e))] @ omitempty (env_ID ?e = []) ''id'' (quote (env_ID ?e)) @
       omitempty (env_Data ?e = []) ''data'' (env_Data ?e))) < MaxRecordPlaintext"
    unfolding MaxRecordPlaintext_def by (rule less_trans) simp
  then obtain b where b: "EncodeEnvelope ?e = Inr b"
    using marshal_Envelope_eq[of ?e 0] unfolding e by (auto simp: EncodeEnvelope_def)
  let ?lk = "fresh_link (\<lambda>_. None) [replicate 32 1, 0 # b] Canceled"
  obtain c lk' where acc: "accept_conn demo_noise () (replicate 32 1) ?lk = (Inr c, lk')"
    and c: "cn_inbox c = [0 # b]" "cn_pending c = Map.empty" "ch_recv (cn_ch c) = 0"
    by (simp add: accept_conn_def Handshake_def PSKLen_def bindE_def liftE_def lk_Write_def lk_Read_def fresh_link_def
        conn_on_def demo_noise_def defaultReadLimit_def newConn_def)
  let ?s0 = "new_server s0 (Some 8) :: nat Channel server"
  let ?p = "(new_pool (Some 8))\<lparr> po_tokens := 1, po_running := 1 \<rparr>"
  have p: "pool_step (new_pool (Some 8)) ?p" using pool_step.admit[of "new_pool (Some 8)" 8] by (simp add: new_pool_def)
  let ?s1 = "?s0\<lparr> sr_pool := ?p, sr_shaking := 1 \<rparr>"
  have 1: "srv_step demo_installed Outside ?s0 ?s1"
    using srv_step.arrives[of ?s0 ?p demo_installed] p by (simp add: new_server_def running_def new_pool_def)
  let ?x = "new_client c s0 0"
  let ?s2 = "?s1\<lparr> sr_shaking := 0, sr_clients := [?x] \<rparr>"
  have 2: "srv_step demo_installed Outside ?s1 ?s2"
    using srv_step.accepted[of ?s1 0 demo_installed "()" ?lk c lk'] acc by (simp add: new_server_def running_def demo_installed_def)
  have en: "enter ?s2 ?x = ?x"
    by (simp add: enter_def new_server_def new_client_def put_state_def start_run_def)
  obtain r z where run: "bindE (outside (on_conn (ReadMessage ?S))) (handle_message (\<lambda>_. []) (su_deps demo_installed)) (cx_state ?x) = (r, z)"
    by (metis prod.collapse)
  let ?y = "after_message r (put_state z ?x)"
  have "su_handler demo_installed ?x ?y"
    unfolding su_handler_def
    by (rule handler_step.serves) (use run in \<open>simp_all add: new_client_def demo_installed_def\<close>)
  then have "su_handler demo_installed (enter ?s2 (sr_clients ?s2 ! 0)) ?y" using en by simp
  moreover have ph: "cx_phase ?y = Dispatching \<or> (\<exists>e. cx_phase ?y = Closing e)"
    by (auto simp: after_message_def new_client_def split: sum.split outcome.split)
  ultimately have 3: "srv_step demo_installed (Handler 0) ?s2 (leave (su_closeStatus demo_installed) ?s2 0 ?y)"
    by (intro srv_step.handles) (auto simp: running_def new_server_def new_client_def start_run_def)
  have plain: "plain_envelope ?e" "streamIDOf ?e = Inr 0"
    unfolding e by (simp_all add: plain_envelope_def fix_Envelope_def) (rule streamIDOf_other; simp add: type_defs)
  have op: "open_all ?S [0 # b] (cn_ch c) = Some ([b], (cn_ch c)\<lparr> ch_recv := 1 \<rparr>)"
    and len: "\<forall>f \<in> set [0 # b]. length f \<le> readLimit" and inbox: "cn_inbox c = [0 # b] @ []"
    using c(1,3) EncodeEnvelope_length[OF b] by (simp_all add: noise_channel_def chan_Open_def demo_noise_def readLimit_def MaxRecordPlaintext_def)
  obtain c' where rd: "ReadMessage ?S c = (Inr \<lparr> fr_Env = ?e, fr_Content = [], fr_HasContent = False \<rparr>, c')"
    using read_envelope[OF plain(1) b plain(2) op len inbox] by blast
  let ?w = "\<lparr> w_os = s0, w_conn = c', w_agent = None, w_ids = 0 \<rparr>"
  have "handle_message (\<lambda>_. []) (su_deps demo_installed) \<lparr> fr_Env = ?e, fr_Content = [], fr_HasContent = False \<rparr> (NewService, ?w) = (r, z)"
    using run rd by (simp add: cx_state_def new_client_def start_run_def bindE_outside on_conn_def)
  then have "sv_sessionID (fst z) = demo_uuid 0" using demo_sync_sid[of ?w r z] by simp
  moreover have "demo_uuid 0 = ''id0''" by code_simp
  ultimately have "sid ?y = ''id0''" by (simp add: sid_def)
  moreover have "sparing_run demo_installed (\<lambda>_. True) Q ?s0 (leave (su_closeStatus demo_installed) ?s2 0 ?y)" for Q
    by (rule sparing_step[OF 1 _ _ sparing_step[OF 2 _ _ sparing_step[OF 3 _ _ sparing_refl]]]) simp_all
  moreover have "running (leave (su_closeStatus demo_installed) ?s2 0 ?y)"
    by (auto simp: running_def leave_def new_server_def new_client_def start_run_def put_state_def after_message_def split: sum.split outcome.split)
  moreover have "cx_phase ?y \<noteq> Gone" "\<not> stuck ?y" using ph by (auto simp: stuck_def)
  ultimately show thesis using that[of "leave (su_closeStatus demo_installed) ?s2 0 ?y"] by (simp add: leave_def new_server_def)
qed

text \<open>The listener is closed, while the first connection keeps its session.\<close>

theorem sessions_undisturbed_witness:
  "\<exists>s t. srv_reach demo_installed (new_server demo_empty_os (Some 8)) s \<and> sid (sr_clients s ! 0) = ''id0'' \<and>
     others_run demo_installed 0 (session_files demo_installed demo_empty_os s 0) s t \<and> t \<noteq> s \<and>
     sr_clients t ! 0 = sr_clients s ! 0 \<and>
     (\<forall>q. session_files demo_installed demo_empty_os s 0 q \<longrightarrow> osat (sr_os t) q = osat (sr_os s) q)"
proof -
  obtain s where s: "\<forall>Q. sparing_run demo_installed (\<lambda>_. True) Q (new_server demo_empty_os (Some 8)) s" "length (sr_clients s) = 1"
    "sid (sr_clients s ! 0) = ''id0''" "running s" "sr_listening s" by (rule demo_started)
  note sp = s(1)[rule_format]
  let ?t = "s\<lparr> sr_listening := False \<rparr>" and ?Q = "session_files demo_installed demo_empty_os s 0"
  have "srv_step demo_installed Outside s ?t" by (rule srv_step.stops[OF s(4,5)])
  then have run: "others_run demo_installed 0 ?Q s ?t"
    unfolding others_run_def by (rule sparing_step[OF _ _ _ sparing_refl]) simp_all
  have "?t \<noteq> s" using s(5) by (metis server.select_convs(7) server.surjective server.update_convs(7))
  then show ?thesis
    using sessions_undisturbed [OF demo_installed_ok[OF demo_empty_facts(1)] demo_empty_facts(2) sp _ _ _ run]
      s(2,3) run sparing_reach[OF sp]
    by (intro exI[of _ s] exI[of _ ?t]) auto
qed

text \<open>The store holds a content when the server starts, and still does when a session runs.\<close>

theorem shared_store_sound_witness:
  "\<exists>s. srv_reach demo_installed (new_server demo_stored_os (Some 8)) s \<and> sid (sr_clients s ! 0) = ''id0'' \<and>
     (\<exists>d. bs_held (the_store demo_installed) (sr_os s) (HashContent [1]) = Some d \<and> HashContent d = HashContent [1])"
proof -
  obtain s where s: "\<forall>Q. sparing_run demo_installed (\<lambda>_. True) Q (new_server demo_stored_os (Some 8)) s" "length (sr_clients s) = 1"
    "sid (sr_clients s ! 0) = ''id0''" "running s" "sr_listening s" by (rule demo_started)
  note sp = s(1)[rule_format]
  have h: "held_sound (the_store demo_installed) demo_stored_os (HashContent [1])"
    "bs_held (the_store demo_installed) (sr_os (new_server demo_stored_os (Some 8) :: nat Channel server)) (HashContent [1]) = Some [1]"
    using demo_stored_facts(3) by (simp_all add: held_sound_def new_server_def)
  from shared_store_sound [OF demo_installed_ok[OF demo_stored_facts(1)] demo_stored_facts(2) h(1) sparing_refl sp h(2)]
  show ?thesis using s(3) sparing_reach[OF sp] by blast
qed

text \<open>A handler with a session makes its next step, and has one less to make.\<close>

theorem handler_ends_witness:
  "\<exists>s t. srv_reach demo_installed (new_server demo_empty_os (Some 8)) s \<and> sid (sr_clients s ! 0) = ''id0'' \<and>
     srv_run demo_installed [Handler 0] s t \<and> steps_left (sr_clients t ! 0) < steps_left (sr_clients s ! 0)"
proof -
  obtain s where s: "\<forall>Q. sparing_run demo_installed (\<lambda>_. True) Q (new_server demo_empty_os (Some 8)) s" "length (sr_clients s) = 1"
    "sid (sr_clients s ! 0) = ''id0''" "running s" "sr_listening s" "cx_phase (sr_clients s ! 0) \<noteq> Gone" "\<not> stuck (sr_clients s ! 0)"
    by (rule demo_started)
  note sp = s(1)[rule_format]
  note ends = handler_ends [OF demo_installed_ok[OF demo_empty_facts(1)] sparing_reach[OF sp], of 0]
  have "\<exists>t. srv_step demo_installed (Handler 0) s t" using ends[OF _ srv_run.rests] s(2,4,6,7) by simp
  then obtain t where t: "srv_run demo_installed [Handler 0] s t" using srv_run.then_runs[OF _ srv_run.rests] by blast
  show ?thesis using ends[OF _ t] t s(2,3) sparing_reach[OF sp] by (intro exI[of _ s] exI[of _ t]) simp
qed

theorem server_limited_witness:
  "\<exists>s. srv_reach demo_installed (new_server demo_empty_os (Some 8)) s \<and> length (sr_clients s) = 1 \<and> int (at_work s) \<le> 8"
proof -
  let ?cfg = "\<lparr> sc_Addr = ''127.0.0.1:1'', sc_PSK = replicate 32 0, sc_AllowPublic = True, sc_MaxSessions = 8 \<rparr>"
  have new: "NewServer ?cfg = Inr (?cfg, Some 8)" by (simp add: NewServer_def checkBind_def)
  obtain s where s: "\<forall>Q. sparing_run demo_installed (\<lambda>_. True) Q (new_server demo_empty_os (Some 8)) s" "length (sr_clients s) = 1"
    "sid (sr_clients s ! 0) = ''id0''" "running s" "sr_listening s" by (rule demo_started)
  note sp = s(1)[rule_format]
  show ?thesis using server_limited [OF new _ sparing_reach[OF sp]] sparing_reach[OF sp] s(2) by auto
qed

definition demo_crashing :: "nat Channel server" where
  "demo_crashing = (new_server demo_empty_os (Some 8))\<lparr> sr_pool := (new_pool (Some 8))\<lparr> po_tokens := 1, po_running := 1 \<rparr>,
     sr_clients := [\<lparr> cx_run = (start_run \<lparr> w_os = demo_empty_os, w_conn = newConn \<lparr> ch_send = 0, ch_recv = 0 \<rparr> (\<lambda>_. None) [] Canceled,
         w_agent = None, w_ids = 0 \<rparr>)\<lparr> rn_pump := PumpFinishes None \<rparr>,
       cx_started = [], cx_reported = {}, cx_phase = Closing None \<rparr>] \<rparr>"

theorem one_session_stops_all_witness:
  "\<exists>t v. srv_step demo_installed (Handler 0) demo_crashing t \<and> srv_step demo_installed (Beside 0) t v \<and>
     (\<forall>l z. \<not> srv_step demo_installed l v z)"
  by (rule one_session_stops_all) (simp_all add: demo_crashing_def running_def new_server_def start_run_def)

end
