(* ===== verification/ServedCommand.thy ===== *)
theory ServedCommand
  imports CommandLine ServingRuns
begin

text \<open>
  From the arguments of the server's command to what holds while the server runs: the command puts
  together the server of \<^verbatim>\<open>Serving\<close>, on a file system with its store.
\<close>

section \<open>What the command puts together\<close>

text \<open>The server for a record of flags and a key; the rest are the libraries and the surroundings.\<close>

definition installation ::
  "server_flags \<Rightarrow> bytes \<Rightarrow> (error \<Rightarrow> string) \<Rightarrow> ('r, 'h, 'k) noise_lib \<Rightarrow> (nat \<Rightarrow> string) \<Rightarrow>
   (command \<Rightarrow> ringBuffer \<Rightarrow> error + process) \<Rightarrow> float_ops \<Rightarrow> (error \<Rightarrow> int) \<Rightarrow> ('r, 'h, 'k) installed" where
  "installation flags psk say N uuid spawn fl closeStatus =
     \<lparr> su_say = say, su_noise = N, su_psk = psk, su_dataDir = sf_dataDir flags, su_uuid = uuid, su_spawn = spawn,
       su_runner = NewRunner\<lparr> rn_Bin := sf_claudeBin flags, rn_PermissionMode := sf_permMode flags \<rparr>,
       su_floats = fl, su_closeStatus = closeStatus \<rparr>"

lemma server_main_wires:
  assumes "server_main randInt raw hkdf uuid spawn fl (noise_channel N) flags env h = (Inr (Serves cfg slots D), h')"
  shows "D = su_deps (installation flags (sc_PSK cfg) say N uuid spawn fl closeStatus)"
    and "os_MkdirAll (blob_dir (sf_dataDir flags)) (ho_os h) = (Inr (), ho_os h')"
    and "\<exists>cfg0. NewServer cfg0 = Inr (cfg, slots) \<and> sc_MaxSessions cfg0 = sf_maxSessions flags"
proof -
  have go: "\<not> sf_showVersion flags" using assms by (auto simp: server_main_def split: if_splits)
  obtain token generated h1 psk h2 blobs h3 where
    t: "share_token randInt raw env h = (Inr (token, generated), h1)"
    and banner: "(if generated then printTokenBanner env token else retE ()) h1 = (Inr (), h2)"
    and blobs: "host_os (NewBlobStore (blob_dir (sf_dataDir flags))) h2 = (Inr blobs, h3)"
    and srv: "NewServer \<lparr> sc_Addr = sf_addr flags, sc_PSK = psk, sc_AllowPublic = sf_allowPublic flags,
            sc_MaxSessions = sf_maxSessions flags \<rparr> = Inr (cfg, slots)"
    and D: "D = service_deps blobs (sf_dataDir flags) uuid spawn
        (NewRunner\<lparr> rn_Bin := sf_claudeBin flags, rn_PermissionMode := sf_permMode flags \<rparr>) fl (noise_channel N)"
    and h': "h' = h3"
    using assms unfolding server_main_def if_not_P[OF go] bindE_Inr_iff fatalE_Inr liftE_Inr Let_def
    by (auto simp: bindE_Inr_iff fatalE_Inr liftE_Inr)
  have os: "ho_os h2 = ho_os h" using share_token_Inr[OF t] banner by (auto simp: printTokenBanner_def split: if_splits)
  have mk: "os_MkdirAll (blob_dir (sf_dataDir flags)) (ho_os h) = (Inr (), ho_os h3) \<and> blobs = \<lparr> bs_dir = blob_dir (sf_dataDir flags) \<rparr>"
    using blobs os by (auto simp: host_os_def NewBlobStore_def bindE_Inr_iff split: prod.splits)
  then show "D = su_deps (installation flags (sc_PSK cfg) say N uuid spawn fl closeStatus)"
    and "os_MkdirAll (blob_dir (sf_dataDir flags)) (ho_os h) = (Inr (), ho_os h')"
    using D h' by (simp_all add: su_deps_def installation_def)
  show "\<exists>cfg0. NewServer cfg0 = Inr (cfg, slots) \<and> sc_MaxSessions cfg0 = sf_maxSessions flags" using srv by force
qed

section \<open>The store is there\<close>

text \<open>Making the store's directory keeps what is in it.\<close>

lemma made_store:
  assumes "os_MkdirAll (blob_dir dd) s = (Inr (), s')" and "os_wf s" and "IsAbs dd"
  shows "os_wf s'" and "os_env s' = os_env s" and "\<And>i. plain_name i \<Longrightarrow> prepared dd i s'"
    and "bs_held \<lparr> bs_dir = blob_dir dd \<rparr> s' = bs_held \<lparr> bs_dir = blob_dir dd \<rparr> s"
    and "no_links s dd \<Longrightarrow> no_links s' dd"
proof -
  obtain wf: "os_wf s'" and env: "os_env s' = os_env s"
    and at: "\<And>q. osat s' q = (if prefix q (loc s (blob_dir dd)) then Some IDir else osat s q)"
    using assms(1)
  proof (cases rule: MkdirAll_cases)
    case 2
    show ?thesis by (rule that) (use 2 assms(2) in simp_all)
  qed simp
  show "os_wf s'" "os_env s' = os_env s" by (rule wf env)+
  show "prepared dd i s'" if "plain_name i" for i using that wf assms(3) by (simp add: prepared_def)
  show "bs_held \<lparr> bs_dir = blob_dir dd \<rparr> s' = bs_held \<lparr> bs_dir = blob_dir dd \<rparr> s"
    by (simp add: bs_held_def fun_eq_iff at bs_loc_def loc_env[OF env])
  show "no_links s dd \<Longrightarrow> no_links s' dd"
    using loc_env[OF env] by (auto simp: no_links_def at split: if_splits)
qed

section \<open>The command's server is sound\<close>

text \<open>
  C12. What a command line starts. If the command goes on to serve, from a file system where what the
  store holds, if there is one, has the hashes it is named by, then it serves with the collaborators
  of the running server. In every state the server reaches, with all its sessions at once and
  whatever the agents do to the files, no more connections are past the limit check than the flag
  allows, in the handshake or in their session, and no two sessions have the same identifier. And
  the file of a hash in the store has a content of that hash in every state that is reached while
  the agents leave that file alone and make no symbolic links; the program does not make them.
\<close>

theorem command_serves_soundly:
  assumes "server_command randInt raw hkdf uuid spawn fl (noise_channel N) home args env h = (Goes (Serves cfg slots D), h')"
    and "parse_flags server_flag_set (server_defaults home) args = Parsed flags rest"
    and "os_wf (ho_os h)" and "IsAbs (sf_dataDir flags)" and "no_links (ho_os h) (sf_dataDir flags)"
    and "\<forall>k. held_sound \<lparr> bs_dir = blob_dir (sf_dataDir flags) \<rparr> (ho_os h) k"
    and "inj uuid" and "\<forall>n. plain_name (uuid n)" and "spawns_running spawn"
    and "U = installation flags (sc_PSK cfg) say N uuid spawn fl closeStatus"
  shows "D = su_deps U \<and>
    (\<forall>s. srv_reach U (new_server (ho_os h') slots) s \<longrightarrow>
      (0 < sf_maxSessions flags \<longrightarrow> int (at_work s) \<le> sf_maxSessions flags) \<and> sids_apart (sr_clients s)) \<and>
    (\<forall>s k c. sparing_run U (\<lambda>_. True) (blob_file U (ho_os h') k) (new_server (ho_os h') slots) s \<longrightarrow>
      bs_held (the_store U) (sr_os s) k = Some c \<longrightarrow> HashContent c = k)"
proof -
  have m: "server_main randInt raw hkdf uuid spawn fl (noise_channel N) flags env h = (Inr (Serves cfg slots D), h')"
    using assms(1,2) by (auto simp: server_command_def run_command_def split: prod.splits sum.splits)
  note w = server_main_wires[OF m]
  note st = made_store[OF w(2) assms(3,4)]
  have U: "su_dataDir U = sf_dataDir flags" "su_uuid U = uuid" "su_spawn U = spawn"
    using assms(10) by (simp_all add: installation_def)
  have ok: "installed_ok U (ho_os h')" using st(3) assms(7-9) U by (simp add: installed_ok_def)
  have inv: "held_sound (the_store U) (ho_os h') k" for k using st(4) assms(6) U by (simp add: held_sound_def)
  have 1: "int (at_work s) \<le> sf_maxSessions flags"
    if "srv_reach U (new_server (ho_os h') slots) s" "0 < sf_maxSessions flags" for s
    using w(3) server_limited[OF _ _ that(1)] that(2) by metis
  have 2: "sids_apart (sr_clients s)" if "srv_reach U (new_server (ho_os h') slots) s" for s
    using reached_ok[OF ok that] by (simp add: srv_ok_def)
  have 3: "HashContent c = k"
    if "sparing_run U (\<lambda>_. True) (blob_file U (ho_os h') k) (new_server (ho_os h') slots) s"
      "bs_held (the_store U) (sr_os s) k = Some c" for s k c
    using store_from_start[OF ok inv that(1)] that(2) by (simp add: held_sound_def)
  show ?thesis using w(1) assms(10) 1 2 3 by blast
qed

theorem command_serves_soundly_witness:
  "\<exists>cfg D h' (U :: (unit, demo_phase, nat) installed). server_command demo_rand [] demo_hkdf demo_uuid demo_spawn demo_floats (noise_channel demo_noise)
       (Inr ''/h'') public_args public_env demo_host = (Goes (Serves cfg (Some 8) D), h') \<and> D = su_deps U \<and>
     (\<forall>s. srv_reach U (new_server (ho_os h') (Some 8)) s \<longrightarrow> int (at_work s) \<le> 8)"
proof -
  obtain cfg D h' where run: "server_command demo_rand [] demo_hkdf demo_uuid demo_spawn demo_floats (noise_channel demo_noise)
       (Inr ''/h'') public_args public_env demo_host = (Goes (Serves cfg (Some 8) D), h')"
    using public_server_runs by blast
  let ?f = "(server_defaults (Inr ''/h''))\<lparr> sf_allowPublic := True, sf_addr := ''10.0.0.1:1'' \<rparr>"
  let ?U = "installation ?f (sc_PSK cfg) (\<lambda>_. []) demo_noise demo_uuid demo_spawn demo_floats (\<lambda>_. - 1)"
  have f: "sf_dataDir ?f = ''/h/.claude-share''" "sf_maxSessions ?f = 8" by code_simp+
  have at: "osat (ho_os demo_host) q = None" if "q \<noteq> []" for q
    using that by (cases q) (simp_all add: osat_def demo_host_def demo_os_def)
  have "IsAbs (os_cwd (ho_os demo_host)) \<and> wf_node (os_tree (ho_os demo_host)) \<and> osat (ho_os demo_host) [] = Some IDir" by code_simp
  then have wf: "os_wf (ho_os demo_host)" by (simp add: os_wf_def demo_host_def demo_os_def)
  have dd: "IsAbs ''/h/.claude-share''" by code_simp
  have "linkless (os_tree (ho_os demo_host))" by code_simp
  then have nl: "no_links (ho_os demo_host) p" for p by (rule linkless_no_links)
  have st: "held_sound b (ho_os demo_host) k" for b k
    using at by (simp add: held_sound_def bs_held_def bs_loc_def)
  have pl: "inj demo_uuid" "\<forall>n. plain_name (demo_uuid n)" "spawns_running demo_spawn"
    using demo_uuid_inj demo_uuid_plain by (simp_all add: spawns_running_def demo_spawn_def)
  note sound = command_serves_soundly [OF run public_args_parsed wf _ nl _ pl refl]
  have "D = su_deps ?U" "\<forall>s. srv_reach ?U (new_server (ho_os h') (Some 8)) s \<longrightarrow> int (at_work s) \<le> 8"
    using sound dd st f by simp_all
  then show ?thesis using run by blast
qed

end
