(* ===== verification/Spec2Isabelle.thy ===== *)
theory Spec2Isabelle
  imports SessionStart ServedCommand
begin

text \<open>
  \<^bold>\<open>A verification development for claude-share.\<close>

  \<^bold>\<open>The program.\<close> \<^verbatim>\<open>claude-share\<close> lets a client on an internal network use a coding agent
  that runs on a server. The client sends the manifest of its project and the contents that the
  server lacks; the server writes them to a workspace of its own, starts the agent there, and
  passes prompts to it. While the agent works its events are shown to the client; at the end of
  a turn the server compares the workspace with what it was, and sends each changed file to the
  client, which applies it to the project. Everything goes over a WebSocket through a channel
  that is secured with a key derived from a shared token.

  \<^bold>\<open>How Go code is written here.\<close> A function that changes a state and returns a value or an
  error is a program \<open>'s \<Rightarrow> (error + 'a) \<times> 's\<close> (\<open>Prelude\<close>); \<open>bindE\<close> is the check
  \<^verbatim>\<open>if err != nil\<close> after a call, \<open>deferE\<close> and \<open>onErrE\<close> are \<^verbatim>\<open>defer\<close> and the
  cleaning up before an early return. A struct is a record, an interface of \<^verbatim>\<open>ports.go\<close> is
  a record of programs, its implementation a value of that record. What runs at once with
  something else is an inductive step relation. Strings and byte slices are lists of bytes.

  \<^bold>\<open>The theories\<close>, in the order in which they build on each other:

  \<^item> \<open>Prelude\<close>, \<open>Text\<close>: programs and their Hoare rules, big-endian integers, splitting and
    joining; \<^verbatim>\<open>strings.TrimSpace\<close>.
  \<^item> \<open>Paths\<close>: \<^verbatim>\<open>path/filepath\<close> and \<^verbatim>\<open>SafeJoin\<close> of \<^verbatim>\<open>internal/fsutil/fsutil.go\<close>.
    \<open>Domain\<close>: \<^verbatim>\<open>internal/core/domain/domain.go\<close>. \<open>Os\<close>, \<open>OsLaws\<close>: the calls of the
    package \<^verbatim>\<open>os\<close> over an explicit file tree, any of which may fail; their laws.
    \<open>AtomicWrite\<close>: the idiom of writing a temporary file and renaming it. \<open>Hashing\<close>:
    \<^verbatim>\<open>HashContent\<close>, with SHA-256 written out. \<open>Fsutil\<close>: \<^verbatim>\<open>WalkManifest\<close> and
    \<^verbatim>\<open>Diff\<close>.
  \<^item> \<open>BlobStore\<close>: the port of the store, as a locale. \<open>Fsstore\<close>: \<^verbatim>\<open>blobstore.go\<close> and
    \<^verbatim>\<open>workspace.go\<close> of \<^verbatim>\<open>internal/adapters/workspace/fsstore\<close>. \<open>Localfs\<close>:
    \<^verbatim>\<open>internal/adapters/localfs/localfs.go\<close>, the client's project. \<open>Links\<close>: paths and
    symbolic links.
  \<^item> \<open>Json\<close>, \<open>JsonText\<close>, \<open>JsonDecode\<close>: the part of \<^verbatim>\<open>encoding/json\<close> that the protocol
    uses, down to the bytes. \<open>Protocol\<close>: \<^verbatim>\<open>internal/protocol/protocol.go\<close>.
  \<^item> \<open>Codec\<close>, \<open>Notifier\<close>, \<open>ClientConn\<close>: \<^verbatim>\<open>codec.go\<close>, \<^verbatim>\<open>notifier.go\<close> and \<^verbatim>\<open>client.go\<close>
    of \<^verbatim>\<open>internal/adapters/transport/ws\<close>, and \<^verbatim>\<open>wsTransport\<close> of \<^verbatim>\<open>cmd/client/main.go\<close>.
    \<open>Noise\<close>: \<^verbatim>\<open>internal/adapters/crypto/noise/noise.go\<close>. \<open>Connect\<close>: \<^verbatim>\<open>Dial\<close> and the
    handshake of the server. \<open>Server\<close>: \<^verbatim>\<open>server.go\<close>.
  \<^item> \<open>Ports\<close>: the other ports of \<^verbatim>\<open>internal/core/ports/ports.go\<close>. \<open>Session\<close>: the service of
    \<^verbatim>\<open>internal/core/app/session.go\<close>, with the step relations \<open>bstep\<close> of what runs
    beside the dispatcher (the event pump, the prompts, the agent) and \<open>sstep\<close>, with the calls of the
    dispatcher. \<open>SessionRuns\<close>, \<open>SessionLaws\<close>: its runs; what it asks the client for.
  \<^item> \<open>ClaudeCli\<close>: \<^verbatim>\<open>internal/adapters/agent/claudecli/claudecli.go\<close>.
  \<^item> \<open>ClientApp\<close>, \<open>ClientLaws\<close>: \<^verbatim>\<open>internal/core/clientapp/clientapp.go\<close>, with the step
    relation \<open>cstep\<close> of its prompt loop and its reader. \<open>Terminal\<close>:
    \<^verbatim>\<open>internal/adapters/terminal/terminal.go\<close>.
  \<^item> \<open>Passphrase\<close>, \<open>Banner\<close>, \<open>Startup\<close>: \<^verbatim>\<open>passphrase.go\<close>, the banner of
    \<^verbatim>\<open>cmd/server/main.go\<close>, the version.
  \<^item> \<open>Wiring\<close>, \<open>ServerMain\<close>, \<open>ClientMain\<close>: the two commands put the parts together. The world of
    a server connection has the file system, the connection and the agent's process; that of the
    client has its file system, the connection and the console.
  \<^item> \<open>WireContract\<close>, \<open>EndToEnd\<close>, \<open>SessionStart\<close>, \<open>Isolation\<close>: what the parts do together.
  \<^item> \<open>Serving\<close>: the server at work, \<^verbatim>\<open>ListenAndServe\<close> and the handlers of \<^verbatim>\<open>server.go\<close> that
    run at once, up to the end of the process. \<open>handler_step\<close> is a step of the handler of a
    connection: its dispatcher takes a message, or it goes through \<^verbatim>\<open>Close\<close>, which takes the agent and
    the workspace, closes the agent's input, waits for its process and removes the workspace.
    \<open>beside_step\<close> is a step of the pump, the prompts or their error reports. \<open>srv_step\<close> is a step of
    the server: a connection arrives, is accepted or rejected; a handler or what is beside it
    moves; an agent's process changes the files, in any way; the signal; the end of \<^verbatim>\<open>main\<close>. Its
    label says who moves. All connections see one file system. \<open>ServingOwn\<close>: what a step of a
    connection may change. \<open>ServingRuns\<close>: what holds in all runs.
  \<^item> \<open>Flags\<close>: \<^verbatim>\<open>flag.Parse\<close> with \<^verbatim>\<open>ParseBool\<close> and \<^verbatim>\<open>ParseInt\<close>, of the standard library.
    \<open>CommandLine\<close>: the flags of the two commands, and the commands from their arguments on.
    \<open>ServedCommand\<close>: from the arguments to every run of the server.

  \<^bold>\<open>The interfaces.\<close> Four locales hold what one component relies on in another, and the lemmas
  that follow from it alone: \<open>blob_store\<close> (the store, interpreted on \<open>fs_port\<close>),
  \<open>client_notifier\<close> (what the client reads after a notification, interpreted on the WebSocket
  notifier and, over the server's world, again), \<open>message_source\<close> (the reader of a connection
  and the ports that the dispatcher calls, interpreted on the wired server), \<open>world_keeper\<close> (the
  ports of the client application, interpreted on the wired client). The secure channel is the
  relation \<open>secure_channel\<close> between two endpoints; \<open>Noise\<close> proves it from the laws of the
  library.

  \<^bold>\<open>What is shown.\<close>

  \<^item> \<^emph>\<open>The whole.\<close> A session starts from the client's project: the messages that the client sends
    leave a workspace whose snapshot is the client's manifest (\<open>session_starts_from_project\<close>).
    A turn that finishes on the server takes the client's project to what the workspace is
    (\<open>turn_reaches_client\<close>). A server cannot make the client write outside the shared directory
    (\<open>client_contained\<close>), as long as no symbolic link is in it; with one it can
    (\<open>link_leads_outside\<close>).
  \<^item> \<^emph>\<open>Many sessions.\<close> With all connections, pumps, prompts and agents interleaved: a session that does
    not move is left as it is, with those of its files that the agents spare
    (\<open>sessions_undisturbed\<close>); a sound file of the store stays sound and is not lost while the agents
    spare it (\<open>shared_store_sound\<close>); a handler comes to its end, with the agent waited for and the
    workspace removed, or waits for good for an agent that does not exit (\<open>handler_ends\<close>); the limit
    is kept, in every run of what a command line starts (\<open>command_serves_soundly\<close>). One session can
    end the process for all (\<open>one_session_stops_all\<close>).
  \<^item> \<^emph>\<open>The command line.\<close> Every configuration can be asked for (\<open>flags_roundtrip\<close>); a public address
    has to be (\<open>public_address_asked\<close>); the first argument that is no flag ends the flags
    (\<open>word_ends_flags\<close>).
  \<^item> \<^emph>\<open>Files.\<close> A manifest lists exactly the visible files; a difference has one change for each path that
    differs, and applying it in order gives the new files; the writes of the store, the workspace
    and the project on every branch, with each call failing.
  \<^item> \<^emph>\<open>The wire.\<close> Payloads, envelopes and records are decoded to what was encoded; contents of
    several streams may be interleaved; a reader keeps its table of streams well formed on any
    input; what a notification or an upload writes is what the other end reads.
  \<^item> \<^emph>\<open>The session.\<close> Turns are accounted for; a session that is not closed does not crash; when a
    prompt returns, and when it never does. The same for the client's loop.
  \<^item> \<^emph>\<open>Secrets.\<close> Two parties with a common token get channels in step; a party with another key gets
    nothing; a server starts only with a secret and a checked address; passphrases are counted.
  \<^item> \<^emph>\<open>The agent.\<close> Prompts are one line each; every line of output becomes at most one event of a
    known kind; the error buffer is the end of what was written.

  Several of these state defects: a project of 630 files is too large for the first message, an
  event that cannot be sent leaves a prompt waiting for ever, closing during a turn can crash the
  server for all its sessions, closing waits without a limit for an agent that does not exit, the
  check of the listen address accepts every host name and every address with a zone, a path through
  a symbolic link leads out of the shared directory, a file that replaces a directory
  cannot be applied (\<open>directory_replaced_by_file_fails\<close>).

  \<^bold>\<open>Bounds and fuel.\<close> Lengths of records and the sizes in their headers are 16, 32 and 64 bit words;
  stream ids wrap after \<open>2 ^ 64 - 1\<close>. The JSON scanner stops at a nesting of 10000, as Go's does; its
  fuel is the length of the text, which every step shortens. The loop of \<^verbatim>\<open>dispatch\<close> is a step of
  the handler for each message; a handler makes no more steps than frames arrive, since reading
  consumes one, and five for its end (\<open>handler_ends\<close>). \<open>walk\<close> counts the links that it follows. Other loops are structural or consume their input. Sizes of files and counts are
  unbounded integers: they are far from \<open>2 ^ 63\<close>.

  \<^bold>\<open>What is not modelled.\<close> Third-party code is a parameter: the Noise library and HKDF (laws
  \<open>noise_laws\<close>, \<open>hkdf_laws\<close>), the WebSocket (frames that arrive and are written, with failures), the
  matcher for ignore files, UUIDs, \<^verbatim>\<open>crypto/rand\<close>, the text of a \<^verbatim>\<open>float64\<close> (\<open>float_laws\<close>: what
  is printed is parsed), \<^verbatim>\<open>websocket.CloseStatus\<close>. The operating system is the file tree, and for each session one
  process that reads its input and, when that is closed, exits or does not.
  A symbolic link is an entry of the tree that is neither a file nor a directory, and no call of the model
  follows it, while the calls of the system do. So the theorems on where files are written are about
  the runs in which no link is on the way: for a client, that its directory has none is a hypothesis,
  and that it makes none is proved; for a server, that the data directory has none and the agents make
  none are hypotheses. \<open>Links\<close> says what happens otherwise.
  The program does not confine an agent: its process is started in the workspace and may change any
  file at any time, so what depends on agents sparing some files says so. That an agent's writes and
  the steps of the program are single steps is part of the model, as it is that reading from and
  writing to a connection returns. Of the log the rejected handshakes
  and the ends of sessions are kept. Left out because they compute nothing: the rest of the logging,
  the HTTP upgrade, timestamps and the unused types \<^verbatim>\<open>Session\<close>, \<^verbatim>\<open>SessionState\<close> and
  \<^verbatim>\<open>Authenticator\<close>. Signals are steps of the environment; a relative data directory is outside
  the theorems on files, which would need the working directory. In the step relations a call of a
  collaborator is one step; what the agent writes to the workspace meanwhile is the environment's
  step. Data races within one such call are outside the model.
\<close>

end
